(* ===== verification/Prelude.thy ===== *)
theory Prelude
  imports Main "HOL-Library.Word"
begin

text \<open>
  Shared vocabulary of the development.

  \<^item> machine types: \<open>u8\<close> \dots \<open>u64\<close> are the \<open>uintN_t\<close> of the sources; the signed
    \<open>intN_t\<close> are the same bit patterns, read with \<open>sint\<close> where the sign matters.
    \<open>size_t\<close> values that count bytes held in memory are \<open>nat\<close>;
  \<^item> \<open>outcome\<close>: what a C++ member function can do: return a value and a new object state, throw
    an exception (the state it leaves behind is visible to the handler), or crash (a failed
    \<open>SYLAR_ASSERT\<close>, a null dereference or another access the language leaves undefined);
  \<^item> \<open>overwrite\<close>: the effect of \<open>memcpy\<close> into the middle of a block;
  \<^item> generic lemmas on lists, \<open>concat\<close> and words that the components share.
\<close>

named_theorems outcome_simps \<open>evaluation rules of the outcome combinators\<close>

subsection \<open>Machine types\<close>

type_synonym u8 = "8 word"
type_synonym u16 = "16 word"
type_synonym u32 = "32 word"
type_synonym u64 = "64 word"

subsection \<open>Outcomes of member functions\<close>

datatype exn = OutOfRange string | LogicError string | InvalidArgument string | BadCast string | YamlError string

datatype fault = NullDeref | UseAfterFree | AssertFail string | OutOfBounds | DivByZero | IntOverflow | Uninitialised

datatype ('a, 's) outcome = Ok 'a 's | Throw exn 's | Crash fault

definition ret :: "'a \<Rightarrow> 's \<Rightarrow> ('a, 's) outcome" where
  "ret v s = Ok v s"

definition andThen :: "('s \<Rightarrow> ('a, 's) outcome) \<Rightarrow> ('a \<Rightarrow> 's \<Rightarrow> ('b, 's) outcome) \<Rightarrow>
    's \<Rightarrow> ('b, 's) outcome" where
  "andThen m f s = (case m s of Ok v s' \<Rightarrow> f v s' | Throw e s' \<Rightarrow> Throw e s' | Crash x \<Rightarrow> Crash x)"

lemma andThen_Ok [simp, outcome_simps]: "m s = Ok v s' \<Longrightarrow> andThen m f s = f v s'"
  by (simp add: andThen_def)

lemma andThen_Throw [simp, outcome_simps]: "m s = Throw e s' \<Longrightarrow> andThen m f s = Throw e s'"
  by (simp add: andThen_def)

lemma andThen_Crash [simp, outcome_simps]: "m s = Crash x \<Longrightarrow> andThen m f s = Crash x"
  by (simp add: andThen_def)

lemma ret_apply [simp, outcome_simps]: "ret v s = Ok v s"
  by (simp add: ret_def)

lemma andThen_eq_Ok:
  "andThen m f s = Ok v s'' \<longleftrightarrow> (\<exists>u s'. m s = Ok u s' \<and> f u s' = Ok v s'')"
  by (simp add: andThen_def split: outcome.splits)

definition is_Ok :: "('a, 's) outcome \<Rightarrow> bool" where
  "is_Ok r = (case r of Ok _ _ \<Rightarrow> True | _ \<Rightarrow> False)"

lemma is_Ok_simps [simp, outcome_simps]:
  "is_Ok (Ok v s)" "\<not> is_Ok (Throw e s)" "\<not> is_Ok (Crash x)"
  by (simp_all add: is_Ok_def)

subsection \<open>Results that may be errors\<close>

definition bindE :: "'e + 'a \<Rightarrow> ('a \<Rightarrow> 'e + 'b) \<Rightarrow> 'e + 'b" where
  "bindE r f = (case r of Inl e \<Rightarrow> Inl e | Inr x \<Rightarrow> f x)"

lemma bindE_simps [simp]: "bindE (Inl e) f = Inl e" "bindE (Inr x) f = f x"
  by (simp_all add: bindE_def)

fun mapE :: "('a \<Rightarrow> 'e + 'b) \<Rightarrow> 'a list \<Rightarrow> 'e + 'b list" where
  "mapE f [] = Inr []"
| "mapE f (x # xs) = bindE (f x) (\<lambda>y. bindE (mapE f xs) (\<lambda>ys. Inr (y # ys)))"

lemma mapE_Inr: "(\<And>x. x \<in> set xs \<Longrightarrow> f x = Inr (g x)) \<Longrightarrow> mapE f xs = Inr (map g xs)"
  by (induction xs) simp_all

lemma mapE_map: "mapE f (map g xs) = mapE (\<lambda>x. f (g x)) xs"
  by (induction xs) simp_all

lemma bindE_assoc: "bindE (bindE r f) g = bindE r (\<lambda>x. bindE (f x) g)"
  by (cases r) simp_all

subsection \<open>Blocks of memory\<close>

text \<open>\<open>overwrite xs n ys\<close> is the block \<open>xs\<close> after \<open>memcpy(xs + n, ys, |ys|)\<close>; the callers
  guarantee that the copied range lies inside the block, or just past what is in use.\<close>

definition overwrite :: "'a list \<Rightarrow> nat \<Rightarrow> 'a list \<Rightarrow> 'a list" where
  "overwrite xs n ys = take n xs @ ys @ drop (n + length ys) xs"

lemma length_overwrite [simp]:
  "n \<le> length xs \<Longrightarrow> length (overwrite xs n ys) = max (length xs) (n + length ys)"
  by (auto simp: overwrite_def)

lemma overwrite_Nil [simp]: "overwrite xs n [] = xs"
  by (simp add: overwrite_def)

lemma overwrite_read:
  "n \<le> length xs \<Longrightarrow> take (length ys) (drop n (overwrite xs n ys)) = ys"
  by (simp add: overwrite_def)

lemma overwrite_append_left:
  "n + length ys \<le> length xs \<Longrightarrow> overwrite (xs @ zs) n ys = overwrite xs n ys @ zs"
  by (simp add: overwrite_def)

lemma overwrite_append_right:
  "length xs \<le> n \<Longrightarrow> overwrite (xs @ zs) n ys = xs @ overwrite zs (n - length xs) ys"
  by (simp add: overwrite_def)

lemma overwrite_append:
  "n \<le> length xs \<Longrightarrow>
   overwrite (overwrite xs n ys) (n + length ys) zs = overwrite xs n (ys @ zs)"
  by (simp add: overwrite_def ac_simps)

lemma take_overwrite:
  assumes "n \<le> k" and "k \<le> length xs" and "n + length ys \<le> length xs"
  shows "take (max k (n + length ys)) (overwrite xs n ys) = overwrite (take k xs) n ys"
proof (cases "k \<le> n + length ys")
  case True
  with assms show ?thesis by (cases ys) (auto simp: overwrite_def max_def min_def)
next
  case False
  with assms show ?thesis
    by (simp add: overwrite_def max_def min_def drop_take)
qed

lemma take_take_drop_append:
  "take m (drop n xs) @ take k (drop (n + m) xs) = take (m + k) (drop n xs)"
  by (simp add: take_add add.commute [of n m])

subsection \<open>Lists of equal blocks\<close>

lemma length_concat_uniform:
  "(\<forall>b \<in> set bs. length b = w) \<Longrightarrow> length (concat bs) = w * length bs"
  by (induction bs) auto

lemma concat_update_uniform:
  assumes "\<forall>b \<in> set bs. length b = w" and "c < length bs" and "n + length ys \<le> w"
  shows "concat (bs[c := overwrite (bs ! c) n ys]) = overwrite (concat bs) (w * c + n) ys"
  using assms
proof (induction bs arbitrary: c)
  case Nil
  then show ?case by simp
next
  case (Cons b bs)
  show ?case
  proof (cases c)
    case 0
    with Cons.prems show ?thesis by (simp add: overwrite_append_left)
  next
    case (Suc c')
    with Cons.prems have "concat (bs[c' := overwrite (bs ! c') n ys]) = overwrite (concat bs) (w * c' + n) ys"
      by (intro Cons.IH) auto
    with Suc Cons.prems show ?thesis by (simp add: overwrite_append_right)
  qed
qed

lemma take_drop_concat_uniform:
  assumes "\<forall>b \<in> set bs. length b = w" and "c < length bs" and "n + k \<le> w"
  shows "take k (drop (w * c + n) (concat bs)) = take k (drop n (bs ! c))"
  using assms
proof (induction bs arbitrary: c)
  case Nil
  then show ?case by simp
next
  case (Cons b bs)
  show ?case
  proof (cases c)
    case 0
    with Cons.prems show ?thesis by simp
  next
    case (Suc c')
    with Cons.prems have "take k (drop (w * c' + n) (concat bs)) = take k (drop n (bs ! c'))"
      by (intro Cons.IH) auto
    with Suc Cons.prems show ?thesis by simp
  qed
qed

lemma div_mod_block:
  "0 < (w::nat) \<Longrightarrow> w * (p div w) + p mod w = p"
  by simp

lemma div_less_blocks: "0 < (w::nat) \<Longrightarrow> p < w * n \<Longrightarrow> p div w < n"
  by (metis div_less_iff_less_mult mult.commute)

lemma map_of_filter_key: "map_of (filter (\<lambda>p. fst p \<noteq> k) ps) k' = (if k = k' then None else map_of ps k')"
  by (induction ps) auto

lemma find_SomeD: "find P xs = Some x \<Longrightarrow> x \<in> set xs \<and> P x"
  by (induction xs) (auto split: if_splits)

lemma sum_list_map_update: "i < length us \<Longrightarrow> sum_list (map f (us[i := u])) + (f (us ! i) :: nat) = sum_list (map f us) + f u"
  by (induction us arbitrary: i) (auto split: nat.splits)

text \<open>On a finite type a left inverse is a right inverse.\<close>

lemma inverse_finite:
  fixes f g :: "'a::finite \<Rightarrow> 'a"
  assumes "\<And>x. g (f x) = x"
  shows "f (g y) = y"
proof -
  have "inj f" by (rule inj_on_inverseI) (rule assms)
  then have "surj f" by (rule finite_UNIV_inj_surj [OF finite])
  then show ?thesis using assms by (metis surjD)
qed

end
