(* ===== verification/Endian.thy ===== *)
theory Endian
  imports Prelude
begin

text \<open>
  \<open>include/sylar/endian.hh\<close>: byte order of the host, \<open>byteswap\<close> and the conversions between a
  machine word and the bytes it occupies in memory.

  The macro \<open>SYLAR_BYTE_ORDER\<close>, which the compiler fixes for the host, is an argument of the
  definitions (\<open>host\<close>): every theorem holds on little- and on big-endian machines.
\<close>

unbundle bit_operations_syntax

datatype endian = SYLAR_LITTLE_ENDIAN | SYLAR_BIG_ENDIAN

subsection \<open>Words and their bytes\<close>

text \<open>\<open>bytes_le n w\<close>: the \<open>n\<close> low bytes of \<open>w\<close>, least significant first; \<open>of_bytes_le\<close> reads
  them back.\<close>

definition bytes_le :: "nat \<Rightarrow> 'a::len word \<Rightarrow> u8 list" where
  "bytes_le n w = map (\<lambda>i. ucast (drop_bit (8 * i) w)) [0..<n]"

fun of_bytes_le :: "u8 list \<Rightarrow> 'a::len word" where
  "of_bytes_le [] = 0"
| "of_bytes_le (b # bs) = ucast b OR push_bit 8 (of_bytes_le bs)"

text \<open>The representation of a word in the memory of the host, as \<open>memcpy(buf, &value, sizeof
  value)\<close> copies it, and the inverse, \<open>memcpy(&value, buf, sizeof value)\<close>.\<close>

definition mem_bytes :: "endian \<Rightarrow> nat \<Rightarrow> 'a::len word \<Rightarrow> u8 list" where
  "mem_bytes host n w =
     (case host of SYLAR_LITTLE_ENDIAN \<Rightarrow> bytes_le n w | SYLAR_BIG_ENDIAN \<Rightarrow> rev (bytes_le n w))"

definition of_mem_bytes :: "endian \<Rightarrow> u8 list \<Rightarrow> 'a::len word" where
  "of_mem_bytes host bs =
     (case host of SYLAR_LITTLE_ENDIAN \<Rightarrow> of_bytes_le bs | SYLAR_BIG_ENDIAN \<Rightarrow> of_bytes_le (rev bs))"

text \<open>\<open>byteswap\<close> on 8-, 4- and 2-byte types (\<open>bswap_64\<close>, \<open>bswap_32\<close>, \<open>bswap_16\<close>): the bytes in
  the opposite order.\<close>

definition byteswap64 :: "u64 \<Rightarrow> u64" where
  "byteswap64 v = of_bytes_le (rev (bytes_le 8 v))"

definition byteswap32 :: "u32 \<Rightarrow> u32" where
  "byteswap32 v = of_bytes_le (rev (bytes_le 4 v))"

definition byteswap16 :: "u16 \<Rightarrow> u16" where
  "byteswap16 v = of_bytes_le (rev (bytes_le 2 v))"

definition byteswapOnLittleEndian16 :: "endian \<Rightarrow> u16 \<Rightarrow> u16" where
  "byteswapOnLittleEndian16 host t = (if host = SYLAR_BIG_ENDIAN then t else byteswap16 t)"

definition byteswapOnLittleEndian32 :: "endian \<Rightarrow> u32 \<Rightarrow> u32" where
  "byteswapOnLittleEndian32 host t = (if host = SYLAR_BIG_ENDIAN then t else byteswap32 t)"

subsection \<open>Round trips\<close>

lemma length_bytes_le [simp]: "length (bytes_le n w) = n"
  by (simp add: bytes_le_def)

lemma length_mem_bytes [simp]: "length (mem_bytes host n w) = n"
  by (simp add: mem_bytes_def split: endian.split)

lemma mem_bytes_eq_Nil [simp]: "mem_bytes host n w = [] \<longleftrightarrow> n = 0"
  by (simp flip: length_0_conv)

lemma bytes_le_Suc: "bytes_le (Suc n) w = ucast w # bytes_le n (drop_bit 8 w)"
  by (simp add: bytes_le_def upt_conv_Cons map_Suc_upt [symmetric] add.commute del: upt_Suc)

lemma of_bytes_le_bytes_le:
  "of_bytes_le (bytes_le n w) = take_bit (8 * n) (w :: 'a::len word)"
proof (induction n arbitrary: w)
  case 0
  then show ?case by (simp add: bytes_le_def)
next
  case (Suc n)
  show ?case
    by (rule bit_word_eqI)
       (auto simp: bytes_le_Suc Suc bit_simps)
qed

lemma of_bytes_le_id [simp]:
  "LENGTH('a) \<le> 8 * n \<Longrightarrow> of_bytes_le (bytes_le n w) = (w :: 'a::len word)"
  by (simp add: of_bytes_le_bytes_le take_bit_word_eq_self)

lemma bit_of_bytes_le:
  "bit (of_bytes_le bs :: 'a::len word) k \<longleftrightarrow>
     k < LENGTH('a) \<and> k div 8 < length bs \<and> bit (bs ! (k div 8)) (k mod 8)"
proof (induction bs arbitrary: k)
  case Nil
  then show ?case by simp
next
  case (Cons b bs)
  show ?case
  proof (cases "k < 8")
    case True
    then show ?thesis by (auto simp: bit_simps)
  next
    case False
    then have "k div 8 = Suc ((k - 8) div 8)" and "k mod 8 = (k - 8) mod 8"
      by (auto simp: le_div_geq le_mod_geq)
    moreover have "\<not> bit b k" using False bit_imp_le_length [of b k] by auto
    ultimately show ?thesis using False Cons [of "k - 8"] by (auto simp: bit_simps)
  qed
qed

lemma bytes_le_of_bytes_le:
  assumes "8 * length bs \<le> LENGTH('a)"
  shows "bytes_le (length bs) (of_bytes_le bs :: 'a::len word) = bs"
proof (rule nth_equalityI)
  fix i assume i: "i < length (bytes_le (length bs) (of_bytes_le bs :: 'a word))"
  show "bytes_le (length bs) (of_bytes_le bs :: 'a word) ! i = bs ! i"
    by (rule bit_word_eqI) (use i assms in \<open>auto simp: bytes_le_def bit_simps bit_of_bytes_le\<close>)
qed simp

lemma of_mem_bytes_mem_bytes [simp]:
  "LENGTH('a) \<le> 8 * n \<Longrightarrow> of_mem_bytes host (mem_bytes host n w) = (w :: 'a::len word)"
  by (simp add: of_mem_bytes_def mem_bytes_def split: endian.split)

lemma bytes_le_rev:
  "8 * n = LENGTH('a) \<Longrightarrow>
   bytes_le n (of_bytes_le (rev (bytes_le n w)) :: 'a::len word) = rev (bytes_le n (w :: 'a word))"
  using bytes_le_of_bytes_le [of "rev (bytes_le n w)", where 'a = 'a] by simp

lemma bytes_le_byteswap:
  "bytes_le 8 (byteswap64 x) = rev (bytes_le 8 x)"
  "bytes_le 4 (byteswap32 y) = rev (bytes_le 4 y)"
  "bytes_le 2 (byteswap16 z) = rev (bytes_le 2 z)"
  by (simp_all add: byteswap64_def byteswap32_def byteswap16_def bytes_le_rev)

lemma byteswap_involutive [simp]:
  "byteswap64 (byteswap64 x) = x" "byteswap32 (byteswap32 y) = y" "byteswap16 (byteswap16 z) = z"
proof -
  show "byteswap64 (byteswap64 x) = x"
    by (subst byteswap64_def) (simp add: bytes_le_byteswap)
  show "byteswap32 (byteswap32 y) = y"
    by (subst byteswap32_def) (simp add: bytes_le_byteswap)
  show "byteswap16 (byteswap16 z) = z"
    by (subst byteswap16_def) (simp add: bytes_le_byteswap)
qed

text \<open>A value swapped when the wanted order differs from the host's has, in the host's memory,
  its bytes in the wanted order.\<close>

lemma mem_bytes_swapped:
  "mem_bytes host 8 (if e \<noteq> host then byteswap64 x else x) = mem_bytes e 8 x"
  "mem_bytes host 4 (if e \<noteq> host then byteswap32 y else y) = mem_bytes e 4 y"
  "mem_bytes host 2 (if e \<noteq> host then byteswap16 z else z) = mem_bytes e 2 z"
  by (auto simp: mem_bytes_def bytes_le_byteswap split: endian.splits)

lemma byteswapOnLittleEndian_involutive [simp]:
  "byteswapOnLittleEndian16 host (byteswapOnLittleEndian16 host z) = z"
  "byteswapOnLittleEndian32 host (byteswapOnLittleEndian32 host y) = y"
  by (simp_all add: byteswapOnLittleEndian16_def byteswapOnLittleEndian32_def)

end
