(* ===== verification/ByteStore.thy ===== *)
theory ByteStore
  imports Endian
begin

text \<open>
  The interface between \<open>ByteArray\<close> and the typed readers and writers built on it.

  \<open>byte_store\<close> is what \<open>write\<close>, \<open>read\<close> and \<open>setPosition\<close> promise in terms of a flat byte list and a
  position in it; \<open>codec\<close> adds one typed writer and reader and the encoding they share. The round
  trips (one value, and any sequence of values) are proved once, from these laws only.
\<close>

fun put_all :: "('v \<Rightarrow> 's \<Rightarrow> (unit, 's) outcome) \<Rightarrow> 'v list \<Rightarrow> 's \<Rightarrow> (unit, 's) outcome" where
  "put_all put [] s = Ok () s"
| "put_all put (v # vs) s = andThen (put v) (\<lambda>_. put_all put vs) s"

fun get_all :: "('s \<Rightarrow> ('v, 's) outcome) \<Rightarrow> nat \<Rightarrow> 's \<Rightarrow> ('v list, 's) outcome" where
  "get_all get 0 s = Ok [] s"
| "get_all get (Suc n) s = andThen get (\<lambda>v. andThen (get_all get n) (\<lambda>vs. ret (v # vs))) s"

locale byte_store =
  fixes wr :: "u8 list \<Rightarrow> 's \<Rightarrow> (unit, 's) outcome"
    and rd :: "nat \<Rightarrow> 's \<Rightarrow> (u8 list, 's) outcome"
    and sk :: "nat \<Rightarrow> 's \<Rightarrow> (unit, 's) outcome"
    and inv :: "'s \<Rightarrow> bool"
    and data :: "'s \<Rightarrow> u8 list"
    and pos :: "'s \<Rightarrow> nat"
    and order :: "'s \<Rightarrow> endian"
  assumes pos_le: "inv s \<Longrightarrow> pos s \<le> length (data s)"
    and wr_ok: "inv s \<Longrightarrow> \<exists>s'. wr bs s = Ok () s' \<and> inv s' \<and> pos s' = pos s + length bs \<and>
                  data s' = overwrite (data s) (pos s) bs \<and> order s' = order s"
    and rd_ok: "inv s \<Longrightarrow> 0 < n \<Longrightarrow> pos s + n \<le> length (data s) \<Longrightarrow>
                  \<exists>s'. rd n s = Ok (take n (drop (pos s) (data s))) s' \<and> inv s' \<and>
                       pos s' = pos s + n \<and> data s' = data s \<and> order s' = order s"
    and rd_short: "inv s \<Longrightarrow> length (data s) < pos s + n \<Longrightarrow> \<exists>e. rd n s = Throw e s"
    and sk_ok: "inv s \<Longrightarrow> p \<le> length (data s) \<Longrightarrow>
                  \<exists>s'. sk p s = Ok () s' \<and> inv s' \<and> pos s' = p \<and> data s' = data s \<and> order s' = order s"
begin

definition stored :: "u8 list \<Rightarrow> 's \<Rightarrow> 's \<Rightarrow> bool" where
  "stored bs s s' \<longleftrightarrow> inv s' \<and> pos s' = pos s + length bs \<and>
     data s' = overwrite (data s) (pos s) bs \<and> order s' = order s"

definition consumed :: "nat \<Rightarrow> 's \<Rightarrow> 's \<Rightarrow> bool" where
  "consumed n s s' \<longleftrightarrow> inv s' \<and> pos s' = pos s + n \<and> data s' = data s \<and> order s' = order s"

definition next_are :: "u8 list \<Rightarrow> 's \<Rightarrow> bool" where
  "next_are bs s \<longleftrightarrow> inv s \<and> take (length bs) (drop (pos s) (data s)) = bs"

lemma wr_stored: "inv s \<Longrightarrow> \<exists>s'. wr bs s = Ok () s' \<and> stored bs s s'"
  using wr_ok [of s bs] by (auto simp: stored_def)

lemma stored_refl: "inv s \<Longrightarrow> stored [] s s"
  by (simp add: stored_def)

lemma stored_trans: "inv s \<Longrightarrow> stored as s s' \<Longrightarrow> stored bs s' s'' \<Longrightarrow> stored (as @ bs) s s''"
  using pos_le [of s] by (simp add: stored_def overwrite_append add.assoc)

lemma consumed_refl: "inv s \<Longrightarrow> consumed 0 s s"
  by (simp add: consumed_def)

lemma consumed_trans: "consumed m s s' \<Longrightarrow> consumed n s' s'' \<Longrightarrow> consumed (m + n) s s''"
  by (simp add: consumed_def)

lemma next_are_fits: "next_are bs s \<Longrightarrow> pos s + length bs \<le> length (data s)"
proof -
  assume n: "next_are bs s"
  then have "length (take (length bs) (drop (pos s) (data s))) = length bs" by (simp add: next_are_def)
  moreover have "pos s \<le> length (data s)" using n pos_le by (simp add: next_are_def)
  ultimately show ?thesis by simp
qed

lemma rd_next: "next_are bs s \<Longrightarrow> bs \<noteq> [] \<Longrightarrow> \<exists>s'. rd (length bs) s = Ok bs s' \<and> consumed (length bs) s s'"
  using rd_ok [of s "length bs"] next_are_fits [of bs s] by (auto simp: next_are_def consumed_def)

lemma next_are_append:
  assumes "next_are (as @ bs) s"
  shows "next_are as s" and "consumed (length as) s s' \<Longrightarrow> next_are bs s'"
proof -
  let ?r = "drop (pos s) (data s)"
  from assms have "take (length as + length bs) ?r = as @ bs" by (simp add: next_are_def)
  then have a: "take (length as) ?r = as" and b: "take (length bs) (drop (length as) ?r) = bs"
    by (metis append_eq_conv_conj take_take min.absorb1 le_add1)
       (metis \<open>take (length as + length bs) ?r = as @ bs\<close> add_diff_cancel_left' append_eq_conv_conj drop_take)
  show "next_are as s" using assms a by (simp add: next_are_def)
  show "next_are bs s'" if "consumed (length as) s s'"
    using that b by (simp add: next_are_def consumed_def add.commute)
qed

lemma seek_back:
  assumes "inv s" and "stored bs s s'"
  shows "\<exists>s''. sk (pos s) s' = Ok () s'' \<and> next_are bs s'' \<and> pos s'' = pos s \<and>
           data s'' = data s' \<and> order s'' = order s"
proof -
  have le: "pos s \<le> length (data s)" using assms(1) by (rule pos_le)
  with assms have "pos s \<le> length (data s')" by (simp add: stored_def)
  with assms sk_ok [of s' "pos s"] obtain s'' where
    "sk (pos s) s' = Ok () s''" "inv s''" "pos s'' = pos s" "data s'' = data s'" "order s'' = order s'"
    by (auto simp: stored_def)
  with assms le show ?thesis by (auto simp: next_are_def stored_def overwrite_read)
qed

lemma write_seek_read:
  assumes "inv s" and "bs \<noteq> []"
  shows "\<exists>s1 s2 s3. wr bs s = Ok () s1 \<and> sk (pos s) s1 = Ok () s2 \<and>
     rd (length bs) s2 = Ok bs s3 \<and> pos s3 = pos s1"
proof -
  obtain s1 where s1: "wr bs s = Ok () s1" "stored bs s s1" using wr_stored [OF assms(1)] by blast
  obtain s2 where s2: "sk (pos s) s1 = Ok () s2" "next_are bs s2" "pos s2 = pos s"
    using seek_back [OF assms(1) s1(2)] by blast
  obtain s3 where "rd (length bs) s2 = Ok bs s3" "consumed (length bs) s2 s3"
    using rd_next [OF s2(2) assms(2)] by blast
  with s1 s2 show ?thesis by (auto simp: stored_def consumed_def)
qed

end

locale codec = byte_store wr rd sk inv data pos order
  for wr :: "u8 list \<Rightarrow> 's \<Rightarrow> (unit, 's) outcome" and rd :: "nat \<Rightarrow> 's \<Rightarrow> (u8 list, 's) outcome"
    and sk :: "nat \<Rightarrow> 's \<Rightarrow> (unit, 's) outcome" and inv :: "'s \<Rightarrow> bool"
    and data :: "'s \<Rightarrow> u8 list" and pos :: "'s \<Rightarrow> nat" and order :: "'s \<Rightarrow> endian" +
  fixes put :: "'v \<Rightarrow> 's \<Rightarrow> (unit, 's) outcome"
    and get :: "'s \<Rightarrow> ('v, 's) outcome"
    and enc :: "endian \<Rightarrow> 'v \<Rightarrow> u8 list"
    and ok :: "'v \<Rightarrow> bool"
  assumes put_ok: "inv s \<Longrightarrow> ok v \<Longrightarrow> \<exists>s'. put v s = Ok () s' \<and> stored (enc (order s) v) s s'"
    and get_ok: "next_are (enc (order s) v) s \<Longrightarrow> ok v \<Longrightarrow>
                   \<exists>s'. get s = Ok v s' \<and> consumed (length (enc (order s) v)) s s'"
begin

definition enc_all :: "endian \<Rightarrow> 'v list \<Rightarrow> u8 list" where
  "enc_all e vs = concat (map (enc e) vs)"

lemma put_all_ok:
  "inv s \<Longrightarrow> list_all ok vs \<Longrightarrow> \<exists>s'. put_all put vs s = Ok () s' \<and> stored (enc_all (order s) vs) s s'"
proof (induction vs arbitrary: s)
  case Nil
  then show ?case by (simp add: enc_all_def stored_refl)
next
  case (Cons v vs)
  then obtain s1 where s1: "put v s = Ok () s1" "stored (enc (order s) v) s s1"
    using put_ok [of s v] by auto
  then have "inv s1" "order s1 = order s" by (simp_all add: stored_def)
  with Cons obtain s2 where "put_all put vs s1 = Ok () s2" "stored (enc_all (order s) vs) s1 s2"
    by fastforce
  with s1 Cons.prems(1) show ?case by (auto simp: enc_all_def intro: stored_trans)
qed

lemma get_all_ok:
  "next_are (enc_all (order s) vs) s \<Longrightarrow> list_all ok vs \<Longrightarrow>
   \<exists>s'. get_all get (length vs) s = Ok vs s' \<and> consumed (length (enc_all (order s) vs)) s s'"
proof (induction vs arbitrary: s)
  case Nil
  then show ?case by (simp add: enc_all_def next_are_def consumed_refl)
next
  case (Cons v vs)
  from Cons.prems have n: "next_are (enc (order s) v @ enc_all (order s) vs) s"
    by (simp add: enc_all_def)
  obtain s1 where s1: "get s = Ok v s1" "consumed (length (enc (order s) v)) s s1"
    using get_ok [OF next_are_append(1) [OF n]] Cons.prems by auto
  then have "order s1 = order s" by (simp add: consumed_def)
  with Cons.IH [of s1] Cons.prems next_are_append(2) [OF n s1(2)] obtain s2 where
    "get_all get (length vs) s1 = Ok vs s2" "consumed (length (enc_all (order s) vs)) s1 s2"
    by auto
  with s1 show ?case by (auto simp: enc_all_def intro: consumed_trans)
qed

lemma sequence_roundtrip:
  assumes "inv s" and "list_all ok vs"
  shows "\<exists>s1 s2 s3. put_all put vs s = Ok () s1 \<and> sk (pos s) s1 = Ok () s2 \<and>
     get_all get (length vs) s2 = Ok vs s3 \<and> pos s3 = pos s1"
proof -
  obtain s1 where s1: "put_all put vs s = Ok () s1" "stored (enc_all (order s) vs) s s1"
    using put_all_ok [OF assms] by blast
  obtain s2 where s2: "sk (pos s) s1 = Ok () s2" "next_are (enc_all (order s) vs) s2"
    "pos s2 = pos s" "order s2 = order s"
    using seek_back [OF assms(1) s1(2)] by blast
  obtain s3 where "get_all get (length vs) s2 = Ok vs s3"
    "consumed (length (enc_all (order s) vs)) s2 s3"
    using get_all_ok [of s2 vs] s2 assms(2) by auto
  with s1 s2 show ?thesis by (auto simp: stored_def consumed_def)
qed

lemma roundtrip:
  assumes "inv s" and "ok v"
  shows "\<exists>s1 s2 s3. put v s = Ok () s1 \<and> pos s1 = pos s + length (enc (order s) v) \<and>
     sk (pos s) s1 = Ok () s2 \<and> get s2 = Ok v s3 \<and> pos s3 = pos s1"
proof -
  obtain s1 where s1: "put v s = Ok () s1" "stored (enc (order s) v) s s1"
    using put_ok [OF assms] by blast
  obtain s2 where s2: "sk (pos s) s1 = Ok () s2" "next_are (enc (order s) v) s2"
    "pos s2 = pos s" "order s2 = order s"
    using seek_back [OF assms(1) s1(2)] by blast
  obtain s3 where "get s2 = Ok v s3" "consumed (length (enc (order s) v)) s2 s3"
    using get_ok [of s2 v] s2 assms(2) by auto
  with s1 s2 show ?thesis by (auto simp: stored_def consumed_def)
qed

end

end
