(* ===== verification/ByteArray.thy ===== *)
theory ByteArray
  imports ByteStore
begin

text \<open>
  \<open>src/bytearray.cc\<close>, \<open>include/sylar/bytearray.hh\<close>: a byte buffer stored in a chain of fixed-size
  nodes with one read/write position.

  The chain \<open>m_root\<close>, \<open>m_root->next\<close>, \dots is the list \<open>m_nodes\<close>; a \<open>Node*\<close> into the chain is the
  index of the node, the null pointer is \<open>None\<close>. The bytes of a fresh \<open>new char[s]\<close> are
  unspecified: the operations that allocate take them from the argument \<open>junk\<close> (node index, offset),
  about which nothing is assumed. Sizes are \<open>nat\<close>: all of them are bounded by the memory the chain
  occupies. The invariant \<open>ba_inv\<close>, the view \<open>ba_data\<close> of the object as a flat byte list and the
  operations' behaviour on that view are proved here; the typed readers and writers are in the
  theory \<open>ByteCodec\<close>.
\<close>

subsection \<open>State\<close>

record ByteArray =
  m_baseSize :: nat
  m_position :: nat
  m_capacity :: nat
  m_size :: nat
  m_endian :: endian
  m_nodes :: "u8 list list"
  m_cur :: "nat option"

type_synonym junk = "nat \<Rightarrow> nat \<Rightarrow> u8"

definition Node :: "junk \<Rightarrow> nat \<Rightarrow> nat \<Rightarrow> u8 list" where
  "Node junk k s = map (junk k) [0..<s]"

definition ByteArray_new :: "junk \<Rightarrow> nat \<Rightarrow> ByteArray" where
  "ByteArray_new junk base_size =
     \<lparr>m_baseSize = base_size, m_position = 0, m_capacity = base_size, m_size = 0,
      m_endian = SYLAR_BIG_ENDIAN, m_nodes = [Node junk 0 base_size], m_cur = Some 0\<rparr>"

text \<open>\<open>cur->next\<close>, and the node a pointer refers to.\<close>

definition next_node :: "u8 list list \<Rightarrow> nat \<Rightarrow> nat option" where
  "next_node nodes c = (if Suc c < length nodes then Some (Suc c) else None)"

definition deref :: "ByteArray \<Rightarrow> nat option" where
  "deref s = (case m_cur s of None \<Rightarrow> None | Some c \<Rightarrow> if c < length (m_nodes s) then Some c else None)"

subsection \<open>Sizes\<close>

definition getPosition :: "ByteArray \<Rightarrow> nat" where
  "getPosition s = m_position s"

definition getBaseSize :: "ByteArray \<Rightarrow> nat" where
  "getBaseSize s = m_baseSize s"

definition getSize :: "ByteArray \<Rightarrow> nat" where
  "getSize s = m_size s"

definition getSizeForWrite :: "ByteArray \<Rightarrow> nat" where
  "getSizeForWrite s = m_capacity s - m_position s"

definition getSizeForRead :: "ByteArray \<Rightarrow> nat" where
  "getSizeForRead s = (if m_position s > m_size s then 0 else m_size s - m_position s)"

definition getSizeForAllFreeCapacity :: "ByteArray \<Rightarrow> nat" where
  "getSizeForAllFreeCapacity s = m_capacity s - m_size s"

fun count_nodes :: "nat \<Rightarrow> u8 list list \<Rightarrow> nat" where
  "count_nodes count [] = count"
| "count_nodes count (_ # ns) = count_nodes (Suc count) ns"

definition getNodeCount :: "ByteArray \<Rightarrow> nat" where
  "getNodeCount s = count_nodes 0 (m_nodes s)"

definition isLittleEndian :: "ByteArray \<Rightarrow> bool" where
  "isLittleEndian s = (m_endian s = SYLAR_LITTLE_ENDIAN)"

definition setLittleEndian :: "bool \<Rightarrow> ByteArray \<Rightarrow> ByteArray" where
  "setLittleEndian val s =
     s\<lparr>m_endian := (if val then SYLAR_LITTLE_ENDIAN else SYLAR_BIG_ENDIAN)\<rparr>"

definition clear :: "ByteArray \<Rightarrow> ByteArray" where
  "clear s = s\<lparr>m_position := 0, m_size := 0, m_capacity := m_baseSize s,
               m_nodes := take 1 (m_nodes s), m_cur := Some 0\<rparr>"

subsection \<open>Growing the chain\<close>

fun append_nodes :: "junk \<Rightarrow> nat \<Rightarrow> ByteArray \<Rightarrow> ByteArray" where
  "append_nodes junk 0 s = s"
| "append_nodes junk (Suc count) s =
     append_nodes junk count
       (s\<lparr>m_nodes := m_nodes s @ [Node junk (length (m_nodes s)) (m_baseSize s)],
          m_capacity := m_capacity s + m_baseSize s\<rparr>)"

definition addCapacityIfNeeded :: "junk \<Rightarrow> nat \<Rightarrow> ByteArray \<Rightarrow> (unit, ByteArray) outcome" where
  "addCapacityIfNeeded junk ensureCapacity s =
     (if ensureCapacity = 0 then Ok () s
      else let old_cap = getSizeForWrite s in
        if old_cap \<ge> ensureCapacity then Ok () s
        else if m_baseSize s = 0 then Crash DivByZero
        else let need = ensureCapacity - old_cap;
                 count = need div m_baseSize s + (if need mod m_baseSize s \<noteq> 0 then 1 else 0);
                 first = (if count = 0 then None else Some (length (m_nodes s)));
                 s' = append_nodes junk count s
             in Ok () (if old_cap = 0 then s'\<lparr>m_cur := first\<rparr> else s'))"

subsection \<open>Writing and reading\<close>

function write_loop :: "u8 list list \<Rightarrow> nat \<Rightarrow> nat \<Rightarrow> nat \<Rightarrow> nat \<Rightarrow> u8 list \<Rightarrow>
    fault + u8 list list \<times> nat option \<times> nat" where
  "write_loop nodes c npos ncap pos buf =
     (if buf = [] then Inr (nodes, Some c, pos)
      else if ncap \<ge> length buf then
        Inr (nodes[c := overwrite (nodes ! c) npos buf],
             (if length (nodes ! c) = npos + length buf then next_node nodes c else Some c),
             pos + length buf)
      else let nodes' = nodes[c := overwrite (nodes ! c) npos (take ncap buf)] in
        (case next_node nodes' c of
           None \<Rightarrow> Inl NullDeref
         | Some c' \<Rightarrow> write_loop nodes' c' 0 (length (nodes' ! c')) (pos + ncap) (drop ncap buf)))"
  by pat_completeness auto
termination
  by (relation "measure (\<lambda>(nodes, c, npos, ncap, pos, buf). length nodes - c)")
     (auto simp: next_node_def split: if_splits)

declare write_loop.simps [simp del]

definition ba_write :: "junk \<Rightarrow> u8 list \<Rightarrow> ByteArray \<Rightarrow> (unit, ByteArray) outcome" where
  "ba_write junk buf s0 =
     (if buf = [] then Ok () s0
      else andThen (addCapacityIfNeeded junk (length buf)) (\<lambda>_ s.
        if m_baseSize s = 0 then Crash DivByZero
        else case deref s of
          None \<Rightarrow> Crash NullDeref
        | Some c \<Rightarrow>
            (let npos = m_position s mod m_baseSize s;
                 ncap = length (m_nodes s ! c) - npos
             in case write_loop (m_nodes s) c npos ncap (m_position s) buf of
                  Inl x \<Rightarrow> Crash x
                | Inr (nodes', cur', pos') \<Rightarrow>
                    Ok () (s\<lparr>m_nodes := nodes', m_cur := cur', m_position := pos',
                             m_size := (if pos' > m_size s then pos' else m_size s)\<rparr>))) s0)"

function read_loop :: "u8 list list \<Rightarrow> nat \<Rightarrow> nat \<Rightarrow> nat \<Rightarrow> nat \<Rightarrow> nat \<Rightarrow> u8 list \<Rightarrow>
    fault + u8 list \<times> nat option \<times> nat" where
  "read_loop nodes c npos ncap pos read_size buf =
     (if read_size = 0 then Inr (buf, Some c, pos)
      else if ncap \<ge> read_size then
        Inr (buf @ take read_size (drop npos (nodes ! c)),
             (if length (nodes ! c) = npos + read_size then next_node nodes c else Some c),
             pos + read_size)
      else (case next_node nodes c of
           None \<Rightarrow> Inl NullDeref
         | Some c' \<Rightarrow> read_loop nodes c' 0 (length (nodes ! c')) (pos + ncap) (read_size - ncap)
                        (buf @ take ncap (drop npos (nodes ! c)))))"
  by pat_completeness auto
termination
  by (relation "measure (\<lambda>(nodes, c, npos, ncap, pos, n, buf). length nodes - c)")
     (auto simp: next_node_def split: if_splits)

declare read_loop.simps [simp del]

definition ba_read :: "nat \<Rightarrow> ByteArray \<Rightarrow> (u8 list, ByteArray) outcome" where
  "ba_read read_size s =
     (if read_size > getSizeForRead s then Throw (OutOfRange ''not enough len to read'') s
      else if m_baseSize s = 0 then Crash DivByZero
      else case deref s of
        None \<Rightarrow> Crash NullDeref
      | Some c \<Rightarrow>
          (let npos = m_position s mod m_baseSize s;
               ncap = length (m_nodes s ! c) - npos
           in case read_loop (m_nodes s) c npos ncap (m_position s) read_size [] of
                Inl x \<Rightarrow> Crash x
              | Inr (buf, cur', pos') \<Rightarrow> Ok buf (s\<lparr>m_cur := cur', m_position := pos'\<rparr>)))"

subsection \<open>Peeking\<close>

function peek_loop :: "u8 list list \<Rightarrow> nat \<Rightarrow> nat \<Rightarrow> nat \<Rightarrow> nat \<Rightarrow> u8 list \<Rightarrow> fault + u8 list" where
  "peek_loop nodes c npos ncap read_size buf =
     (if read_size = 0 then Inr buf
      else if ncap \<ge> read_size then Inr (buf @ take read_size (drop npos (nodes ! c)))
      else (case next_node nodes c of
           None \<Rightarrow> Inl NullDeref
         | Some c' \<Rightarrow> peek_loop nodes c' 0 (length (nodes ! c')) (read_size - ncap)
                        (buf @ take ncap (drop npos (nodes ! c)))))"
  by pat_completeness auto
termination
  by (relation "measure (\<lambda>(nodes, c, npos, ncap, n, buf). length nodes - c)")
     (auto simp: next_node_def split: if_splits)

declare peek_loop.simps [simp del]

definition readForPeek :: "nat \<Rightarrow> ByteArray \<Rightarrow> (u8 list, ByteArray) outcome" where
  "readForPeek read_size s =
     (if m_position s \<le> m_size s \<and> read_size > m_size s - m_position s \<comment> \<open>\<open>size_t\<close>: no small bound past \<open>m_size\<close>\<close>
      then Throw (OutOfRange ''not enough len'') s
      else if m_baseSize s = 0 then Crash DivByZero
      else case deref s of
        None \<Rightarrow> Crash NullDeref
      | Some c \<Rightarrow>
          (let npos = m_position s mod m_baseSize s;
               ncap = length (m_nodes s ! c) - npos
           in case peek_loop (m_nodes s) c npos ncap read_size [] of
                Inl x \<Rightarrow> Crash x
              | Inr buf \<Rightarrow> Ok buf s))"

text \<open>\<open>seek nodes pos\<close>: the loop \<open>while (pos >= cur->size) { pos -= cur->size; cur = cur->next; }\<close>
  from \<open>m_root\<close>, with the index of the node it starts from.\<close>

fun seek :: "u8 list list \<Rightarrow> nat \<Rightarrow> nat \<Rightarrow> (nat \<times> nat) option" where
  "seek [] c pos = None"
| "seek (n # ns) c pos = (if pos \<ge> length n then seek ns (Suc c) (pos - length n) else Some (c, pos))"

definition readForPeekAt :: "nat \<Rightarrow> nat \<Rightarrow> ByteArray \<Rightarrow> (u8 list, ByteArray) outcome" where
  "readForPeekAt read_size position s =
     (if read_size > getSizeForRead s then Throw (OutOfRange ''not enough len'') s
      else case seek (m_nodes s) 0 position of
        None \<Rightarrow> Crash NullDeref
      | Some (c, npos) \<Rightarrow>
          (case peek_loop (m_nodes s) c npos (length (m_nodes s ! c) - npos) read_size [] of
             Inl x \<Rightarrow> Crash x
           | Inr buf \<Rightarrow> Ok buf s))"

subsection \<open>Moving the position\<close>

text \<open>\<open>while (v > m_cur->size) { v -= m_cur->size; m_cur = m_cur->next; }\<close> and the test after it.\<close>

fun seek_cur :: "u8 list list \<Rightarrow> nat \<Rightarrow> nat \<Rightarrow> fault + nat option" where
  "seek_cur [] c v = Inl NullDeref"
| "seek_cur (n # ns) c v =
     (if v > length n then seek_cur ns (Suc c) (v - length n)
      else Inr (if v = length n then (if ns = [] then None else Some (Suc c)) else Some c))"

definition setPosition :: "nat \<Rightarrow> ByteArray \<Rightarrow> (unit, ByteArray) outcome" where
  "setPosition v s =
     (if v > m_capacity s then Throw (OutOfRange ''ByteArray set position out of range'') s
      else case seek_cur (m_nodes s) 0 v of
        Inl x \<Rightarrow> Crash x
      | Inr cur \<Rightarrow> Ok () (s\<lparr>m_position := v,
                           m_size := (if v > m_size s then v else m_size s),
                           m_cur := cur\<rparr>))"

subsection \<open>Files\<close>

text \<open>\<open>writeToFile\<close>: \<open>opened\<close> says whether \<open>ofs.open\<close> succeeded; the result pairs the returned
  flag with the bytes written to the file. The lengths are \<open>int64_t\<close>, hence \<open>int\<close>: a negative
  count or a range outside the node is an undefined \<open>ofs.write\<close>.\<close>

function file_loop :: "u8 list list \<Rightarrow> nat \<Rightarrow> nat option \<Rightarrow> int \<Rightarrow> int \<Rightarrow> u8 list \<Rightarrow> fault + u8 list" where
  "file_loop nodes base cur pos read_size out =
     (if read_size \<le> 0 then Inr out
      else case cur of
        None \<Rightarrow> Inl NullDeref
      | Some c \<Rightarrow>
          if c \<ge> length nodes then Inl NullDeref
          else let diff = pos mod int base;
                   len = (if read_size > int base then int base else read_size) - diff
               in if len < 0 \<or> diff + len > int (length (nodes ! c)) then Inl OutOfBounds
                  else file_loop nodes base (next_node nodes c) (pos + len) (read_size - len)
                         (out @ take (nat len) (drop (nat diff) (nodes ! c))))"
  by pat_completeness auto
termination
  by (relation "measure (\<lambda>(nodes, base, cur, pos, n, out).
        case cur of None \<Rightarrow> 0 | Some c \<Rightarrow> Suc (length nodes) - c)")
     (auto simp: next_node_def split: if_splits)

declare file_loop.simps [simp del]

definition writeToFile :: "bool \<Rightarrow> ByteArray \<Rightarrow> fault + bool \<times> u8 list" where
  "writeToFile opened s =
     (if \<not> opened then Inr (False, [])
      else if getSizeForRead s \<noteq> 0 \<and> m_baseSize s = 0 then Inl DivByZero
      else case file_loop (m_nodes s) (m_baseSize s) (m_cur s) (int (m_position s))
                  (int (getSizeForRead s)) [] of
             Inl x \<Rightarrow> Inl x | Inr out \<Rightarrow> Inr (True, out))"

text \<open>\<open>readFromFile\<close>: \<open>None\<close> for a file that cannot be opened, \<open>Some bs\<close> for its contents. Each
  round reads up to \<open>m_baseSize\<close> bytes; the end of the file is noticed by a short read.\<close>

function file_chunks :: "junk \<Rightarrow> nat \<Rightarrow> u8 list \<Rightarrow> ByteArray \<Rightarrow> (unit, ByteArray) outcome" where
  "file_chunks junk base bs s =
     (if base = 0 \<or> length bs < base then ba_write junk bs s
      else case ba_write junk (take base bs) s of
             Ok _ s' \<Rightarrow> file_chunks junk base (drop base bs) s'
           | Throw e s' \<Rightarrow> Throw e s'
           | Crash x \<Rightarrow> Crash x)"
  by pat_completeness auto
termination
  by (relation "measure (\<lambda>(junk, base, bs, s). length bs)") auto

declare file_chunks.simps [simp del]

definition readFromFile :: "junk \<Rightarrow> u8 list option \<Rightarrow> ByteArray \<Rightarrow> (bool, ByteArray) outcome option" where
  "readFromFile junk file s =
     (case file of
        None \<Rightarrow> Some (Ok False s)
      | Some bs \<Rightarrow>
          if m_baseSize s = 0 then None \<comment> \<open>reading 0 bytes never reaches the end: the loop runs forever\<close>
          else Some (andThen (file_chunks junk (m_baseSize s) bs) (\<lambda>_ s'. Ok True s') s))"

subsection \<open>Text\<close>

definition toString :: "ByteArray \<Rightarrow> (u8 list, ByteArray) outcome" where
  "toString s = (if getSizeForRead s = 0 then Ok [] s else readForPeek (getSizeForRead s) s)"

definition hex_digit :: "nat \<Rightarrow> char" where
  "hex_digit n = ''0123456789abcdef'' ! n"

fun hex_bytes :: "nat \<Rightarrow> u8 list \<Rightarrow> string" where
  "hex_bytes i [] = []"
| "hex_bytes i (b # bs) =
     (if i > 0 \<and> i mod 32 = 0 then [CHR 0x0A] else []) @
     [hex_digit (unat b div 16), hex_digit (unat b mod 16), CHR '' ''] @ hex_bytes (Suc i) bs"

definition toHexString :: "ByteArray \<Rightarrow> (string, ByteArray) outcome" where
  "toHexString s = andThen toString (\<lambda>str. ret (hex_bytes 0 str)) s"

subsection \<open>Scatter/gather views\<close>

text \<open>An \<open>iovec\<close> is a node, an offset in it and a length.\<close>

type_synonym iovec = "nat \<times> nat \<times> nat"

function iov_loop :: "u8 list list \<Rightarrow> nat \<Rightarrow> nat \<Rightarrow> nat \<Rightarrow> nat \<Rightarrow> iovec list \<Rightarrow> fault + iovec list" where
  "iov_loop nodes c npos ncap len buffers =
     (if len = 0 then Inr buffers
      else if ncap \<ge> len then Inr (buffers @ [(c, npos, len)])
      else (case next_node nodes c of
           None \<Rightarrow> Inl NullDeref
         | Some c' \<Rightarrow> iov_loop nodes c' 0 (length (nodes ! c')) (len - ncap)
                        (buffers @ [(c, npos, ncap)])))"
  by pat_completeness auto
termination
  by (relation "measure (\<lambda>(nodes, c, npos, ncap, n, buf). length nodes - c)")
     (auto simp: next_node_def split: if_splits)

declare iov_loop.simps [simp del]

definition getReadBuffers :: "iovec list \<Rightarrow> nat \<Rightarrow> ByteArray \<Rightarrow> (iovec list \<times> nat, ByteArray) outcome" where
  "getReadBuffers buffers len0 s =
     (let len = (if len0 > getSizeForRead s then getSizeForRead s else len0) in
      if len = 0 then Ok (buffers, 0) s
      else if m_baseSize s = 0 then Crash DivByZero
      else case deref s of
        None \<Rightarrow> Crash NullDeref
      | Some c \<Rightarrow>
          (let npos = m_position s mod m_baseSize s
           in case iov_loop (m_nodes s) c npos (length (m_nodes s ! c) - npos) len buffers of
                Inl x \<Rightarrow> Crash x
              | Inr bufs \<Rightarrow> Ok (bufs, len) s))"

definition getReadBuffersAt :: "iovec list \<Rightarrow> nat \<Rightarrow> nat \<Rightarrow> ByteArray \<Rightarrow> (iovec list \<times> nat, ByteArray) outcome" where
  "getReadBuffersAt buffers len0 position s =
     (if position \<ge> m_size s then Ok (buffers, 0) s
      else if m_baseSize s = 0 then Crash DivByZero
      else
        let len = min len0 (m_size s - position);
            npos = position mod m_baseSize s;
            count = position div m_baseSize s
        in if count > length (m_nodes s) then Crash NullDeref
           else if count = length (m_nodes s) then Ok (buffers, 0) s
           else case iov_loop (m_nodes s) count npos (length (m_nodes s ! count) - npos) len buffers of
                  Inl x \<Rightarrow> Crash x
                | Inr bufs \<Rightarrow> Ok (bufs, if bufs \<noteq> [] then len else 0) s)"

definition getWriteBuffers :: "junk \<Rightarrow> iovec list \<Rightarrow> nat \<Rightarrow> ByteArray \<Rightarrow> (iovec list \<times> nat, ByteArray) outcome" where
  "getWriteBuffers junk buffers len s0 =
     (if len = 0 then Ok (buffers, 0) s0
      else andThen (addCapacityIfNeeded junk len) (\<lambda>_ s.
        if m_baseSize s = 0 then Crash DivByZero
        else case deref s of
          None \<Rightarrow> Crash NullDeref
        | Some c \<Rightarrow>
            (let npos = m_position s mod m_baseSize s
             in case iov_loop (m_nodes s) c npos (length (m_nodes s ! c) - npos) len buffers of
                  Inl x \<Rightarrow> Crash x
                | Inr bufs \<Rightarrow> Ok (bufs, if bufs \<noteq> [] then len else 0) s)) s0)"

subsection \<open>Invariant and abstract view\<close>

text \<open>\<open>cur_at w n p\<close>: the node of position \<open>p\<close> in a chain of \<open>n\<close> nodes of \<open>w\<close> bytes, null at the
  end of the chain.\<close>

definition cur_at :: "nat \<Rightarrow> nat \<Rightarrow> nat \<Rightarrow> nat option" where
  "cur_at w n p = (if p < w * n then Some (p div w) else None)"

definition ba_inv :: "ByteArray \<Rightarrow> bool" where
  "ba_inv s \<longleftrightarrow>
     0 < m_baseSize s \<and> m_nodes s \<noteq> [] \<and>
     (\<forall>b \<in> set (m_nodes s). length b = m_baseSize s) \<and>
     m_capacity s = m_baseSize s * length (m_nodes s) \<and>
     m_position s \<le> m_size s \<and> m_size s \<le> m_capacity s \<and>
     m_cur s = cur_at (m_baseSize s) (length (m_nodes s)) (m_position s)"

definition ba_data :: "ByteArray \<Rightarrow> u8 list" where
  "ba_data s = take (m_size s) (concat (m_nodes s))"

abbreviation ba_rest :: "ByteArray \<Rightarrow> u8 list" where
  "ba_rest s \<equiv> drop (m_position s) (ba_data s)"

lemma ba_invD:
  assumes "ba_inv s"
  shows "0 < m_baseSize s" "m_nodes s \<noteq> []" "\<forall>b \<in> set (m_nodes s). length b = m_baseSize s"
    "m_capacity s = m_baseSize s * length (m_nodes s)" "m_position s \<le> m_size s"
    "m_size s \<le> m_capacity s"
    "m_cur s = cur_at (m_baseSize s) (length (m_nodes s)) (m_position s)"
  using assms by (simp_all add: ba_inv_def)

lemma length_flat: "ba_inv s \<Longrightarrow> length (concat (m_nodes s)) = m_capacity s"
  by (simp add: ba_inv_def length_concat_uniform)

lemma length_ba_data: "ba_inv s \<Longrightarrow> length (ba_data s) = m_size s"
  by (simp add: ba_data_def length_flat min_absorb2 ba_invD(6))

lemma getSizeForRead_inv: "ba_inv s \<Longrightarrow> getSizeForRead s = m_size s - m_position s"
  by (auto simp: getSizeForRead_def ba_inv_def)

lemma deref_inv:
  assumes "ba_inv s"
  shows "deref s = (if m_position s < m_capacity s then Some (m_position s div m_baseSize s) else None)"
  using assms by (auto simp: deref_def cur_at_def ba_inv_def div_less_blocks)

lemma ByteArray_new_inv: "0 < b \<Longrightarrow> ba_inv (ByteArray_new junk b)"
  by (simp add: ba_inv_def ByteArray_new_def cur_at_def Node_def)

lemma ba_data_new [simp]: "ba_data (ByteArray_new junk b) = []"
  by (simp add: ba_data_def ByteArray_new_def)

lemma clear_inv: "ba_inv s \<Longrightarrow> ba_inv (clear s)"
  by (auto simp: ba_inv_def clear_def cur_at_def neq_Nil_conv)

lemma setLittleEndian_inv: "ba_inv s \<Longrightarrow> ba_inv (setLittleEndian val s)"
  by (simp add: ba_inv_def setLittleEndian_def)

lemma getNodeCount_eq: "getNodeCount s = length (m_nodes s)"
proof -
  have "count_nodes k ns = k + length ns" for k ns
    by (induction ns arbitrary: k) auto
  then show ?thesis by (simp add: getNodeCount_def)
qed

lemma next_node_uniform:
  "c < n \<Longrightarrow> 0 < w \<Longrightarrow> length nodes = n \<Longrightarrow> next_node nodes c = cur_at w n (w * Suc c)"
  by (simp add: next_node_def cur_at_def del: mult_Suc_right)

lemma cur_at_in_node:
  "c < n \<Longrightarrow> r < w \<Longrightarrow> cur_at w n (w * c + r) = Some c"
proof -
  assume c: "c < n" and r: "r < w"
  then have "w * c + r < w * Suc c" by simp
  also have "\<dots> \<le> w * n" using c by (intro mult_le_mono2) simp
  finally show ?thesis using r by (simp add: cur_at_def)
qed

subsection \<open>Growing the chain keeps the data\<close>

lemma append_nodes_fields:
  "m_baseSize (append_nodes junk k s) = m_baseSize s"
  "m_position (append_nodes junk k s) = m_position s"
  "m_size (append_nodes junk k s) = m_size s"
  "m_endian (append_nodes junk k s) = m_endian s"
  "m_cur (append_nodes junk k s) = m_cur s"
  "m_capacity (append_nodes junk k s) = m_capacity s + k * m_baseSize s"
  by (induction k arbitrary: s) auto

lemma append_nodes_nodes:
  "\<exists>ns. m_nodes (append_nodes junk k s) = m_nodes s @ ns \<and> length ns = k \<and>
        (\<forall>b \<in> set ns. length b = m_baseSize s)"
proof (induction k arbitrary: s)
  case 0
  then show ?case by simp
next
  case (Suc k)
  let ?b = "Node junk (length (m_nodes s)) (m_baseSize s)"
  let ?s = "s\<lparr>m_nodes := m_nodes s @ [?b], m_capacity := m_capacity s + m_baseSize s\<rparr>"
  from Suc [of ?s] obtain ns where
    "m_nodes (append_nodes junk k ?s) = (m_nodes s @ [?b]) @ ns" "length ns = k"
    "\<forall>b \<in> set ns. length b = m_baseSize s" by auto
  then show ?case by (intro exI [of _ "?b # ns"]) (auto simp: Node_def)
qed

lemma cur_at_grow: "p < w * n \<Longrightarrow> cur_at w (n + k) p = cur_at w n p"
  by (auto simp: cur_at_def add_mult_distrib2)

definition grown :: "ByteArray \<Rightarrow> ByteArray \<Rightarrow> nat \<Rightarrow> bool" where
  "grown s s' n \<longleftrightarrow> ba_inv s' \<and> ba_data s' = ba_data s \<and> m_position s' = m_position s \<and>
     m_size s' = m_size s \<and> m_endian s' = m_endian s \<and> m_baseSize s' = m_baseSize s \<and>
     m_position s + n \<le> m_capacity s'"

lemma addCapacityIfNeeded_grown:
  assumes inv: "ba_inv s" and n: "0 < n"
  shows "\<exists>s'. addCapacityIfNeeded junk n s = Ok () s' \<and> grown s s' n"
proof (cases "getSizeForWrite s \<ge> n")
  case True
  with inv n show ?thesis
    by (auto simp: addCapacityIfNeeded_def grown_def getSizeForWrite_def ba_inv_def)
next
  case False
  define w where "w = m_baseSize s"
  define need where "need = n - getSizeForWrite s"
  define k where "k = need div w + (if need mod w \<noteq> 0 then 1 else 0)"
  define s1 where "s1 = append_nodes junk k s"
  define s' where "s' = (if getSizeForWrite s = 0 then s1\<lparr>m_cur := Some (length (m_nodes s))\<rparr> else s1)"
  note I = ba_invD [OF inv]
  have w: "0 < w" using I by (simp add: w_def)
  have need: "0 < need" using False by (simp add: need_def)
  have kw: "need \<le> k * w"
    using w mod_less_divisor [OF w, of need] by (auto simp: k_def algebra_simps mod_eq_0_iff_dvd
      dest: less_imp_le) (metis add.commute add_le_cancel_left div_mult_mod_eq less_imp_le mult.commute)
  have k: "0 < k" using need kw by (cases k) auto
  obtain ns where ns: "m_nodes s1 = m_nodes s @ ns" "length ns = k" "\<forall>b \<in> set ns. length b = w"
    using append_nodes_nodes [of junk k s] by (auto simp: s1_def w_def)
  have eq: "addCapacityIfNeeded junk n s = Ok () s'"
    unfolding addCapacityIfNeeded_def Let_def w_def [symmetric] need_def [symmetric]
      k_def [symmetric] s1_def [symmetric]
    using False n w k by (simp add: s'_def)
  have flat: "take (m_size s) (concat (m_nodes s @ ns)) = take (m_size s) (concat (m_nodes s))"
    using I by (simp add: length_flat [OF inv])
  have cur: "m_cur s' = cur_at w (length (m_nodes s) + k) (m_position s)"
  proof (cases "getSizeForWrite s = 0")
    case True
    then have "m_position s = w * length (m_nodes s)" using I by (simp add: getSizeForWrite_def w_def)
    then show ?thesis using True w k by (simp add: s'_def cur_at_def)
  next
    case False
    then show ?thesis using I
      by (simp add: s'_def s1_def append_nodes_fields getSizeForWrite_def cur_at_grow w_def)
  qed
  have "grown s s' n"
    using I ns flat cur kw w unfolding grown_def ba_inv_def ba_data_def
    by (auto simp: s'_def s1_def append_nodes_fields w_def need_def getSizeForWrite_def algebra_simps)
  with eq show ?thesis by blast
qed

subsection \<open>The copy loops on a uniform chain\<close>

text \<open>A chain whose nodes all have \<open>w\<close> bytes; \<open>node_step\<close> bundles what moving to the next node means
  for the loops.\<close>

definition uniform :: "nat \<Rightarrow> u8 list list \<Rightarrow> bool" where
  "uniform w nodes \<longleftrightarrow> 0 < w \<and> (\<forall>b \<in> set nodes. length b = w)"

lemma uniform_nth: "uniform w nodes \<Longrightarrow> c < length nodes \<Longrightarrow> length (nodes ! c) = w"
  by (simp add: uniform_def)

lemma uniform_update:
  "uniform w nodes \<Longrightarrow> length b = w \<Longrightarrow> uniform w (nodes[c := b])"
  unfolding uniform_def by (auto dest!: set_update_subset_insert [THEN subsetD])

lemma next_in_chain:
  assumes "0 < w" and "c < length nodes" and "w * c + npos + k \<le> w * length nodes" and "npos < w"
    and "w - npos < k"
  shows "next_node nodes c = Some (Suc c)" and "Suc c < length nodes"
proof -
  from assms have "w * Suc c < w * length nodes" by simp
  then show "Suc c < length nodes" using assms(1) by (simp del: mult_Suc_right)
  then show "next_node nodes c = Some (Suc c)" by (simp add: next_node_def)
qed

lemma end_of_node:
  assumes "uniform w nodes" and "c < length nodes" and "npos + k \<le> w" and "0 < k"
  shows "(if length (nodes ! c) = npos + k then next_node nodes c else Some c)
         = cur_at w (length nodes) (w * c + npos + k)"
proof (cases "npos + k = w")
  case True
  then have "w * c + npos + k = w * Suc c" by simp
  with assms True show ?thesis
    by (simp add: uniform_nth next_node_uniform [of c "length nodes" w] uniform_def del: mult_Suc_right)
next
  case False
  with assms show ?thesis
    using cur_at_in_node [of c "length nodes" "npos + k" w] by (simp add: uniform_nth add.assoc)
qed

lemma write_loop_unfold:
  "write_loop nodes c npos ncap pos [] = Inr (nodes, Some c, pos)"
  "buf \<noteq> [] \<Longrightarrow> length buf \<le> ncap \<Longrightarrow> write_loop nodes c npos ncap pos buf =
     Inr (nodes[c := overwrite (nodes ! c) npos buf],
          (if length (nodes ! c) = npos + length buf then next_node nodes c else Some c),
          pos + length buf)"
  "ncap < length buf \<Longrightarrow> next_node (nodes[c := overwrite (nodes ! c) npos (take ncap buf)]) c = Some c' \<Longrightarrow>
   write_loop nodes c npos ncap pos buf =
     write_loop (nodes[c := overwrite (nodes ! c) npos (take ncap buf)]) c' 0
       (length (nodes[c := overwrite (nodes ! c) npos (take ncap buf)] ! c')) (pos + ncap) (drop ncap buf)"
  by (subst write_loop.simps, auto simp: Let_def)+

lemma peek_loop_unfold:
  "peek_loop nodes c npos ncap 0 buf = Inr buf"
  "0 < n \<Longrightarrow> n \<le> ncap \<Longrightarrow>
   peek_loop nodes c npos ncap n buf = Inr (buf @ take n (drop npos (nodes ! c)))"
  "ncap < n \<Longrightarrow> next_node nodes c = Some c' \<Longrightarrow> peek_loop nodes c npos ncap n buf =
     peek_loop nodes c' 0 (length (nodes ! c')) (n - ncap) (buf @ take ncap (drop npos (nodes ! c)))"
  by (subst peek_loop.simps, auto)+

lemma read_loop_unfold:
  "read_loop nodes c npos ncap pos 0 buf = Inr (buf, Some c, pos)"
  "0 < n \<Longrightarrow> n \<le> ncap \<Longrightarrow> read_loop nodes c npos ncap pos n buf =
     Inr (buf @ take n (drop npos (nodes ! c)),
          (if length (nodes ! c) = npos + n then next_node nodes c else Some c), pos + n)"
  "ncap < n \<Longrightarrow> next_node nodes c = Some c' \<Longrightarrow> read_loop nodes c npos ncap pos n buf =
     read_loop nodes c' 0 (length (nodes ! c')) (pos + ncap) (n - ncap)
       (buf @ take ncap (drop npos (nodes ! c)))"
  by (subst read_loop.simps, auto)+

lemma write_loop_correct:
  assumes "uniform w nodes" and "c < length nodes" and "npos < w" and "ncap = w - npos"
    and "w * c + npos + length buf \<le> w * length nodes"
  shows "\<exists>nodes'. write_loop nodes c npos ncap pos buf =
            Inr (nodes', cur_at w (length nodes) (w * c + npos + length buf), pos + length buf) \<and>
          uniform w nodes' \<and> length nodes' = length nodes \<and>
          concat nodes' = overwrite (concat nodes) (w * c + npos) buf"
  using assms
proof (induction nodes c npos ncap pos buf rule: write_loop.induct)
  case (1 nodes c npos ncap pos buf)
  note U = "1.prems"(1) and c = "1.prems"(2) and np = "1.prems"(3) and nc = "1.prems"(4)
  have w: "0 < w" using U by (simp add: uniform_def)
  have len: "length (nodes ! c) = w" using U c by (rule uniform_nth)
  consider "buf = []" | "buf \<noteq> []" "length buf \<le> ncap" | "ncap < length buf" by force
  then show ?case
  proof cases
    case 1
    with U c np show ?thesis by (simp add: write_loop_unfold cur_at_in_node)
  next
    case 2
    then have fit: "npos + length buf \<le> w" and ne: "0 < length buf" using np nc by simp_all
    have "concat (nodes[c := overwrite (nodes ! c) npos buf]) = overwrite (concat nodes) (w * c + npos) buf"
      using U c fit by (intro concat_update_uniform) (auto simp: uniform_def)
    moreover have "write_loop nodes c npos ncap pos buf =
        Inr (nodes[c := overwrite (nodes ! c) npos buf],
             cur_at w (length nodes) (w * c + npos + length buf), pos + length buf)"
      unfolding write_loop_unfold(2) [OF 2] end_of_node [OF U c fit ne] ..
    ultimately show ?thesis using fit U len np by (simp add: uniform_update)
  next
    case 3
    let ?b = "overwrite (nodes ! c) npos (take ncap buf)"
    let ?nodes = "nodes[c := ?b]"
    have b: "length ?b = w" using np nc len 3 by simp
    have U': "uniform w ?nodes" using U b by (rule uniform_update)
    have nx: "next_node ?nodes c = Some (Suc c)" "Suc c < length nodes"
      using next_in_chain [OF w, of c ?nodes npos "length buf"] "1.prems" 3 by auto
    have pos: "w * c + npos + ncap = w * Suc c" using np nc by simp
    have "\<exists>nodes'. write_loop ?nodes (Suc c) 0 (length (?nodes ! Suc c)) (pos + ncap) (drop ncap buf) =
            Inr (nodes', cur_at w (length ?nodes) (w * Suc c + 0 + length (drop ncap buf)),
                 pos + ncap + length (drop ncap buf)) \<and>
          uniform w nodes' \<and> length nodes' = length ?nodes \<and>
          concat nodes' = overwrite (concat ?nodes) (w * Suc c + 0) (drop ncap buf)"
      by (rule "1.IH") (use 3 nx U' w pos "1.prems"(5) uniform_nth [OF U', of "Suc c"] in auto)
    then obtain nodes' where R:
      "write_loop ?nodes (Suc c) 0 (length (?nodes ! Suc c)) (pos + ncap) (drop ncap buf) =
         Inr (nodes', cur_at w (length nodes) (w * c + npos + length buf), pos + length buf)"
      "uniform w nodes'" "length nodes' = length nodes"
      "concat nodes' = overwrite (concat ?nodes) (w * c + npos + ncap) (drop ncap buf)"
      using 3 pos by (auto simp: algebra_simps)
    have "concat ?nodes = overwrite (concat nodes) (w * c + npos) (take ncap buf)"
      using U c np nc 3 by (intro concat_update_uniform) (auto simp: uniform_def)
    moreover have "w * c + npos \<le> length (concat nodes)"
      using "1.prems"(5) U length_concat_uniform [of nodes w] by (simp add: uniform_def)
    ultimately have "concat nodes' = overwrite (concat nodes) (w * c + npos) buf"
      using R(4) 3 overwrite_append [of "w * c + npos" "concat nodes" "take ncap buf" "drop ncap buf"]
      by simp
    with R show ?thesis by (simp add: write_loop_unfold(3) [OF 3 nx(1)])
  qed
qed

lemma peek_loop_correct:
  assumes "uniform w nodes" and "c < length nodes" and "npos < w" and "ncap = w - npos"
    and "w * c + npos + n \<le> w * length nodes"
  shows "peek_loop nodes c npos ncap n buf = Inr (buf @ take n (drop (w * c + npos) (concat nodes)))"
  using assms
proof (induction nodes c npos ncap n buf rule: peek_loop.induct)
  case (1 nodes c npos ncap n buf)
  note U = "1.prems"(1) and c = "1.prems"(2) and np = "1.prems"(3) and nc = "1.prems"(4)
  have w: "0 < w" using U by (simp add: uniform_def)
  have chunk: "take k (drop npos (nodes ! c)) = take k (drop (w * c + npos) (concat nodes))"
    if "npos + k \<le> w" for k
    using U c that by (simp add: take_drop_concat_uniform uniform_def)
  consider "n = 0" | "0 < n" "n \<le> ncap" | "ncap < n" by force
  then show ?case
  proof cases
    case 1
    then show ?thesis by (simp add: peek_loop_unfold)
  next
    case 2
    with chunk [of n] np nc show ?thesis by (simp add: peek_loop_unfold(2))
  next
    case 3
    have nx: "next_node nodes c = Some (Suc c)" "Suc c < length nodes"
      using next_in_chain [OF w, of c nodes npos n] "1.prems" 3 by auto
    have pos: "w * c + npos + ncap = w * Suc c" using np nc by simp
    have "peek_loop nodes (Suc c) 0 (length (nodes ! Suc c)) (n - ncap)
             (buf @ take ncap (drop npos (nodes ! c))) =
          Inr ((buf @ take ncap (drop npos (nodes ! c))) @
               take (n - ncap) (drop (w * Suc c + 0) (concat nodes)))"
      by (rule "1.IH") (use 3 nx w pos "1.prems" uniform_nth [OF U, of "Suc c"] in auto)
    moreover have "take ncap (drop (w * c + npos) (concat nodes)) @
        take (n - ncap) (drop (w * c + npos + ncap) (concat nodes)) =
        take n (drop (w * c + npos) (concat nodes))"
      using 3 by (simp add: take_take_drop_append)
    ultimately show ?thesis
      unfolding peek_loop_unfold(3) [OF 3 nx(1)] using chunk [of ncap] np nc pos
      by (simp add: add.commute)
  qed
qed

text \<open>\<open>read\<close> copies what \<open>readForPeek\<close> copies and leaves the position after it.\<close>

lemma read_loop_peek_loop:
  assumes "uniform w nodes" and "c < length nodes" and "npos < w" and "ncap = w - npos"
    and "w * c + npos + n \<le> w * length nodes"
  shows "read_loop nodes c npos ncap pos n buf =
    (case peek_loop nodes c npos ncap n buf of Inl x \<Rightarrow> Inl x
     | Inr out \<Rightarrow> Inr (out, cur_at w (length nodes) (w * c + npos + n), pos + n))"
  using assms
proof (induction nodes c npos ncap pos n buf rule: read_loop.induct)
  case (1 nodes c npos ncap pos n buf)
  note U = "1.prems"(1) and c = "1.prems"(2) and np = "1.prems"(3) and nc = "1.prems"(4)
  have w: "0 < w" using U by (simp add: uniform_def)
  consider "n = 0" | "0 < n" "n \<le> ncap" | "ncap < n" by force
  then show ?case
  proof cases
    case 1
    with c np show ?thesis by (simp add: read_loop_unfold peek_loop_unfold cur_at_in_node)
  next
    case 2
    with end_of_node [OF U c, of npos n] np nc show ?thesis
      by (simp add: read_loop_unfold(2) peek_loop_unfold(2) del: if_split)
  next
    case 3
    have nx: "next_node nodes c = Some (Suc c)" "Suc c < length nodes"
      using next_in_chain [OF w, of c nodes npos n] "1.prems" 3 by auto
    have pos: "w * c + npos + ncap = w * Suc c" using np nc by simp
    let ?buf = "buf @ take ncap (drop npos (nodes ! c))"
    have "read_loop nodes (Suc c) 0 (length (nodes ! Suc c)) (pos + ncap) (n - ncap) ?buf =
      (case peek_loop nodes (Suc c) 0 (length (nodes ! Suc c)) (n - ncap) ?buf of Inl x \<Rightarrow> Inl x
       | Inr out \<Rightarrow> Inr (out, cur_at w (length nodes) (w * Suc c + 0 + (n - ncap)), pos + ncap + (n - ncap)))"
      by (rule "1.IH") (use 3 nx w pos "1.prems" uniform_nth [OF U, of "Suc c"] in auto)
    moreover have "w * Suc c + 0 + (n - ncap) = w * c + npos + n" "pos + ncap + (n - ncap) = pos + n"
      using 3 pos by auto
    ultimately show ?thesis
      by (simp only: read_loop_unfold(3) [OF 3 nx(1)] peek_loop_unfold(3) [OF 3 nx(1)])
  qed
qed

subsection \<open>Behaviour of the operations on the flat view\<close>

lemma inv_uniform: "ba_inv s \<Longrightarrow> uniform (m_baseSize s) (m_nodes s)"
  by (simp add: uniform_def ba_inv_def)

lemma inv_block:
  assumes "ba_inv s" and "m_position s < m_capacity s"
  shows "deref s = Some (m_position s div m_baseSize s)"
    "m_position s div m_baseSize s < length (m_nodes s)"
    "m_position s mod m_baseSize s < m_baseSize s"
    "length (m_nodes s ! (m_position s div m_baseSize s)) = m_baseSize s"
    "m_baseSize s * (m_position s div m_baseSize s) + m_position s mod m_baseSize s = m_position s"
  using assms
  by (auto simp: deref_inv ba_inv_def div_less_blocks uniform_nth [OF inv_uniform [OF assms(1)]])

lemma write_Nil [simp]: "ba_write junk [] s = Ok () s"
  by (simp add: ba_write_def)

lemma write_correct:
  assumes inv: "ba_inv s"
  shows "\<exists>s'. ba_write junk buf s = Ok () s' \<and> ba_inv s' \<and>
     m_position s' = m_position s + length buf \<and>
     ba_data s' = overwrite (ba_data s) (m_position s) buf \<and>
     m_endian s' = m_endian s \<and> m_baseSize s' = m_baseSize s"
proof (cases "buf = []")
  case True
  with inv show ?thesis by simp
next
  case False
  then obtain s1 where s1: "addCapacityIfNeeded junk (length buf) s = Ok () s1"
    and g: "grown s s1 (length buf)"
    using addCapacityIfNeeded_grown [OF inv, of "length buf" junk] by auto
  from g have inv1: "ba_inv s1" and fit: "m_position s1 + length buf \<le> m_capacity s1"
    and eqs: "m_position s1 = m_position s" "m_size s1 = m_size s" "m_endian s1 = m_endian s"
      "m_baseSize s1 = m_baseSize s" "ba_data s1 = ba_data s"
    by (simp_all add: grown_def)
  note I = ba_invD [OF inv1]
  have lt: "m_position s1 < m_capacity s1" using fit False by (cases buf) auto
  note B = inv_block [OF inv1 lt]
  let ?w = "m_baseSize s1"
  obtain nodes' where L:
    "write_loop (m_nodes s1) (m_position s1 div ?w) (m_position s1 mod ?w)
       (length (m_nodes s1 ! (m_position s1 div ?w)) - m_position s1 mod ?w) (m_position s1) buf =
     Inr (nodes', cur_at ?w (length (m_nodes s1)) (m_position s1 + length buf), m_position s1 + length buf)"
    "uniform ?w nodes'" "length nodes' = length (m_nodes s1)"
    "concat nodes' = overwrite (concat (m_nodes s1)) (m_position s1) buf"
    using write_loop_correct [OF inv_uniform [OF inv1] B(2,3), of _ buf "m_position s1"] B I fit
    by fastforce
  let ?size = "max (m_size s1) (m_position s1 + length buf)"
  let ?s = "s1\<lparr>m_nodes := nodes', m_cur := cur_at ?w (length (m_nodes s1)) (m_position s1 + length buf),
               m_position := m_position s1 + length buf, m_size := ?size\<rparr>"
  have "ba_write junk buf s = Ok () ?s"
    using False s1 B(1) L(1) I(1) by (simp add: ba_write_def max_def)
  moreover have "ba_inv ?s"
    using I L fit by (auto simp: ba_inv_def uniform_def)
  moreover have "ba_data ?s = overwrite (ba_data s1) (m_position s1) buf"
    using take_overwrite [of "m_position s1" "m_size s1" "concat (m_nodes s1)" buf] L(4) I fit
    by (simp add: ba_data_def length_flat [OF inv1])
  ultimately show ?thesis using eqs by auto
qed

lemma peek_correct:
  assumes inv: "ba_inv s" and n: "n \<le> m_size s - m_position s" and lt: "m_position s < m_capacity s"
  shows "readForPeek n s = Ok (take n (ba_rest s)) s"
proof -
  note I = ba_invD [OF inv] and B = inv_block [OF inv lt]
  let ?w = "m_baseSize s"
  have "peek_loop (m_nodes s) (m_position s div ?w) (m_position s mod ?w) (?w - m_position s mod ?w) n [] =
        Inr ([] @ take n (drop (?w * (m_position s div ?w) + m_position s mod ?w) (concat (m_nodes s))))"
    by (rule peek_loop_correct [OF inv_uniform [OF inv] B(2,3)]) (use B(5) n I in auto)
  moreover have "take n (drop (m_position s) (concat (m_nodes s))) = take n (ba_rest s)"
    using n by (simp add: ba_data_def drop_take)
  ultimately show ?thesis using n B I(1) by (simp add: readForPeek_def)
qed

lemma read_correct:
  assumes inv: "ba_inv s" and n: "n \<le> m_size s - m_position s" and lt: "m_position s < m_capacity s"
  shows "ba_read n s = Ok (take n (ba_rest s))
           (s\<lparr>m_position := m_position s + n,
              m_cur := cur_at (m_baseSize s) (length (m_nodes s)) (m_position s + n)\<rparr>)"
proof -
  note I = ba_invD [OF inv] and B = inv_block [OF inv lt]
  let ?w = "m_baseSize s"
  have "read_loop (m_nodes s) (m_position s div ?w) (m_position s mod ?w) (?w - m_position s mod ?w)
          (m_position s) n [] =
    (case peek_loop (m_nodes s) (m_position s div ?w) (m_position s mod ?w) (?w - m_position s mod ?w) n [] of
       Inl x \<Rightarrow> Inl x
     | Inr out \<Rightarrow> Inr (out, cur_at ?w (length (m_nodes s))
           (?w * (m_position s div ?w) + m_position s mod ?w + n), m_position s + n))"
    by (rule read_loop_peek_loop [OF inv_uniform [OF inv] B(2,3)]) (use B(5) n I in auto)
  with peek_correct [OF inv n lt] n B I(1) show ?thesis
    by (auto simp: ba_read_def readForPeek_def getSizeForRead_inv [OF inv] split: sum.splits)
qed

lemma read_inv:
  assumes "ba_inv s" and "n \<le> m_size s - m_position s"
  shows "ba_inv (s\<lparr>m_position := m_position s + n,
              m_cur := cur_at (m_baseSize s) (length (m_nodes s)) (m_position s + n)\<rparr>)"
  using assms by (auto simp: ba_inv_def)

lemma read_out_of_range:
  "ba_inv s \<Longrightarrow> m_size s - m_position s < n \<Longrightarrow>
   ba_read n s = Throw (OutOfRange ''not enough len to read'') s"
  by (simp add: ba_read_def getSizeForRead_inv)

lemma seek_cur_correct:
  assumes "uniform w nodes" and "v \<le> w * length nodes" and "nodes \<noteq> []"
  shows "seek_cur nodes c v = Inr (map_option (\<lambda>k. c + k) (cur_at w (length nodes) v))"
  using assms
proof (induction nodes arbitrary: c v)
  case Nil
  then show ?case by simp
next
  case (Cons n ns)
  then have w: "0 < w" "length n = w" "uniform w ns" by (auto simp: uniform_def)
  show ?case
  proof (cases "v > w")
    case True
    then have "ns \<noteq> []" using Cons.prems(2) by auto
    have "seek_cur ns (Suc c) (v - w) = Inr (map_option (\<lambda>k. Suc c + k) (cur_at w (length ns) (v - w)))"
      by (rule Cons.IH) (use w True Cons.prems \<open>ns \<noteq> []\<close> in auto)
    moreover have "cur_at w (Suc (length ns)) v = map_option Suc (cur_at w (length ns) (v - w))"
      using True w by (auto simp: cur_at_def le_div_geq)
    ultimately show ?thesis using True w by (simp add: option.map_comp comp_def)
  next
    case False
    then show ?thesis using w by (auto simp: cur_at_def neq_Nil_conv)
  qed
qed

lemma setPosition_correct:
  assumes inv: "ba_inv s" and v: "v \<le> m_capacity s"
  shows "setPosition v s = Ok () (s\<lparr>m_position := v, m_size := max (m_size s) v,
            m_cur := cur_at (m_baseSize s) (length (m_nodes s)) v\<rparr>)"
  using v ba_invD [OF inv] seek_cur_correct [OF inv_uniform [OF inv], of v 0]
  by (simp add: setPosition_def max_def option.map_ident)

lemma setPosition_inv:
  "ba_inv s \<Longrightarrow> v \<le> m_capacity s \<Longrightarrow>
   ba_inv (s\<lparr>m_position := v, m_size := max (m_size s) v,
            m_cur := cur_at (m_baseSize s) (length (m_nodes s)) v\<rparr>)"
  by (auto simp: ba_inv_def)

subsection \<open>\<open>ByteArray\<close> is a byte store\<close>

interpretation ba: byte_store "ba_write junk" ba_read setPosition ba_inv ba_data m_position m_endian
  for junk
proof unfold_locales
  fix s assume "ba_inv s"
  then show "m_position s \<le> length (ba_data s)" by (simp add: length_ba_data ba_invD(5))
next
  fix s bs assume "ba_inv s"
  then show "\<exists>s'. ba_write junk bs s = Ok () s' \<and> ba_inv s' \<and>
      m_position s' = m_position s + length bs \<and>
      ba_data s' = overwrite (ba_data s) (m_position s) bs \<and> m_endian s' = m_endian s"
    using write_correct [of s junk bs] by blast
next
  fix s n assume s: "ba_inv s" and n: "0 < n" "m_position s + n \<le> length (ba_data s)"
  then have le: "n \<le> m_size s - m_position s" and lt: "m_position s < m_capacity s"
    using ba_invD(6) [OF s] by (simp_all add: length_ba_data)
  show "\<exists>s'. ba_read n s = Ok (take n (ba_rest s)) s' \<and> ba_inv s' \<and>
      m_position s' = m_position s + n \<and> ba_data s' = ba_data s \<and> m_endian s' = m_endian s"
    using read_correct [OF s le lt] read_inv [OF s le] by (simp add: ba_data_def)
next
  fix s n assume s: "ba_inv s" and n: "length (ba_data s) < m_position s + n"
  then have "m_size s - m_position s < n" using ba_invD(5) [OF s] by (simp add: length_ba_data)
  then show "\<exists>e. ba_read n s = Throw e s" using read_out_of_range [OF s] by blast
next
  fix s p assume s: "ba_inv s" and p: "p \<le> length (ba_data s)"
  then have le: "p \<le> m_size s" and cap: "p \<le> m_capacity s"
    using ba_invD(6) [OF s] by (simp_all add: length_ba_data)
  show "\<exists>s'. setPosition p s = Ok () s' \<and> ba_inv s' \<and> m_position s' = p \<and>
      ba_data s' = ba_data s \<and> m_endian s' = m_endian s"
    using setPosition_correct [OF s cap] setPosition_inv [OF s cap] le by (simp add: ba_data_def max_def)
qed

subsection \<open>Scatter/gather views\<close>

text \<open>The flat addresses and the bytes a list of \<open>iovec\<close>s denotes.\<close>

definition iov_addrs :: "nat \<Rightarrow> iovec list \<Rightarrow> nat list" where
  "iov_addrs w iovs = concat (map (\<lambda>(c, off, l). [w * c + off..<w * c + off + l]) iovs)"

definition iov_bytes :: "u8 list list \<Rightarrow> iovec list \<Rightarrow> u8 list" where
  "iov_bytes nodes iovs = concat (map (\<lambda>(c, off, l). take l (drop off (nodes ! c))) iovs)"

definition iov_in_chain :: "u8 list list \<Rightarrow> iovec \<Rightarrow> bool" where
  "iov_in_chain nodes v = (case v of (c, off, l) \<Rightarrow> c < length nodes \<and> 0 < l \<and> off + l \<le> length (nodes ! c))"

lemma iov_loop_unfold:
  "iov_loop nodes c npos ncap 0 buf = Inr buf"
  "0 < n \<Longrightarrow> n \<le> ncap \<Longrightarrow> iov_loop nodes c npos ncap n buf = Inr (buf @ [(c, npos, n)])"
  "ncap < n \<Longrightarrow> next_node nodes c = Some c' \<Longrightarrow> iov_loop nodes c npos ncap n buf =
     iov_loop nodes c' 0 (length (nodes ! c')) (n - ncap) (buf @ [(c, npos, ncap)])"
  by (subst iov_loop.simps, auto)+

lemma upt_split: "i \<le> j \<Longrightarrow> j \<le> k \<Longrightarrow> [i..<j] @ [j..<k] = [i..<k]"
  by (metis le_add_diff_inverse upt_add_eq_append)

lemma iov_loop_correct:
  assumes "uniform w nodes" and "c < length nodes" and "npos < w" and "ncap = w - npos"
    and "w * c + npos + n \<le> w * length nodes"
  shows "\<exists>iovs. iov_loop nodes c npos ncap n buf = Inr (buf @ iovs) \<and> list_all (iov_in_chain nodes) iovs \<and>
     iov_addrs w iovs = [w * c + npos..<w * c + npos + n]"
  using assms
proof (induction nodes c npos ncap n buf rule: iov_loop.induct)
  case (1 nodes c npos ncap n buf)
  note U = "1.prems"(1) and c = "1.prems"(2) and np = "1.prems"(3) and nc = "1.prems"(4)
  have w: "0 < w" using U by (simp add: uniform_def)
  have len: "length (nodes ! c) = w" using U c by (rule uniform_nth)
  consider "n = 0" | "0 < n" "n \<le> ncap" | "ncap < n" by force
  then show ?case
  proof cases
    case 1
    then show ?thesis by (simp add: iov_loop_unfold iov_addrs_def)
  next
    case 2
    with c np nc len show ?thesis by (simp add: iov_loop_unfold(2) iov_addrs_def iov_in_chain_def)
  next
    case 3
    have nx: "next_node nodes c = Some (Suc c)" "Suc c < length nodes"
      using next_in_chain [OF w, of c nodes npos n] "1.prems" 3 by auto
    have pos: "w * c + npos + ncap = w * Suc c" using np nc by simp
    have "\<exists>iovs. iov_loop nodes (Suc c) 0 (length (nodes ! Suc c)) (n - ncap) (buf @ [(c, npos, ncap)]) =
            Inr ((buf @ [(c, npos, ncap)]) @ iovs) \<and> list_all (iov_in_chain nodes) iovs \<and>
          iov_addrs w iovs = [w * Suc c + 0..<w * Suc c + 0 + (n - ncap)]"
      by (rule "1.IH") (use 3 nx w pos "1.prems" uniform_nth [OF U, of "Suc c"] in auto)
    then obtain iovs where R:
      "iov_loop nodes (Suc c) 0 (length (nodes ! Suc c)) (n - ncap) (buf @ [(c, npos, ncap)]) =
         Inr (buf @ (c, npos, ncap) # iovs)" "list_all (iov_in_chain nodes) iovs"
      "iov_addrs w iovs = [w * Suc c + 0..<w * Suc c + 0 + (n - ncap)]" by auto
    moreover have "[w * Suc c + 0..<w * Suc c + 0 + (n - ncap)] = [w * c + npos + ncap..<w * c + npos + n]"
      unfolding pos [symmetric] using 3 by (simp add: add.assoc)
    ultimately have "iov_addrs w ((c, npos, ncap) # iovs) = [w * c + npos..<w * c + npos + n]"
      using 3 upt_split [of "w * c + npos" "w * c + npos + ncap" "w * c + npos + n"]
      by (simp add: iov_addrs_def)
    moreover have "list_all (iov_in_chain nodes) ((c, npos, ncap) # iovs)"
      using R(2) c np nc len by (simp add: iov_in_chain_def)
    ultimately show ?thesis using R(1) by (metis iov_loop_unfold(3) [OF 3 nx(1)])
  qed
qed

lemma iov_bytes_addrs:
  assumes "uniform w nodes" and "list_all (iov_in_chain nodes) iovs"
  shows "iov_bytes nodes iovs = map ((!) (concat nodes)) (iov_addrs w iovs)"
  using assms(2)
proof (induction iovs)
  case Nil
  then show ?case by (simp add: iov_bytes_def iov_addrs_def)
next
  case (Cons v iovs)
  obtain c off l where v: "v = (c, off, l)" by (cases v)
  with Cons.prems have b: "c < length nodes" "off + l \<le> w"
    using uniform_nth [OF assms(1)] by (auto simp: iov_in_chain_def)
  then have fit: "w * c + off + l \<le> length (concat nodes)"
    using assms(1) length_concat_uniform [of nodes w] mult_le_mono2 [of "Suc c" "length nodes" w]
    by (simp add: uniform_def)
  have "take l (drop off (nodes ! c)) = take l (drop (w * c + off) (concat nodes))"
    using b assms(1) by (simp add: take_drop_concat_uniform uniform_def)
  also have "\<dots> = map ((!) (concat nodes)) [w * c + off..<w * c + off + l]"
    using fit by (intro nth_equalityI) auto
  finally show ?case using Cons v by (simp add: iov_bytes_def iov_addrs_def)
qed

lemma map_nth_upt: "i \<le> length xs \<Longrightarrow> j \<le> length xs \<Longrightarrow> map ((!) xs) [i..<j] = take (j - i) (drop i xs)"
  by (intro nth_equalityI) auto

lemma chain_iovs:
  assumes "ba_inv s" and "p < m_capacity s" and "p + n \<le> m_capacity s"
  obtains iovs where
    "iov_loop (m_nodes s) (p div m_baseSize s) (p mod m_baseSize s)
       (m_baseSize s - p mod m_baseSize s) n buf = Inr (buf @ iovs)"
    "list_all (iov_in_chain (m_nodes s)) iovs" "iov_addrs (m_baseSize s) iovs = [p..<p + n]"
  using iov_loop_correct [OF inv_uniform [OF assms(1)], of "p div m_baseSize s" "p mod m_baseSize s" _ n buf]
    ba_invD(1,4) [OF assms(1)] assms(2,3) by (fastforce simp: div_less_blocks)

lemma chain_iov_bytes:
  assumes "ba_inv s" and "list_all (iov_in_chain (m_nodes s)) iovs"
    and "iov_addrs (m_baseSize s) iovs = [p..<p + n]" and "p + n \<le> m_capacity s"
  shows "iov_bytes (m_nodes s) iovs = take n (drop p (concat (m_nodes s)))"
  using iov_bytes_addrs [OF inv_uniform [OF assms(1)] assms(2)] assms
  by (simp add: map_nth_upt length_flat)

lemma getReadBuffers_correct:
  assumes inv: "ba_inv s"
  shows "\<exists>iovs. getReadBuffers buffers len s = Ok (buffers @ iovs, min len (m_size s - m_position s)) s \<and>
     list_all (iov_in_chain (m_nodes s)) iovs \<and> iov_bytes (m_nodes s) iovs = take len (ba_rest s)"
proof -
  define n where "n = min len (m_size s - m_position s)"
  note I = ba_invD [OF inv]
  have n: "n = (if len > getSizeForRead s then getSizeForRead s else len)"
    by (simp add: n_def getSizeForRead_inv [OF inv] min_def)
  have rest: "take len (ba_rest s) = take n (drop (m_position s) (concat (m_nodes s)))"
    using I by (simp add: ba_data_def drop_take min_def n_def)
  show ?thesis
  proof (cases "n = 0")
    case True
    then show ?thesis unfolding n_def [symmetric] rest
      by (auto simp: getReadBuffers_def n [symmetric] iov_bytes_def intro: exI [of _ "[]"])
  next
    case False
    then have lt: "m_position s < m_capacity s" using I by (auto simp: n_def)
    note B = inv_block [OF inv lt]
    have fit: "m_position s + n \<le> m_capacity s" using I by (simp add: n_def)
    from inv lt fit obtain iovs where R:
      "iov_loop (m_nodes s) (m_position s div m_baseSize s) (m_position s mod m_baseSize s)
         (m_baseSize s - m_position s mod m_baseSize s) n buffers = Inr (buffers @ iovs)"
      "list_all (iov_in_chain (m_nodes s)) iovs"
      "iov_addrs (m_baseSize s) iovs = [m_position s..<m_position s + n]" by (rule chain_iovs)
    have "getReadBuffers buffers len s = Ok (buffers @ iovs, n) s"
      using False R(1) B(1,4) I(1) by (simp add: getReadBuffers_def n [symmetric])
    moreover have "iov_bytes (m_nodes s) iovs = take n (drop (m_position s) (concat (m_nodes s)))"
      using inv R(2,3) fit by (rule chain_iov_bytes)
    ultimately show ?thesis using R(2) rest unfolding n_def [symmetric] by auto
  qed
qed

lemma getReadBuffersAt_correct:
  assumes inv: "ba_inv s" and p: "p < m_size s"
  shows "\<exists>iovs r. getReadBuffersAt buffers len p s = Ok (buffers @ iovs, r) s \<and>
     list_all (iov_in_chain (m_nodes s)) iovs \<and>
     iov_bytes (m_nodes s) iovs = take len (drop p (ba_data s))"
proof -
  define n where "n = min len (m_size s - p)"
  let ?w = "m_baseSize s"
  note I = ba_invD [OF inv]
  have c: "p div ?w < length (m_nodes s)" "p mod ?w < ?w" "length (m_nodes s ! (p div ?w)) = ?w"
    using I p uniform_nth [OF inv_uniform [OF inv]] by (auto simp: div_less_blocks)
  have fit: "p < m_capacity s" "p + n \<le> m_capacity s" using I p by (auto simp: n_def)
  from inv fit obtain iovs where R:
    "iov_loop (m_nodes s) (p div ?w) (p mod ?w) (?w - p mod ?w) n buffers = Inr (buffers @ iovs)"
    "list_all (iov_in_chain (m_nodes s)) iovs" "iov_addrs ?w iovs = [p..<p + n]" by (rule chain_iovs)
  have "iov_bytes (m_nodes s) iovs = take n (drop p (concat (m_nodes s)))"
    using inv R(2,3) fit(2) by (rule chain_iov_bytes)
  also have "\<dots> = take len (drop p (ba_data s))"
    using I p by (simp add: ba_data_def drop_take min_def n_def)
  finally show ?thesis
    using R c I(1) p by (auto simp: getReadBuffersAt_def Let_def n_def [symmetric])
qed

lemma getWriteBuffers_correct:
  assumes inv: "ba_inv s" and n: "0 < len"
  shows "\<exists>iovs s'. getWriteBuffers junk buffers len s = Ok (buffers @ iovs, len) s' \<and> grown s s' len \<and>
     list_all (iov_in_chain (m_nodes s')) iovs \<and>
     iov_addrs (m_baseSize s') iovs = [m_position s..<m_position s + len]"
proof -
  obtain s1 where s1: "addCapacityIfNeeded junk len s = Ok () s1" and g: "grown s s1 len"
    using addCapacityIfNeeded_grown [OF inv n] by blast
  then have inv1: "ba_inv s1" and p: "m_position s1 = m_position s"
    and fit: "m_position s1 + len \<le> m_capacity s1" by (simp_all add: grown_def)
  have lt: "m_position s1 < m_capacity s1" using fit n by simp
  note I = ba_invD [OF inv1] and B = inv_block [OF inv1 lt]
  let ?w = "m_baseSize s1"
  from inv1 lt fit obtain iovs where R:
    "iov_loop (m_nodes s1) (m_position s1 div ?w) (m_position s1 mod ?w)
       (?w - m_position s1 mod ?w) len buffers = Inr (buffers @ iovs)"
    "list_all (iov_in_chain (m_nodes s1)) iovs"
    "iov_addrs ?w iovs = [m_position s1..<m_position s1 + len]" by (rule chain_iovs)
  have "iovs \<noteq> []" using R(3) n by (auto simp: iov_addrs_def dest: sym)
  with R B I(1) s1 n have "getWriteBuffers junk buffers len s = Ok (buffers @ iovs, len) s1"
    by (simp add: getWriteBuffers_def)
  with R g p show ?thesis by auto
qed

subsection \<open>Peeking anywhere, text\<close>

lemma seek_correct:
  assumes "uniform w nodes" and "p < w * length nodes"
  shows "seek nodes c p = Some (c + p div w, p mod w)"
  using assms
proof (induction nodes arbitrary: c p)
  case Nil
  then show ?case by simp
next
  case (Cons n ns)
  then have w: "0 < w" "length n = w" "uniform w ns" by (auto simp: uniform_def)
  show ?case
  proof (cases "p < w")
    case True
    then show ?thesis using w by simp
  next
    case False
    then have "seek ns (Suc c) (p - w) = Some (Suc c + (p - w) div w, (p - w) mod w)"
      using Cons w by (intro Cons.IH) auto
    with False w show ?thesis by (simp add: le_div_geq le_mod_geq)
  qed
qed

lemma readForPeekAt_correct:
  assumes inv: "ba_inv s" and n: "n \<le> m_size s - m_position s" "p + n \<le> m_size s" and p: "p < m_capacity s"
  shows "readForPeekAt n p s = Ok (take n (drop p (ba_data s))) s"
proof -
  note I = ba_invD [OF inv]
  let ?w = "m_baseSize s"
  have c: "p div ?w < length (m_nodes s)" "p mod ?w < ?w" "length (m_nodes s ! (p div ?w)) = ?w"
    using I p uniform_nth [OF inv_uniform [OF inv]] by (auto simp: div_less_blocks)
  have "peek_loop (m_nodes s) (p div ?w) (p mod ?w) (?w - p mod ?w) n [] =
      Inr ([] @ take n (drop (?w * (p div ?w) + p mod ?w) (concat (m_nodes s))))"
    by (rule peek_loop_correct [OF inv_uniform [OF inv] c(1,2) refl]) (use n I in auto)
  moreover have "take n (drop p (concat (m_nodes s))) = take n (drop p (ba_data s))"
    using n by (simp add: ba_data_def drop_take)
  ultimately show ?thesis
    using n c p I seek_correct [OF inv_uniform [OF inv], of p 0]
    by (simp add: readForPeekAt_def getSizeForRead_inv [OF inv])
qed

lemma toString_correct:
  assumes "ba_inv s"
  shows "toString s = Ok (ba_rest s) s"
proof (cases "getSizeForRead s = 0")
  case True
  then show ?thesis using assms
    by (simp add: toString_def getSizeForRead_inv length_ba_data)
next
  case False
  then have "m_position s < m_capacity s" using assms by (auto simp: getSizeForRead_inv ba_inv_def)
  with False peek_correct [OF assms, of "m_size s - m_position s"] show ?thesis
    using assms by (simp add: toString_def getSizeForRead_inv length_ba_data)
qed

subsection \<open>Files\<close>

lemma file_loop_unfold:
  "file_loop nodes w cur pos 0 out = Inr out"
  "0 < n \<Longrightarrow> c < length nodes \<Longrightarrow> diff = pos mod int w \<Longrightarrow> len = min (int w) n - diff \<Longrightarrow>
   0 \<le> len \<Longrightarrow> diff + len \<le> int (length (nodes ! c)) \<Longrightarrow>
   file_loop nodes w (Some c) pos n out =
     file_loop nodes w (next_node nodes c) (pos + len) (n - len)
       (out @ take (nat len) (drop (nat diff) (nodes ! c)))"
  by (subst file_loop.simps, auto simp: Let_def min_def)+

lemma file_loop_correct:
  assumes "uniform w nodes" and "p + n \<le> w * length nodes" and "p mod w = 0 \<or> w \<le> n"
  shows "file_loop nodes w (cur_at w (length nodes) p) (int p) (int n) out =
           Inr (out @ take n (drop p (concat nodes)))"
  using assms(2,3)
proof (induction n arbitrary: p out rule: less_induct)
  case (less n)
  have w: "0 < w" using assms(1) by (simp add: uniform_def)
  show ?case
  proof (cases "n = 0")
    case True
    then show ?thesis by (simp add: file_loop_unfold)
  next
    case False
    define c where "c = p div w"
    define d where "d = p mod w"
    define l where "l = min w n - d"
    have lt: "p < w * length nodes" using less.prems(1) False by simp
    then have c: "c < length nodes" "length (nodes ! c) = w" and d: "d < w" and pe: "p = w * c + d"
      using w uniform_nth [OF assms(1)] by (simp_all add: c_def d_def div_less_blocks)
    have l: "0 < l" "l \<le> n" "d + l \<le> w" "d \<le> min w n"
      using less.prems(2) d False by (auto simp: l_def d_def)
    have l': "d + l = w \<or> l = n" using less.prems(2) d by (auto simp: l_def d_def)
    have cur: "cur_at w (length nodes) p = Some c" using lt by (simp add: cur_at_def c_def)
    have nx: "file_loop nodes w (next_node nodes c) (int (p + l)) (int (n - l)) out' =
        Inr (out' @ take (n - l) (drop (p + l) (concat nodes)))" for out'
    proof (cases "l = n")
      case True
      then show ?thesis by (simp add: file_loop_unfold)
    next
      case False
      with l' pe have pl: "p + l = w * Suc c" by simp
      then have "next_node nodes c = cur_at w (length nodes) (p + l)"
        using c w by (simp add: next_node_uniform [of c "length nodes" w] del: mult_Suc_right)
      then show ?thesis using less.IH [of "n - l" "p + l"] less.prems(1) l pl False by simp
    qed
    have chunk: "take l (drop d (nodes ! c)) = take l (drop p (concat nodes))"
      using take_drop_concat_uniform [of nodes w c d l] assms(1) c l pe by (simp add: uniform_def)
    have di: "int d = int p mod int w" by (simp add: d_def zmod_int)
    have li: "int l = min (int w) (int n) - int d" using l(4) by (simp add: l_def of_nat_diff)
    have "file_loop nodes w (Some c) (int p) (int n) out =
        file_loop nodes w (next_node nodes c) (int p + int l) (int n - int l)
          (out @ take (nat (int l)) (drop (nat (int d)) (nodes ! c)))"
      by (rule file_loop_unfold(2) [OF _ _ di li]) (use False c l in auto)
    also have "\<dots> = Inr ((out @ take l (drop d (nodes ! c))) @ take (n - l) (drop (p + l) (concat nodes)))"
      using nx [of "out @ take l (drop d (nodes ! c))"] l by (simp add: of_nat_diff)
    finally show ?thesis
      using l chunk take_take_drop_append [of l p "concat nodes" "n - l"] cur by simp
  qed
qed

lemma writeToFile_correct:
  assumes inv: "ba_inv s" and al: "m_position s mod m_baseSize s = 0 \<or> m_baseSize s \<le> getSizeForRead s"
  shows "writeToFile True s = Inr (True, ba_rest s)"
proof -
  note I = ba_invD [OF inv] and g = getSizeForRead_inv [OF inv]
  have "file_loop (m_nodes s) (m_baseSize s) (m_cur s) (int (m_position s)) (int (getSizeForRead s)) [] =
      Inr ([] @ take (getSizeForRead s) (drop (m_position s) (concat (m_nodes s))))"
    unfolding I(7) by (rule file_loop_correct [OF inv_uniform [OF inv] _ al]) (use I g in auto)
  moreover have "take (getSizeForRead s) (drop (m_position s) (concat (m_nodes s))) = ba_rest s"
    using g by (simp add: ba_data_def drop_take)
  ultimately show ?thesis using I(1) by (simp add: writeToFile_def)
qed

lemma file_chunks_correct:
  assumes "ba_inv s" and "0 < base"
  shows "\<exists>s'. file_chunks junk base bs s = Ok () s' \<and> ba_inv s' \<and>
     m_position s' = m_position s + length bs \<and>
     ba_data s' = overwrite (ba_data s) (m_position s) bs \<and> m_endian s' = m_endian s"
  using assms
proof (induction bs arbitrary: s rule: length_induct)
  case (1 bs)
  show ?case
  proof (cases "length bs < base")
    case True
    then show ?thesis using write_correct [OF "1.prems"(1), of junk bs]
      by (subst file_chunks.simps) auto
  next
    case False
    obtain s1 where s1: "ba_write junk (take base bs) s = Ok () s1" "ba_inv s1"
      "m_position s1 = m_position s + length (take base bs)"
      "ba_data s1 = overwrite (ba_data s) (m_position s) (take base bs)" "m_endian s1 = m_endian s"
      using write_correct [OF "1.prems"(1), of junk "take base bs"] by blast
    have "length (drop base bs) < length bs" using False "1.prems"(2) by simp
    with "1.IH" s1(2) "1.prems"(2) obtain s2 where s2: "file_chunks junk base (drop base bs) s1 = Ok () s2"
      "ba_inv s2" "m_position s2 = m_position s1 + length (drop base bs)"
      "ba_data s2 = overwrite (ba_data s1) (m_position s1) (drop base bs)" "m_endian s2 = m_endian s1"
      by blast
    have "m_position s \<le> length (ba_data s)" using "1.prems"(1) by (simp add: length_ba_data ba_invD(5))
    then have "ba_data s2 = overwrite (ba_data s) (m_position s) bs"
      using s1 s2 overwrite_append [of "m_position s" "ba_data s" "take base bs" "drop base bs"] by simp
    moreover have "file_chunks junk base bs s = Ok () s2"
      using False "1.prems"(2) s1(1) s2(1) by (subst file_chunks.simps) simp
    ultimately show ?thesis using s1 s2 False by simp
  qed
qed

lemma readFromFile_correct:
  assumes "ba_inv s"
  shows "\<exists>s'. readFromFile junk (Some bs) s = Some (Ok True s') \<and> ba_inv s' \<and>
     m_position s' = m_position s + length bs \<and> ba_data s' = overwrite (ba_data s) (m_position s) bs"
  using file_chunks_correct [OF assms ba_invD(1) [OF assms], of junk bs] ba_invD(1) [OF assms]
  by (auto simp: readFromFile_def)

subsection \<open>Properties\<close>

text \<open>C1. \<open>write\<close> refines \<open>memcpy\<close> into a growing flat buffer: on a well-formed array it always succeeds,
  for any number of bytes and any node size, overwrites exactly the bytes at the position, extends the
  data when it runs past the end, advances the position and keeps the array well-formed.\<close>

theorem array_write_refines:
  assumes "ba_inv s"
  shows "\<exists>s'. ba_write junk buf s = Ok () s' \<and> ba_inv s' \<and>
     m_position s' = m_position s + length buf \<and>
     ba_data s' = overwrite (ba_data s) (m_position s) buf \<and>
     m_size s' = max (m_size s) (m_position s + length buf) \<and> m_endian s' = m_endian s"
proof -
  obtain s' where s': "ba_write junk buf s = Ok () s'" "ba_inv s'"
    "m_position s' = m_position s + length buf"
    "ba_data s' = overwrite (ba_data s) (m_position s) buf" "m_endian s' = m_endian s"
    using write_correct [OF assms] by blast
  have "m_position s \<le> length (ba_data s)" using assms by (simp add: length_ba_data ba_invD(5))
  then have "length (ba_data s') = max (m_size s) (m_position s + length buf)"
    using s'(4) assms by (simp add: length_ba_data)
  then have "m_size s' = max (m_size s) (m_position s + length buf)" using s'(2) by (simp add: length_ba_data)
  with s' show ?thesis by blast
qed

theorem array_write_refines_witness:
  "ba_inv (ByteArray_new (\<lambda>_ _. 0) 2) \<and>
   (\<exists>s'. ba_write (\<lambda>_ _. 0) [1, 2, 3, 4, 5] (ByteArray_new (\<lambda>_ _. 0) 2) = Ok () s' \<and>
         ba_data s' = [1, 2, 3, 4, 5] \<and> m_position s' = 5)"
  using array_write_refines [OF ByteArray_new_inv [of 2 "\<lambda>_ _. 0"], of "\<lambda>_ _. 0" "[1, 2, 3, 4, 5]"]
    ByteArray_new_inv [of 2 "\<lambda>_ _. 0"]
  by (auto simp: ByteArray_new_def ba_data_def overwrite_def)

text \<open>C19. \<open>read\<close> on every branch: a request beyond the data throws and changes nothing; otherwise the
  bytes at the position are returned and the position moves past them, the array staying well-formed.
  The one exception is an empty request at the very end of the chain, where the code dereferences a
  null \<open>m_cur\<close>.\<close>

theorem array_read_refines:
  assumes "ba_inv s"
  shows "if m_size s - m_position s < n then ba_read n s = Throw (OutOfRange ''not enough len to read'') s
         else if n = 0 \<and> m_position s = m_capacity s then ba_read n s = Crash NullDeref
         else \<exists>s'. ba_read n s = Ok (take n (ba_rest s)) s' \<and> length (take n (ba_rest s)) = n \<and>
                ba_inv s' \<and> m_position s' = m_position s + n \<and> ba_data s' = ba_data s"
proof -
  note I = ba_invD [OF assms]
  consider (short) "m_size s - m_position s < n"
    | (stop) "n \<le> m_size s - m_position s" "m_position s = m_capacity s"
    | (fine) "n \<le> m_size s - m_position s" "m_position s < m_capacity s"
    using I by fastforce
  then show ?thesis
  proof cases
    case short
    then show ?thesis using read_out_of_range [OF assms] by simp
  next
    case stop
    then have "n = 0" and "deref s = None" using I deref_inv [OF assms] by simp_all
    then show ?thesis using stop I by (simp add: ba_read_def)
  next
    case fine
    then show ?thesis
      using read_correct [OF assms fine] read_inv [OF assms fine(1)] I
      by (auto simp: length_ba_data [OF assms]) (auto simp: ba_data_def)
  qed
qed

theorem array_read_refines_witness:
  "ba_inv (ByteArray_new (\<lambda>_ _. 0) 2) \<and>
   ba_read 1 (ByteArray_new (\<lambda>_ _. 0) 2) =
     Throw (OutOfRange ''not enough len to read'') (ByteArray_new (\<lambda>_ _. 0) 2)"
  using array_read_refines [OF ByteArray_new_inv [of 2 "\<lambda>_ _. 0"], of 1] ByteArray_new_inv [of 2 "\<lambda>_ _. 0"]
  by (simp add: ByteArray_new_def)

text \<open>The regions \<open>getWriteBuffers\<close> hands to \<open>recvmsg\<close> are exactly the addresses of the next \<open>len\<close>
  bytes from the position on, in order and inside allocated nodes, after growing the chain
  as needed without changing the data; those of \<open>getReadBuffers\<close> hold exactly the
  next bytes of the data.\<close>

theorem scatter_gather_regions:
  assumes "ba_inv s" and "0 < len"
  shows "(\<exists>iovs s'. getWriteBuffers junk [] len s = Ok (iovs, len) s' \<and> ba_inv s' \<and> ba_data s' = ba_data s \<and>
            list_all (iov_in_chain (m_nodes s')) iovs \<and>
            iov_addrs (m_baseSize s') iovs = [m_position s..<m_position s + len]) \<and>
         (\<exists>iovs. getReadBuffers [] len s = Ok (iovs, min len (m_size s - m_position s)) s \<and>
            list_all (iov_in_chain (m_nodes s)) iovs \<and> iov_bytes (m_nodes s) iovs = take len (ba_rest s))"
  using getWriteBuffers_correct [OF assms, of junk "[]"] getReadBuffers_correct [OF assms(1), of "[]" len]
  by (auto simp: grown_def)

theorem scatter_gather_regions_witness:
  "ba_inv (ByteArray_new (\<lambda>_ _. 0) 2) \<and> (0::nat) < 5 \<and>
   (\<exists>iovs s'. getWriteBuffers (\<lambda>_ _. 0) [] 5 (ByteArray_new (\<lambda>_ _. 0) 2) = Ok (iovs, 5) s' \<and>
      iov_addrs (m_baseSize s') iovs = [0, 1, 2, 3, 4])"
  using scatter_gather_regions [OF ByteArray_new_inv [of 2 "\<lambda>_ _. 0"], of 5 "\<lambda>_ _. 0"]
    ByteArray_new_inv [of 2 "\<lambda>_ _. 0"]
  by (auto simp: ByteArray_new_def upt_rec)

text \<open>Saving to a file and loading it: if the position is at the start of a node or at least a node
  of data is left, \<open>writeToFile\<close> writes exactly the unread bytes, and \<open>readFromFile\<close> of that file into
  any well-formed array writes them at its position, in chunks of any size.\<close>

theorem file_roundtrip:
  assumes "ba_inv s" and "m_position s mod m_baseSize s = 0 \<or> m_baseSize s \<le> getSizeForRead s"
    and "ba_inv t"
  shows "writeToFile True s = Inr (True, ba_rest s) \<and>
     (\<exists>t'. readFromFile junk (Some (ba_rest s)) t = Some (Ok True t') \<and> ba_inv t' \<and>
       m_position t' = m_position t + getSizeForRead s \<and>
       ba_data t' = overwrite (ba_data t) (m_position t) (ba_rest s))"
  using writeToFile_correct [OF assms(1,2)] readFromFile_correct [OF assms(3), of junk "ba_rest s"]
  by (simp add: length_ba_data [OF assms(1)] getSizeForRead_inv [OF assms(1)])

theorem file_roundtrip_witness:
  "ba_inv (ByteArray_new (\<lambda>_ _. 0) 2) \<and> writeToFile True (ByteArray_new (\<lambda>_ _. 0) 2) = Inr (True, [])"
  using file_roundtrip [OF ByteArray_new_inv [of 2 "\<lambda>_ _. 0"] _ ByteArray_new_inv [of 2 "\<lambda>_ _. 0"]]
    ByteArray_new_inv [of 2 "\<lambda>_ _. 0"]
  by (simp add: ByteArray_new_def ba_data_def)

text \<open>Without that condition \<open>writeToFile\<close> fails: with a position inside a node and less than the
  offset left to read, the computed length is negative, whatever the contents.\<close>

theorem writeToFile_unaligned:
  assumes "ba_inv s" and "0 < getSizeForRead s" and "getSizeForRead s < m_position s mod m_baseSize s"
  shows "writeToFile True s = Inl OutOfBounds"
proof -
  note I = ba_invD [OF assms(1)]
  have lt: "m_position s < m_capacity s" using assms(2) I by (simp add: getSizeForRead_inv [OF assms(1)])
  note B = inv_block [OF assms(1) lt]
  have cur: "m_cur s = Some (m_position s div m_baseSize s)" using I lt by (simp add: cur_at_def)
  have small: "getSizeForRead s < m_baseSize s" using assms(3) B(3) by simp
  have "file_loop (m_nodes s) (m_baseSize s) (m_cur s) (int (m_position s)) (int (getSizeForRead s)) [] = Inl OutOfBounds"
    using assms(2,3) B(2) small
    by (subst file_loop.simps) (simp add: cur Let_def not_le flip: zmod_int)
  then show ?thesis using I(1) by (simp add: writeToFile_def)
qed

theorem writeToFile_unaligned_witness:
  "\<exists>s. ba_inv s \<and> getSizeForRead s = 1 \<and> m_position s mod m_baseSize s = 2 \<and>
       writeToFile True s = Inl OutOfBounds"
proof -
  let ?s = "\<lparr>m_baseSize = 4, m_position = 2, m_capacity = 4, m_size = 3, m_endian = SYLAR_BIG_ENDIAN,
             m_nodes = [[1, 2, 3, 4]], m_cur = Some 0\<rparr>"
  have s: "ba_inv ?s" "getSizeForRead ?s = 1" "m_position ?s mod m_baseSize ?s = 2"
    by (simp_all add: ba_inv_def cur_at_def getSizeForRead_def)
  then have "writeToFile True ?s = Inl OutOfBounds" by (intro writeToFile_unaligned) simp_all
  with s show ?thesis by blast
qed

end
