(* ===== verification/ByteCodec.thy ===== *)
theory ByteCodec
  imports ByteArray
begin

text \<open>
  \<open>src/bytearray.cc\<close>: the typed writers and readers of \<open>ByteArray\<close>: fixed-width integers in the
  array's byte order, variable-length integers (7 bits per byte), zigzag coding of signed
  integers, \<open>float\<close>/\<open>double\<close> and strings with a length in front.

  The signed types are bit patterns of the same width. \<open>host\<close> is \<open>SYLAR_BYTE_ORDER\<close>, \<open>junk\<close> the
  contents of newly allocated nodes. \<open>float\<close> and \<open>double\<close> are their IEEE bit patterns: the code only
  moves them with \<open>memcpy\<close>. \<open>buff.resize(len)\<close> of the string readers is taken to succeed.
\<close>

subsection \<open>Fixed-width integers\<close>

definition writeFint8 :: "junk \<Rightarrow> u8 \<Rightarrow> ByteArray \<Rightarrow> (unit, ByteArray) outcome" where
  "writeFint8 junk value s = ba_write junk [value] s"

definition writeFuint8 :: "junk \<Rightarrow> u8 \<Rightarrow> ByteArray \<Rightarrow> (unit, ByteArray) outcome" where
  "writeFuint8 junk value s = ba_write junk [value] s"

definition writeFint16 :: "junk \<Rightarrow> endian \<Rightarrow> u16 \<Rightarrow> ByteArray \<Rightarrow> (unit, ByteArray) outcome" where
  "writeFint16 junk host value s =
     (let value = (if m_endian s \<noteq> host then byteswap16 value else value)
      in ba_write junk (mem_bytes host 2 value) s)"

definition writeFuint16 :: "junk \<Rightarrow> endian \<Rightarrow> u16 \<Rightarrow> ByteArray \<Rightarrow> (unit, ByteArray) outcome" where
  "writeFuint16 junk host value s =
     (let value = (if m_endian s \<noteq> host then byteswap16 value else value)
      in ba_write junk (mem_bytes host 2 value) s)"

definition writeFint32 :: "junk \<Rightarrow> endian \<Rightarrow> u32 \<Rightarrow> ByteArray \<Rightarrow> (unit, ByteArray) outcome" where
  "writeFint32 junk host value s =
     (let value = (if m_endian s \<noteq> host then byteswap32 value else value)
      in ba_write junk (mem_bytes host 4 value) s)"

definition writeFuint32 :: "junk \<Rightarrow> endian \<Rightarrow> u32 \<Rightarrow> ByteArray \<Rightarrow> (unit, ByteArray) outcome" where
  "writeFuint32 junk host value s =
     (let value = (if m_endian s \<noteq> host then byteswap32 value else value)
      in ba_write junk (mem_bytes host 4 value) s)"

definition writeFint64 :: "junk \<Rightarrow> endian \<Rightarrow> u64 \<Rightarrow> ByteArray \<Rightarrow> (unit, ByteArray) outcome" where
  "writeFint64 junk host value s =
     (let value = (if m_endian s \<noteq> host then byteswap64 value else value)
      in ba_write junk (mem_bytes host 8 value) s)"

definition writeFuint64 :: "junk \<Rightarrow> endian \<Rightarrow> u64 \<Rightarrow> ByteArray \<Rightarrow> (unit, ByteArray) outcome" where
  "writeFuint64 junk host value s =
     (let value = (if m_endian s \<noteq> host then byteswap64 value else value)
      in ba_write junk (mem_bytes host 8 value) s)"

definition readFint8 :: "ByteArray \<Rightarrow> (u8, ByteArray) outcome" where
  "readFint8 s = andThen (ba_read 1) (\<lambda>bs. ret (hd bs)) s"

definition readFuint8 :: "ByteArray \<Rightarrow> (u8, ByteArray) outcome" where
  "readFuint8 s = andThen (ba_read 1) (\<lambda>bs. ret (hd bs)) s"

definition readFint16 :: "endian \<Rightarrow> ByteArray \<Rightarrow> (u16, ByteArray) outcome" where
  "readFint16 host s = andThen (ba_read 2) (\<lambda>bs s'.
     let v = of_mem_bytes host bs in Ok (if m_endian s' = host then v else byteswap16 v) s') s"

definition readFuint16 :: "endian \<Rightarrow> ByteArray \<Rightarrow> (u16, ByteArray) outcome" where
  "readFuint16 host s = andThen (ba_read 2) (\<lambda>bs s'.
     let v = of_mem_bytes host bs in Ok (if m_endian s' = host then v else byteswap16 v) s') s"

definition readFint32 :: "endian \<Rightarrow> ByteArray \<Rightarrow> (u32, ByteArray) outcome" where
  "readFint32 host s = andThen (ba_read 4) (\<lambda>bs s'.
     let v = of_mem_bytes host bs in Ok (if m_endian s' = host then v else byteswap32 v) s') s"

definition readFuint32 :: "endian \<Rightarrow> ByteArray \<Rightarrow> (u32, ByteArray) outcome" where
  "readFuint32 host s = andThen (ba_read 4) (\<lambda>bs s'.
     let v = of_mem_bytes host bs in Ok (if m_endian s' = host then v else byteswap32 v) s') s"

definition readFint64 :: "endian \<Rightarrow> ByteArray \<Rightarrow> (u64, ByteArray) outcome" where
  "readFint64 host s = andThen (ba_read 8) (\<lambda>bs s'.
     let v = of_mem_bytes host bs in Ok (if m_endian s' = host then v else byteswap64 v) s') s"

definition readFuint64 :: "endian \<Rightarrow> ByteArray \<Rightarrow> (u64, ByteArray) outcome" where
  "readFuint64 host s = andThen (ba_read 8) (\<lambda>bs s'.
     let v = of_mem_bytes host bs in Ok (if m_endian s' = host then v else byteswap64 v) s') s"

subsection \<open>Zigzag and variable-length integers\<close>

definition EncodingZigzag32 :: "u32 \<Rightarrow> u32" where
  "EncodingZigzag32 v = push_bit 1 v XOR signed_drop_bit (4 * 8 - 1) v"

definition EncodingZigzag64 :: "u64 \<Rightarrow> u64" where
  "EncodingZigzag64 v = push_bit 1 v XOR signed_drop_bit (8 * 8 - 1) v"

definition DecodingZigzag32 :: "u32 \<Rightarrow> u32" where
  "DecodingZigzag32 v = drop_bit 1 v XOR - (v AND 1)"

definition DecodingZigzag64 :: "u64 \<Rightarrow> u64" where
  "DecodingZigzag64 v = drop_bit 1 v XOR - (v AND 1)"

lemma unat_drop7: "0x80 \<le> unat v \<Longrightarrow> unat (drop_bit 7 (v :: 'a::len word)) < unat v"
  by (simp add: unat_drop_bit_eq) (simp add: drop_bit_eq_div)

text \<open>The loop that fills \<open>tmp\<close>: it is the same at both widths.\<close>

function varint_bytes :: "'a::len word \<Rightarrow> u8 list" where
  "varint_bytes value =
     (if unat value \<ge> 0x80 then (ucast (value AND 0x7F) OR 0x80) # varint_bytes (drop_bit 7 value)
      else [ucast value])"
  by pat_completeness auto
termination
  by (relation "measure unat") (simp_all add: unat_drop7)

declare varint_bytes.simps [simp del]

definition writeUint32 :: "junk \<Rightarrow> u32 \<Rightarrow> ByteArray \<Rightarrow> (unit, ByteArray) outcome" where
  "writeUint32 junk value s =
     (let tmp = varint_bytes value
      in if length tmp > 5 then Crash OutOfBounds \<comment> \<open>\<open>uint8_t tmp[5]\<close>\<close>
         else ba_write junk tmp s)"

definition writeUint64 :: "junk \<Rightarrow> u64 \<Rightarrow> ByteArray \<Rightarrow> (unit, ByteArray) outcome" where
  "writeUint64 junk value s =
     (let v = varint_bytes value
      in if length v > 10 then Crash OutOfBounds \<comment> \<open>\<open>uint8_t v[10]\<close>\<close>
         else ba_write junk v s)"

definition writeInt32 :: "junk \<Rightarrow> u32 \<Rightarrow> ByteArray \<Rightarrow> (unit, ByteArray) outcome" where
  "writeInt32 junk value s = writeUint32 junk (EncodingZigzag32 value) s"

definition writeInt64 :: "junk \<Rightarrow> u64 \<Rightarrow> ByteArray \<Rightarrow> (unit, ByteArray) outcome" where
  "writeInt64 junk value s = writeUint64 junk (EncodingZigzag64 value) s"

text \<open>The loop \<open>for(int i = 0; i < width; i += 7)\<close> of the readers.\<close>

function varint_read :: "nat \<Rightarrow> 'a::len word \<Rightarrow> ByteArray \<Rightarrow> ('a word, ByteArray) outcome" where
  "varint_read i result s =
     (if i < LENGTH('a) then
        (case readFuint8 s of
           Ok b s' \<Rightarrow>
             if unat b < 0x80 then Ok (result OR push_bit i (ucast b)) s'
             else varint_read (i + 7) (result OR push_bit i (ucast (b AND 0x7f))) s'
         | Throw e s' \<Rightarrow> Throw e s'
         | Crash x \<Rightarrow> Crash x)
      else Ok result s)"
  by pat_completeness auto
termination
  by (relation "measure (\<lambda>(i, result :: 'a word, s). LENGTH('a) - i)") auto

declare varint_read.simps [simp del]

definition readUint32 :: "ByteArray \<Rightarrow> (u32, ByteArray) outcome" where
  "readUint32 s = varint_read 0 0 s"

definition readUint64 :: "ByteArray \<Rightarrow> (u64, ByteArray) outcome" where
  "readUint64 s = varint_read 0 0 s"

definition readInt32 :: "ByteArray \<Rightarrow> (u32, ByteArray) outcome" where
  "readInt32 s = andThen readUint32 (\<lambda>v. ret (DecodingZigzag32 v)) s"

definition readInt64 :: "ByteArray \<Rightarrow> (u64, ByteArray) outcome" where
  "readInt64 s = andThen readUint64 (\<lambda>v. ret (DecodingZigzag64 v)) s"

subsection \<open>Floating point\<close>

definition writeFloat :: "junk \<Rightarrow> endian \<Rightarrow> u32 \<Rightarrow> ByteArray \<Rightarrow> (unit, ByteArray) outcome" where
  "writeFloat junk host bits s = writeFuint32 junk host bits s"

definition writeDouble :: "junk \<Rightarrow> endian \<Rightarrow> u64 \<Rightarrow> ByteArray \<Rightarrow> (unit, ByteArray) outcome" where
  "writeDouble junk host bits s = writeFuint64 junk host bits s"

definition readFloat :: "endian \<Rightarrow> ByteArray \<Rightarrow> (u32, ByteArray) outcome" where
  "readFloat host s = readFuint32 host s"

definition readDouble :: "endian \<Rightarrow> ByteArray \<Rightarrow> (u64, ByteArray) outcome" where
  "readDouble host s = readFuint64 host s"

subsection \<open>Strings\<close>

text \<open>\<open>put_string\<close> and \<open>get_string\<close> (the macro \<open>XX(type, fun)\<close>): a length written by one of the
  integer writers, then the bytes. The length is converted to the width of the prefix.\<close>

definition put_string :: "(u8 list \<Rightarrow> 's \<Rightarrow> (unit, 's) outcome) \<Rightarrow>
    ('a::len word \<Rightarrow> 's \<Rightarrow> (unit, 's) outcome) \<Rightarrow> u8 list \<Rightarrow> 's \<Rightarrow> (unit, 's) outcome" where
  "put_string wr put_len value s = andThen (put_len (of_nat (length value))) (\<lambda>_. wr value) s"

definition get_string :: "(nat \<Rightarrow> 's \<Rightarrow> (u8 list, 's) outcome) \<Rightarrow>
    ('s \<Rightarrow> ('a::len word, 's) outcome) \<Rightarrow> 's \<Rightarrow> (u8 list, 's) outcome" where
  "get_string rd get_len s = andThen get_len (\<lambda>len. rd (unat len)) s"

definition writeStringF16 :: "junk \<Rightarrow> endian \<Rightarrow> u8 list \<Rightarrow> ByteArray \<Rightarrow> (unit, ByteArray) outcome" where
  "writeStringF16 junk host = put_string (ba_write junk) (writeFuint16 junk host)"

definition writeStringF32 :: "junk \<Rightarrow> endian \<Rightarrow> u8 list \<Rightarrow> ByteArray \<Rightarrow> (unit, ByteArray) outcome" where
  "writeStringF32 junk host = put_string (ba_write junk) (writeFuint32 junk host)"

definition writeStringF64 :: "junk \<Rightarrow> endian \<Rightarrow> u8 list \<Rightarrow> ByteArray \<Rightarrow> (unit, ByteArray) outcome" where
  "writeStringF64 junk host = put_string (ba_write junk) (writeFuint64 junk host)"

definition writeStringVint :: "junk \<Rightarrow> u8 list \<Rightarrow> ByteArray \<Rightarrow> (unit, ByteArray) outcome" where
  "writeStringVint junk = put_string (ba_write junk) (writeUint64 junk)"

definition writeStringWithoutLength :: "junk \<Rightarrow> u8 list \<Rightarrow> ByteArray \<Rightarrow> (unit, ByteArray) outcome" where
  "writeStringWithoutLength junk value s = ba_write junk value s"

definition readStringF16 :: "endian \<Rightarrow> ByteArray \<Rightarrow> (u8 list, ByteArray) outcome" where
  "readStringF16 host = get_string ba_read (readFuint16 host)"

definition readStringF32 :: "endian \<Rightarrow> ByteArray \<Rightarrow> (u8 list, ByteArray) outcome" where
  "readStringF32 host = get_string ba_read (readFuint32 host)"

definition readStringF64 :: "endian \<Rightarrow> ByteArray \<Rightarrow> (u8 list, ByteArray) outcome" where
  "readStringF64 host = get_string ba_read (readFuint64 host)"

definition readStringFVint :: "ByteArray \<Rightarrow> (u8 list, ByteArray) outcome" where
  "readStringFVint = get_string ba_read readUint64"

subsection \<open>Zigzag\<close>

lemma bit_minus_and_1:
  "bit (- (v AND 1) :: 'a::len word) n \<longleftrightarrow> n < LENGTH('a) \<and> odd v"
  by (cases "odd v") (auto simp: and_one_eq odd_iff_mod_2_eq_one even_iff_mod_2_eq_zero bit_simps)

lemma zigzag_bits:
  assumes "LENGTH('a) = Suc n"
  shows "bit (push_bit 1 v XOR signed_drop_bit n (v :: 'a::len word)) k \<longleftrightarrow>
           k < LENGTH('a) \<and> ((0 < k \<and> bit v (k - 1)) \<noteq> bit v n)"
proof -
  have "bit (push_bit 1 v) k \<longleftrightarrow> k < LENGTH('a) \<and> 0 < k \<and> bit v (k - 1)"
    by (simp only: bit_push_bit_iff) (auto simp: bit_simps)
  moreover have "bit (signed_drop_bit n v) k \<longleftrightarrow> k < LENGTH('a) \<and> bit v n"
    using assms by (cases k) (auto simp: bit_signed_drop_bit_iff dest: bit_imp_le_length)
  ultimately show ?thesis by (auto simp only: bit_xor_iff)
qed

lemma zigzag_decode_encode:
  assumes "LENGTH('a) = Suc n"
  shows "(let u = push_bit 1 v XOR signed_drop_bit n (v :: 'a::len word)
          in drop_bit 1 u XOR - (u AND 1)) = v"
proof -
  define u where "u = push_bit 1 v XOR signed_drop_bit n v"
  have u: "bit u k \<longleftrightarrow> k < LENGTH('a) \<and> ((0 < k \<and> bit v (k - 1)) \<noteq> bit v n)" for k
    unfolding u_def using assms by (rule zigzag_bits)
  have odd: "odd u \<longleftrightarrow> bit v n" using u [of 0] by (simp add: bit_0)
  have "drop_bit 1 u XOR - (u AND 1) = v"
  proof (rule bit_word_eqI)
    fix k assume k: "k < LENGTH('a)"
    show "bit (drop_bit 1 u XOR - (u AND 1)) k = bit v k"
    proof (cases "k = n")
      case True
      with k assms show ?thesis by (auto simp: bit_xor_iff bit_drop_bit_eq u bit_minus_and_1 odd)
    next
      case False
      with k assms show ?thesis by (auto simp: bit_xor_iff bit_drop_bit_eq u bit_minus_and_1 odd)
    qed
  qed
  then show ?thesis by (simp add: u_def)
qed

lemma zigzag32 [simp]: "DecodingZigzag32 (EncodingZigzag32 v) = v"
  using zigzag_decode_encode [of 31 v] by (simp add: DecodingZigzag32_def EncodingZigzag32_def Let_def)

lemma zigzag64 [simp]: "DecodingZigzag64 (EncodingZigzag64 v) = v"
  using zigzag_decode_encode [of 63 v] by (simp add: DecodingZigzag64_def EncodingZigzag64_def Let_def)

lemma zigzag_value:
  fixes v :: "'a::len word"
  assumes n: "LENGTH('a) = Suc n"
  shows "uint (push_bit 1 v XOR signed_drop_bit n v) = (if 0 \<le> sint v then 2 * sint v else - 2 * sint v - 1)"
proof -
  have sgn: "bit v n \<longleftrightarrow> sint v < 0" using bit_last_iff [of v] n by simp
  have fill: "signed_drop_bit n v = (if bit v n then - 1 else 0)"
    by (rule bit_word_eqI) (use n in \<open>auto simp: bit_signed_drop_bit_iff not_le dest: bit_imp_le_length\<close>)
  have dbl: "push_bit 1 v = word_of_int (2 * sint v)"
    by (simp add: push_bit_eq_mult mult.commute)
  have bnd: "sint v < 2 ^ n" "- (2 ^ n) \<le> sint v"
    using sint_less [of v] sint_ge [of v] n by simp_all
  have fits: "uint (word_of_int k :: 'a word) = k" if "0 \<le> k" "k < 2 ^ Suc n" for k
    using that n by (simp add: uint_word_of_int_eq take_bit_int_eq_self)
  show ?thesis
  proof (cases "0 \<le> sint v")
    case True
    then show ?thesis using fits [of "2 * sint v"] bnd sgn fill dbl by (simp add: mult.commute)
  next
    case False
    have "push_bit 1 v XOR signed_drop_bit n v = NOT (word_of_int (2 * sint v))"
      using False sgn fill dbl by (simp only: not_le if_True) simp
    also have "\<dots> = word_of_int (- 2 * sint v - 1)" by (simp add: not_eq_complement)
    finally show ?thesis using fits [of "- 2 * sint v - 1"] bnd False by simp
  qed
qed

subsection \<open>Variable-length integers\<close>

lemma varint_bytes_unfold:
  "unat v < 0x80 \<Longrightarrow> varint_bytes v = [ucast v]"
  "0x80 \<le> unat v \<Longrightarrow>
   varint_bytes v = (ucast (v AND 0x7F) OR 0x80) # varint_bytes (drop_bit 7 (v :: 'a::len word))"
  by (subst varint_bytes.simps, simp)+

lemma varint_bytes_ne [simp]: "varint_bytes v \<noteq> []"
  by (subst varint_bytes.simps) simp

lemma unat_drop_bit_div: "unat (drop_bit k (v :: 'a::len word)) = unat v div 2 ^ k"
  by (simp only: unat_drop_bit_eq) (simp add: drop_bit_eq_div)

lemma varint_bytes_length:
  "unat v < 2 ^ (7 * k) \<Longrightarrow> 0 < k \<Longrightarrow> length (varint_bytes v) \<le> k"
proof (induction k arbitrary: v)
  case 0
  then show ?case by simp
next
  case (Suc k)
  show ?case
  proof (cases "unat v < 0x80")
    case True
    then show ?thesis by (simp add: varint_bytes_unfold)
  next
    case False
    then have "unat (drop_bit 7 v) < 2 ^ (7 * k)"
      using Suc.prems by (simp add: unat_drop_bit_div power_add less_mult_imp_div_less mult.commute)
    moreover have "0 < k" using False Suc.prems by (cases k) auto
    ultimately show ?thesis using False Suc.IH by (simp add: varint_bytes_unfold)
  qed
qed

lemma varint_length_32: "length (varint_bytes (v :: u32)) \<le> 5"
  using unsigned_less [of v] by (intro varint_bytes_length) (auto intro: less_le_trans)

lemma varint_length_64: "length (varint_bytes (v :: u64)) \<le> 10"
  using unsigned_less [of v] by (intro varint_bytes_length) (auto intro: less_le_trans)

lemma seven_bits: "(0x7F :: 'a::len word) = mask 7" "bit (0x80 :: u8) k \<longleftrightarrow> k = 7"
proof -
  show "(0x7F :: 'a word) = mask 7" by (simp add: mask_eq_exp_minus_1)
  have "(0x80 :: u8) = push_bit 7 1" by simp
  then show "bit (0x80 :: u8) k \<longleftrightarrow> k = 7" by (simp only: bit_simps) auto
qed

lemma more_byte: "unat ((ucast x :: u8) OR 0x80) \<ge> 0x80"
proof -
  have "bit ((ucast x :: u8) OR 0x80) 7" by (simp add: bit_or_iff seven_bits)
  then have "0x80 \<le> (ucast x :: u8) OR 0x80"
    by (metis bit_iff_and_push_bit_not_eq_0 seven_bits(2) le_word_or2 or.commute)
  then show ?thesis by (simp add: word_le_nat_alt)
qed

lemma seven_bits_back:
  "ucast (((ucast ((v :: 'a::len word) AND 0x7F) :: u8) OR 0x80) AND 0x7f) = v AND 0x7F"
proof -
  have "((b :: u8) OR 0x80) AND 0x7f = b AND 0x7f" for b
    by (rule bit_word_eqI) (simp only: bit_or_iff bit_and_iff seven_bits bit_mask_iff, auto)
  moreover have "ucast ((ucast (v AND 0x7F) :: u8) AND 0x7f) = v AND 0x7F"
    unfolding seven_bits(1) by (rule bit_word_eqI) (auto simp: bit_simps)
  ultimately show ?thesis by simp
qed

lemma take_bit_small: "unat (v :: 'a::len word) < 2 ^ k \<Longrightarrow> take_bit k v = v"
  by (rule word_unat_eq_iff [THEN iffD2]) (simp add: unsigned_take_bit_eq take_bit_nat_eq_self)

lemma small_byte: "unat (v :: 'a::len word) < 0x80 \<Longrightarrow> unat (ucast v :: u8) = unat v"
  by (simp add: unsigned_ucast_eq take_bit_nat_eq_self)

lemma small_byte_back: "unat (v :: 'a::len word) < 0x80 \<Longrightarrow> ucast (ucast v :: u8) = v"
proof -
  have "ucast (ucast v :: u8) = take_bit 8 v" by (rule bit_word_eqI) (auto simp: bit_simps)
  then show "unat v < 0x80 \<Longrightarrow> ucast (ucast v :: u8) = v" by (simp add: take_bit_small)
qed

lemma join_seven:
  "push_bit i (v AND 0x7F) OR push_bit (i + 7) (drop_bit 7 v) = push_bit i (v :: 'a::len word)"
proof (rule bit_word_eqI)
  fix n assume "n < LENGTH('a)"
  moreover have "i + 7 \<le> n \<Longrightarrow> 7 + (n - (i + 7)) = n - i" by simp
  ultimately show "bit (push_bit i (v AND 0x7F) OR push_bit (i + 7) (drop_bit 7 v)) n = bit (push_bit i v) n"
    by (cases "i + 7 \<le> n") (auto simp: bit_simps seven_bits)
qed

lemma readFuint8_next:
  assumes "ba.next_are (b # bs) s"
  shows "\<exists>s'. readFuint8 s = Ok b s' \<and> ba.consumed 1 s s' \<and> ba.next_are bs s'"
proof -
  have n: "ba.next_are ([b] @ bs) s" using assms by simp
  obtain s' where s': "ba_read (length [b]) s = Ok [b] s'" "ba.consumed (length [b]) s s'"
    using ba.rd_next [OF ba.next_are_append(1) [OF n]] by blast
  moreover have "ba.next_are bs s'" using ba.next_are_append(2) [OF n s'(2)] .
  ultimately show ?thesis by (simp add: readFuint8_def)
qed

lemma varint_read_unfold:
  "i < LENGTH('a) \<Longrightarrow> readFuint8 s = Ok b s' \<Longrightarrow> unat b < 0x80 \<Longrightarrow>
   varint_read i (r :: 'a::len word) s = Ok (r OR push_bit i (ucast b)) s'"
  "i < LENGTH('a) \<Longrightarrow> readFuint8 s = Ok b s' \<Longrightarrow> 0x80 \<le> unat b \<Longrightarrow>
   varint_read i r s = varint_read (i + 7) (r OR push_bit i (ucast (b AND 0x7f))) s'"
  by (subst varint_read.simps, simp)+

lemma varint_read_correct:
  assumes "ba.next_are (varint_bytes v) s" and "i < LENGTH('a)" and "unat v < 2 ^ (LENGTH('a) - i)"
  shows "\<exists>s'. varint_read i r s = Ok (r OR push_bit i (v :: 'a::len word)) s' \<and>
           ba.consumed (length (varint_bytes v)) s s'"
  using assms
proof (induction v arbitrary: s i r rule: varint_bytes.induct)
  case (1 v)
  show ?case
  proof (cases "unat v < 0x80")
    case True
    with "1.prems" obtain s' where "readFuint8 s = Ok (ucast v) s'" "ba.consumed 1 s s'"
      using readFuint8_next [of "ucast v" "[]" s] by (auto simp: varint_bytes_unfold)
    with True "1.prems"(2) show ?thesis
      by (simp add: varint_bytes_unfold varint_read_unfold small_byte small_byte_back)
  next
    case False
    let ?b = "(ucast (v AND 0x7F) :: u8) OR 0x80"
    obtain s' where s': "readFuint8 s = Ok ?b s'" "ba.consumed 1 s s'"
      "ba.next_are (varint_bytes (drop_bit 7 v)) s'"
      using False "1.prems"(1) readFuint8_next [of ?b "varint_bytes (drop_bit 7 v)" s]
      by (auto simp: varint_bytes_unfold(2))
    have "(2::nat) ^ 7 < 2 ^ (LENGTH('a) - i)" using False "1.prems"(3) by simp
    then have i: "7 < LENGTH('a) - i" by (simp only: power_strict_increasing_iff)
    then have i7: "i + 7 < LENGTH('a)" by simp
    have "(2::nat) ^ (LENGTH('a) - i) = 2 ^ (LENGTH('a) - (i + 7)) * 2 ^ 7"
      unfolding power_add [symmetric] using i by simp
    then have "unat (drop_bit 7 v) < 2 ^ (LENGTH('a) - (i + 7))"
      using "1.prems"(3) by (simp add: unat_drop_bit_div less_mult_imp_div_less)
    with "1.IH" [of s' "i + 7" "r OR push_bit i (v AND 0x7F)"] False i7 s'(3) obtain s'' where
      "varint_read (i + 7) (r OR push_bit i (v AND 0x7F)) s' =
         Ok ((r OR push_bit i (v AND 0x7F)) OR push_bit (i + 7) (drop_bit 7 v)) s''"
      "ba.consumed (length (varint_bytes (drop_bit 7 v))) s' s''" by auto
    moreover have "varint_read i r s = varint_read (i + 7) (r OR push_bit i (v AND 0x7F)) s'"
      using varint_read_unfold(2) [OF "1.prems"(2) s'(1) more_byte, of r] by (simp only: seven_bits_back)
    ultimately have "varint_read i r s = Ok (r OR push_bit i v) s''"
      by (simp only: or.assoc join_seven)
    moreover have "ba.consumed (1 + length (varint_bytes (drop_bit 7 v))) s s''"
      using s'(2) \<open>ba.consumed (length (varint_bytes (drop_bit 7 v))) s' s''\<close> by (rule ba.consumed_trans)
    ultimately show ?thesis using False by (simp add: varint_bytes_unfold(2))
  qed
qed

subsection \<open>The integer codecs\<close>

lemmas fixed_defs = writeFint8_def writeFuint8_def writeFint16_def writeFuint16_def writeFint32_def
  writeFuint32_def writeFint64_def writeFuint64_def readFint8_def readFuint8_def readFint16_def
  readFuint16_def readFint32_def readFuint32_def readFint64_def readFuint64_def

lemma read_next_bytes:
  assumes "ba.next_are bs s" and "0 < length bs"
  shows "\<exists>s'. ba_read (length bs) s = Ok bs s' \<and> ba.consumed (length bs) s s' \<and> m_endian s' = m_endian s"
  using ba.rd_next [OF assms(1)] assms(2) by (auto simp: ba.consumed_def)

lemma of_mem_bytes_swapped:
  "(if e = host then of_mem_bytes host (mem_bytes e 2 z) else byteswap16 (of_mem_bytes host (mem_bytes e 2 z))) = z"
  "(if e = host then of_mem_bytes host (mem_bytes e 4 y) else byteswap32 (of_mem_bytes host (mem_bytes e 4 y))) = y"
  "(if e = host then of_mem_bytes host (mem_bytes e 8 x) else byteswap64 (of_mem_bytes host (mem_bytes e 8 x))) = x"
  by (simp_all flip: mem_bytes_swapped [of host e])

interpretation u8c: codec "ba_write junk" ba_read setPosition ba_inv ba_data m_position m_endian
    "writeFuint8 junk" readFuint8 "\<lambda>_ v. [v]" "\<lambda>_. True" for junk
  by unfold_locales
     (auto simp: fixed_defs ba.wr_stored dest!: read_next_bytes)

interpretation u16c: codec "ba_write junk" ba_read setPosition ba_inv ba_data m_position m_endian
    "writeFuint16 junk host" "readFuint16 host" "\<lambda>e v. mem_bytes e 2 v" "\<lambda>_. True" for junk host
  by unfold_locales
     (auto simp: fixed_defs ba.wr_stored mem_bytes_swapped of_mem_bytes_swapped Let_def dest!: read_next_bytes)

interpretation u32c: codec "ba_write junk" ba_read setPosition ba_inv ba_data m_position m_endian
    "writeFuint32 junk host" "readFuint32 host" "\<lambda>e v. mem_bytes e 4 v" "\<lambda>_. True" for junk host
  by unfold_locales
     (auto simp: fixed_defs ba.wr_stored mem_bytes_swapped of_mem_bytes_swapped Let_def dest!: read_next_bytes)

interpretation u64c: codec "ba_write junk" ba_read setPosition ba_inv ba_data m_position m_endian
    "writeFuint64 junk host" "readFuint64 host" "\<lambda>e v. mem_bytes e 8 v" "\<lambda>_. True" for junk host
  by unfold_locales
     (auto simp: fixed_defs ba.wr_stored mem_bytes_swapped of_mem_bytes_swapped Let_def dest!: read_next_bytes)

interpretation v32c: codec "ba_write junk" ba_read setPosition ba_inv ba_data m_position m_endian
    "writeUint32 junk" readUint32 "\<lambda>_ v. varint_bytes v" "\<lambda>_. True" for junk
proof unfold_locales
  fix s v assume "ba_inv s"
  then show "\<exists>s'. writeUint32 junk v s = Ok () s' \<and> ba.stored (varint_bytes v) s s'"
    using varint_length_32 [of v] by (simp add: writeUint32_def Let_def ba.wr_stored not_less)
next
  fix s and v :: u32 assume "ba.next_are (varint_bytes v) s"
  then show "\<exists>s'. readUint32 s = Ok v s' \<and> ba.consumed (length (varint_bytes v)) s s'"
    using varint_read_correct [of v s 0 0] unsigned_less [of v] by (simp add: readUint32_def)
qed

interpretation v64c: codec "ba_write junk" ba_read setPosition ba_inv ba_data m_position m_endian
    "writeUint64 junk" readUint64 "\<lambda>_ v. varint_bytes v" "\<lambda>_. True" for junk
proof unfold_locales
  fix s v assume "ba_inv s"
  then show "\<exists>s'. writeUint64 junk v s = Ok () s' \<and> ba.stored (varint_bytes v) s s'"
    using varint_length_64 [of v] by (simp add: writeUint64_def Let_def ba.wr_stored not_less)
next
  fix s and v :: u64 assume "ba.next_are (varint_bytes v) s"
  then show "\<exists>s'. readUint64 s = Ok v s' \<and> ba.consumed (length (varint_bytes v)) s s'"
    using varint_read_correct [of v s 0 0] unsigned_less [of v] by (simp add: readUint64_def)
qed

interpretation z32c: codec "ba_write junk" ba_read setPosition ba_inv ba_data m_position m_endian
    "writeInt32 junk" readInt32 "\<lambda>_ v. varint_bytes (EncodingZigzag32 v)" "\<lambda>_. True" for junk
  by unfold_locales
     (auto simp: writeInt32_def readInt32_def dest!: v32c.get_ok v32c.put_ok)

interpretation z64c: codec "ba_write junk" ba_read setPosition ba_inv ba_data m_position m_endian
    "writeInt64 junk" readInt64 "\<lambda>_ v. varint_bytes (EncodingZigzag64 v)" "\<lambda>_. True" for junk
  by unfold_locales
     (auto simp: writeInt64_def readInt64_def dest!: v64c.get_ok v64c.put_ok)

text \<open>The signed fixed-width and the floating-point operations are the unsigned ones on bit
  patterns.\<close>

lemma signed_fixed:
  "writeFint8 = writeFuint8" "writeFint16 = writeFuint16" "writeFint32 = writeFuint32"
  "writeFint64 = writeFuint64" "readFint8 = readFuint8" "readFint16 = readFuint16"
  "readFint32 = readFuint32" "readFint64 = readFuint64"
  "writeFloat = writeFuint32" "writeDouble = writeFuint64" "readFloat = readFuint32" "readDouble = readFuint64"
  by (simp_all add: fun_eq_iff fixed_defs writeFloat_def writeDouble_def readFloat_def readDouble_def)

subsection \<open>Strings with a length in front\<close>

text \<open>A codec for the length gives a codec for strings, for every string whose length the prefix
  can hold. The empty string is treated apart: reading zero bytes at the very end of the chain
  dereferences a null \<open>m_cur\<close>.\<close>

locale prefixed_string = len: codec wr rd sk inv data pos order put_len get_len enc_len "\<lambda>_. True"
  for wr :: "u8 list \<Rightarrow> 's \<Rightarrow> (unit, 's) outcome" and rd :: "nat \<Rightarrow> 's \<Rightarrow> (u8 list, 's) outcome"
    and sk :: "nat \<Rightarrow> 's \<Rightarrow> (unit, 's) outcome" and inv :: "'s \<Rightarrow> bool"
    and data :: "'s \<Rightarrow> u8 list" and pos :: "'s \<Rightarrow> nat" and order :: "'s \<Rightarrow> endian"
    and put_len :: "'a::len word \<Rightarrow> 's \<Rightarrow> (unit, 's) outcome"
    and get_len :: "'s \<Rightarrow> ('a word, 's) outcome" and enc_len :: "endian \<Rightarrow> 'a word \<Rightarrow> u8 list"

sublocale prefixed_string \<subseteq> codec wr rd sk inv data pos order
  "put_string wr put_len" "get_string rd get_len"
  "\<lambda>e v. enc_len e (of_nat (length v)) @ v" "\<lambda>v. v \<noteq> [] \<and> length v < 2 ^ LENGTH('a)"
proof unfold_locales
  fix s and v :: "u8 list" assume s: "inv s"
  obtain s1 where s1: "put_len (of_nat (length v)) s = Ok () s1"
    "len.stored (enc_len (order s) (of_nat (length v))) s s1" using len.put_ok [OF s] by blast
  then have "inv s1" by (simp add: len.stored_def)
  then obtain s2 where "wr v s1 = Ok () s2" "len.stored v s1 s2" using len.wr_stored by blast
  with s1 s show "\<exists>s'. put_string wr put_len v s = Ok () s' \<and>
      len.stored (enc_len (order s) (of_nat (length v)) @ v) s s'"
    by (auto simp: put_string_def intro: len.stored_trans)
next
  fix s and v :: "u8 list"
  assume n: "len.next_are (enc_len (order s) (of_nat (length v)) @ v) s"
    and ok: "v \<noteq> [] \<and> length v < 2 ^ LENGTH('a)"
  obtain s1 where s1: "get_len s = Ok (of_nat (length v)) s1"
    "len.consumed (length (enc_len (order s) (of_nat (length v)))) s s1"
    using len.get_ok [OF len.next_are_append(1) [OF n]] by blast
  obtain s2 where "rd (length v) s1 = Ok v s2" "len.consumed (length v) s1 s2"
    using len.rd_next [OF len.next_are_append(2) [OF n s1(2)]] ok by blast
  with s1 ok show "\<exists>s'. get_string rd get_len s = Ok v s' \<and>
      len.consumed (length (enc_len (order s) (of_nat (length v)) @ v)) s s'"
    by (auto simp: get_string_def unat_of_nat take_bit_nat_eq_self intro: len.consumed_trans)
qed

interpretation s16: prefixed_string "ba_write junk" ba_read setPosition ba_inv ba_data m_position m_endian
    "writeFuint16 junk host" "readFuint16 host" "\<lambda>e v. mem_bytes e 2 v" for junk host
  by unfold_locales

interpretation s32: prefixed_string "ba_write junk" ba_read setPosition ba_inv ba_data m_position m_endian
    "writeFuint32 junk host" "readFuint32 host" "\<lambda>e v. mem_bytes e 4 v" for junk host
  by unfold_locales

interpretation s64: prefixed_string "ba_write junk" ba_read setPosition ba_inv ba_data m_position m_endian
    "writeFuint64 junk host" "readFuint64 host" "\<lambda>e v. mem_bytes e 8 v" for junk host
  by unfold_locales

interpretation sv: prefixed_string "ba_write junk" ba_read setPosition ba_inv ba_data m_position m_endian
    "writeUint64 junk" readUint64 "\<lambda>_ v. varint_bytes v" for junk
  by unfold_locales

subsection \<open>Messages\<close>

text \<open>A message is a sequence of typed fields, written by the corresponding writers and read back by
  the readers of the same types. \<open>put_field\<close> and \<open>get_field\<close> choose the operations; \<open>field_bytes\<close> is
  the wire format of a field in byte order \<open>e\<close>. \<open>get_field\<close> looks only at the type of the field it
  is given: \<open>blank\<close> removes the value.\<close>

datatype field = FU8 u8 | FU16 u16 | FU32 u32 | FU64 u64 | VU32 u32 | VU64 u64 | VI32 u32 | VI64 u64 |
  S16 "u8 list" | S32 "u8 list" | S64 "u8 list" | SV "u8 list"

fun put_field :: "junk \<Rightarrow> endian \<Rightarrow> field \<Rightarrow> ByteArray \<Rightarrow> (unit, ByteArray) outcome" where
  "put_field junk host (FU8 v) s = writeFuint8 junk v s"
| "put_field junk host (FU16 v) s = writeFuint16 junk host v s"
| "put_field junk host (FU32 v) s = writeFuint32 junk host v s"
| "put_field junk host (FU64 v) s = writeFuint64 junk host v s"
| "put_field junk host (VU32 v) s = writeUint32 junk v s"
| "put_field junk host (VU64 v) s = writeUint64 junk v s"
| "put_field junk host (VI32 v) s = writeInt32 junk v s"
| "put_field junk host (VI64 v) s = writeInt64 junk v s"
| "put_field junk host (S16 v) s = writeStringF16 junk host v s"
| "put_field junk host (S32 v) s = writeStringF32 junk host v s"
| "put_field junk host (S64 v) s = writeStringF64 junk host v s"
| "put_field junk host (SV v) s = writeStringVint junk v s"

fun get_field :: "endian \<Rightarrow> field \<Rightarrow> ByteArray \<Rightarrow> (field, ByteArray) outcome" where
  "get_field host (FU8 _) s = andThen readFuint8 (\<lambda>v. ret (FU8 v)) s"
| "get_field host (FU16 _) s = andThen (readFuint16 host) (\<lambda>v. ret (FU16 v)) s"
| "get_field host (FU32 _) s = andThen (readFuint32 host) (\<lambda>v. ret (FU32 v)) s"
| "get_field host (FU64 _) s = andThen (readFuint64 host) (\<lambda>v. ret (FU64 v)) s"
| "get_field host (VU32 _) s = andThen readUint32 (\<lambda>v. ret (VU32 v)) s"
| "get_field host (VU64 _) s = andThen readUint64 (\<lambda>v. ret (VU64 v)) s"
| "get_field host (VI32 _) s = andThen readInt32 (\<lambda>v. ret (VI32 v)) s"
| "get_field host (VI64 _) s = andThen readInt64 (\<lambda>v. ret (VI64 v)) s"
| "get_field host (S16 _) s = andThen (readStringF16 host) (\<lambda>v. ret (S16 v)) s"
| "get_field host (S32 _) s = andThen (readStringF32 host) (\<lambda>v. ret (S32 v)) s"
| "get_field host (S64 _) s = andThen (readStringF64 host) (\<lambda>v. ret (S64 v)) s"
| "get_field host (SV _) s = andThen readStringFVint (\<lambda>v. ret (SV v)) s"

fun blank :: "field \<Rightarrow> field" where
  "blank (FU8 _) = FU8 0" | "blank (FU16 _) = FU16 0" | "blank (FU32 _) = FU32 0"
| "blank (FU64 _) = FU64 0" | "blank (VU32 _) = VU32 0" | "blank (VU64 _) = VU64 0"
| "blank (VI32 _) = VI32 0" | "blank (VI64 _) = VI64 0" | "blank (S16 _) = S16 []"
| "blank (S32 _) = S32 []" | "blank (S64 _) = S64 []" | "blank (SV _) = SV []"

fun get_fields :: "endian \<Rightarrow> field list \<Rightarrow> ByteArray \<Rightarrow> (field list, ByteArray) outcome" where
  "get_fields host [] s = Ok [] s"
| "get_fields host (f # fs) s =
     andThen (get_field host f) (\<lambda>v. andThen (get_fields host fs) (\<lambda>vs. ret (v # vs))) s"

fun field_bytes :: "endian \<Rightarrow> field \<Rightarrow> u8 list" where
  "field_bytes e (FU8 v) = [v]"
| "field_bytes e (FU16 v) = mem_bytes e 2 v"
| "field_bytes e (FU32 v) = mem_bytes e 4 v"
| "field_bytes e (FU64 v) = mem_bytes e 8 v"
| "field_bytes e (VU32 v) = varint_bytes v"
| "field_bytes e (VU64 v) = varint_bytes v"
| "field_bytes e (VI32 v) = varint_bytes (EncodingZigzag32 v)"
| "field_bytes e (VI64 v) = varint_bytes (EncodingZigzag64 v)"
| "field_bytes e (S16 v) = mem_bytes e 2 (of_nat (length v) :: u16) @ v"
| "field_bytes e (S32 v) = mem_bytes e 4 (of_nat (length v) :: u32) @ v"
| "field_bytes e (S64 v) = mem_bytes e 8 (of_nat (length v) :: u64) @ v"
| "field_bytes e (SV v) = varint_bytes (of_nat (length v) :: u64) @ v"

fun field_ok :: "field \<Rightarrow> bool" where
  "field_ok (S16 v) \<longleftrightarrow> v \<noteq> [] \<and> length v < 2 ^ 16"
| "field_ok (S32 v) \<longleftrightarrow> v \<noteq> [] \<and> length v < 2 ^ 32"
| "field_ok (S64 v) \<longleftrightarrow> v \<noteq> [] \<and> length v < 2 ^ 64"
| "field_ok (SV v) \<longleftrightarrow> v \<noteq> [] \<and> length v < 2 ^ 64"
| "field_ok _ \<longleftrightarrow> True"

lemmas string_defs = writeStringF16_def writeStringF32_def writeStringF64_def writeStringVint_def
  readStringF16_def readStringF32_def readStringF64_def readStringFVint_def

lemma put_field_ok:
  assumes "ba_inv s" and "field_ok f"
  shows "\<exists>s'. put_field junk host f s = Ok () s' \<and> ba.stored (field_bytes (m_endian s) f) s s'"
  using assms u8c.put_ok [OF assms(1)] u16c.put_ok [OF assms(1)] u32c.put_ok [OF assms(1)]
    u64c.put_ok [OF assms(1)] v32c.put_ok [OF assms(1)] v64c.put_ok [OF assms(1)]
    z32c.put_ok [OF assms(1)] z64c.put_ok [OF assms(1)] s16.put_ok [OF assms(1)]
    s32.put_ok [OF assms(1)] s64.put_ok [OF assms(1)] sv.put_ok [OF assms(1)]
  by (cases f) (simp_all add: string_defs)

lemma get_field_ok:
  assumes "ba.next_are (field_bytes (m_endian s) f) s" and "field_ok f"
  shows "\<exists>s'. get_field host f s = Ok f s' \<and> ba.consumed (length (field_bytes (m_endian s) f)) s s'"
proof (cases f)
  case (FU8 v) then show ?thesis using assms u8c.get_ok [of v s] by auto
next
  case (FU16 v) then show ?thesis using assms u16c.get_ok [of s v host] by auto
next
  case (FU32 v) then show ?thesis using assms u32c.get_ok [of s v host] by auto
next
  case (FU64 v) then show ?thesis using assms u64c.get_ok [of s v host] by auto
next
  case (VU32 v) then show ?thesis using assms v32c.get_ok [of v s] by auto
next
  case (VU64 v) then show ?thesis using assms v64c.get_ok [of v s] by auto
next
  case (VI32 v) then show ?thesis using assms z32c.get_ok [of v s] by auto
next
  case (VI64 v) then show ?thesis using assms z64c.get_ok [of v s] by auto
next
  case (S16 v) then show ?thesis using assms s16.get_ok [of s v host] by (auto simp: string_defs)
next
  case (S32 v) then show ?thesis using assms s32.get_ok [of s v host] by (auto simp: string_defs)
next
  case (S64 v) then show ?thesis using assms s64.get_ok [of s v host] by (auto simp: string_defs)
next
  case (SV v) then show ?thesis using assms sv.get_ok [of v s] by (auto simp: string_defs)
qed

abbreviation message_bytes :: "endian \<Rightarrow> field list \<Rightarrow> u8 list" where
  "message_bytes e fs \<equiv> concat (map (field_bytes e) fs)"

lemma put_fields_ok:
  "ba_inv s \<Longrightarrow> list_all field_ok fs \<Longrightarrow>
   \<exists>s'. put_all (put_field junk host) fs s = Ok () s' \<and> ba.stored (message_bytes (m_endian s) fs) s s'"
proof (induction fs arbitrary: s)
  case Nil
  then show ?case by (simp add: ba.stored_refl)
next
  case (Cons f fs)
  then obtain s1 where s1: "put_field junk host f s = Ok () s1" "ba.stored (field_bytes (m_endian s) f) s s1"
    using put_field_ok [of s f junk host] by auto
  then have "ba_inv s1" "m_endian s1 = m_endian s" by (simp_all add: ba.stored_def)
  with Cons obtain s2 where "put_all (put_field junk host) fs s1 = Ok () s2"
    "ba.stored (message_bytes (m_endian s) fs) s1 s2" by fastforce
  with s1 Cons.prems(1) show ?case by (auto intro: ba.stored_trans)
qed

lemma get_fields_ok:
  "ba.next_are (message_bytes (m_endian s) fs) s \<Longrightarrow> list_all field_ok fs \<Longrightarrow>
   \<exists>s'. get_fields host fs s = Ok fs s' \<and> ba.consumed (length (message_bytes (m_endian s) fs)) s s'"
proof (induction fs arbitrary: s)
  case Nil
  then show ?case by (simp add: ba.next_are_def ba.consumed_refl)
next
  case (Cons f fs)
  let ?b = "field_bytes (m_endian s) f"
  from Cons.prems have n: "ba.next_are (?b @ message_bytes (m_endian s) fs) s" by simp
  obtain s1 where s1: "get_field host f s = Ok f s1" "ba.consumed (length ?b) s s1"
    using get_field_ok [OF ba.next_are_append(1) [OF n]] Cons.prems by auto
  then have "m_endian s1 = m_endian s" by (simp add: ba.consumed_def)
  with Cons.IH [of s1] Cons.prems ba.next_are_append(2) [OF n s1(2)] obtain s2 where
    "get_fields host fs s1 = Ok fs s2" "ba.consumed (length (message_bytes (m_endian s) fs)) s1 s2" by auto
  with s1 show ?case by (auto intro: ba.consumed_trans)
qed

lemma get_fields_blank: "get_fields host (map blank fs) = get_fields host fs"
proof -
  have "get_field host (blank f) = get_field host f" for f by (cases f) (auto simp: fun_eq_iff)
  then have "get_fields host (map blank fs) s = get_fields host fs s" for s
    by (induction fs arbitrary: s) (simp_all add: andThen_def split: outcome.split)
  then show ?thesis by (rule ext)
qed


subsection \<open>Properties\<close>



text \<open>C36. Zigzag coding, 32 and 64 bits wide, maps \<open>0, -1, 1, -2, \<dots>\<close> to \<open>0, 1, 2, 3, \<dots>\<close>, so that small magnitudes
  get small codes, and the decoder inverts it in both directions: the codes are a bijection of the
  machine integers.\<close>

theorem zigzag_correct:
  "uint (EncodingZigzag32 v) = (if 0 \<le> sint v then 2 * sint v else - 2 * sint v - 1) \<and>
   DecodingZigzag32 (EncodingZigzag32 v) = v \<and> EncodingZigzag32 (DecodingZigzag32 u) = u \<and>
   uint (EncodingZigzag64 w) = (if 0 \<le> sint w then 2 * sint w else - 2 * sint w - 1) \<and>
   DecodingZigzag64 (EncodingZigzag64 w) = w \<and> EncodingZigzag64 (DecodingZigzag64 x) = x"
proof (intro conjI)
  show "uint (EncodingZigzag32 v) = (if 0 \<le> sint v then 2 * sint v else - 2 * sint v - 1)"
    using zigzag_value [of 31 v] by (simp add: EncodingZigzag32_def)
  show "uint (EncodingZigzag64 w) = (if 0 \<le> sint w then 2 * sint w else - 2 * sint w - 1)"
    using zigzag_value [of 63 w] by (simp add: EncodingZigzag64_def)
  show "EncodingZigzag32 (DecodingZigzag32 u) = u" by (rule inverse_finite [where g = DecodingZigzag32]) simp
  show "EncodingZigzag64 (DecodingZigzag64 x) = x" by (rule inverse_finite [where g = DecodingZigzag64]) simp
qed simp_all

text \<open>The encoders never overrun their stack buffers \<open>tmp[5]\<close> and \<open>v[10]\<close>: on a well-formed array
  \<open>writeUint32\<close> and \<open>writeUint64\<close> return, having stored at most 5 and 10 bytes, and the signed
  variants inherit the bound.\<close>

theorem varint_no_overrun:
  assumes "ba_inv s"
  shows "(\<exists>s'. writeUint32 junk u s = Ok () s' \<and> ba_inv s' \<and> m_position s' \<le> m_position s + 5) \<and>
         (\<exists>s'. writeUint64 junk v s = Ok () s' \<and> ba_inv s' \<and> m_position s' \<le> m_position s + 10) \<and>
         (\<exists>s'. writeInt32 junk u s = Ok () s' \<and> ba_inv s' \<and> m_position s' \<le> m_position s + 5) \<and>
         (\<exists>s'. writeInt64 junk v s = Ok () s' \<and> ba_inv s' \<and> m_position s' \<le> m_position s + 10)"
  using v32c.put_ok [OF assms, of junk u] v64c.put_ok [OF assms, of junk v]
    z32c.put_ok [OF assms, of junk u] z64c.put_ok [OF assms, of junk v]
    varint_length_32 varint_length_64
  by (intro conjI) (fastforce simp: ba.stored_def)+

theorem varint_no_overrun_witness:
  "ba_inv (ByteArray_new (\<lambda>_ _. 0) 2) \<and>
   (\<exists>s'. writeUint32 (\<lambda>_ _. 0) (- 1) (ByteArray_new (\<lambda>_ _. 0) 2) = Ok () s' \<and> m_position s' \<le> 5)"
  using varint_no_overrun [OF ByteArray_new_inv [of 2 "\<lambda>_ _. 0"], of "\<lambda>_ _. 0" "- 1" 0]
    ByteArray_new_inv [of 2 "\<lambda>_ _. 0"]
  by (auto simp: ByteArray_new_def)

lemma readFuint8_total:
  assumes "ba_inv s"
  shows "(\<exists>b s'. readFuint8 s = Ok b s' \<and> ba.consumed 1 s s') \<or>
         (\<exists>e. readFuint8 s = Throw e s)"
proof (cases "m_position s + 1 \<le> length (ba_data s)")
  case True
  then show ?thesis using ba.rd_ok [OF assms, of 1] by (fastforce simp: readFuint8_def ba.consumed_def)
next
  case False
  then show ?thesis using ba.rd_short [OF assms, of 1] by (auto simp: readFuint8_def)
qed

lemma varint_read_total:
  assumes "ba_inv s" and "LENGTH('a) \<le> i + 7 * k"
  shows "(\<exists>v s' n. varint_read i (r :: 'a::len word) s = Ok v s' \<and> ba.consumed n s s' \<and> n \<le> k) \<or>
         (\<exists>e s'. varint_read i r s = Throw e s' \<and> ba_inv s')"
  using assms
proof (induction k arbitrary: i r s)
  case 0
  then show ?case by (subst varint_read.simps) (auto intro: ba.consumed_refl)
next
  case (Suc k)
  show ?case
  proof (cases "i < LENGTH('a)")
    case False
    then show ?thesis using Suc.prems(1) by (subst varint_read.simps) (auto intro: ba.consumed_refl)
  next
    case i: True
    from readFuint8_total [OF Suc.prems(1)] show ?thesis
    proof (elim disjE exE conjE)
      fix b s' assume r: "readFuint8 s = Ok b s'" and c: "ba.consumed 1 s s'"
      show ?thesis
      proof (cases "unat b < 0x80")
        case True
        then show ?thesis using c by (auto simp: varint_read_unfold(1) [OF i r])
      next
        case False
        have "ba_inv s'" using c by (simp add: ba.consumed_def)
        with Suc.IH [of s' "i + 7" "r OR push_bit i (ucast (b AND 0x7f))"] Suc.prems(2) c show ?thesis
          unfolding varint_read_unfold(2) [OF i r False [unfolded not_less]]
          by (fastforce dest: ba.consumed_trans)
      qed
    next
      fix e assume "readFuint8 s = Throw e s"
      then show ?thesis using i Suc.prems(1) by (subst varint_read.simps) auto
    qed
  qed
qed

text \<open>C37. The reader of a variable-length integer always returns, whatever the bytes: on a well-formed
  array it either delivers a value having consumed between 1 and 5 bytes, or throws because
  the array ended; it never crashes.\<close>

theorem varint_read_returns:
  assumes "ba_inv s"
  shows "(\<exists>v s'. readUint32 s = Ok v s' \<and> ba_inv s' \<and> ba_data s' = ba_data s \<and>
            m_position s' \<le> m_position s + 5) \<or>
         (\<exists>e s'. readUint32 s = Throw e s' \<and> ba_inv s')"
  using varint_read_total [OF assms, of 0 5 "0 :: u32"]
  by (fastforce simp: readUint32_def ba.consumed_def)

theorem varint_read_returns_witness:
  "ba_inv (ByteArray_new (\<lambda>_ _. 0) 2) \<and> (\<exists>e s'. readUint32 (ByteArray_new (\<lambda>_ _. 0) 2) = Throw e s')"
proof -
  have "\<not> (\<exists>v s'. readUint32 (ByteArray_new (\<lambda>_ _. 0) 2) = Ok v s')"
    by (simp add: readUint32_def varint_read.simps readFuint8_def ba_read_def getSizeForRead_def ByteArray_new_def)
  then show ?thesis
    using varint_read_returns [OF ByteArray_new_inv [of 2 "\<lambda>_ _. 0"]] ByteArray_new_inv [of 2 "\<lambda>_ _. 0"] by auto
qed

text \<open>An empty string written with a 16-bit length is read back only if the position after the
  length is inside the chain; at the very end of the chain \<open>readStringF16\<close> dereferences the null
  \<open>m_cur\<close>, whatever the host and the contents.\<close>

theorem empty_string_at_end:
  assumes "ba.next_are (mem_bytes (m_endian s) 2 (0 :: u16)) s"
  shows "readStringF16 host s =
     (if m_position s + 2 = m_capacity s then Crash NullDeref
      else Ok [] (s\<lparr>m_position := m_position s + 2,
                   m_cur := cur_at (m_baseSize s) (length (m_nodes s)) (m_position s + 2)\<rparr>))"
proof -
  have inv: "ba_inv s" using assms by (simp add: ba.next_are_def)
  have fit: "2 \<le> m_size s - m_position s" "m_position s + 2 \<le> m_size s"
    using ba.next_are_fits [OF assms] by (simp_all add: length_ba_data [OF inv])
  then have lt: "m_position s < m_capacity s" using ba_invD(6) [OF inv] by simp
  let ?s = "s\<lparr>m_position := m_position s + 2,
               m_cur := cur_at (m_baseSize s) (length (m_nodes s)) (m_position s + 2)\<rparr>"
  note inv' = read_inv [OF inv fit(1)]
  obtain s1 where "readFuint16 host s = Ok 0 s1" using u16c.get_ok [OF assms] by blast
  moreover have "ba_read 2 s = Ok (take 2 (ba_rest s)) ?s" by (rule read_correct [OF inv fit(1) lt])
  ultimately have g: "readFuint16 host s = Ok 0 ?s" by (auto simp: readFuint16_def Let_def)
  show ?thesis
  proof (cases "m_position s + 2 = m_capacity s")
    case True
    then have "deref ?s = None" using deref_inv [OF inv'] by simp
    with True g ba_invD(1) [OF inv] show ?thesis by (simp add: readStringF16_def get_string_def ba_read_def)
  next
    case False
    then have "m_position ?s < m_capacity ?s" using fit ba_invD(6) [OF inv] by simp
    from read_correct [OF inv' _ this, of 0] g False show ?thesis
      by (simp add: readStringF16_def get_string_def)
  qed
qed

theorem empty_string_at_end_witness:
  "\<exists>s. writeStringF16 (\<lambda>_ _. 0) SYLAR_LITTLE_ENDIAN [] (ByteArray_new (\<lambda>_ _. 0) 2) = Ok () s \<and>
     (\<exists>s'. setPosition 0 s = Ok () s' \<and> readStringF16 SYLAR_LITTLE_ENDIAN s' = Crash NullDeref)"
proof -
  let ?new = "ByteArray_new (\<lambda>_ _. 0) 2"
  let ?s = "?new\<lparr>m_nodes := [[0, 0]], m_cur := None, m_position := 2, m_size := 2\<rparr>"
  let ?s' = "?s\<lparr>m_position := 0, m_cur := Some 0\<rparr>"
  have "writeStringF16 (\<lambda>_ _. 0) SYLAR_LITTLE_ENDIAN [] ?new = Ok () ?s"
    by code_simp
  moreover have "setPosition 0 ?s = Ok () ?s'" by (simp add: setPosition_def ByteArray_new_def)
  moreover have "ba.next_are (mem_bytes (m_endian ?s') 2 (0 :: u16)) ?s'"
    by (simp add: ba.next_are_def ba_inv_def ba_data_def ByteArray_new_def cur_at_def mem_bytes_def
        bytes_le_def numeral_2_eq_2)
  then have "readStringF16 SYLAR_LITTLE_ENDIAN ?s' = Crash NullDeref"
    using empty_string_at_end [of ?s' SYLAR_LITTLE_ENDIAN] by (simp add: ByteArray_new_def)
  ultimately show ?thesis by blast
qed

end
