(* ===== verification/Fiber.thy ===== *)
theory Fiber
  imports Prelude
begin

text \<open>
  \<open>src/fiber.cc\<close>, \<open>include/sylar/fiber.hh\<close>: fibers, their states and the switches between them, as one
  thread sees them.

  \<open>fibers\<close> is the heap of \<open>Fiber\<close> objects by address; \<open>t_current\<close> and \<open>t_main\<close> are the thread-local
  \<open>t_thread_current_fiber\<close> and \<open>t_thread_main_fiber\<close> of \<open>fiber.cc\<close>, \<open>t_sched\<close> the \<open>t_thread_main_fiber\<close> of
  \<open>scheduler.cc\<close> (what \<open>Scheduler::GetThreadMainFiber\<close> returns). \<open>ctl\<close> is the fiber whose code the thread
  is executing: \<open>swapcontext(&a, &b)\<close> saves the running context in \<open>a\<close> (\<open>saved\<close>) and moves control to \<open>b\<close>.
  \<open>getcontext\<close>, \<open>makecontext\<close>, \<open>swapcontext\<close> and \<open>malloc\<close> are taken to succeed. What a fiber's callback does
  between two switches is free: it is one of \<open>YieldToReady\<close>, \<open>YieldToHold\<close>, returning or throwing.
\<close>

subsection \<open>State\<close>

datatype fstate = F_INIT | F_HOLD | F_EXEC | F_TERM | F_READY | F_EXCEPT

record 'c fiber =
  f_id :: u64
  f_state :: fstate
  f_stack :: bool
  f_cb :: "'c option"
  f_to_main :: bool

record 'c fctx =
  s_fiber_id :: u64
  s_fiber_count :: u64
  fibers :: "nat \<rightharpoonup> 'c fiber"
  t_current :: "nat option"
  t_main :: "nat option"
  t_sched :: "nat option"
  ctl :: nat
  saved :: "nat set"

subsection \<open>Construction and destruction\<close>

definition SetThreadCurrentFiber :: "nat option \<Rightarrow> 'c fctx \<Rightarrow> 'c fctx" where
  "SetThreadCurrentFiber f s = s\<lparr>t_current := f\<rparr>"

text \<open>\<open>Fiber()\<close>: the fiber of the thread's own stack.\<close>

definition Fiber_root :: "nat \<Rightarrow> 'c fctx \<Rightarrow> 'c fctx" where
  "Fiber_root a s =
     (let f = \<lparr>f_id = s_fiber_id s, f_state = F_EXEC, f_stack = False, f_cb = None, f_to_main = False\<rparr>
      in (SetThreadCurrentFiber (Some a) s)
           \<lparr>s_fiber_id := s_fiber_id s + 1, s_fiber_count := s_fiber_count s + 1, fibers := (fibers s)(a \<mapsto> f)\<rparr>)"

definition Fiber_new :: "nat \<Rightarrow> 'c option \<Rightarrow> bool \<Rightarrow> 'c fctx \<Rightarrow> 'c fctx" where
  "Fiber_new a cb return_to_mainFiber s =
     (let f = \<lparr>f_id = s_fiber_id s, f_state = F_INIT, f_stack = True, f_cb = cb, f_to_main = return_to_mainFiber\<rparr>
      in (SetThreadCurrentFiber (Some a) s)
           \<lparr>s_fiber_id := s_fiber_id s + 1, s_fiber_count := s_fiber_count s + 1, fibers := (fibers s)(a \<mapsto> f)\<rparr>)"

definition Fiber_destroy :: "nat \<Rightarrow> 'c fctx \<Rightarrow> (unit, 'c fctx) outcome" where
  "Fiber_destroy a s =
     (case fibers s a of
        None \<Rightarrow> Crash NullDeref
      | Some f \<Rightarrow>
          let s = s\<lparr>s_fiber_count := s_fiber_count s - 1\<rparr> in
          if f_stack f \<and> f_state f \<notin> {F_TERM, F_INIT, F_EXCEPT}
          then Crash (AssertFail ''m_state == TERM || m_state == INIT || m_state == EXCEPT'')
          else if \<not> f_stack f \<and> f_cb f \<noteq> None then Crash (AssertFail ''!m_cb'')
          else if \<not> f_stack f \<and> f_state f \<noteq> F_EXEC then Crash (AssertFail ''m_state == EXEC'')
          else
            let s = (if \<not> f_stack f \<and> t_current s = Some a then SetThreadCurrentFiber None s else s);
                s = SetThreadCurrentFiber (Some a) s
            in Ok () (s\<lparr>fibers := (fibers s)(a := None)\<rparr>))"

subsection \<open>Reset and switches\<close>

definition upd_fiber :: "nat \<Rightarrow> ('c fiber \<Rightarrow> 'c fiber) \<Rightarrow> 'c fctx \<Rightarrow> 'c fctx" where
  "upd_fiber a g s = s\<lparr>fibers := (fibers s)(a := map_option g (fibers s a))\<rparr>"

definition Fiber_reset :: "nat \<Rightarrow> 'c option \<Rightarrow> 'c fctx \<Rightarrow> (unit, 'c fctx) outcome" where
  "Fiber_reset a cb s =
     (case fibers s a of
        None \<Rightarrow> Crash NullDeref
      | Some f \<Rightarrow>
          if \<not> f_stack f then Crash (AssertFail ''m_stack'')
          else if f_state f \<notin> {F_TERM, F_EXCEPT, F_INIT}
          then Crash (AssertFail ''m_state == TERM || m_state == EXCEPT || m_state == INIT'')
          else Ok () (upd_fiber a (\<lambda>f. f\<lparr>f_cb := cb, f_to_main := False, f_state := F_INIT\<rparr>) s))"

text \<open>\<open>swapcontext(&from->m_ctx, &to->m_ctx)\<close>.\<close>

definition swapcontext :: "nat option \<Rightarrow> nat option \<Rightarrow> 'c fctx \<Rightarrow> (unit, 'c fctx) outcome" where
  "swapcontext from to s =
     (case (from, to) of
        (Some a, Some b) \<Rightarrow> Ok () (s\<lparr>saved := insert a (saved s), ctl := b\<rparr>)
      | _ \<Rightarrow> Crash NullDeref)"

definition Fiber_call :: "nat \<Rightarrow> 'c fctx \<Rightarrow> (unit, 'c fctx) outcome" where
  "Fiber_call a s =
     (case fibers s a of
        None \<Rightarrow> Crash NullDeref
      | Some f \<Rightarrow>
          swapcontext (t_main s) (Some a)
            (upd_fiber a (\<lambda>f. f\<lparr>f_state := F_EXEC\<rparr>) (SetThreadCurrentFiber (Some a) s)))"

definition Fiber_back :: "nat \<Rightarrow> 'c fctx \<Rightarrow> (unit, 'c fctx) outcome" where
  "Fiber_back a s = swapcontext (Some a) (t_main s) (SetThreadCurrentFiber (t_main s) s)"

definition swapIn :: "nat \<Rightarrow> 'c fctx \<Rightarrow> (unit, 'c fctx) outcome" where
  "swapIn a s =
     (case fibers s a of
        None \<Rightarrow> Crash NullDeref
      | Some f \<Rightarrow>
          let s = SetThreadCurrentFiber (Some a) s in
          if f_state f = F_EXEC then Crash (AssertFail ''m_state != EXEC'')
          else swapcontext (t_sched s) (Some a) (upd_fiber a (\<lambda>f. f\<lparr>f_state := F_EXEC\<rparr>) s))"

definition swapOut :: "nat \<Rightarrow> 'c fctx \<Rightarrow> (unit, 'c fctx) outcome" where
  "swapOut a s = swapcontext (Some a) (t_sched s) (SetThreadCurrentFiber (t_sched s) s)"

subsection \<open>Operations on the current fiber\<close>

text \<open>\<open>na\<close>: the address the main fiber gets if it has to be created.\<close>

definition GetCurrentFiber :: "nat \<Rightarrow> 'c fctx \<Rightarrow> (nat, 'c fctx) outcome" where
  "GetCurrentFiber na s =
     (case t_current s of
        Some a \<Rightarrow> (if fibers s a = None then Crash UseAfterFree else Ok a s)
      | None \<Rightarrow>
          let s = Fiber_root na s in
          if t_current s \<noteq> Some na then Crash (AssertFail ''t_thread_current_fiber == main_fiber.get()'')
          else Ok na (s\<lparr>t_main := Some na\<rparr>))"

definition yield :: "fstate \<Rightarrow> nat \<Rightarrow> 'c fctx \<Rightarrow> (unit, 'c fctx) outcome" where
  "yield st na s = andThen (GetCurrentFiber na) (\<lambda>cur s.
     case fibers s cur of
       None \<Rightarrow> Crash NullDeref
     | Some f \<Rightarrow>
         if f_state f \<noteq> F_EXEC then Crash (AssertFail ''cur->m_state == EXEC'')
         else swapOut cur (upd_fiber cur (\<lambda>f. f\<lparr>f_state := st\<rparr>) s)) s"

definition YieldToReady :: "nat \<Rightarrow> 'c fctx \<Rightarrow> (unit, 'c fctx) outcome" where
  "YieldToReady na s = yield F_READY na s"

text \<open>\<open>YieldToHold\<close> leaves the state at \<open>EXEC\<close>: the assignment is commented out in the source and the
  scheduler sets \<open>HOLD\<close> after the switch.\<close>

definition YieldToHold :: "nat \<Rightarrow> 'c fctx \<Rightarrow> (unit, 'c fctx) outcome" where
  "YieldToHold na s = yield F_EXEC na s"

definition TotalFibers :: "'c fctx \<Rightarrow> u64" where
  "TotalFibers s = s_fiber_count s"

definition GetFiberId :: "'c fctx \<Rightarrow> (u64, 'c fctx) outcome" where
  "GetFiberId s =
     (case t_current s of
        None \<Rightarrow> Ok 0 s
      | Some a \<Rightarrow> (case fibers s a of None \<Rightarrow> Crash UseAfterFree | Some f \<Rightarrow> Ok (f_id f) s))"

text \<open>The end of \<open>SchedulerFiberFunc\<close> and \<open>MainFiberFunc\<close>, after \<open>cur->m_cb()\<close> has returned
  (\<open>threw = False\<close>) or thrown.\<close>

definition finish :: "bool \<Rightarrow> 'c fiber \<Rightarrow> 'c fiber" where
  "finish threw f = (if threw then f\<lparr>f_state := F_EXCEPT\<rparr> else f\<lparr>f_cb := None, f_state := F_TERM\<rparr>)"

definition SchedulerFiberFunc_end :: "bool \<Rightarrow> nat \<Rightarrow> 'c fctx \<Rightarrow> (unit, 'c fctx) outcome" where
  "SchedulerFiberFunc_end threw na s =
     andThen (GetCurrentFiber na) (\<lambda>cur s. swapOut cur (upd_fiber cur (finish threw) s)) s"

definition MainFiberFunc_end :: "bool \<Rightarrow> nat \<Rightarrow> 'c fctx \<Rightarrow> (unit, 'c fctx) outcome" where
  "MainFiberFunc_end threw na s =
     andThen (GetCurrentFiber na) (\<lambda>cur s. Fiber_back cur (upd_fiber cur (finish threw) s)) s"

text \<open>What the code of a running fiber can do next to give up control to the scheduler.\<close>

datatype leave = ToReady | ToHold | Returns | Throws

fun leaves :: "leave \<Rightarrow> nat \<Rightarrow> 'c fctx \<Rightarrow> (unit, 'c fctx) outcome" where
  "leaves ToReady na s = YieldToReady na s"
| "leaves ToHold na s = YieldToHold na s"
| "leaves Returns na s = SchedulerFiberFunc_end False na s"
| "leaves Throws na s = SchedulerFiberFunc_end True na s"

fun left_state :: "leave \<Rightarrow> fstate" where
  "left_state ToReady = F_READY"
| "left_state ToHold = F_EXEC"
| "left_state Returns = F_TERM"
| "left_state Throws = F_EXCEPT"

text \<open>What leaving does to the fiber itself.\<close>

fun leave_fiber :: "leave \<Rightarrow> 'c fiber \<Rightarrow> 'c fiber" where
  "leave_fiber ToReady f = f\<lparr>f_state := F_READY\<rparr>"
| "leave_fiber ToHold f = f\<lparr>f_state := F_EXEC\<rparr>"
| "leave_fiber Returns f = finish False f"
| "leave_fiber Throws f = finish True f"

subsection \<open>Lemmas\<close>

lemma leave_fiber_fields [simp]:
  "f_state (leave_fiber l f) = left_state l" "f_stack (leave_fiber l f) = f_stack f" "f_id (leave_fiber l f) = f_id f"
  by (cases l; simp add: finish_def)+

lemma upd_fiber_simps [simp]:
  "t_current (upd_fiber a g s) = t_current s" "t_main (upd_fiber a g s) = t_main s"
  "t_sched (upd_fiber a g s) = t_sched s" "ctl (upd_fiber a g s) = ctl s" "saved (upd_fiber a g s) = saved s"
  "fibers (upd_fiber a g s) = (fibers s)(a := map_option g (fibers s a))"
  by (simp_all add: upd_fiber_def)

lemma SetThreadCurrentFiber_simps [simp]:
  "t_current (SetThreadCurrentFiber f s) = f" "t_main (SetThreadCurrentFiber f s) = t_main s"
  "t_sched (SetThreadCurrentFiber f s) = t_sched s" "ctl (SetThreadCurrentFiber f s) = ctl s"
  "saved (SetThreadCurrentFiber f s) = saved s" "fibers (SetThreadCurrentFiber f s) = fibers s"
  by (simp_all add: SetThreadCurrentFiber_def)

lemma swapIn_Ok:
  "fibers s a = Some f \<Longrightarrow> f_state f \<noteq> F_EXEC \<Longrightarrow> t_sched s = Some m \<Longrightarrow>
   swapIn a s = Ok () ((upd_fiber a (\<lambda>f. f\<lparr>f_state := F_EXEC\<rparr>) (SetThreadCurrentFiber (Some a) s))
      \<lparr>saved := insert m (saved s), ctl := a\<rparr>)"
  by (simp add: swapIn_def swapcontext_def Let_def)

lemma leaves_Ok:
  assumes "t_current s = Some a" and "fibers s a = Some f" and "f_state f = F_EXEC" and "t_sched s = Some m"
  shows "\<exists>s'. leaves l na s = Ok () s' \<and> ctl s' = m \<and> t_current s' = Some m \<and> saved s' = insert a (saved s) \<and>
     t_sched s' = Some m \<and> t_main s' = t_main s \<and> fibers s' = (fibers s)(a \<mapsto> leave_fiber l f)"
  using assms
  by (cases l)
     (auto simp: YieldToReady_def YieldToHold_def yield_def SchedulerFiberFunc_end_def GetCurrentFiber_def
        swapOut_def swapcontext_def finish_def)

definition demo_ctx :: "string fctx" where
  "demo_ctx = \<lparr>s_fiber_id = 2, s_fiber_count = 2,
     fibers = [1 \<mapsto> \<lparr>f_id = 0, f_state = F_EXEC, f_stack = False, f_cb = None, f_to_main = False\<rparr>,
               2 \<mapsto> \<lparr>f_id = 1, f_state = F_INIT, f_stack = True, f_cb = Some ''task'', f_to_main = False\<rparr>],
     t_current = Some 1, t_main = Some 1, t_sched = Some 1, ctl = 1, saved = {}\<rparr>"

subsection \<open>Properties\<close>

text \<open>Switching a fiber in and letting it leave in any of the four ways hands control back to the
  thread's scheduling fiber with the current-fiber pointer on it, whose context was saved by the
  switch; the fiber ends \<open>READY\<close>, \<open>EXEC\<close> (held), \<open>TERM\<close> or \<open>EXCEPT\<close> accordingly and no other fiber changes.
  Switching in a fiber that is already executing fails the assertion.\<close>

theorem fiber_switch:
  assumes "fibers s a = Some f" and "t_sched s = Some m" and "a \<noteq> m"
  shows "(f_state f = F_EXEC \<longrightarrow> swapIn a s = Crash (AssertFail ''m_state != EXEC'')) \<and>
    (f_state f \<noteq> F_EXEC \<longrightarrow>
      (\<exists>s1 s2. swapIn a s = Ok () s1 \<and> ctl s1 = a \<and> t_current s1 = Some a \<and> m \<in> saved s1 \<and>
         leaves l na s1 = Ok () s2 \<and> ctl s2 = m \<and> t_current s2 = Some m \<and> a \<in> saved s2 \<and>
         f_state (leave_fiber l f) = left_state l \<and>
         fibers s2 = (fibers s)(a \<mapsto> leave_fiber l (f\<lparr>f_state := F_EXEC\<rparr>))))"
proof (intro conjI impI)
  assume "f_state f = F_EXEC"
  then show "swapIn a s = Crash (AssertFail ''m_state != EXEC'')" using assms by (simp add: swapIn_def Let_def)
next
  assume ne: "f_state f \<noteq> F_EXEC"
  let ?s1 = "(upd_fiber a (\<lambda>f. f\<lparr>f_state := F_EXEC\<rparr>) (SetThreadCurrentFiber (Some a) s))
      \<lparr>saved := insert m (saved s), ctl := a\<rparr>"
  have s1: "swapIn a s = Ok () ?s1" using assms ne by (simp add: swapIn_Ok)
  have f1: "fibers ?s1 = (fibers s)(a \<mapsto> f\<lparr>f_state := F_EXEC\<rparr>)" using assms(1) by simp
  obtain s2 where s2: "leaves l na ?s1 = Ok () s2" "ctl s2 = m" "t_current s2 = Some m"
    "saved s2 = insert a (saved ?s1)" "fibers s2 = (fibers ?s1)(a \<mapsto> leave_fiber l (f\<lparr>f_state := F_EXEC\<rparr>))"
    using leaves_Ok [of ?s1 a "f\<lparr>f_state := F_EXEC\<rparr>" m l na] assms f1 by auto
  have "fibers s2 = (fibers s)(a \<mapsto> leave_fiber l (f\<lparr>f_state := F_EXEC\<rparr>))" using s2(5) f1 by simp
  with s1 s2 show "\<exists>s1 s2. swapIn a s = Ok () s1 \<and> ctl s1 = a \<and> t_current s1 = Some a \<and> m \<in> saved s1 \<and>
         leaves l na s1 = Ok () s2 \<and> ctl s2 = m \<and> t_current s2 = Some m \<and> a \<in> saved s2 \<and>
         f_state (leave_fiber l f) = left_state l \<and>
         fibers s2 = (fibers s)(a \<mapsto> leave_fiber l (f\<lparr>f_state := F_EXEC\<rparr>))"
    by (intro exI [of _ ?s1] exI [of _ s2]) simp
qed

theorem fiber_switch_witness:
  "\<exists>s1 s2. swapIn 2 demo_ctx = Ok () s1 \<and> leaves ToReady 9 s1 = Ok () s2 \<and> ctl s2 = 1 \<and>
     map_option f_state (fibers s2 2) = Some F_READY"
proof -
  have h: "fibers demo_ctx 2 = Some \<lparr>f_id = 1, f_state = F_INIT, f_stack = True, f_cb = Some ''task'', f_to_main = False\<rparr>"
    "t_sched demo_ctx = Some 1" by (simp_all add: demo_ctx_def)
  from fiber_switch [OF h, of ToReady 9] show ?thesis by auto
qed

text \<open>Destroying a fiber leaves the thread's current-fiber pointer on the destroyed object: the
  destructor ends by making the dying fiber current, so the next \<open>GetFiberId\<close> (for instance in a log line)
  reads freed memory.\<close>

theorem fiber_destroy_dangles:
  assumes "fibers s a = Some f" and "f_stack f" and "f_state f \<in> {F_TERM, F_INIT, F_EXCEPT}"
  shows "\<exists>s'. Fiber_destroy a s = Ok () s' \<and> t_current s' = Some a \<and> fibers s' a = None \<and>
     GetFiberId s' = Crash UseAfterFree"
  using assms by (auto simp: Fiber_destroy_def Let_def GetFiberId_def)

theorem fiber_destroy_dangles_witness:
  "\<exists>s'. Fiber_destroy 2 demo_ctx = Ok () s' \<and> GetFiberId s' = Crash UseAfterFree"
proof -
  have h: "fibers demo_ctx 2 = Some \<lparr>f_id = 1, f_state = F_INIT, f_stack = True, f_cb = Some ''task'', f_to_main = False\<rparr>"
    by (simp add: demo_ctx_def)
  from fiber_destroy_dangles [OF h] show ?thesis by auto
qed

end
