(* ===== verification/Scheduler.thy ===== *)
theory Scheduler
  imports Fiber
begin

text \<open>
  \<open>src/scheduler.cc\<close>, \<open>include/sylar/scheduler.hh\<close>: the task queue and the scheduling loop \<open>run()\<close>, executed by
  several worker threads at once.

  The state is the scheduler's members, the fibers, and for each worker where it is in \<open>run()\<close> (\<open>pc\<close>) with
  its local \<open>cb_fiber\<close> and \<open>idle_fiber\<close>. The code between two points where another thread can interfere is
  one step (\<open>run_step\<close>): the locked search of the queue, the dispatch up to the switch, what the fiber does
  until it gives up control, and the handling after the switch. Steps of the workers and of other
  code that schedules tasks interleave freely (\<open>sched_step\<close>).

  \<open>m_tickles\<close> counts the calls of the virtual \<open>tickle()\<close>; the argument \<open>na\<close> is the address a new fiber gets and
  \<open>l\<close> how the running fiber leaves. The theory \<open>SchedulerLife\<close> has the constructor, \<open>start\<close> and \<open>stop\<close> with their
  threads and thread-local pointers.
\<close>

subsection \<open>State\<close>

record 'c task =
  tk_thread :: int
  tk_fiber :: "nat option"
  tk_cb :: "'c option"

text \<open>\<open>FiberAndThread::reset()\<close>, which is also the default constructor.\<close>

definition FiberAndThread_reset :: "'c task" where
  "FiberAndThread_reset = \<lparr>tk_thread = -1, tk_fiber = None, tk_cb = None\<rparr>"

datatype 'c pc = AtTop | Got "'c task" bool | InFiber nat | FiberBack nat | InCb nat | CbBack nat |
  InIdle | IdleBack | Exited

record 'c worker =
  w_tid :: int
  w_pc :: "'c pc"
  w_cb_fiber :: "nat option"
  w_idle :: nat

record 'c sched =
  sc_fibers :: "nat \<rightharpoonup> 'c fiber"
  m_fibers :: "'c task list"
  m_activeThreadCount :: nat
  m_idleThreadCount :: nat
  m_stopping :: bool
  m_autoStop :: bool
  m_tickles :: nat
  workers :: "'c worker list"

subsection \<open>The queue\<close>

definition tickle :: "'c sched \<Rightarrow> 'c sched" where
  "tickle sc = sc\<lparr>m_tickles := m_tickles sc + 1\<rparr>"

definition hasIdleThreads :: "'c sched \<Rightarrow> bool" where
  "hasIdleThreads sc = (m_idleThreadCount sc > 0)"

definition scheduleNoLock :: "'c task \<Rightarrow> 'c sched \<Rightarrow> bool \<times> 'c sched" where
  "scheduleNoLock ft sc =
     (let need_tickle = (m_fibers sc = [])
      in (need_tickle, if tk_fiber ft \<noteq> None \<or> tk_cb ft \<noteq> None then sc\<lparr>m_fibers := m_fibers sc @ [ft]\<rparr> else sc))"

definition schedule :: "'c task \<Rightarrow> 'c sched \<Rightarrow> 'c sched" where
  "schedule ft sc = (let (need_tickle, sc') = scheduleNoLock ft sc in if need_tickle then tickle sc' else sc')"

fun schedule_loop :: "'c task list \<Rightarrow> bool \<Rightarrow> 'c sched \<Rightarrow> bool \<times> 'c sched" where
  "schedule_loop [] need_tickle sc = (need_tickle, sc)"
| "schedule_loop (ft # fts) need_tickle sc =
     (let (b, sc') = scheduleNoLock ft sc in schedule_loop fts (b \<or> need_tickle) sc')"

definition schedule_range :: "'c task list \<Rightarrow> 'c sched \<Rightarrow> 'c sched" where
  "schedule_range fts sc =
     (let (need_tickle, sc') = schedule_loop fts False sc in if need_tickle then tickle sc' else sc')"

definition stopping :: "'c sched \<Rightarrow> bool" where
  "stopping sc = (m_autoStop sc \<and> m_stopping sc \<and> m_fibers sc = [] \<and> m_activeThreadCount sc = 0)"

definition executing :: "(nat \<rightharpoonup> 'c fiber) \<Rightarrow> nat option \<Rightarrow> bool" where
  "executing fs p = (case p of None \<Rightarrow> False | Some a \<Rightarrow> map_option f_state (fs a) = Some F_EXEC)"

text \<open>The search for a task: tasks of other threads and fibers in execution are skipped.\<close>

fun pick_loop :: "int \<Rightarrow> (nat \<rightharpoonup> 'c fiber) \<Rightarrow> bool \<Rightarrow> 'c task list \<Rightarrow> 'c task list \<Rightarrow>
    fault + bool \<times> 'c task option \<times> 'c task list" where
  "pick_loop tid fs tickle_me skipped [] = Inr (tickle_me, None, skipped)"
| "pick_loop tid fs tickle_me skipped (t # ts) =
     (if tk_thread t \<noteq> -1 \<and> tk_thread t \<noteq> tid then pick_loop tid fs True (skipped @ [t]) ts
      else if tk_fiber t = None \<and> tk_cb t = None then Inl (AssertFail ''it->fiber || it->cb'')
      else if executing fs (tk_fiber t) then pick_loop tid fs tickle_me (skipped @ [t]) ts
      else Inr (tickle_me, Some t, skipped @ ts))"

subsection \<open>The loop \<open>run()\<close>\<close>

definition set_worker :: "nat \<Rightarrow> 'c worker \<Rightarrow> 'c sched \<Rightarrow> 'c sched" where
  "set_worker i w sc = sc\<lparr>workers := (workers sc)[i := w]\<rparr>"

definition set_state :: "nat \<Rightarrow> fstate \<Rightarrow> 'c sched \<Rightarrow> 'c sched" where
  "set_state a st sc = sc\<lparr>sc_fibers := (sc_fibers sc)(a := map_option (\<lambda>f. f\<lparr>f_state := st\<rparr>) (sc_fibers sc a))\<rparr>"

text \<open>\<open>fiber->swapIn()\<close> as the loop uses it: the assertion, the new state, control in the fiber. Resuming a
  fiber that has ended runs into the assertion after its last \<open>swapOut\<close>.\<close>

definition switch_in :: "nat \<Rightarrow> 'c sched \<Rightarrow> (unit, 'c sched) outcome" where
  "switch_in a sc =
     (case sc_fibers sc a of
        None \<Rightarrow> Crash NullDeref
      | Some f \<Rightarrow>
          if f_state f = F_EXEC then Crash (AssertFail ''m_state != EXEC'')
          else if f_state f = F_TERM \<or> f_state f = F_EXCEPT then Crash (AssertFail ''never reach fiber_id'')
          else Ok () (set_state a F_EXEC sc))"

definition pick_step :: "nat \<Rightarrow> 'c worker \<Rightarrow> 'c sched \<Rightarrow> (unit, 'c sched) outcome" where
  "pick_step i w sc =
     (case pick_loop (w_tid w) (sc_fibers sc) False [] (m_fibers sc) of
        Inl x \<Rightarrow> Crash x
      | Inr (tickle_me, got, rest) \<Rightarrow>
          let sc = (case got of
                 None \<Rightarrow> set_worker i (w\<lparr>w_pc := Got FiberAndThread_reset False\<rparr>) sc
               | Some ft \<Rightarrow> set_worker i (w\<lparr>w_pc := Got ft True\<rparr>)
                   (sc\<lparr>m_fibers := rest, m_activeThreadCount := m_activeThreadCount sc + 1\<rparr>))
          in Ok () (if tickle_me then tickle sc else sc))"

definition ended :: "'c sched \<Rightarrow> nat \<Rightarrow> bool" where
  "ended sc a = (case sc_fibers sc a of None \<Rightarrow> False | Some f \<Rightarrow> f_state f = F_TERM \<or> f_state f = F_EXCEPT)"

definition cb_fiber_ready :: "nat \<Rightarrow> 'c \<Rightarrow> 'c worker \<Rightarrow> 'c sched \<Rightarrow> (nat, 'c sched) outcome" where
  "cb_fiber_ready na c w sc =
     (case w_cb_fiber w of
        Some b \<Rightarrow>
          (case sc_fibers sc b of
             None \<Rightarrow> Crash NullDeref
           | Some f \<Rightarrow>
               if \<not> f_stack f then Crash (AssertFail ''m_stack'')
               else if f_state f \<notin> {F_TERM, F_EXCEPT, F_INIT}
               then Crash (AssertFail ''m_state == TERM || m_state == EXCEPT || m_state == INIT'')
               else Ok b (sc\<lparr>sc_fibers := (sc_fibers sc)(b \<mapsto> f\<lparr>f_cb := Some c, f_to_main := False, f_state := F_INIT\<rparr>)\<rparr>))
      | None \<Rightarrow>
          Ok na (sc\<lparr>sc_fibers := (sc_fibers sc)(na \<mapsto>
             \<lparr>f_id = of_nat na, f_state = F_INIT, f_stack = True, f_cb = Some c, f_to_main = False\<rparr>)\<rparr>))"

definition dispatch_step :: "nat \<Rightarrow> nat \<Rightarrow> 'c worker \<Rightarrow> 'c task \<Rightarrow> bool \<Rightarrow> 'c sched \<Rightarrow> (unit, 'c sched) outcome" where
  "dispatch_step na i w ft is_active sc =
     (case (tk_fiber ft, tk_cb ft) of
        (Some a, cb) \<Rightarrow>
          if \<not> ended sc a then
            andThen (switch_in a) (\<lambda>_. ret () \<circ> set_worker i (w\<lparr>w_pc := InFiber a\<rparr>)) sc
          else (case cb of
             Some c \<Rightarrow> andThen (cb_fiber_ready na c w) (\<lambda>b. andThen (switch_in b)
                 (\<lambda>_. ret () \<circ> set_worker i (w\<lparr>w_pc := InCb b, w_cb_fiber := Some b\<rparr>))) sc
           | None \<Rightarrow> \<comment> \<open>\<open>is_active\<close>\<close>
               Ok () (set_worker i (w\<lparr>w_pc := AtTop\<rparr>) (sc\<lparr>m_activeThreadCount := m_activeThreadCount sc - 1\<rparr>)))
      | (None, Some c) \<Rightarrow> andThen (cb_fiber_ready na c w) (\<lambda>b. andThen (switch_in b)
            (\<lambda>_. ret () \<circ> set_worker i (w\<lparr>w_pc := InCb b, w_cb_fiber := Some b\<rparr>))) sc
      | (None, None) \<Rightarrow>
          if is_active then
            Ok () (set_worker i (w\<lparr>w_pc := AtTop\<rparr>) (sc\<lparr>m_activeThreadCount := m_activeThreadCount sc - 1\<rparr>))
          else if map_option f_state (sc_fibers sc (w_idle w)) = Some F_TERM then
            Ok () (set_worker i (w\<lparr>w_pc := Exited\<rparr>) sc)
          else andThen (switch_in (w_idle w)) (\<lambda>_. ret () \<circ> set_worker i (w\<lparr>w_pc := InIdle\<rparr>))
                 (sc\<lparr>m_idleThreadCount := m_idleThreadCount sc + 1\<rparr>))"

definition leave_step :: "leave \<Rightarrow> nat \<Rightarrow> 'c sched \<Rightarrow> 'c sched" where
  "leave_step l a sc = sc\<lparr>sc_fibers := (sc_fibers sc)(a := map_option (leave_fiber l) (sc_fibers sc a))\<rparr>"

definition state_is :: "'c sched \<Rightarrow> nat \<Rightarrow> fstate \<Rightarrow> bool" where
  "state_is sc a st \<longleftrightarrow> map_option f_state (sc_fibers sc a) = Some st"

text \<open>Lines 210 to 221: the task was a fiber.\<close>

definition fiber_back_step :: "nat \<Rightarrow> 'c worker \<Rightarrow> nat \<Rightarrow> 'c sched \<Rightarrow> 'c sched" where
  "fiber_back_step i w a sc =
     (let sc = sc\<lparr>m_activeThreadCount := m_activeThreadCount sc - 1\<rparr>;
          sc = (if state_is sc a F_READY then schedule \<lparr>tk_thread = -1, tk_fiber = Some a, tk_cb = None\<rparr> sc
                else if \<not> state_is sc a F_TERM \<and> \<not> state_is sc a F_EXCEPT then set_state a F_HOLD sc
                else sc)
      in set_worker i (w\<lparr>w_pc := AtTop\<rparr>) sc)"

text \<open>Lines 237 to 251: the task was a callback, run on \<open>cb_fiber\<close>.\<close>

definition cb_back_step :: "nat \<Rightarrow> 'c worker \<Rightarrow> nat \<Rightarrow> 'c sched \<Rightarrow> 'c sched" where
  "cb_back_step i w b sc =
     (let sc = sc\<lparr>m_activeThreadCount := m_activeThreadCount sc - 1\<rparr> in
      if state_is sc b F_READY then
        set_worker i (w\<lparr>w_pc := AtTop, w_cb_fiber := None\<rparr>)
          (schedule \<lparr>tk_thread = -1, tk_fiber = Some b, tk_cb = None\<rparr> sc)
      else if state_is sc b F_EXCEPT \<or> state_is sc b F_TERM then
        set_worker i (w\<lparr>w_pc := AtTop\<rparr>)
          (sc\<lparr>sc_fibers := (sc_fibers sc)(b := map_option
             (\<lambda>f. f\<lparr>f_cb := None, f_to_main := False, f_state := F_INIT\<rparr>) (sc_fibers sc b))\<rparr>)
      else set_worker i (w\<lparr>w_pc := AtTop, w_cb_fiber := None\<rparr>) (set_state b F_HOLD sc))"

text \<open>\<open>idle()\<close>: \<open>while (!stopping()) YieldToHold();\<close>, one round per switch.\<close>

definition idle_step :: "nat \<Rightarrow> 'c worker \<Rightarrow> 'c sched \<Rightarrow> 'c sched" where
  "idle_step i w sc =
     set_worker i (w\<lparr>w_pc := IdleBack\<rparr>)
       (leave_step (if stopping sc then Returns else ToHold) (w_idle w) sc)"

definition idle_back_step :: "nat \<Rightarrow> 'c worker \<Rightarrow> 'c sched \<Rightarrow> 'c sched" where
  "idle_back_step i w sc =
     (let sc = sc\<lparr>m_idleThreadCount := m_idleThreadCount sc - 1\<rparr>;
          sc = (if \<not> state_is sc (w_idle w) F_TERM \<and> \<not> state_is sc (w_idle w) F_EXCEPT
                then set_state (w_idle w) F_HOLD sc else sc)
      in set_worker i (w\<lparr>w_pc := AtTop\<rparr>) sc)"

definition run_step :: "nat \<Rightarrow> leave \<Rightarrow> nat \<Rightarrow> 'c sched \<Rightarrow> (unit, 'c sched) outcome" where
  "run_step i l na sc =
     (let w = workers sc ! i in
      case w_pc w of
        AtTop \<Rightarrow> pick_step i w sc
      | Got ft is_active \<Rightarrow> dispatch_step na i w ft is_active sc
      | InFiber a \<Rightarrow> Ok () (set_worker i (w\<lparr>w_pc := FiberBack a\<rparr>) (leave_step l a sc))
      | FiberBack a \<Rightarrow> Ok () (fiber_back_step i w a sc)
      | InCb b \<Rightarrow> Ok () (set_worker i (w\<lparr>w_pc := CbBack b\<rparr>) (leave_step l b sc))
      | CbBack b \<Rightarrow> Ok () (cb_back_step i w b sc)
      | InIdle \<Rightarrow> Ok () (idle_step i w sc)
      | IdleBack \<Rightarrow> Ok () (idle_back_step i w sc)
      | Exited \<Rightarrow> Ok () sc)"

definition stop_flags :: "'c sched \<Rightarrow> 'c sched" where
  "stop_flags sc = sc\<lparr>m_autoStop := True, m_stopping := True\<rparr>"

subsection \<open>The search\<close>

definition eligible :: "int \<Rightarrow> (nat \<rightharpoonup> 'c fiber) \<Rightarrow> 'c task \<Rightarrow> bool" where
  "eligible tid fs t \<longleftrightarrow> (tk_thread t = -1 \<or> tk_thread t = tid) \<and> \<not> executing fs (tk_fiber t)"

definition nonempty :: "'c task \<Rightarrow> bool" where
  "nonempty t \<longleftrightarrow> tk_fiber t \<noteq> None \<or> tk_cb t \<noteq> None"

text \<open>The loop returns the first eligible task and leaves the others in their order.\<close>

lemma pick_loop_correct:
  assumes "\<forall>t\<in>set ts. nonempty t"
  shows "\<exists>b. pick_loop tid fs tk skipped ts =
    Inr (b, find (eligible tid fs) ts,
         skipped @ takeWhile (\<lambda>t. \<not> eligible tid fs t) ts @ tl (dropWhile (\<lambda>t. \<not> eligible tid fs t) ts))"
  using assms
proof (induction ts arbitrary: tk skipped)
  case Nil
  then show ?case by simp
next
  case (Cons t ts)
  then have ne: "\<not> (tk_fiber t = None \<and> tk_cb t = None)" and ts: "\<forall>t\<in>set ts. nonempty t"
    by (auto simp: nonempty_def)
  show ?case
  proof (cases "eligible tid fs t")
    case True
    then show ?thesis using ne by (auto simp: eligible_def)
  next
    case False
    note IH = Cons.IH [OF ts]
    show ?thesis
    proof (cases "tk_thread t \<noteq> -1 \<and> tk_thread t \<noteq> tid")
      case True
      then show ?thesis using False IH [of True "skipped @ [t]"] by simp
    next
      case ok: False
      then have "executing fs (tk_fiber t)" using False by (auto simp: eligible_def)
      with ok ne False IH [of tk "skipped @ [t]"] show ?thesis by (simp del: de_Morgan_conj)
    qed
  qed
qed

lemma find_split:
  assumes "find P xs = Some x"
  shows "xs = takeWhile (\<lambda>y. \<not> P y) xs @ x # tl (dropWhile (\<lambda>y. \<not> P y) xs)" "P x"
  using assms by (induction xs) (auto split: if_splits)

lemma find_none:
  assumes "find P xs = None"
  shows "takeWhile (\<lambda>y. \<not> P y) xs @ tl (dropWhile (\<lambda>y. \<not> P y) xs) = xs"
  using assms by (induction xs) (auto split: if_splits)

subsection \<open>Invariant\<close>

definition queue_fibers :: "'c sched \<Rightarrow> nat list" where
  "queue_fibers sc = List.map_filter tk_fiber (m_fibers sc)"

fun pc_fibers :: "'c pc \<Rightarrow> nat set" where
  "pc_fibers (Got t _) = set_option (tk_fiber t)"
| "pc_fibers (InFiber a) = {a}"
| "pc_fibers (FiberBack a) = {a}"
| "pc_fibers _ = {}"

definition holds :: "'c worker \<Rightarrow> nat set" where
  "holds w = insert (w_idle w) (set_option (w_cb_fiber w) \<union> pc_fibers (w_pc w))"

fun busy :: "'c pc \<Rightarrow> bool" where
  "busy (Got _ b) = b"
| "busy (InFiber _) = True" | "busy (FiberBack _) = True" | "busy (InCb _) = True" | "busy (CbBack _) = True"
| "busy _ = False"

fun idling :: "'c pc \<Rightarrow> bool" where
  "idling InIdle = True" | "idling IdleBack = True" | "idling _ = False"

text \<open>\<open>in_state q fs a S\<close>: fiber \<open>a\<close> exists with a stack of its own, its state is in \<open>S\<close>, and unless it is
  executing it is not in the queue.\<close>

definition in_state :: "nat set \<Rightarrow> (nat \<rightharpoonup> 'c fiber) \<Rightarrow> nat \<Rightarrow> fstate set \<Rightarrow> bool" where
  "in_state q fs a S \<longleftrightarrow>
     (\<exists>f. fs a = Some f \<and> f_stack f \<and> f_state f \<in> S \<and> (f_state f \<noteq> F_EXEC \<longrightarrow> a \<notin> q))"

text \<open>The states a worker's task fiber, callback fiber and idle fiber can have at each point of the loop.\<close>

fun pc_ok :: "nat set \<Rightarrow> (nat \<rightharpoonup> 'c fiber) \<Rightarrow> 'c pc \<Rightarrow> bool" where
  "pc_ok q fs (Got t b) \<longleftrightarrow> (b \<longleftrightarrow> nonempty t) \<and>
     (\<forall>a. tk_fiber t = Some a \<longrightarrow> in_state q fs a (- {F_EXEC}))"
| "pc_ok q fs (InFiber a) \<longleftrightarrow> in_state q fs a {F_EXEC}"
| "pc_ok q fs (FiberBack a) \<longleftrightarrow> in_state q fs a {F_READY, F_EXEC, F_TERM, F_EXCEPT}"
| "pc_ok q fs _ \<longleftrightarrow> True"

fun cb_states :: "nat \<Rightarrow> 'c pc \<Rightarrow> fstate set" where
  "cb_states b (InCb a) = (if a = b then {F_EXEC} else {})"
| "cb_states b (CbBack a) = (if a = b then {F_READY, F_EXEC, F_TERM, F_EXCEPT} else {})"
| "cb_states b _ = {F_INIT}"

fun idle_states :: "'c pc \<Rightarrow> fstate set" where
  "idle_states InIdle = {F_EXEC}"
| "idle_states IdleBack = {F_EXEC, F_TERM}"
| "idle_states _ = {F_INIT, F_HOLD, F_TERM}"

definition w_ok :: "nat set \<Rightarrow> (nat \<rightharpoonup> 'c fiber) \<Rightarrow> 'c worker \<Rightarrow> bool" where
  "w_ok q fs w \<longleftrightarrow>
     in_state q fs (w_idle w) (idle_states (w_pc w)) \<and> w_idle w \<notin> q \<and>
     (\<forall>b. w_cb_fiber w = Some b \<longrightarrow> b \<noteq> w_idle w \<and> in_state q fs b (cb_states b (w_pc w))) \<and>
     (\<forall>b. w_pc w \<in> {InCb b, CbBack b} \<longrightarrow> w_cb_fiber w = Some b) \<and>
     pc_ok q fs (w_pc w) \<and>
     w_idle w \<notin> pc_fibers (w_pc w) \<and> set_option (w_cb_fiber w) \<inter> pc_fibers (w_pc w) = {}"

definition sched_inv :: "'c sched \<Rightarrow> bool" where
  "sched_inv sc \<longleftrightarrow>
     (\<forall>i < length (workers sc). w_ok (set (queue_fibers sc)) (sc_fibers sc) (workers sc ! i)) \<and>
     (\<forall>i j. i < length (workers sc) \<longrightarrow> j < length (workers sc) \<longrightarrow> i \<noteq> j \<longrightarrow>
        holds (workers sc ! i) \<inter> holds (workers sc ! j) = {}) \<and>
     distinct (queue_fibers sc) \<and> (\<forall>t\<in>set (m_fibers sc). nonempty t) \<and>
     (\<forall>a\<in>set (queue_fibers sc). \<exists>f. sc_fibers sc a = Some f \<and> f_stack f) \<and>
     m_activeThreadCount sc = length (filter (busy \<circ> w_pc) (workers sc)) \<and>
     m_idleThreadCount sc = length (filter (idling \<circ> w_pc) (workers sc))"

lemma count_update:
  "i < length xs \<Longrightarrow>
   length (filter P (xs[i := x])) + (if P (xs ! i) then 1 else 0) = length (filter P xs) + (if P x then 1 else 0)"
proof (induction xs arbitrary: i)
  case (Cons y ys)
  then show ?case by (cases i) auto
qed simp

lemma count_pos: "i < length xs \<Longrightarrow> P (xs ! i) \<Longrightarrow> 0 < length (filter P xs)"
  by (auto simp: filter_empty_conv)

lemma in_state_frame:
  "in_state q fs a S \<Longrightarrow> fs' a = fs a \<Longrightarrow> (a \<in> q' \<Longrightarrow> a \<in> q) \<Longrightarrow> in_state q' fs' a S"
  by (auto simp: in_state_def)

text \<open>A worker does not notice changes to fibers it does not hold, nor the queue losing elements or
  gaining fibers it does not hold.\<close>

lemma w_ok_frame:
  assumes "w_ok q fs w" and "\<forall>a\<in>holds w. fs' a = fs a" and "\<forall>a\<in>holds w. a \<in> q' \<longrightarrow> a \<in> q"
  shows "w_ok q' fs' w"
proof -
  have fr: "in_state q fs a S \<Longrightarrow> in_state q' fs' a S" if "a \<in> holds w" for a S
    using assms(2,3) that in_state_frame [of q fs a S fs' q'] by auto
  have h: "w_idle w \<in> holds w" "w_cb_fiber w = Some b \<Longrightarrow> b \<in> holds w" "a \<in> pc_fibers (w_pc w) \<Longrightarrow> a \<in> holds w" for a b
    by (auto simp: holds_def)
  have "pc_ok q' fs' (w_pc w)"
    using assms(1) h(3) fr by (cases "w_pc w") (auto simp: w_ok_def)
  moreover have "w_idle w \<notin> q'" using assms h(1) by (auto simp: w_ok_def)
  ultimately show ?thesis using assms(1) fr h unfolding w_ok_def by blast
qed

text \<open>The frame of one step of worker \<open>i\<close>: it changes fibers it held or a fresh one, and adds only fibers it
  held to the queue.\<close>

lemma step_preserves:
  assumes inv: "sched_inv sc" and i: "i < length (workers sc)"
    and ws: "workers sc' = (workers sc)[i := w']"
    and chg: "\<forall>a. sc_fibers sc' a \<noteq> sc_fibers sc a \<longrightarrow> a \<in> holds (workers sc ! i) \<or> sc_fibers sc a = None"
    and qadd: "set (queue_fibers sc') \<subseteq> set (queue_fibers sc) \<union> holds (workers sc ! i)"
    and new: "\<forall>a\<in>holds w'. a \<in> holds (workers sc ! i) \<or> sc_fibers sc a = None \<or>
                (a \<in> set (queue_fibers sc) \<and> \<not> executing (sc_fibers sc) (Some a))"
    and ok: "w_ok (set (queue_fibers sc')) (sc_fibers sc') w'"
    and q: "distinct (queue_fibers sc')" "\<forall>t\<in>set (m_fibers sc'). nonempty t"
      "\<forall>a\<in>set (queue_fibers sc'). \<exists>f. sc_fibers sc' a = Some f \<and> f_stack f"
    and act: "m_activeThreadCount sc' + (if busy (w_pc (workers sc ! i)) then 1 else 0) =
                m_activeThreadCount sc + (if busy (w_pc w') then 1 else 0)"
    and idl: "m_idleThreadCount sc' + (if idling (w_pc (workers sc ! i)) then 1 else 0) =
                m_idleThreadCount sc + (if idling (w_pc w') then 1 else 0)"
  shows "sched_inv sc'"
proof -
  have all: "w_ok (set (queue_fibers sc)) (sc_fibers sc) (workers sc ! j)" if "j < length (workers sc)" for j
    using inv that by (simp add: sched_inv_def)
  have disj: "holds (workers sc ! j) \<inter> holds (workers sc ! k) = {}"
    if "j < length (workers sc)" "k < length (workers sc)" "j \<noteq> k" for j k
    using inv that by (simp add: sched_inv_def)
  have live: "sc_fibers sc a \<noteq> None" "a \<in> set (queue_fibers sc) \<Longrightarrow> executing (sc_fibers sc) (Some a)"
    if "j < length (workers sc)" "a \<in> holds (workers sc ! j)" for j a
  proof -
    have w: "w_ok (set (queue_fibers sc)) (sc_fibers sc) (workers sc ! j)" using that all by blast
    have "\<exists>S. in_state (set (queue_fibers sc)) (sc_fibers sc) a S"
      using w that(2) unfolding w_ok_def holds_def
      by (cases "w_pc (workers sc ! j)") (auto split: option.splits)
    then show "sc_fibers sc a \<noteq> None" "a \<in> set (queue_fibers sc) \<Longrightarrow> executing (sc_fibers sc) (Some a)"
      by (auto simp: in_state_def executing_def)
  qed
  have other: "w_ok (set (queue_fibers sc')) (sc_fibers sc') (workers sc ! j)"
    if j: "j < length (workers sc)" "j \<noteq> i" for j
  proof (rule w_ok_frame [OF all [OF j(1)]])
    show "\<forall>a\<in>holds (workers sc ! j). sc_fibers sc' a = sc_fibers sc a"
      using chg disj [OF j(1) i j(2)] live(1) [OF j(1)] by blast
    show "\<forall>a\<in>holds (workers sc ! j). a \<in> set (queue_fibers sc') \<longrightarrow> a \<in> set (queue_fibers sc)"
      using qadd disj [OF j(1) i j(2)] by blast
  qed
  have new': "holds w' \<inter> holds (workers sc ! j) = {}" if j: "j < length (workers sc)" "j \<noteq> i" for j
    using new disj [OF j(1) i j(2)] live [OF j(1)] by blast
  have cnt: "m_activeThreadCount sc' = length (filter (busy \<circ> w_pc) ((workers sc)[i := w']))"
    "m_idleThreadCount sc' = length (filter (idling \<circ> w_pc) ((workers sc)[i := w']))"
    using inv act idl count_update [OF i, of "busy \<circ> w_pc" w'] count_update [OF i, of "idling \<circ> w_pc" w']
    by (auto simp: sched_inv_def split: if_splits)
  have len: "length (workers sc') = length (workers sc)" using ws by simp
  have "w_ok (set (queue_fibers sc')) (sc_fibers sc') (workers sc' ! j)" if "j < length (workers sc')" for j
    using that other ok ws by (cases "j = i") auto
  moreover have "holds (workers sc' ! j) \<inter> holds (workers sc' ! k) = {}"
    if "j < length (workers sc')" "k < length (workers sc')" "j \<noteq> k" for j k
    using that ws new' disj [of j k] by (cases "j = i"; cases "k = i") (auto simp: Int_commute)
  ultimately show ?thesis using q cnt ws unfolding sched_inv_def by simp
qed

subsection \<open>Every step keeps the invariant\<close>

lemma sched_field_simps [simp]:
  "sc_fibers (set_worker i w sc) = sc_fibers sc" "m_fibers (set_worker i w sc) = m_fibers sc"
  "m_activeThreadCount (set_worker i w sc) = m_activeThreadCount sc"
  "m_idleThreadCount (set_worker i w sc) = m_idleThreadCount sc"
  "workers (set_worker i w sc) = (workers sc)[i := w]"
  "sc_fibers (tickle sc) = sc_fibers sc" "m_fibers (tickle sc) = m_fibers sc" "workers (tickle sc) = workers sc"
  "m_activeThreadCount (tickle sc) = m_activeThreadCount sc" "m_idleThreadCount (tickle sc) = m_idleThreadCount sc"
  "m_fibers (set_state a st sc) = m_fibers sc" "workers (set_state a st sc) = workers sc"
  "m_activeThreadCount (set_state a st sc) = m_activeThreadCount sc"
  "m_idleThreadCount (set_state a st sc) = m_idleThreadCount sc"
  "m_fibers (leave_step l a sc) = m_fibers sc" "workers (leave_step l a sc) = workers sc"
  "m_activeThreadCount (leave_step l a sc) = m_activeThreadCount sc"
  "m_idleThreadCount (leave_step l a sc) = m_idleThreadCount sc"
  by (simp_all add: set_worker_def tickle_def set_state_def leave_step_def)

lemma queue_fibers_simps [simp]:
  "queue_fibers (set_worker i w sc) = queue_fibers sc" "queue_fibers (tickle sc) = queue_fibers sc"
  "queue_fibers (set_state a st sc) = queue_fibers sc" "queue_fibers (leave_step l a sc) = queue_fibers sc"
  "queue_fibers (sc\<lparr>m_activeThreadCount := n\<rparr>) = queue_fibers sc"
  "queue_fibers (sc\<lparr>m_idleThreadCount := n\<rparr>) = queue_fibers sc"
  "queue_fibers (sc\<lparr>sc_fibers := fs\<rparr>) = queue_fibers sc"
  by (simp_all add: queue_fibers_def)

lemma sched_invD:
  assumes "sched_inv sc"
  shows "i < length (workers sc) \<Longrightarrow> w_ok (set (queue_fibers sc)) (sc_fibers sc) (workers sc ! i)"
    "distinct (queue_fibers sc)" "\<forall>t\<in>set (m_fibers sc). nonempty t"
    "\<forall>a\<in>set (queue_fibers sc). \<exists>f. sc_fibers sc a = Some f \<and> f_stack f"
    "m_activeThreadCount sc = length (filter (busy \<circ> w_pc) (workers sc))"
    "m_idleThreadCount sc = length (filter (idling \<circ> w_pc) (workers sc))"
  using assms by (simp_all add: sched_inv_def)

lemma sched_inv_tickle: "sched_inv (tickle sc) \<longleftrightarrow> sched_inv sc"
  by (simp add: sched_inv_def queue_fibers_def)

lemma count_one:
  assumes "sched_inv sc" and "i < length (workers sc)"
  shows "busy (w_pc (workers sc ! i)) \<Longrightarrow> 0 < m_activeThreadCount sc"
    "idling (w_pc (workers sc ! i)) \<Longrightarrow> 0 < m_idleThreadCount sc"
  using sched_invD(5,6) [OF assms(1)] count_pos [OF assms(2), of "busy \<circ> w_pc"]
    count_pos [OF assms(2), of "idling \<circ> w_pc"] by simp_all

lemma holds_simps [simp]:
  "holds (w\<lparr>w_pc := p\<rparr>) = insert (w_idle w) (set_option (w_cb_fiber w) \<union> pc_fibers p)"
  "holds (w\<lparr>w_pc := p, w_cb_fiber := b\<rparr>) = insert (w_idle w) (set_option b \<union> pc_fibers p)"
  by (simp_all add: holds_def)

lemma map_filter_append: "List.map_filter f (xs @ ys) = List.map_filter f xs @ List.map_filter f ys"
  by (simp add: List.map_filter_def)

lemma pick_step_inv:
  assumes inv: "sched_inv sc" and i: "i < length (workers sc)" and w: "w = workers sc ! i" and pc: "w_pc w = AtTop"
  shows "\<exists>sc'. pick_step i w sc = Ok () sc' \<and> sched_inv sc'"
proof -
  note D = sched_invD [OF inv]
  let ?P = "eligible (w_tid w) (sc_fibers sc)"
  obtain b where b: "pick_loop (w_tid w) (sc_fibers sc) False [] (m_fibers sc) =
      Inr (b, find ?P (m_fibers sc),
        takeWhile (\<lambda>t. \<not> ?P t) (m_fibers sc) @ tl (dropWhile (\<lambda>t. \<not> ?P t) (m_fibers sc)))"
    using pick_loop_correct [OF D(3), of "w_tid w" "sc_fibers sc" False "[]"] by auto
  have wok: "w_ok (set (queue_fibers sc)) (sc_fibers sc) w" using D(1) [OF i] w by simp
  show ?thesis
  proof (cases "find ?P (m_fibers sc)")
    case None
    let ?s = "set_worker i (w\<lparr>w_pc := Got FiberAndThread_reset False\<rparr>) sc"
    have "sched_inv ?s"
      by (rule step_preserves [OF inv i, where w' = "w\<lparr>w_pc := Got FiberAndThread_reset False\<rparr>"])
         (use D wok w pc in \<open>auto simp: w_ok_def FiberAndThread_reset_def nonempty_def holds_def\<close>)
    then show ?thesis using b None by (auto simp: pick_step_def Let_def sched_inv_tickle)
  next
    case (Some t)
    let ?A = "takeWhile (\<lambda>t. \<not> ?P t) (m_fibers sc)" and ?B = "tl (dropWhile (\<lambda>t. \<not> ?P t) (m_fibers sc))"
    let ?w = "w\<lparr>w_pc := Got t True\<rparr>"
    let ?s = "set_worker i ?w (sc\<lparr>m_fibers := ?A @ ?B, m_activeThreadCount := m_activeThreadCount sc + 1\<rparr>)"
    have split: "m_fibers sc = ?A @ t # ?B" and elig: "?P t" using find_split [OF Some] by auto
    have qs: "queue_fibers sc = List.map_filter tk_fiber ?A @ (case tk_fiber t of None \<Rightarrow> [] | Some a \<Rightarrow> [a]) @
        List.map_filter tk_fiber ?B"
      unfolding queue_fibers_def by (subst split) (simp add: map_filter_append List.map_filter_simps split: option.split)
    have q: "queue_fibers ?s = List.map_filter tk_fiber ?A @ List.map_filter tk_fiber ?B"
      by (simp add: queue_fibers_def map_filter_append)
    have sub: "set (queue_fibers ?s) \<subseteq> set (queue_fibers sc)" using qs q by auto
    have "t \<in> set (m_fibers sc)" by (subst split) simp
    then have ne: "nonempty t" using D(3) by blast
    have fib: "a \<in> set (queue_fibers sc)" "a \<notin> set (queue_fibers ?s)" "\<not> executing (sc_fibers sc) (Some a)"
      if "tk_fiber t = Some a" for a
      using that qs q D(2) elig by (auto simp: eligible_def)
    have frame: "w_ok (set (queue_fibers ?s)) (sc_fibers sc) w"
      by (rule w_ok_frame [OF wok]) (use sub in \<open>auto simp del: queue_fibers_simps\<close>)
    have own: "a \<notin> holds w" if "tk_fiber t = Some a" for a
      using fib [OF that] wok pc by (auto simp: w_ok_def holds_def in_state_def executing_def split: option.splits)
    have got: "in_state (set (queue_fibers ?s)) (sc_fibers sc) a (- {F_EXEC})" if "tk_fiber t = Some a" for a
      using fib [OF that] D(4) by (auto simp: in_state_def executing_def)
    have "sched_inv ?s"
    proof (rule step_preserves [OF inv i, where w' = ?w])
      show "w_ok (set (queue_fibers ?s)) (sc_fibers ?s) ?w"
        using frame got own ne pc by (auto simp: w_ok_def holds_def)
      show "distinct (queue_fibers ?s)" using D(2) qs q by auto
      show "\<forall>t\<in>set (m_fibers ?s). nonempty t" using D(3) by (subst (asm) split) auto
      show "\<forall>a\<in>holds ?w. a \<in> holds (workers sc ! i) \<or> sc_fibers sc a = None \<or>
                (a \<in> set (queue_fibers sc) \<and> \<not> executing (sc_fibers sc) (Some a))"
        using fib w by (auto simp: holds_def)
    qed (use sub D(4) w pc in auto)
    then show ?thesis using b Some by (auto simp: pick_step_def Let_def sched_inv_tickle)
  qed
qed

lemma fibers_upd_simps [simp]:
  "sc_fibers (set_state a st sc) = (sc_fibers sc)(a := map_option (\<lambda>f. f\<lparr>f_state := st\<rparr>) (sc_fibers sc a))"
  "sc_fibers (leave_step l a sc) = (sc_fibers sc)(a := map_option (leave_fiber l) (sc_fibers sc a))"
  by (simp_all add: set_state_def leave_step_def)

lemma switch_in_Ok:
  "sc_fibers sc a = Some f \<Longrightarrow> f_state f \<notin> {F_EXEC, F_TERM, F_EXCEPT} \<Longrightarrow>
   switch_in a sc = Ok () (set_state a F_EXEC sc)"
  by (simp add: switch_in_def)

lemma in_state_upd [simp]:
  "in_state q (fs(a \<mapsto> f)) b S \<longleftrightarrow>
     (if b = a then f_stack f \<and> f_state f \<in> S \<and> (f_state f \<noteq> F_EXEC \<longrightarrow> a \<notin> q) else in_state q fs b S)"
  by (simp add: in_state_def)

lemma w_okD:
  assumes "w_ok q fs w"
  shows "in_state q fs (w_idle w) (idle_states (w_pc w))" "w_idle w \<notin> q"
    "w_cb_fiber w = Some b \<Longrightarrow> b \<noteq> w_idle w" "w_cb_fiber w = Some b \<Longrightarrow> in_state q fs b (cb_states b (w_pc w))"
    "pc_ok q fs (w_pc w)" "w_idle w \<notin> pc_fibers (w_pc w)" "set_option (w_cb_fiber w) \<inter> pc_fibers (w_pc w) = {}"
    "w_pc w \<in> {InCb b, CbBack b} \<Longrightarrow> w_cb_fiber w = Some b"
  using assms unfolding w_ok_def by blast+

lemma cb_dispatch_inv:
  assumes inv: "sched_inv sc" and i: "i < length (workers sc)" and w: "w = workers sc ! i"
    and pc: "w_pc w = Got t True" and na: "sc_fibers sc na = None" "na \<notin> set (queue_fibers sc)"
  shows "\<exists>sc'. andThen (cb_fiber_ready na c w) (\<lambda>b. andThen (switch_in b)
            (\<lambda>_. ret () \<circ> set_worker i (w\<lparr>w_pc := InCb b, w_cb_fiber := Some b\<rparr>))) sc = Ok () sc' \<and> sched_inv sc'"
proof -
  note D = sched_invD [OF inv]
  have wok: "w_ok (set (queue_fibers sc)) (sc_fibers sc) w" using D(1) [OF i] w by simp
  note W = w_okD [OF wok]
  obtain b f where b: "cb_fiber_ready na c w sc = Ok b (sc\<lparr>sc_fibers := (sc_fibers sc)(b \<mapsto> f)\<rparr>)"
    "f_state f = F_INIT" "f_stack f" "b \<notin> set (queue_fibers sc)" "b \<noteq> w_idle w" "b \<in> holds w \<or> sc_fibers sc b = None"
  proof (cases "w_cb_fiber w")
    case None
    have "na \<noteq> w_idle w" using W(1) na by (auto simp: in_state_def)
    then show ?thesis using na None that by (simp add: cb_fiber_ready_def)
  next
    case (Some b)
    then obtain g where g: "sc_fibers sc b = Some g" "f_stack g" "f_state g = F_INIT" "b \<notin> set (queue_fibers sc)"
      using W(4) [OF Some] pc by (auto simp: in_state_def)
    then show ?thesis using that [of b] Some W(3) [OF Some] by (simp add: cb_fiber_ready_def holds_def)
  qed
  let ?s1 = "sc\<lparr>sc_fibers := (sc_fibers sc)(b \<mapsto> f)\<rparr>"
  let ?w = "w\<lparr>w_pc := InCb b, w_cb_fiber := Some b\<rparr>"
  let ?s = "set_worker i ?w (set_state b F_EXEC ?s1)"
  have fs: "sc_fibers ?s = (sc_fibers sc)(b \<mapsto> f\<lparr>f_state := F_EXEC\<rparr>)" by simp
  have "sched_inv ?s"
  proof (rule step_preserves [OF inv i, where w' = ?w])
    show "w_ok (set (queue_fibers ?s)) (sc_fibers ?s) ?w"
      unfolding fs using W(1,2) b pc by (auto simp: w_ok_def)
    show "\<forall>a. sc_fibers ?s a \<noteq> sc_fibers sc a \<longrightarrow> a \<in> holds (workers sc ! i) \<or> sc_fibers sc a = None"
      unfolding fs using b(6) w by auto
    show "\<forall>a\<in>set (queue_fibers ?s). \<exists>f. sc_fibers ?s a = Some f \<and> f_stack f"
      unfolding fs using D(4) b(3) by auto
    show "\<forall>a\<in>holds ?w. a \<in> holds (workers sc ! i) \<or> sc_fibers sc a = None \<or>
        (a \<in> set (queue_fibers sc) \<and> \<not> executing (sc_fibers sc) (Some a))"
      using b(6) w by (auto simp: holds_def)
  qed (use D pc w in auto)
  moreover have "switch_in b ?s1 = Ok () (set_state b F_EXEC ?s1)" using b(2) by (simp add: switch_in_Ok)
  ultimately show ?thesis using b(1) by simp
qed

lemma dispatch_step_inv:
  assumes inv: "sched_inv sc" and i: "i < length (workers sc)" and w: "w = workers sc ! i"
    and pc: "w_pc w = Got t act" and na: "sc_fibers sc na = None" "na \<notin> set (queue_fibers sc)"
  shows "\<exists>sc'. dispatch_step na i w t act sc = Ok () sc' \<and> sched_inv sc'"
proof -
  note D = sched_invD [OF inv] and C = count_one [OF inv i]
  have wok: "w_ok (set (queue_fibers sc)) (sc_fibers sc) w" using D(1) [OF i] w by simp
  note W = w_okD [OF wok]
  have act: "act \<longleftrightarrow> nonempty t" using W(5) pc by simp
  have drop: "sched_inv (set_worker i (w\<lparr>w_pc := AtTop\<rparr>) (sc\<lparr>m_activeThreadCount := m_activeThreadCount sc - 1\<rparr>))"
    if "act"
    by (rule step_preserves [OF inv i, where w' = "w\<lparr>w_pc := AtTop\<rparr>"])
       (use D W pc w that C in \<open>auto simp: w_ok_def holds_def\<close>)
  consider (fiber) a f where "tk_fiber t = Some a" "sc_fibers sc a = Some f" "\<not> ended sc a"
    | (ended) a where "tk_fiber t = Some a" "ended sc a" | (cb) c where "tk_fiber t = None" "tk_cb t = Some c"
    | (none) "tk_fiber t = None" "tk_cb t = None"
    using W(5) pc by (cases "tk_fiber t"; cases "tk_cb t") (auto simp: in_state_def)
  then show ?thesis
  proof cases
    case fiber
    have st: "f_stack f" "f_state f \<notin> {F_EXEC, F_TERM, F_EXCEPT}" "a \<notin> set (queue_fibers sc)"
      using W(5) pc fiber by (auto simp: in_state_def ended_def)
    let ?w = "w\<lparr>w_pc := InFiber a\<rparr>"
    let ?s = "set_worker i ?w (set_state a F_EXEC sc)"
    have fs: "sc_fibers ?s = (sc_fibers sc)(a \<mapsto> f\<lparr>f_state := F_EXEC\<rparr>)" using fiber by simp
    have "sched_inv ?s"
    proof (rule step_preserves [OF inv i, where w' = ?w])
      show "w_ok (set (queue_fibers ?s)) (sc_fibers ?s) ?w"
        unfolding fs using W pc fiber st by (auto simp: w_ok_def)
      show "\<forall>b. sc_fibers ?s b \<noteq> sc_fibers sc b \<longrightarrow> b \<in> holds (workers sc ! i) \<or> sc_fibers sc b = None"
        unfolding fs using w pc fiber by (auto simp: holds_def)
      show "\<forall>a\<in>set (queue_fibers ?s). \<exists>f. sc_fibers ?s a = Some f \<and> f_stack f"
        unfolding fs using D(4) st(1) by auto
    qed (use D pc w fiber act in \<open>auto simp: holds_def nonempty_def\<close>)
    then show ?thesis using fiber st by (auto simp: dispatch_step_def switch_in_Ok)
  next
    case ended
    then have "act" using act by (simp add: nonempty_def)
    then show ?thesis
      using ended drop cb_dispatch_inv [OF inv i w _ na] pc
      by (cases "tk_cb t") (auto simp: dispatch_step_def)
  next
    case cb
    then have "act" using act by (simp add: nonempty_def)
    then show ?thesis using cb cb_dispatch_inv [OF inv i w _ na] pc by (auto simp: dispatch_step_def)
  next
    case none
    then have na': "\<not> act" using act by (simp add: nonempty_def)
    obtain f where f: "sc_fibers sc (w_idle w) = Some f" "f_stack f" "f_state f \<in> {F_INIT, F_HOLD, F_TERM}"
      using W(1) pc by (auto simp: in_state_def)
    show ?thesis
    proof (cases "f_state f = F_TERM")
      case True
      have "sched_inv (set_worker i (w\<lparr>w_pc := Exited\<rparr>) sc)"
        by (rule step_preserves [OF inv i, where w' = "w\<lparr>w_pc := Exited\<rparr>"])
           (use D W pc w na' in \<open>auto simp: w_ok_def holds_def\<close>)
      then show ?thesis using none na' True f by (simp add: dispatch_step_def)
    next
      case False
      let ?w = "w\<lparr>w_pc := InIdle\<rparr>"
      let ?s1 = "sc\<lparr>m_idleThreadCount := m_idleThreadCount sc + 1\<rparr>"
      let ?s = "set_worker i ?w (set_state (w_idle w) F_EXEC ?s1)"
      have fs: "sc_fibers ?s = (sc_fibers sc)(w_idle w \<mapsto> f\<lparr>f_state := F_EXEC\<rparr>)" using f by simp
      have "sched_inv ?s"
      proof (rule step_preserves [OF inv i, where w' = ?w])
        show "w_ok (set (queue_fibers ?s)) (sc_fibers ?s) ?w"
          unfolding fs using W pc f none by (auto simp: w_ok_def)
        show "\<forall>b. sc_fibers ?s b \<noteq> sc_fibers sc b \<longrightarrow> b \<in> holds (workers sc ! i) \<or> sc_fibers sc b = None"
          unfolding fs using w by (auto simp: holds_def)
        show "\<forall>a\<in>set (queue_fibers ?s). \<exists>f. sc_fibers ?s a = Some f \<and> f_stack f"
          unfolding fs using D(4) f(2) by auto
      qed (use D pc w na' in \<open>auto simp: holds_def\<close>)
      moreover have "switch_in (w_idle w) ?s1 = Ok () (set_state (w_idle w) F_EXEC ?s1)"
        using f False by (intro switch_in_Ok [of _ _ f]) auto
      ultimately show ?thesis using none na' False f by (simp add: dispatch_step_def)
    qed
  qed
qed

lemma left_states: "left_state l \<in> {F_READY, F_EXEC, F_TERM, F_EXCEPT}" "left_state l = F_EXEC \<longleftrightarrow> l = ToHold"
  by (cases l; simp)+

text \<open>The discipline of the fibers: one that gives up control other than by \<open>YieldToHold\<close> must not be in
  the queue already.\<close>

definition may_leave :: "leave \<Rightarrow> nat \<Rightarrow> 'c sched \<Rightarrow> bool" where
  "may_leave l a sc \<longleftrightarrow> l = ToHold \<or> a \<notin> set (queue_fibers sc)"

lemma leave_inv:
  assumes inv: "sched_inv sc" and i: "i < length (workers sc)" and w: "w = workers sc ! i"
    and pc: "w_pc w = InFiber a \<and> p = FiberBack a \<or> w_pc w = InCb a \<and> p = CbBack a" and l: "may_leave l a sc"
  shows "sched_inv (set_worker i (w\<lparr>w_pc := p\<rparr>) (leave_step l a sc))"
proof -
  note D = sched_invD [OF inv]
  have wok: "w_ok (set (queue_fibers sc)) (sc_fibers sc) w" using D(1) [OF i] w by simp
  note W = w_okD [OF wok]
  have own: "a \<in> holds w" using W(8) [of a] pc by (auto simp: holds_def)
  obtain f where f: "sc_fibers sc a = Some f" "f_stack f"
    using W(4,5) W(8) [of a] pc by (auto simp: in_state_def)
  let ?w = "w\<lparr>w_pc := p\<rparr>"
  let ?s = "set_worker i ?w (leave_step l a sc)"
  have fs: "sc_fibers ?s = (sc_fibers sc)(a \<mapsto> leave_fiber l f)" using f by simp
  show ?thesis
  proof (rule step_preserves [OF inv i, where w' = ?w])
    show "w_ok (set (queue_fibers ?s)) (sc_fibers ?s) ?w"
      unfolding fs using W(1-3,6,7) W(4) W(8) [of a] pc f l left_states [of l]
      by (auto simp: w_ok_def may_leave_def)
    show "\<forall>b. sc_fibers ?s b \<noteq> sc_fibers sc b \<longrightarrow> b \<in> holds (workers sc ! i) \<or> sc_fibers sc b = None"
      unfolding fs using own w by auto
    show "\<forall>a\<in>set (queue_fibers ?s). \<exists>f. sc_fibers ?s a = Some f \<and> f_stack f"
      unfolding fs using D(4) f(2) by auto
  qed (use D pc w in \<open>auto simp: holds_def\<close>)
qed

lemma schedule_fiber_fields [simp]:
  "sc_fibers (schedule t sc) = sc_fibers sc" "workers (schedule t sc) = workers sc"
  "m_activeThreadCount (schedule t sc) = m_activeThreadCount sc"
  "m_idleThreadCount (schedule t sc) = m_idleThreadCount sc"
  "m_fibers (schedule t sc) = m_fibers sc @ (if nonempty t then [t] else [])"
  "m_stopping (schedule t sc) = m_stopping sc" "m_autoStop (schedule t sc) = m_autoStop sc"
  by (auto simp: schedule_def scheduleNoLock_def Let_def tickle_def nonempty_def)

lemma queue_fibers_schedule [simp]:
  "queue_fibers (schedule t sc) = queue_fibers sc @ (case tk_fiber t of None \<Rightarrow> [] | Some a \<Rightarrow> [a])"
  by (auto simp: queue_fibers_def map_filter_append List.map_filter_simps nonempty_def split: option.split)

lemma fiber_back_step_inv:
  assumes inv: "sched_inv sc" and i: "i < length (workers sc)" and w: "w = workers sc ! i"
    and pc: "w_pc w = FiberBack a"
  shows "sched_inv (fiber_back_step i w a sc)"
proof -
  note D = sched_invD [OF inv] and C = count_one [OF inv i]
  have wok: "w_ok (set (queue_fibers sc)) (sc_fibers sc) w" using D(1) [OF i] w by simp
  note W = w_okD [OF wok]
  obtain f where f: "sc_fibers sc a = Some f" "f_stack f" "f_state f \<in> {F_READY, F_EXEC, F_TERM, F_EXCEPT}"
    "f_state f \<noteq> F_EXEC \<longrightarrow> a \<notin> set (queue_fibers sc)"
    using W(5) pc by (auto simp: in_state_def)
  let ?w = "w\<lparr>w_pc := AtTop\<rparr>"
  let ?s1 = "sc\<lparr>m_activeThreadCount := m_activeThreadCount sc - 1\<rparr>"
  let ?t = "\<lparr>tk_thread = -1, tk_fiber = Some a, tk_cb = None\<rparr>"
  have act: "0 < m_activeThreadCount sc" using C pc w by simp
  have ready: "sched_inv (set_worker i ?w (schedule ?t ?s1))" if "f_state f = F_READY"
    by (rule step_preserves [OF inv i, where w' = ?w])
       (use D W pc w f that act in \<open>auto simp: w_ok_def holds_def nonempty_def in_state_def\<close>)
  have hold: "sched_inv (set_worker i ?w (set_state a F_HOLD ?s1))" if "f_state f = F_EXEC"
  proof (rule step_preserves [OF inv i, where w' = ?w])
    let ?s = "set_worker i ?w (set_state a F_HOLD ?s1)"
    have fs: "sc_fibers ?s = (sc_fibers sc)(a \<mapsto> f\<lparr>f_state := F_HOLD\<rparr>)" using f by simp
    show "w_ok (set (queue_fibers ?s)) (sc_fibers ?s) ?w"
      unfolding fs using W pc by (auto simp: w_ok_def)
    show "\<forall>b. sc_fibers ?s b \<noteq> sc_fibers sc b \<longrightarrow> b \<in> holds (workers sc ! i) \<or> sc_fibers sc b = None"
      unfolding fs using w pc by (auto simp: holds_def)
    show "\<forall>a\<in>set (queue_fibers ?s). \<exists>f. sc_fibers ?s a = Some f \<and> f_stack f"
      unfolding fs using D(4) f(2) by auto
  qed (use D pc w act in \<open>auto simp: holds_def\<close>)
  have fin: "sched_inv (set_worker i ?w ?s1)"
    by (rule step_preserves [OF inv i, where w' = ?w])
       (use D W pc w act in \<open>auto simp: w_ok_def holds_def\<close>)
  have st: "state_is ?s1 a st \<longleftrightarrow> f_state f = st" for st using f(1) by (simp add: state_is_def)
  show ?thesis using f(3) ready hold fin unfolding fiber_back_step_def Let_def st by auto
qed

lemma cb_back_step_inv:
  assumes inv: "sched_inv sc" and i: "i < length (workers sc)" and w: "w = workers sc ! i"
    and pc: "w_pc w = CbBack b"
  shows "sched_inv (cb_back_step i w b sc)"
proof -
  note D = sched_invD [OF inv] and C = count_one [OF inv i]
  have wok: "w_ok (set (queue_fibers sc)) (sc_fibers sc) w" using D(1) [OF i] w by simp
  note W = w_okD [OF wok]
  have cb: "w_cb_fiber w = Some b" using W(8) [of b] pc by simp
  obtain f where f: "sc_fibers sc b = Some f" "f_stack f" "f_state f \<in> {F_READY, F_EXEC, F_TERM, F_EXCEPT}"
    "f_state f \<noteq> F_EXEC \<longrightarrow> b \<notin> set (queue_fibers sc)"
    using W(4) [OF cb] pc by (auto simp: in_state_def)
  have own: "b \<in> holds (workers sc ! i)" "b \<noteq> w_idle w" using w cb W(3) [OF cb] by (auto simp: holds_def)
  let ?w = "w\<lparr>w_pc := AtTop, w_cb_fiber := None\<rparr>" and ?w1 = "w\<lparr>w_pc := AtTop\<rparr>"
  let ?s1 = "sc\<lparr>m_activeThreadCount := m_activeThreadCount sc - 1\<rparr>"
  let ?t = "\<lparr>tk_thread = -1, tk_fiber = Some b, tk_cb = None\<rparr>"
  let ?g = "\<lambda>f. f\<lparr>f_cb := None, f_to_main := False, f_state := F_INIT\<rparr>"
  have act: "0 < m_activeThreadCount sc" using C pc w by simp
  have ready: "sched_inv (set_worker i ?w (schedule ?t ?s1))" if "f_state f = F_READY"
    by (rule step_preserves [OF inv i, where w' = ?w])
       (use D W own pc w f that act in \<open>auto simp: w_ok_def holds_def nonempty_def in_state_def\<close>)
  have hold: "sched_inv (set_worker i ?w (set_state b F_HOLD ?s1))" if "f_state f = F_EXEC"
  proof (rule step_preserves [OF inv i, where w' = ?w])
    let ?s = "set_worker i ?w (set_state b F_HOLD ?s1)"
    have fs: "sc_fibers ?s = (sc_fibers sc)(b \<mapsto> f\<lparr>f_state := F_HOLD\<rparr>)" using f by simp
    show "w_ok (set (queue_fibers ?s)) (sc_fibers ?s) ?w"
      unfolding fs using W own pc by (auto simp: w_ok_def)
    show "\<forall>a. sc_fibers ?s a \<noteq> sc_fibers sc a \<longrightarrow> a \<in> holds (workers sc ! i) \<or> sc_fibers sc a = None"
      unfolding fs using own by auto
    show "\<forall>a\<in>set (queue_fibers ?s). \<exists>f. sc_fibers ?s a = Some f \<and> f_stack f"
      unfolding fs using D(4) f(2) by auto
  qed (use D pc w act in \<open>auto simp: holds_def\<close>)
  have reuse: "sched_inv (set_worker i ?w1 (?s1\<lparr>sc_fibers := (sc_fibers ?s1)(b := map_option ?g (sc_fibers ?s1 b))\<rparr>))"
    if "f_state f = F_TERM \<or> f_state f = F_EXCEPT"
  proof (rule step_preserves [OF inv i, where w' = ?w1])
    let ?s = "set_worker i ?w1 (?s1\<lparr>sc_fibers := (sc_fibers ?s1)(b := map_option ?g (sc_fibers ?s1 b))\<rparr>)"
    have fs: "sc_fibers ?s = (sc_fibers sc)(b \<mapsto> ?g f)" using f by simp
    show "w_ok (set (queue_fibers ?s)) (sc_fibers ?s) ?w1"
      unfolding fs using W own pc cb f that by (auto simp: w_ok_def)
    show "\<forall>a. sc_fibers ?s a \<noteq> sc_fibers sc a \<longrightarrow> a \<in> holds (workers sc ! i) \<or> sc_fibers sc a = None"
      unfolding fs using own by auto
    show "\<forall>a\<in>set (queue_fibers ?s). \<exists>f. sc_fibers ?s a = Some f \<and> f_stack f"
      unfolding fs using D(4) f(2) by auto
  qed (use D pc w act in \<open>auto simp: holds_def\<close>)
  have st: "state_is ?s1 b st \<longleftrightarrow> f_state f = st" for st using f(1) by (simp add: state_is_def)
  show ?thesis using f(3) ready hold reuse unfolding cb_back_step_def Let_def st by auto
qed

lemma idle_step_inv:
  assumes inv: "sched_inv sc" and i: "i < length (workers sc)" and w: "w = workers sc ! i" and pc: "w_pc w = InIdle"
  shows "sched_inv (idle_step i w sc)"
proof -
  note D = sched_invD [OF inv]
  have wok: "w_ok (set (queue_fibers sc)) (sc_fibers sc) w" using D(1) [OF i] w by simp
  note W = w_okD [OF wok]
  define l where "l = (if stopping sc then Returns else ToHold)"
  obtain f where f: "sc_fibers sc (w_idle w) = Some f" "f_stack f" using W(1) by (auto simp: in_state_def)
  let ?w = "w\<lparr>w_pc := IdleBack\<rparr>"
  let ?s = "set_worker i ?w (leave_step l (w_idle w) sc)"
  have fs: "sc_fibers ?s = (sc_fibers sc)(w_idle w \<mapsto> leave_fiber l f)" using f by simp
  have "sched_inv ?s"
  proof (rule step_preserves [OF inv i, where w' = ?w])
    show "w_ok (set (queue_fibers ?s)) (sc_fibers ?s) ?w"
      unfolding fs using W(1-4,6-8) pc f by (auto simp: w_ok_def l_def)
    show "\<forall>b. sc_fibers ?s b \<noteq> sc_fibers sc b \<longrightarrow> b \<in> holds (workers sc ! i) \<or> sc_fibers sc b = None"
      unfolding fs using w by (auto simp: holds_def)
    show "\<forall>a\<in>set (queue_fibers ?s). \<exists>f. sc_fibers ?s a = Some f \<and> f_stack f"
      unfolding fs using D(4) f(2) by auto
  qed (use D pc w in \<open>auto simp: holds_def\<close>)
  then show ?thesis by (simp add: idle_step_def l_def)
qed

lemma idle_back_step_inv:
  assumes inv: "sched_inv sc" and i: "i < length (workers sc)" and w: "w = workers sc ! i" and pc: "w_pc w = IdleBack"
  shows "sched_inv (idle_back_step i w sc)"
proof -
  note D = sched_invD [OF inv] and C = count_one [OF inv i]
  have wok: "w_ok (set (queue_fibers sc)) (sc_fibers sc) w" using D(1) [OF i] w by simp
  note W = w_okD [OF wok]
  obtain f where f: "sc_fibers sc (w_idle w) = Some f" "f_stack f" "f_state f \<in> {F_EXEC, F_TERM}"
    using W(1) pc by (auto simp: in_state_def)
  let ?w = "w\<lparr>w_pc := AtTop\<rparr>"
  let ?s1 = "sc\<lparr>m_idleThreadCount := m_idleThreadCount sc - 1\<rparr>"
  have idl: "0 < m_idleThreadCount sc" using C pc w by simp
  have fin: "sched_inv (set_worker i ?w ?s1)" if "f_state f = F_TERM"
    by (rule step_preserves [OF inv i, where w' = ?w])
       (use D W pc w idl f that in \<open>auto simp: w_ok_def holds_def in_state_def\<close>)
  have hold: "sched_inv (set_worker i ?w (set_state (w_idle w) F_HOLD ?s1))"
  proof (rule step_preserves [OF inv i, where w' = ?w])
    let ?s = "set_worker i ?w (set_state (w_idle w) F_HOLD ?s1)"
    have fs: "sc_fibers ?s = (sc_fibers sc)(w_idle w \<mapsto> f\<lparr>f_state := F_HOLD\<rparr>)" using f by simp
    show "w_ok (set (queue_fibers ?s)) (sc_fibers ?s) ?w"
      unfolding fs using W pc f by (auto simp: w_ok_def)
    show "\<forall>b. sc_fibers ?s b \<noteq> sc_fibers sc b \<longrightarrow> b \<in> holds (workers sc ! i) \<or> sc_fibers sc b = None"
      unfolding fs using w by (auto simp: holds_def)
    show "\<forall>a\<in>set (queue_fibers ?s). \<exists>f. sc_fibers ?s a = Some f \<and> f_stack f"
      unfolding fs using D(4) f(2) by auto
  qed (use D pc w idl in \<open>auto simp: holds_def\<close>)
  have st: "state_is ?s1 (w_idle w) st \<longleftrightarrow> f_state f = st" for st using f(1) by (simp add: state_is_def)
  show ?thesis using f(3) fin hold unfolding idle_back_step_def Let_def st by auto
qed

subsection \<open>Interleavings\<close>

text \<open>\<open>start()\<close> and the prologue of \<open>run()\<close> in each thread: workers at the top of the loop, each with its
  idle fiber; \<open>tids\<close> are the thread ids, \<open>ids\<close> the addresses of the idle fibers.\<close>

definition start :: "int list \<Rightarrow> nat list \<Rightarrow> 'c sched \<Rightarrow> (unit, 'c sched) outcome" where
  "start tids ids sc =
     (if \<not> m_stopping sc then Ok () sc
      else if workers sc \<noteq> [] then Crash (AssertFail ''m_threads.empty()'')
      else Ok () (sc\<lparr>m_stopping := False,
             workers := map (\<lambda>(t, a). \<lparr>w_tid = t, w_pc = AtTop, w_cb_fiber = None, w_idle = a\<rparr>) (zip tids ids),
             sc_fibers := (\<lambda>a. if a \<in> set (map snd (zip tids ids))
               then Some \<lparr>f_id = of_nat a, f_state = F_INIT, f_stack = True, f_cb = None, f_to_main = False\<rparr>
               else sc_fibers sc a)\<rparr>))"

definition Scheduler_new :: "'c sched" where
  "Scheduler_new = \<lparr>sc_fibers = Map.empty, m_fibers = [], m_activeThreadCount = 0, m_idleThreadCount = 0,
     m_stopping = True, m_autoStop = False, m_tickles = 0, workers = []\<rparr>"

text \<open>The discipline of clients: a fiber is scheduled only if it exists, is not in the queue, is nobody's idle
  fiber, and if some worker holds it, then it is executing (it is about to yield).\<close>

definition may_schedule :: "'c task \<Rightarrow> 'c sched \<Rightarrow> bool" where
  "may_schedule t sc \<longleftrightarrow> (\<forall>a. tk_fiber t = Some a \<longrightarrow>
     (\<exists>f. sc_fibers sc a = Some f \<and> f_stack f) \<and> a \<notin> set (queue_fibers sc) \<and>
     (\<forall>w\<in>set (workers sc). a \<noteq> w_idle w \<and> (a \<in> holds w \<longrightarrow> executing (sc_fibers sc) (Some a))))"

definition leave_ok :: "leave \<Rightarrow> nat \<Rightarrow> 'c sched \<Rightarrow> bool" where
  "leave_ok l i sc \<longleftrightarrow>
     (\<forall>a. w_pc (workers sc ! i) \<in> {InFiber a, InCb a} \<longrightarrow> may_leave l a sc)"

inductive sched_step :: "'c sched \<Rightarrow> 'c sched \<Rightarrow> bool" where
  worker_runs: "i < length (workers sc) \<Longrightarrow> leave_ok l i sc \<Longrightarrow> sc_fibers sc na = None \<Longrightarrow>
     run_step i l na sc = Ok () sc' \<Longrightarrow> sched_step sc sc'"
| client_schedules: "may_schedule t sc \<Longrightarrow> sched_step sc (schedule t sc)"
| fiber_created: "sc_fibers sc a = None \<Longrightarrow> f_stack f \<Longrightarrow> f_state f = F_INIT \<Longrightarrow>
     sched_step sc (sc\<lparr>sc_fibers := (sc_fibers sc)(a \<mapsto> f)\<rparr>)"
| stop_called: "sched_step sc (stop_flags sc)"

inductive sched_reachable :: "'c sched \<Rightarrow> bool" where
  sched_init: "distinct ids \<Longrightarrow> length tids = length ids \<Longrightarrow> start tids ids Scheduler_new = Ok () sc \<Longrightarrow> sched_reachable sc"
| sched_next: "sched_reachable sc \<Longrightarrow> sched_step sc sc' \<Longrightarrow> sched_reachable sc'"

inductive_cases sched_stepE: "sched_step sc sc'"

lemma run_step_inv:
  assumes inv: "sched_inv sc" and i: "i < length (workers sc)" and l: "leave_ok l i sc" and na: "sc_fibers sc na = None"
  shows "\<exists>sc'. run_step i l na sc = Ok () sc' \<and> sched_inv sc'"
proof -
  have q: "na \<notin> set (queue_fibers sc)" using na sched_invD(4) [OF inv] by auto
  show ?thesis
  proof (cases "w_pc (workers sc ! i)")
    case AtTop
    then show ?thesis using pick_step_inv [OF inv i refl] by (simp add: run_step_def Let_def)
  next
    case (Got t b)
    then show ?thesis using dispatch_step_inv [OF inv i refl _ na q] by (simp add: run_step_def Let_def)
  next
    case (InFiber a)
    then show ?thesis using leave_inv [OF inv i refl, of a "FiberBack a" l] l
      by (auto simp: run_step_def Let_def leave_ok_def)
  next
    case (InCb a)
    then show ?thesis using leave_inv [OF inv i refl, of a "CbBack a" l] l
      by (auto simp: run_step_def Let_def leave_ok_def)
  qed (use inv fiber_back_step_inv [OF inv i refl] cb_back_step_inv [OF inv i refl]
      idle_step_inv [OF inv i refl] idle_back_step_inv [OF inv i refl] in \<open>auto simp: run_step_def Let_def\<close>)
qed

lemma w_ok_global:
  assumes "sched_inv sc" and "workers sc' = workers sc"
    and "\<And>w. w \<in> set (workers sc) \<Longrightarrow> w_ok (set (queue_fibers sc)) (sc_fibers sc) w \<Longrightarrow>
           w_ok (set (queue_fibers sc')) (sc_fibers sc') w"
    and "distinct (queue_fibers sc')" "\<forall>t\<in>set (m_fibers sc'). nonempty t"
      "\<forall>a\<in>set (queue_fibers sc'). \<exists>f. sc_fibers sc' a = Some f \<and> f_stack f"
    and "m_activeThreadCount sc' = m_activeThreadCount sc" "m_idleThreadCount sc' = m_idleThreadCount sc"
  shows "sched_inv sc'"
  using assms unfolding sched_inv_def by auto

lemma schedule_inv:
  assumes inv: "sched_inv sc" and t: "may_schedule t sc"
  shows "sched_inv (schedule t sc)"
proof (rule w_ok_global [OF inv])
  fix w assume w: "w \<in> set (workers sc)" and ok: "w_ok (set (queue_fibers sc)) (sc_fibers sc) w"
  show "w_ok (set (queue_fibers (schedule t sc))) (sc_fibers (schedule t sc)) w"
  proof (cases "tk_fiber t")
    case None
    then show ?thesis using ok by simp
  next
    case (Some a)
    have in_q: "in_state (set (queue_fibers sc)) (sc_fibers sc) b S \<Longrightarrow> b \<in> holds w \<Longrightarrow>
        in_state (set (queue_fibers (schedule t sc))) (sc_fibers (schedule t sc)) b S" for b S
      using t w Some by (auto simp: in_state_def may_schedule_def executing_def)
    note W = w_okD [OF ok]
    have h: "w_idle w \<in> holds w" "w_cb_fiber w = Some b \<Longrightarrow> b \<in> holds w" "c \<in> pc_fibers (w_pc w) \<Longrightarrow> c \<in> holds w" for b c
      by (auto simp: holds_def)
    have "pc_ok (set (queue_fibers (schedule t sc))) (sc_fibers (schedule t sc)) (w_pc w)"
      using W(5) h(3) in_q by (cases "w_pc w") (auto simp del: queue_fibers_schedule)
    moreover have "w_idle w \<notin> set (queue_fibers (schedule t sc))"
      using W(2) t w Some by (auto simp: may_schedule_def)
    ultimately show ?thesis using ok in_q h unfolding w_ok_def by blast
  qed
qed (use sched_invD [OF inv] t in \<open>auto simp: may_schedule_def nonempty_def split: option.splits\<close>)

lemma fiber_created_inv:
  assumes inv: "sched_inv sc" and a: "sc_fibers sc a = None" and f: "f_stack f"
  shows "sched_inv (sc\<lparr>sc_fibers := (sc_fibers sc)(a \<mapsto> f)\<rparr>)"
proof (rule w_ok_global [OF inv])
  fix w assume ok: "w_ok (set (queue_fibers sc)) (sc_fibers sc) w"
  have "b \<in> holds w \<Longrightarrow> sc_fibers sc b \<noteq> None" for b
    using ok unfolding w_ok_def holds_def in_state_def
    by (cases "w_pc w") (auto simp: in_state_def split: option.splits)
  then have "a \<notin> holds w" using a by blast
  then have fr: "\<forall>b\<in>holds w. sc_fibers (sc\<lparr>sc_fibers := (sc_fibers sc)(a \<mapsto> f)\<rparr>) b = sc_fibers sc b"
    by auto
  show "w_ok (set (queue_fibers (sc\<lparr>sc_fibers := (sc_fibers sc)(a \<mapsto> f)\<rparr>)))
          (sc_fibers (sc\<lparr>sc_fibers := (sc_fibers sc)(a \<mapsto> f)\<rparr>)) w"
    by (rule w_ok_frame [OF ok fr]) simp
qed (use sched_invD [OF inv] f in auto)

lemma start_inv:
  assumes "distinct ids" and "length tids = length ids" and "start tids ids Scheduler_new = Ok () sc"
  shows "sched_inv sc"
proof -
  have sc: "sc = Scheduler_new\<lparr>m_stopping := False,
      workers := map (\<lambda>(t, a). \<lparr>w_tid = t, w_pc = AtTop, w_cb_fiber = None, w_idle = a\<rparr>) (zip tids ids),
      sc_fibers := (\<lambda>a. if a \<in> set (map snd (zip tids ids))
               then Some \<lparr>f_id = of_nat a, f_state = F_INIT, f_stack = True, f_cb = None, f_to_main = False\<rparr> else None)\<rparr>"
    using assms(3) by (simp add: start_def Scheduler_new_def cong: if_cong)
  have "queue_fibers sc = []" by (simp add: sc queue_fibers_def Scheduler_new_def List.map_filter_simps)
  moreover have "filter (busy \<circ> w_pc) (workers sc) = []" "filter (idling \<circ> w_pc) (workers sc) = []"
    by (auto simp: sc filter_empty_conv)
  moreover have "w_ok {} (sc_fibers sc) (workers sc ! i)" if "i < length (workers sc)" for i
    using that assms(1,2) by (auto simp: sc w_ok_def in_state_def)
  moreover have "holds (workers sc ! i) \<inter> holds (workers sc ! j) = {}"
    if "i < length (workers sc)" "j < length (workers sc)" "i \<noteq> j" for i j
    using that assms(1,2) by (auto simp: sc holds_def nth_eq_iff_index_eq)
  ultimately show ?thesis unfolding sched_inv_def by (simp add: sc Scheduler_new_def)
qed

lemma sched_step_inv: "sched_step sc sc' \<Longrightarrow> sched_inv sc \<Longrightarrow> sched_inv sc'"
proof (induction rule: sched_step.induct)
  case (worker_runs i sc l na sc')
  then show ?case using run_step_inv [of sc i l na] by auto
next
  case (stop_called sc)
  then show ?case by (auto simp: stop_flags_def sched_inv_def queue_fibers_def)
qed (auto intro: schedule_inv fiber_created_inv)

lemma sched_reachable_inv: "sched_reachable sc \<Longrightarrow> sched_inv sc"
  by (induction rule: sched_reachable.induct) (auto intro: start_inv sched_step_inv)

subsection \<open>Properties\<close>

definition demo_sched :: "string sched" where
  "demo_sched = Scheduler_new\<lparr>m_stopping := False,
      workers := [\<lparr>w_tid = 10, w_pc = AtTop, w_cb_fiber = None, w_idle = 1\<rparr>,
                  \<lparr>w_tid = 11, w_pc = AtTop, w_cb_fiber = None, w_idle = 2\<rparr>],
      sc_fibers := (\<lambda>a. if a = 1 \<or> a = 2
               then Some \<lparr>f_id = of_nat a, f_state = F_INIT, f_stack = True, f_cb = None, f_to_main = False\<rparr> else None)\<rparr>"

lemma demo_sched_reachable: "sched_reachable demo_sched"
  by (rule sched_init [of "[1, 2]" "[10, 11]"])
     (auto simp: start_def Scheduler_new_def demo_sched_def cong: if_cong)

text \<open>C3. Under the scheduling discipline no interleaving of the workers makes an assertion of the loop fail:
  at every reachable state every worker can take its next step of \<open>run()\<close>: it never switches
  into a fiber that is executing or has ended, never resets a busy callback fiber and never meets an
  empty task.\<close>

theorem scheduler_never_stuck:
  assumes "sched_reachable sc" and "i < length (workers sc)" and "leave_ok l i sc" and "sc_fibers sc na = None"
  shows "\<exists>sc'. run_step i l na sc = Ok () sc' \<and> sched_reachable sc'"
  using run_step_inv [OF sched_reachable_inv [OF assms(1)] assms(2-4)]
    sched_next [OF assms(1) worker_runs [OF assms(2-4)]] by blast

theorem scheduler_never_stuck_witness:
  "\<exists>sc'. run_step 1 ToHold 7 demo_sched = Ok () sc' \<and> sched_reachable sc'"
  by (rule scheduler_never_stuck [OF demo_sched_reachable])
     (simp_all add: demo_sched_def leave_ok_def)





text \<open>The search takes the first task that this thread may run (not bound to another thread, not a fiber in
  execution) and leaves all others in the queue in their order.\<close>

theorem scheduler_pick_fifo:
  assumes "\<forall>t\<in>set ts. nonempty t"
  shows "\<exists>b. pick_loop tid fs False [] ts =
    Inr (b, find (eligible tid fs) ts,
         (case find (eligible tid fs) ts of None \<Rightarrow> ts
          | Some t \<Rightarrow> takeWhile (\<lambda>t. \<not> eligible tid fs t) ts @ tl (dropWhile (\<lambda>t. \<not> eligible tid fs t) ts)))"
  using pick_loop_correct [OF assms, of tid fs False "[]"] find_none [of "eligible tid fs" ts]
  by (auto split: option.split)

theorem scheduler_pick_fifo_witness:
  "\<exists>b. pick_loop 10 Map.empty False []
      [\<lparr>tk_thread = 11, tk_fiber = None, tk_cb = Some ''a''\<rparr>, \<lparr>tk_thread = -1, tk_fiber = None, tk_cb = Some ''b''\<rparr>] =
    Inr (b, Some \<lparr>tk_thread = -1, tk_fiber = None, tk_cb = Some ''b''\<rparr>,
            [\<lparr>tk_thread = 11, tk_fiber = None, tk_cb = Some ''a''\<rparr>])"
  using scheduler_pick_fifo [of "[\<lparr>tk_thread = 11, tk_fiber = None, tk_cb = Some ''a''\<rparr>,
      \<lparr>tk_thread = -1, tk_fiber = None, tk_cb = Some ''b''\<rparr>]" 10 Map.empty]
  by (simp add: nonempty_def eligible_def executing_def)

end
