(* ===== verification/SchedulerLife.thy ===== *)
theory SchedulerLife
  imports Scheduler
begin

text \<open>
  Construction, start and stop of a scheduler (\<open>src/scheduler.cc\<close>), around the task queue and the workers of \<open>Scheduler\<close>.

  \<open>lifecycle\<close> adds the members the other theory leaves out: the name, the root thread and fiber of a scheduler that
  includes its creator (the fiber by its state), the number of threads to create and the threads created.
  \<open>cthread\<close> is the calling thread with its thread-local pointers. \<open>stop()\<close> is cut where it gives up control: it
  returns at once, or calls the root fiber, which then runs \<open>run()\<close> as one more worker, or goes on to join.
\<close>

record 'c lifecycle =
  lc_sched :: "'c sched"
  lc_name :: string
  lc_rootThread :: int
  lc_rootFiber :: "fstate option"
  lc_threadCount :: nat
  lc_threadIds :: "int list"
  lc_threads :: "int list"

record cthread =
  ct_tid :: int
  ct_name :: string
  ct_scheduler :: "nat option"
  ct_main_fiber :: "nat option"

text \<open>The constructor; \<open>self\<close> is the address of the object, \<open>fa\<close> that of the root fiber.\<close>

definition Scheduler_ctor :: "nat \<Rightarrow> nat \<Rightarrow> nat \<Rightarrow> bool \<Rightarrow> string \<Rightarrow> cthread \<Rightarrow> ('c lifecycle, cthread) outcome" where
  "Scheduler_ctor self fa threads include_caller_thread name ct =
     (if \<not> threads > 0 then Crash (AssertFail ''threads > 0'')
      else
        let ct = (if name \<noteq> [] then ct\<lparr>ct_name := name\<rparr> else ct) in
        if include_caller_thread then
          if ct_scheduler ct \<noteq> None then Crash (AssertFail ''GetCurrentScheduler() == nullptr'')
          else Ok \<lparr>lc_sched = Scheduler_new, lc_name = name, lc_rootThread = ct_tid ct, lc_rootFiber = Some F_INIT,
                   lc_threadCount = threads - 1, lc_threadIds = [ct_tid ct], lc_threads = []\<rparr>
                 (ct\<lparr>ct_scheduler := Some self, ct_main_fiber := Some fa\<rparr>)
        else Ok \<lparr>lc_sched = Scheduler_new, lc_name = name, lc_rootThread = -1, lc_rootFiber = None,
                 lc_threadCount = threads, lc_threadIds = [], lc_threads = []\<rparr> ct)"

definition Scheduler_dtor :: "nat \<Rightarrow> 'c lifecycle \<Rightarrow> cthread \<Rightarrow> (unit, cthread) outcome" where
  "Scheduler_dtor self lc ct =
     (if \<not> m_stopping (lc_sched lc) then Crash (AssertFail ''m_stopping'')
      else Ok () (if ct_scheduler ct = Some self then ct\<lparr>ct_scheduler := None\<rparr> else ct))"

text \<open>\<open>start()\<close>: \<open>tids\<close> are the ids of the created threads, \<open>ids\<close> their idle fibers.\<close>

definition lc_start :: "int list \<Rightarrow> nat list \<Rightarrow> 'c lifecycle \<Rightarrow> (unit, 'c lifecycle) outcome" where
  "lc_start tids ids lc =
     (if \<not> m_stopping (lc_sched lc) then Ok () lc
      else if lc_threads lc \<noteq> [] then Crash (AssertFail ''m_threads.empty()'')
      else case start (take (lc_threadCount lc) tids) ids (lc_sched lc) of
             Ok _ sc \<Rightarrow> Ok () (lc\<lparr>lc_sched := sc, lc_threads := take (lc_threadCount lc) tids,
                                  lc_threadIds := lc_threadIds lc @ take (lc_threadCount lc) tids\<rparr>)
           | Throw e sc \<Rightarrow> Throw e (lc\<lparr>lc_sched := sc\<rparr>)
           | Crash x \<Rightarrow> Crash x)"

datatype stop_next = StopReturns | StopCallsRoot | StopJoins

fun tickles :: "nat \<Rightarrow> 'c sched \<Rightarrow> 'c sched" where
  "tickles 0 sc = sc"
| "tickles (Suc n) sc = tickles n (tickle sc)"

text \<open>\<open>stop()\<close> up to the call of the root fiber.\<close>

definition stop_begin :: "nat \<Rightarrow> cthread \<Rightarrow> 'c lifecycle \<Rightarrow> (stop_next, 'c lifecycle) outcome" where
  "stop_begin self ct lc =
     (let lc = lc\<lparr>lc_sched := (lc_sched lc)\<lparr>m_autoStop := True\<rparr>\<rparr>;
          single = (lc_rootFiber lc \<in> {Some F_TERM, Some F_INIT} \<and> lc_threadCount lc = 0);
          lc = (if single then lc\<lparr>lc_sched := (lc_sched lc)\<lparr>m_stopping := True\<rparr>\<rparr> else lc)
      in if single \<and> stopping (lc_sched lc) then Ok StopReturns lc
         else if lc_rootThread lc \<noteq> -1 \<and> ct_scheduler ct \<noteq> Some self
         then Crash (AssertFail ''GetCurrentScheduler() == this'')
         else if lc_rootThread lc = -1 \<and> ct_scheduler ct = Some self
         then Crash (AssertFail ''GetCurrentScheduler() != this'')
         else
           let sc = tickles (lc_threadCount lc) ((lc_sched lc)\<lparr>m_stopping := True\<rparr>);
               sc = (if lc_rootFiber lc \<noteq> None then tickle sc else sc);
               nxt = (if lc_rootFiber lc \<noteq> None \<and> \<not> stopping sc then StopCallsRoot else StopJoins)
           in Ok nxt (lc\<lparr>lc_sched := sc\<rparr>))"

text \<open>The rest: the threads are taken out of the object and joined; \<open>None\<close> while one of them is still in \<open>run()\<close>.\<close>

definition stop_join :: "'c lifecycle \<Rightarrow> 'c lifecycle option" where
  "stop_join lc =
     (if \<forall>w\<in>set (workers (lc_sched lc)). w_tid w \<in> set (lc_threads lc) \<longrightarrow> w_pc w = Exited
      then Some (lc\<lparr>lc_threads := []\<rparr>) else None)"

subsection \<open>Properties\<close>

lemma tickles_eq: "tickles n sc = sc\<lparr>m_tickles := m_tickles sc + n\<rparr>"
  by (induction n arbitrary: sc) (simp_all add: tickle_def)

lemma stopping_tickles [simp]: "stopping (sc\<lparr>m_tickles := n\<rparr>) = stopping sc"
  by (simp add: stopping_def)

text \<open>C32. A scheduler that its owner creates with at least one thread, starts and stops from the right thread goes
  through its life without a failed assertion: construction succeeds and fixes who may stop it, \<open>start\<close> creates
  exactly the remaining threads, and \<open>stop\<close> raises both flags, sends one wake-up per created thread (and one more
  for the root fiber), never returns early while tasks are queued or running, and runs the loop in the
  calling thread exactly when the caller was included and work is left. A caller that was not included
  fails the assertion when it stops the scheduler from inside.\<close>

theorem scheduler_lifecycle:
  assumes "0 < threads" and "ct_scheduler ct = None" and "length tids = threads" and "length ids = threads"
    and "ct_tid ct \<noteq> -1"
  shows "\<exists>lc ct' lc1. Scheduler_ctor self fa threads inc name ct = Ok lc ct' \<and>
    (ct_scheduler ct' = Some self \<longleftrightarrow> inc) \<and> lc_start tids ids lc = Ok () lc1 \<and>
    length (lc_threads lc1) = (if inc then threads - 1 else threads) \<and>
    length (lc_threadIds lc1) = threads \<and> length (workers (lc_sched lc1)) = length (lc_threads lc1) \<and>
    (\<forall>sc. \<exists>nxt lc2. stop_begin self ct' (lc1\<lparr>lc_sched := sc\<rparr>) = Ok nxt lc2 \<and>
        m_autoStop (lc_sched lc2) \<and> m_stopping (lc_sched lc2) \<and>
        m_fibers (lc_sched lc2) = m_fibers sc \<and>
        (nxt = StopReturns \<longrightarrow> m_fibers sc = [] \<and> m_activeThreadCount sc = 0) \<and>
        (nxt \<noteq> StopReturns \<longrightarrow> m_tickles (lc_sched lc2) = m_tickles sc + threads) \<and>
        (nxt = StopCallsRoot \<longleftrightarrow> inc \<and> (m_fibers sc \<noteq> [] \<or> m_activeThreadCount sc \<noteq> 0))) \<and>
    (\<not> inc \<longrightarrow> (\<forall>sc. stop_begin self (ct'\<lparr>ct_scheduler := Some self\<rparr>) (lc1\<lparr>lc_sched := sc\<rparr>) =
        Crash (AssertFail ''GetCurrentScheduler() != this'')))"
proof (cases inc)
  case True
  have "length (take (threads - 1) tids) = threads - 1" using assms(3) by simp
  with True assms show ?thesis
    by (auto simp: Scheduler_ctor_def lc_start_def start_def Scheduler_new_def stop_begin_def Let_def tickles_eq
        tickle_def stopping_def)
next
  case False
  with assms show ?thesis
    by (auto simp: Scheduler_ctor_def lc_start_def start_def Scheduler_new_def stop_begin_def Let_def tickles_eq
        tickle_def stopping_def)
qed
theorem scheduler_lifecycle_witness:
  "\<exists>lc ct' lc1. Scheduler_ctor 1 2 2 True ''main'' \<lparr>ct_tid = 5, ct_name = [], ct_scheduler = None, ct_main_fiber = None\<rparr> =
      Ok (lc :: string lifecycle) ct' \<and> lc_start [7, 8] [3, 4] lc = Ok () lc1 \<and> length (lc_threads lc1) = 1 \<and>
      (\<exists>lc2. stop_begin 1 ct' (lc1\<lparr>lc_sched := (lc_sched lc1)\<lparr>m_activeThreadCount := 1\<rparr>\<rparr>) = Ok StopCallsRoot lc2)"
proof -
  let ?ct = "\<lparr>ct_tid = 5, ct_name = [], ct_scheduler = None, ct_main_fiber = None\<rparr>"
  have h: "0 < (2 :: nat)" "ct_scheduler ?ct = None" "length [7, 8 :: int] = 2" "length [3, 4 :: nat] = 2" "ct_tid ?ct \<noteq> -1"
    by simp_all
  from scheduler_lifecycle [OF h, of 1 2 True "''main''", where ?'a = string] obtain lc ct' lc1 where
    r: "Scheduler_ctor 1 2 2 True ''main'' ?ct = Ok (lc :: string lifecycle) ct'" "lc_start [7, 8] [3, 4] lc = Ok () lc1"
       "length (lc_threads lc1) = (if True then 2 - 1 else 2)"
    and s: "\<forall>sc. \<exists>nxt lc2. stop_begin 1 ct' (lc1\<lparr>lc_sched := sc\<rparr>) = Ok nxt lc2 \<and>
      (nxt = StopCallsRoot \<longleftrightarrow> True \<and> (m_fibers sc \<noteq> [] \<or> m_activeThreadCount sc \<noteq> 0))"
    by blast
  have "\<exists>lc2. stop_begin 1 ct' (lc1\<lparr>lc_sched := (lc_sched lc1)\<lparr>m_activeThreadCount := 1\<rparr>\<rparr>) = Ok StopCallsRoot lc2"
    using s [rule_format, of "(lc_sched lc1)\<lparr>m_activeThreadCount := 1\<rparr>"] by auto
  moreover have "length (lc_threads lc1) = 1" using r(3) by simp
  ultimately show ?thesis using r(1,2) by blast
qed


end
