(* ===== verification/FdManager.thy ===== *)
theory FdManager
  imports Prelude
begin

text \<open>
  \<open>src/fd_manager.cc\<close>, \<open>include/sylar/fd_manager.hh\<close>: the per-descriptor contexts the hooks consult.

  \<open>m_datas\<close> is the vector of contexts, an empty \<open>shared_ptr\<close> is \<open>None\<close>. Of the kernel the code sees what
  \<open>fstat\<close> says of a descriptor (\<open>None\<close>: it fails; \<open>Some b\<close>: whether it is a socket), an argument, and the file
  status flags, which \<open>fcntl_f\<close> reads and writes: \<open>k_flags\<close>.
\<close>

unbundle bit_operations_syntax

definition O_NONBLOCK :: u32 where "O_NONBLOCK = 0x800"

definition SO_RCVTIMEO :: int where "SO_RCVTIMEO = 20"
definition SO_SNDTIMEO :: int where "SO_SNDTIMEO = 21"

record FdCtx =
  fx_isInit :: bool
  fx_isSocket :: bool
  fx_sysNonblock :: bool
  fx_userNonblock :: bool
  fx_isClosed :: bool
  fx_fd :: int
  fx_recvTimeout :: u64
  fx_sendTimeout :: u64

record fdm =
  m_datas :: "FdCtx option list"
  k_flags :: "int \<Rightarrow> u32"

subsection \<open>Contexts\<close>

text \<open>\<open>FdCtx::init()\<close>: on a socket it also puts the descriptor in non-blocking mode.\<close>

definition FdCtx_init :: "(int \<Rightarrow> bool option) \<Rightarrow> FdCtx \<Rightarrow> (int \<Rightarrow> u32) \<Rightarrow> bool \<times> FdCtx \<times> (int \<Rightarrow> u32)" where
  "FdCtx_init fstat c k =
     (if fx_isInit c then (True, c, k)
      else
        let c = c\<lparr>fx_recvTimeout := - 1, fx_sendTimeout := - 1\<rparr>;
            c = (case fstat (fx_fd c) of
                   None \<Rightarrow> c\<lparr>fx_isInit := False, fx_isSocket := False\<rparr>
                 | Some sock \<Rightarrow> c\<lparr>fx_isInit := True, fx_isSocket := sock\<rparr>);
            flags = k (fx_fd c);
            k = (if fx_isSocket c \<and> flags AND O_NONBLOCK = 0 then k(fx_fd c := flags OR O_NONBLOCK) else k);
            c = c\<lparr>fx_sysNonblock := fx_isSocket c, fx_userNonblock := False, fx_isClosed := False\<rparr>
        in (fx_isInit c, c, k))"

definition FdCtx_new :: "(int \<Rightarrow> bool option) \<Rightarrow> int \<Rightarrow> (int \<Rightarrow> u32) \<Rightarrow> FdCtx \<times> (int \<Rightarrow> u32)" where
  "FdCtx_new fstat fd k =
     snd (FdCtx_init fstat
       \<lparr>fx_isInit = False, fx_isSocket = False, fx_sysNonblock = False, fx_userNonblock = False,
        fx_isClosed = False, fx_fd = fd, fx_recvTimeout = - 1, fx_sendTimeout = - 1\<rparr> k)"

definition setTimeout :: "int \<Rightarrow> u64 \<Rightarrow> FdCtx \<Rightarrow> FdCtx" where
  "setTimeout type v c = (if type = SO_RCVTIMEO then c\<lparr>fx_recvTimeout := v\<rparr> else c\<lparr>fx_sendTimeout := v\<rparr>)"

definition getTimeout :: "int \<Rightarrow> FdCtx \<Rightarrow> u64" where
  "getTimeout type c = (if type = SO_RCVTIMEO then fx_recvTimeout c else fx_sendTimeout c)"

definition setUserNonblock :: "bool \<Rightarrow> FdCtx \<Rightarrow> FdCtx" where
  "setUserNonblock v c = c\<lparr>fx_userNonblock := v\<rparr>"

definition setSysNonblock :: "bool \<Rightarrow> FdCtx \<Rightarrow> FdCtx" where
  "setSysNonblock v c = c\<lparr>fx_sysNonblock := v\<rparr>"

subsection \<open>The manager\<close>

definition FdManager_new :: "(int \<Rightarrow> u32) \<Rightarrow> fdm" where
  "FdManager_new k = \<lparr>m_datas = replicate 64 None, k_flags = k\<rparr>"

definition resize_datas :: "nat \<Rightarrow> FdCtx option list \<Rightarrow> FdCtx option list" where
  "resize_datas n ds = take n ds @ replicate (n - length ds) None"

definition fdm_get :: "(int \<Rightarrow> bool option) \<Rightarrow> int \<Rightarrow> bool \<Rightarrow> fdm \<Rightarrow> (FdCtx option, fdm) outcome" where
  "fdm_get fstat fd auto_create m =
     (if fd = -1 then Ok None m
      else if int (length (m_datas m)) \<le> fd \<and> \<not> auto_create then Ok None m
      else if \<not> int (length (m_datas m)) \<le> fd \<and> fd < 0 then Crash OutOfBounds
      else if \<not> int (length (m_datas m)) \<le> fd \<and> (m_datas m ! nat fd \<noteq> None \<or> \<not> auto_create)
      then Ok (m_datas m ! nat fd) m
      else
        let (ctx, k) = FdCtx_new fstat fd (k_flags m);
            ds = (if fd \<ge> int (length (m_datas m)) then resize_datas (nat (fd * 3 div 2)) (m_datas m) else m_datas m)
        in if nat fd < length ds then Ok (Some ctx) \<lparr>m_datas = ds[nat fd := Some ctx], k_flags = k\<rparr>
           else Crash OutOfBounds)"

definition fdm_del :: "int \<Rightarrow> fdm \<Rightarrow> (unit, fdm) outcome" where
  "fdm_del fd m =
     (if int (length (m_datas m)) \<le> fd then Ok () m
      else if fd < 0 then Crash OutOfBounds
      else Ok () (m\<lparr>m_datas := (m_datas m)[nat fd := None]\<rparr>))"

text \<open>What the hooks do with a context they got: update it in place (it is shared with the manager).\<close>

definition fdm_put :: "int \<Rightarrow> FdCtx \<Rightarrow> fdm \<Rightarrow> fdm" where
  "fdm_put fd c m = m\<lparr>m_datas := (m_datas m)[nat fd := Some c]\<rparr>"

subsection \<open>Invariant\<close>

text \<open>Every managed socket is in non-blocking mode in the kernel, whatever its user asked for.\<close>

definition fdm_inv :: "fdm \<Rightarrow> bool" where
  "fdm_inv m \<longleftrightarrow> 64 \<le> length (m_datas m) \<and>
     (\<forall>i c. i < length (m_datas m) \<longrightarrow> m_datas m ! i = Some c \<longrightarrow>
        fx_fd c = int i \<and> fx_sysNonblock c = fx_isSocket c \<and> \<not> fx_isClosed c \<and>
        (fx_isSocket c \<longrightarrow> k_flags m (int i) AND O_NONBLOCK \<noteq> 0))"

lemma O_NONBLOCK_nonzero [simp]: "O_NONBLOCK \<noteq> 0"
  by (simp add: O_NONBLOCK_def)

lemma O_NONBLOCK_set [simp]: "(v OR O_NONBLOCK) AND O_NONBLOCK \<noteq> 0"
proof -
  have "(v OR O_NONBLOCK) AND O_NONBLOCK = O_NONBLOCK" by (rule bit_word_eqI) (auto simp: bit_simps)
  then show ?thesis by (simp add: O_NONBLOCK_def)
qed

lemma FdManager_new_inv: "fdm_inv (FdManager_new k)"
  by (simp add: fdm_inv_def FdManager_new_def)

lemma FdCtx_new_ok:
  assumes "FdCtx_new fstat fd k = (c, k')"
  shows "fx_fd c = fd" "fx_sysNonblock c = fx_isSocket c" "\<not> fx_isClosed c" "\<not> fx_userNonblock c"
    "fx_isSocket c \<Longrightarrow> k' fd AND O_NONBLOCK \<noteq> 0" "\<forall>g. g \<noteq> fd \<longrightarrow> k' g = k g"
    "\<forall>g. k g AND O_NONBLOCK \<noteq> 0 \<longrightarrow> k' g AND O_NONBLOCK \<noteq> 0"
    "fx_isSocket c \<longleftrightarrow> fstat fd = Some True" "fx_recvTimeout c = - 1" "fx_sendTimeout c = - 1"
  using assms by (auto simp: FdCtx_new_def FdCtx_init_def Let_def split: option.splits if_splits)

lemma fdm_get_correct:
  assumes inv: "fdm_inv m" and fd: "0 \<le> fd"
  shows "\<exists>r m'. fdm_get fstat fd auto m = Ok r m' \<and> fdm_inv m' \<and>
    (if nat fd < length (m_datas m) \<and> m_datas m ! nat fd \<noteq> None \<or> \<not> auto
     then m' = m \<and> r = (if nat fd < length (m_datas m) then m_datas m ! nat fd else None)
     else nat fd < length (m_datas m') \<and> m_datas m' ! nat fd = r \<and> r \<noteq> None)"
proof (cases "nat fd < length (m_datas m) \<and> m_datas m ! nat fd \<noteq> None \<or> \<not> auto")
  case True
  then show ?thesis using fd inv by (auto simp: fdm_get_def)
next
  case False
  define ds where "ds = (if fd \<ge> int (length (m_datas m)) then resize_datas (nat (fd * 3 div 2)) (m_datas m) else m_datas m)"
  obtain c k where ck: "FdCtx_new fstat fd (k_flags m) = (c, k)" by fastforce
  note C = FdCtx_new_ok [OF ck]
  have big: "64 \<le> length (m_datas m)" using inv by (simp add: fdm_inv_def)
  have ds: "nat fd < length ds \<and> length (m_datas m) \<le> length ds \<and>
      (\<forall>i < length ds. ds ! i = (if i < length (m_datas m) then m_datas m ! i else None))"
  proof (cases "fd \<ge> int (length (m_datas m))")
    case True
    then have n: "length (m_datas m) \<le> nat (fd * 3 div 2)" "nat fd < nat (fd * 3 div 2)" using big by linarith+
    then show ?thesis using True by (auto simp: ds_def resize_datas_def nth_append)
  next
    case False
    then show ?thesis using fd by (auto simp: ds_def)
  qed
  let ?m = "\<lparr>m_datas = ds[nat fd := Some c], k_flags = k\<rparr>"
  have "fdm_get fstat fd auto m = Ok (Some c) ?m"
    using False fd ck ds unfolding fdm_get_def ds_def [symmetric] by (auto simp: Let_def)
  moreover have "fdm_inv ?m"
  proof -
    have "fx_fd e = int i \<and> fx_sysNonblock e = fx_isSocket e \<and> \<not> fx_isClosed e \<and>
        (fx_isSocket e \<longrightarrow> k (int i) AND O_NONBLOCK \<noteq> 0)"
      if i: "i < length ds" "ds[nat fd := Some c] ! i = Some e" for i e
    proof (cases "i = nat fd")
      case True
      then show ?thesis using i C(1-3,5) ds fd by auto
    next
      case False
      with i ds have "i < length (m_datas m)" "m_datas m ! i = Some e" by (auto split: if_splits)
      then show ?thesis using inv C(7) by (auto simp: fdm_inv_def)
    qed
    then show ?thesis using big ds by (auto simp: fdm_inv_def)
  qed
  ultimately show ?thesis using False ds by auto
qed

definition fdm_slot_ok :: "fdm \<Rightarrow> nat \<Rightarrow> FdCtx option \<Rightarrow> bool" where
  "fdm_slot_ok m i e \<longleftrightarrow> (\<forall>c. e = Some c \<longrightarrow>
        fx_fd c = int i \<and> fx_sysNonblock c = fx_isSocket c \<and> \<not> fx_isClosed c \<and>
        (fx_isSocket c \<longrightarrow> k_flags m (int i) AND O_NONBLOCK \<noteq> 0))"

lemma fdm_inv_slots:
  "fdm_inv m \<longleftrightarrow> 64 \<le> length (m_datas m) \<and> (\<forall>i < length (m_datas m). fdm_slot_ok m i (m_datas m ! i))"
  unfolding fdm_inv_def fdm_slot_ok_def by blast

lemma fdm_inv_update:
  assumes "fdm_inv m" and "fdm_slot_ok m i e"
  shows "fdm_inv (m\<lparr>m_datas := (m_datas m)[i := e]\<rparr>)"
  unfolding fdm_inv_slots
proof (intro conjI allI impI)
  show "64 \<le> length (m_datas (m\<lparr>m_datas := (m_datas m)[i := e]\<rparr>))" using assms(1) by (simp add: fdm_inv_slots)
  fix j assume "j < length (m_datas (m\<lparr>m_datas := (m_datas m)[i := e]\<rparr>))"
  then show "fdm_slot_ok (m\<lparr>m_datas := (m_datas m)[i := e]\<rparr>) j (m_datas (m\<lparr>m_datas := (m_datas m)[i := e]\<rparr>) ! j)"
    using assms by (cases "j = i") (auto simp: fdm_inv_slots fdm_slot_ok_def)
qed

lemma fdm_del_inv:
  assumes "fdm_inv m" and "fdm_del fd m = Ok () m'"
  shows "fdm_inv m'"
  using assms fdm_inv_update [OF assms(1), of "nat fd" None]
  by (auto simp: fdm_del_def fdm_slot_ok_def split: if_splits)

lemma fdm_put_inv:
  assumes "fdm_inv m" and "m_datas m ! nat fd = Some c" and "nat fd < length (m_datas m)"
    and "fx_fd c' = fx_fd c" "fx_sysNonblock c' = fx_sysNonblock c" "fx_isClosed c' = fx_isClosed c" "fx_isSocket c' = fx_isSocket c"
  shows "fdm_inv (fdm_put fd c' m)"
proof -
  have "fdm_slot_ok m (nat fd) (Some c)" using assms(1-3) by (metis fdm_inv_slots)
  then have "fdm_slot_ok m (nat fd) (Some c')" using assms(4-7) by (simp add: fdm_slot_ok_def)
  then show ?thesis using fdm_inv_update [OF assms(1)] by (simp add: fdm_put_def)
qed

end
