(* ===== verification/StdContainers.thy ===== *)
theory StdContainers
  imports Prelude
begin

text \<open>
  What the sources use of the standard library's ordered containers and strings.

  A \<open>std::set<T, Less>\<close> is the list of its elements in iteration order, a \<open>std::map<K, V, Less>\<close> the
  list of its key/value pairs; the operations take the comparison object \<open>lt\<close> as their first
  argument and find, as the library does, the element \<^emph>\<open>equivalent\<close> to the key (neither less than the
  other). The contract of a comparison object is the locale \<open>strict_weak_order\<close>; what a container
  promises its users is proved once in it and reaches the components through the interpretations for
  the comparison objects of the program: \<open>std::less<std::string>\<close> here, \<open>CaseInsensitiveLess\<close> in
  \<open>HttpMessage\<close> and \<open>Timer::Comparator\<close> in \<open>Timer\<close>.
\<close>

subsection \<open>Sets\<close>

definition equivalent :: "('a \<Rightarrow> 'a \<Rightarrow> bool) \<Rightarrow> 'a \<Rightarrow> 'a \<Rightarrow> bool" where
  "equivalent lt x y \<longleftrightarrow> \<not> lt x y \<and> \<not> lt y x"

fun set_insert :: "('a \<Rightarrow> 'a \<Rightarrow> bool) \<Rightarrow> 'a \<Rightarrow> 'a list \<Rightarrow> 'a list" where
  "set_insert lt x [] = [x]"
| "set_insert lt x (y # ys) =
     (if lt x y then x # y # ys else if lt y x then y # set_insert lt x ys else y # ys)"

definition set_find :: "('a \<Rightarrow> 'a \<Rightarrow> bool) \<Rightarrow> 'a \<Rightarrow> 'a list \<Rightarrow> 'a option" where
  "set_find lt x xs = find (equivalent lt x) xs"

definition set_erase :: "('a \<Rightarrow> 'a \<Rightarrow> bool) \<Rightarrow> 'a \<Rightarrow> 'a list \<Rightarrow> 'a list" where
  "set_erase lt x xs = filter (\<lambda>y. \<not> equivalent lt x y) xs"

text \<open>\<open>lower_bound\<close> splits the set at the first element that is not less than the key.\<close>

definition lower_bound :: "('a \<Rightarrow> 'a \<Rightarrow> bool) \<Rightarrow> 'a \<Rightarrow> 'a list \<Rightarrow> 'a list \<times> 'a list" where
  "lower_bound lt x xs = (takeWhile (\<lambda>y. lt y x) xs, dropWhile (\<lambda>y. lt y x) xs)"

subsection \<open>Maps\<close>

definition map_find :: "('k \<Rightarrow> 'k \<Rightarrow> bool) \<Rightarrow> 'k \<Rightarrow> ('k \<times> 'v) list \<Rightarrow> 'v option" where
  "map_find lt k m = map_option snd (find (\<lambda>(k', _). equivalent lt k k') m)"

text \<open>\<open>m[k] = v\<close>: an equivalent key keeps its spelling and gets the new value.\<close>

fun map_assign :: "('k \<Rightarrow> 'k \<Rightarrow> bool) \<Rightarrow> 'k \<Rightarrow> 'v \<Rightarrow> ('k \<times> 'v) list \<Rightarrow> ('k \<times> 'v) list" where
  "map_assign lt k v [] = [(k, v)]"
| "map_assign lt k v ((k', v') # m) =
     (if lt k k' then (k, v) # (k', v') # m
      else if lt k' k then (k', v') # map_assign lt k v m
      else (k', v) # m)"

text \<open>\<open>m.insert({k, v})\<close>: nothing happens when an equivalent key is there.\<close>

definition map_insert :: "('k \<Rightarrow> 'k \<Rightarrow> bool) \<Rightarrow> 'k \<Rightarrow> 'v \<Rightarrow> ('k \<times> 'v) list \<Rightarrow> ('k \<times> 'v) list" where
  "map_insert lt k v m = (case map_find lt k m of None \<Rightarrow> map_assign lt k v m | Some _ \<Rightarrow> m)"

definition map_erase :: "('k \<Rightarrow> 'k \<Rightarrow> bool) \<Rightarrow> 'k \<Rightarrow> ('k \<times> 'v) list \<Rightarrow> ('k \<times> 'v) list" where
  "map_erase lt k m = filter (\<lambda>(k', _). \<not> equivalent lt k k') m"

definition map_sorted :: "('k \<Rightarrow> 'k \<Rightarrow> bool) \<Rightarrow> ('k \<times> 'v) list \<Rightarrow> bool" where
  "map_sorted lt m \<longleftrightarrow> sorted_wrt lt (map fst m)"

text \<open>A \<open>std::multimap\<close> inserts a pair behind the pairs whose keys are not greater; \<open>equal_range\<close> visits the
  values of the equivalent keys.\<close>

definition mm_insert :: "('k \<Rightarrow> 'k \<Rightarrow> bool) \<Rightarrow> 'k \<Rightarrow> 'v \<Rightarrow> ('k \<times> 'v) list \<Rightarrow> ('k \<times> 'v) list" where
  "mm_insert lt k v m = takeWhile (\<lambda>(k', _). \<not> lt k k') m @ (k, v) # dropWhile (\<lambda>(k', _). \<not> lt k k') m"

definition mm_range :: "('k \<Rightarrow> 'k \<Rightarrow> bool) \<Rightarrow> 'k \<Rightarrow> ('k \<times> 'v) list \<Rightarrow> 'v list" where
  "mm_range lt k m = map snd (filter (\<lambda>(k', _). equivalent lt k k') m)"

definition mm_sorted :: "('k \<Rightarrow> 'k \<Rightarrow> bool) \<Rightarrow> ('k \<times> 'v) list \<Rightarrow> bool" where
  "mm_sorted lt m \<longleftrightarrow> sorted_wrt (\<lambda>a b. \<not> lt b a) (map fst m)"

subsection \<open>The contract of a comparison object\<close>

locale strict_weak_order =
  fixes lt :: "'a \<Rightarrow> 'a \<Rightarrow> bool"
  assumes lt_irrefl [simp]: "\<not> lt x x"
    and lt_trans: "lt x y \<Longrightarrow> lt y z \<Longrightarrow> lt x z"
    and equiv_trans: "equivalent lt x y \<Longrightarrow> equivalent lt y z \<Longrightarrow> equivalent lt x z"
begin

lemma equiv_refl [simp]: "equivalent lt x x"
  by (simp add: equivalent_def)

lemma equiv_sym: "equivalent lt x y \<longleftrightarrow> equivalent lt y x"
  by (auto simp: equivalent_def)

lemma lt_asym: "lt x y \<Longrightarrow> \<not> lt y x"
  using lt_trans [of x y x] by auto

lemma lt_equiv_trans: "lt x y \<Longrightarrow> equivalent lt y z \<Longrightarrow> lt x z"
  using lt_trans [of z x y] equiv_trans [of x z y] by (auto simp: equivalent_def)

lemma equiv_lt_trans: "equivalent lt x y \<Longrightarrow> lt y z \<Longrightarrow> lt x z"
  using lt_trans [of y z x] equiv_trans [of y x z] by (auto simp: equivalent_def)

lemma equiv_cong: "equivalent lt x y \<Longrightarrow> equivalent lt x z \<longleftrightarrow> equivalent lt y z"
  using equiv_trans [of x y z] equiv_trans [of y x z] equiv_sym by blast

text \<open>Sets.\<close>

lemma set_insert_absent:
  "(\<forall>y\<in>set xs. \<not> equivalent lt x y) \<Longrightarrow> set (set_insert lt x xs) = insert x (set xs)"
  by (induction xs) (auto simp: equivalent_def)

lemma set_insert_sorted: "sorted_wrt lt xs \<Longrightarrow> sorted_wrt lt (set_insert lt x xs)"
proof (induction xs)
  case Nil
  then show ?case by simp
next
  case (Cons y ys)
  have sub: "set (set_insert lt x ys) \<subseteq> insert x (set ys)" by (induction ys) auto
  from Cons sub show ?case by (auto intro: lt_trans)
qed

lemma set_erase_sorted: "sorted_wrt lt xs \<Longrightarrow> sorted_wrt lt (set_erase lt x xs)"
  by (simp add: set_erase_def sorted_wrt_filter)

lemma set_find_None: "set_find lt x xs = None \<longleftrightarrow> (\<forall>y\<in>set xs. \<not> equivalent lt x y)"
  by (auto simp: set_find_def find_None_iff)

lemma sorted_takeWhile:
  "sorted_wrt lt xs \<Longrightarrow> z \<in> set (takeWhile (\<lambda>y. lt y x) xs) \<longleftrightarrow> z \<in> set xs \<and> lt z x"
proof (induction xs)
  case (Cons y ys)
  show ?case
  proof (cases "lt y x")
    case True
    with Cons show ?thesis by auto
  next
    case False
    have "\<forall>z\<in>set ys. lt y z" using Cons.prems by simp
    with False have "z \<in> set ys \<longrightarrow> \<not> lt z x" using lt_trans by blast
    with False show ?thesis by auto
  qed
qed simp

lemma sorted_dropWhile:
  "sorted_wrt lt xs \<Longrightarrow> z \<in> set (dropWhile (\<lambda>y. lt y x) xs) \<longleftrightarrow> z \<in> set xs \<and> \<not> lt z x"
proof (induction xs)
  case (Cons y ys)
  show ?case
  proof (cases "lt y x")
    case True
    with Cons show ?thesis by auto
  next
    case False
    have "\<forall>z\<in>set ys. lt y z" using Cons.prems by simp
    with False have "z \<in> set ys \<longrightarrow> \<not> lt z x" using lt_trans by blast
    with False show ?thesis by auto
  qed
qed simp

text \<open>Maps.\<close>

lemma map_find_assign:
  "map_find lt k' (map_assign lt k v m) = (if equivalent lt k k' then Some v else map_find lt k' m)"
proof (induction m)
  case Nil
  then show ?case using equiv_sym [of k k'] by (auto simp: map_find_def)
next
  case (Cons p m)
  obtain a b where p: "p = (a, b)" by (cases p)
  consider "lt k a" | "\<not> lt k a" "lt a k" | "equivalent lt k a" by (auto simp: equivalent_def)
  then show ?case
  proof cases
    case 1
    then show ?thesis using p equiv_sym [of k k'] by (simp add: map_find_def)
  next
    case 2
    then have "\<not> equivalent lt k a" by (simp add: equivalent_def)
    then have "equivalent lt k' a \<Longrightarrow> \<not> equivalent lt k k'" using equiv_trans by blast
    then show ?thesis using 2 p Cons by (auto simp: map_find_def)
  next
    case 3
    then have "equivalent lt k' a \<longleftrightarrow> equivalent lt k k'" using equiv_cong equiv_sym by blast
    moreover have "\<not> lt k a" "\<not> lt a k" using 3 by (auto simp: equivalent_def)
    ultimately show ?thesis using p by (auto simp: map_find_def)
  qed
qed

lemma map_find_insert:
  "map_find lt k' (map_insert lt k v m) =
     (if equivalent lt k k' \<and> map_find lt k m = None then Some v else map_find lt k' m)"
  by (simp add: map_insert_def map_find_assign split: option.split)

lemma map_find_cong: "equivalent lt k k' \<Longrightarrow> map_find lt k m = map_find lt k' m"
  by (simp add: map_find_def equiv_cong cong: arg_cong [where f = "\<lambda>P. find P m"])

lemma map_find_erase:
  "map_find lt k' (map_erase lt k m) = (if equivalent lt k k' then None else map_find lt k' m)"
proof (induction m)
  case Nil
  then show ?case by (simp add: map_find_def map_erase_def)
next
  case (Cons p m)
  obtain a b where p: "p = (a, b)" by (cases p)
  show ?case
  proof (cases "equivalent lt k a")
    case True
    then have "equivalent lt k' a \<longleftrightarrow> equivalent lt k k'" using equiv_cong equiv_sym by blast
    then show ?thesis using True p Cons by (auto simp: map_find_def map_erase_def)
  next
    case False
    then have "equivalent lt k' a \<Longrightarrow> \<not> equivalent lt k k'" using equiv_trans by blast
    then show ?thesis using False p Cons by (auto simp: map_find_def map_erase_def)
  qed
qed

lemma keys_assign: "x \<in> set (map_assign lt k v m) \<Longrightarrow> fst x = k \<or> fst x \<in> fst ` set m"
  by (induction m) (auto split: if_splits)

lemma map_assign_sorted: "map_sorted lt m \<Longrightarrow> map_sorted lt (map_assign lt k v m)"
proof (induction m)
  case Nil
  then show ?case by (simp add: map_sorted_def)
next
  case (Cons p m)
  obtain a b where p: "p = (a, b)" by (cases p)
  with Cons show ?case
    unfolding map_sorted_def by (auto intro: lt_trans dest!: keys_assign)
qed

lemma map_insert_sorted: "map_sorted lt m \<Longrightarrow> map_sorted lt (map_insert lt k v m)"
  by (simp add: map_insert_def map_assign_sorted split: option.split)

lemma map_erase_sorted: "map_sorted lt m \<Longrightarrow> map_sorted lt (map_erase lt k m)"
  by (induction m) (auto simp: map_sorted_def map_erase_def)

text \<open>Inserting the elements of a container in its own order rebuilds it.\<close>

lemma set_insert_last: "\<forall>y\<in>set ys. lt y x \<Longrightarrow> set_insert lt x ys = ys @ [x]"
  by (induction ys) (auto dest: lt_asym)

lemma set_rebuild: "sorted_wrt lt (ys @ xs) \<Longrightarrow> fold (set_insert lt) xs ys = ys @ xs"
  by (induction xs arbitrary: ys) (simp_all add: set_insert_last sorted_wrt_append)

lemma map_insert_last: "\<forall>y\<in>set ys. lt (fst y) k \<Longrightarrow> map_insert lt k v ys = ys @ [(k, v)]"
proof -
  assume a: "\<forall>y\<in>set ys. lt (fst y) k"
  then have "map_find lt k ys = None"
    by (auto simp: map_find_def find_None_iff equivalent_def)
  moreover have "map_assign lt k v ys = ys @ [(k, v)]" using a by (induction ys) (auto dest: lt_asym)
  ultimately show ?thesis by (simp add: map_insert_def)
qed

lemma map_rebuild: "map_sorted lt (ys @ xs) \<Longrightarrow> fold (\<lambda>(k, v). map_insert lt k v) xs ys = ys @ xs"
proof (induction xs arbitrary: ys)
  case (Cons x xs)
  obtain k v where x: "x = (k, v)" by (cases x)
  then have "\<forall>y\<in>set ys. lt (fst y) k" using Cons.prems by (auto simp: map_sorted_def sorted_wrt_append)
  then show ?case using Cons x by (simp add: map_insert_last)
qed simp

text \<open>Multimaps.\<close>

lemma mm_sorted_greater:
  assumes "mm_sorted lt m" and "x \<in> set (dropWhile (\<lambda>(k', _). \<not> lt k k') m)"
  shows "lt k (fst x)"
  using assms
proof (induction m)
  case (Cons p m)
  have lt_mono: "lt k a \<Longrightarrow> \<not> lt b a \<Longrightarrow> lt k b" for a b
    using lt_trans [of k a b] lt_equiv_trans [of k a b] by (auto simp: equivalent_def)
  show ?case
  proof (cases "lt k (fst p)")
    case True
    then have "x \<in> set (p # m)" using Cons.prems by (cases p) simp
    then show ?thesis using True Cons.prems lt_mono [of "fst p" "fst x"] by (auto simp: mm_sorted_def)
  next
    case False
    then show ?thesis using Cons by (cases p) (simp add: mm_sorted_def)
  qed
qed simp

lemma mm_insert_sorted:
  assumes "mm_sorted lt m"
  shows "mm_sorted lt (mm_insert lt k v m)"
proof -
  let ?P = "\<lambda>(k', _). \<not> lt k k'"
  have "mm_sorted lt (takeWhile ?P m @ dropWhile ?P m)" using assms by simp
  then have parts: "mm_sorted lt (takeWhile ?P m)" "mm_sorted lt (dropWhile ?P m)"
      "\<forall>x\<in>set (takeWhile ?P m). \<forall>y\<in>set (dropWhile ?P m). \<not> lt (fst y) (fst x)"
    unfolding mm_sorted_def map_append sorted_wrt_append by auto
  have "\<not> lt (fst y) k" if "y \<in> set (dropWhile ?P m)" for y
    using mm_sorted_greater [OF assms that] lt_asym by blast
  moreover have "\<not> lt k (fst x)" if "x \<in> set (takeWhile ?P m)" for x
    using set_takeWhileD [OF that] by (cases x) auto
  ultimately show ?thesis using parts by (auto simp: mm_insert_def mm_sorted_def sorted_wrt_append)
qed

lemma mm_range_insert:
  assumes "mm_sorted lt m"
  shows "mm_range lt k' (mm_insert lt k v m) = mm_range lt k' m @ (if equivalent lt k' k then [v] else [])"
proof -
  let ?P = "\<lambda>(k', _). \<not> lt k k'"
  have "mm_range lt k' m = mm_range lt k' (takeWhile ?P m) @ mm_range lt k' (dropWhile ?P m)"
    by (simp only: mm_range_def map_append [symmetric] filter_append [symmetric] takeWhile_dropWhile_id)
  moreover have "mm_range lt k' (dropWhile ?P m) = []" if "equivalent lt k' k"
  proof -
    have "\<not> equivalent lt k' (fst x)" if "x \<in> set (dropWhile ?P m)" for x
      using equiv_lt_trans [OF \<open>equivalent lt k' k\<close> mm_sorted_greater [OF assms that]] by (auto simp: equivalent_def)
    then show ?thesis by (auto simp: mm_range_def filter_empty_conv)
  qed
  ultimately show ?thesis by (auto simp: mm_insert_def mm_range_def)
qed

end

subsection \<open>Strings\<close>

text \<open>\<open>std::string\<close> compares characters as \<open>unsigned char\<close>.\<close>

fun string_less :: "string \<Rightarrow> string \<Rightarrow> bool" where
  "string_less _ [] \<longleftrightarrow> False"
| "string_less [] (_ # _) \<longleftrightarrow> True"
| "string_less (a # as) (b # bs) \<longleftrightarrow>
     (of_char a :: nat) < of_char b \<or> a = b \<and> string_less as bs"

lemma string_less_total: "string_less x y \<or> x = y \<or> string_less y x"
proof (induction x y rule: string_less.induct)
  case (3 a as b bs)
  then show ?case by (metis less_linear of_char_eq_iff string_less.simps(3))
next
  case (1 x)
  then show ?case by (cases x) auto
qed auto

lemma string_less_irrefl: "\<not> string_less x x"
  by (induction x) auto

lemma string_less_trans: "string_less x y \<Longrightarrow> string_less y z \<Longrightarrow> string_less x z"
proof (induction x y arbitrary: z rule: string_less.induct)
  case (3 a as b bs)
  then show ?case by (cases z) auto
next
  case (2 b bs)
  then show ?case by (cases z) auto
qed auto

interpretation str: strict_weak_order string_less
proof unfold_locales
  fix x y z
  show "\<not> string_less x x" by (rule string_less_irrefl)
  show "string_less x y \<Longrightarrow> string_less y z \<Longrightarrow> string_less x z" by (rule string_less_trans)
  show "equivalent string_less x y \<Longrightarrow> equivalent string_less y z \<Longrightarrow> equivalent string_less x z"
    using string_less_total by (auto simp: equivalent_def)
qed

lemma string_equivalent [simp]: "equivalent string_less x y \<longleftrightarrow> x = y"
  using string_less_total string_less_irrefl by (auto simp: equivalent_def)

end
