(* ===== verification/Timer.thy ===== *)
theory Timer
  imports StdContainers
begin

text \<open>
  \<open>src/timer.cc\<close>, \<open>include/sylar/timer.hh\<close>: timers and the set of them a \<open>TimerManager\<close> keeps in
  firing order.

  Timers are shared objects that their owners, the manager and the set refer to, so they live in a
  heap indexed by address; \<open>m_timers\<close> is the \<open>std::set\<close> of addresses in iteration order, compared by
  \<open>Timer::Comparator\<close> through the heap. A null \<open>shared_ptr\<close> is \<open>None\<close>, an empty \<open>std::function\<close> is
  \<open>t_cb = None\<close>. \<open>GetCurrentMS()\<close> is the argument \<open>now\<close> and the address \<open>new Timer\<close> returns the argument
  \<open>a\<close>; times are \<open>uint64_t\<close> and wrap around. \<open>notified\<close> results say whether the virtual
  \<open>onTimerInsertedAtFront\<close> was called. Each operation runs under the manager's lock.
\<close>

subsection \<open>State\<close>

record 'cb timer =
  t_recurring :: bool
  t_ms :: u64
  t_next :: u64
  t_cb :: "'cb option"

type_synonym 'cb timer_heap = "nat \<rightharpoonup> 'cb timer"

record 'cb TimerManager =
  tm_heap :: "'cb timer_heap"
  m_timers :: "nat list"
  m_tickled :: bool
  m_previousTime :: u64

definition next_of :: "'cb timer_heap \<Rightarrow> nat \<Rightarrow> u64" where
  "next_of h a = (case h a of Some t \<Rightarrow> t_next t | None \<Rightarrow> 0)"

definition Comparator :: "'cb timer_heap \<Rightarrow> nat option \<Rightarrow> nat option \<Rightarrow> bool" where
  "Comparator h lhs rhs =
     (case (lhs, rhs) of
        (None, None) \<Rightarrow> False
      | (None, Some _) \<Rightarrow> True
      | (Some _, None) \<Rightarrow> False
      | (Some l, Some r) \<Rightarrow>
          if next_of h l < next_of h r then True
          else if next_of h l > next_of h r then False
          else l < r)"

abbreviation timer_less :: "'cb timer_heap \<Rightarrow> nat \<Rightarrow> nat \<Rightarrow> bool" where
  "timer_less h l r \<equiv> Comparator h (Some l) (Some r)"

definition Timer_new :: "u64 \<Rightarrow> u64 \<Rightarrow> 'cb option \<Rightarrow> bool \<Rightarrow> 'cb timer" where
  "Timer_new now ms cb recurring = \<lparr>t_recurring = recurring, t_ms = ms, t_next = now + ms, t_cb = cb\<rparr>"

definition Timer_at :: "u64 \<Rightarrow> 'cb timer" where
  "Timer_at nxt = \<lparr>t_recurring = False, t_ms = 0, t_next = nxt, t_cb = None\<rparr>"

definition TimerManager_new :: "u64 \<Rightarrow> 'cb TimerManager" where
  "TimerManager_new now =
     \<lparr>tm_heap = Map.empty, m_timers = [], m_tickled = False, m_previousTime = now\<rparr>"

subsection \<open>Operations of the manager\<close>

text \<open>\<open>addTimer(val, lock)\<close>: the set insertion and the notification.\<close>

definition addTimer_locked :: "nat \<Rightarrow> 'cb TimerManager \<Rightarrow> bool \<times> 'cb TimerManager" where
  "addTimer_locked val tm =
     (let ts = set_insert (timer_less (tm_heap tm)) val (m_timers tm);
          at_front = (hd ts = val) \<and> \<not> m_tickled tm
      in (at_front, tm\<lparr>m_timers := ts, m_tickled := (if at_front then True else m_tickled tm)\<rparr>))"

definition addTimer :: "u64 \<Rightarrow> nat \<Rightarrow> u64 \<Rightarrow> 'cb option \<Rightarrow> bool \<Rightarrow> 'cb TimerManager \<Rightarrow> bool \<times> 'cb TimerManager" where
  "addTimer now a ms cb recurring tm =
     addTimer_locked a (tm\<lparr>tm_heap := (tm_heap tm)(a \<mapsto> Timer_new now ms cb recurring)\<rparr>)"

text \<open>\<open>OnTimer\<close>: the callback of a condition timer runs only if the watched object is alive when the
  timer fires; \<open>addConditionTimer\<close> registers \<open>std::bind(&OnTimer, weak_cond, cb)\<close>, here \<open>bind weak_cond cb\<close>, as an
  ordinary timer.\<close>

definition OnTimer :: "('w \<Rightarrow> bool) \<Rightarrow> 'w \<Rightarrow> ('s \<Rightarrow> (unit, 's) outcome) \<Rightarrow> 's \<Rightarrow> (unit, 's) outcome" where
  "OnTimer alive weak_cond cb s = (if alive weak_cond then cb s else Ok () s)"

definition addConditionTimer :: "('w \<Rightarrow> 'c \<Rightarrow> 'cb) \<Rightarrow> u64 \<Rightarrow> nat \<Rightarrow> u64 \<Rightarrow> 'c \<Rightarrow> 'w \<Rightarrow> bool \<Rightarrow>
    'cb TimerManager \<Rightarrow> bool \<times> 'cb TimerManager" where
  "addConditionTimer bind now a ms cb weak_cond recurring tm =
     addTimer now a ms (Some (bind weak_cond cb)) recurring tm"

definition getNextTimer :: "u64 \<Rightarrow> 'cb TimerManager \<Rightarrow> u64 \<times> 'cb TimerManager" where
  "getNextTimer now_ms tm =
     (let tm' = tm\<lparr>m_tickled := False\<rparr> in
      (case m_timers tm of
         [] \<Rightarrow> (- 1, tm')
       | nxt # _ \<Rightarrow>
           if now_ms \<ge> next_of (tm_heap tm) nxt then (0, tm')
           else (next_of (tm_heap tm) nxt - now_ms, tm')))"

definition detectClockRollover :: "u64 \<Rightarrow> 'cb TimerManager \<Rightarrow> bool \<times> 'cb TimerManager" where
  "detectClockRollover now_ms tm =
     (now_ms < m_previousTime tm \<and> now_ms < m_previousTime tm - 60 * 60 * 1000,
      tm\<lparr>m_previousTime := now_ms\<rparr>)"

fun fire_expired :: "u64 \<Rightarrow> nat list \<Rightarrow> 'cb option list \<Rightarrow> 'cb TimerManager \<Rightarrow> 'cb option list \<times> 'cb TimerManager" where
  "fire_expired now_ms [] cbs tm = (cbs, tm)"
| "fire_expired now_ms (a # as) cbs tm =
     (case tm_heap tm a of
        None \<Rightarrow> fire_expired now_ms as (cbs @ [None]) tm
      | Some t \<Rightarrow>
          if t_recurring t then
            (let h' = (tm_heap tm)(a \<mapsto> t\<lparr>t_next := now_ms + t_ms t\<rparr>) in
             fire_expired now_ms as (cbs @ [t_cb t])
               (tm\<lparr>tm_heap := h', m_timers := set_insert (timer_less h') a (m_timers tm)\<rparr>))
          else fire_expired now_ms as (cbs @ [t_cb t])
                 (tm\<lparr>tm_heap := (tm_heap tm)(a \<mapsto> t\<lparr>t_cb := None\<rparr>)\<rparr>))"

text \<open>\<open>na\<close> is the address of the temporary \<open>now_timer\<close>; \<open>[begin, it)\<close> and \<open>[it, end)\<close> are the two
  halves of the set.\<close>

definition listExpiredCb :: "u64 \<Rightarrow> nat \<Rightarrow> 'cb option list \<Rightarrow> 'cb TimerManager \<Rightarrow>
    'cb option list \<times> 'cb TimerManager" where
  "listExpiredCb now_ms na cbs tm =
     (if m_timers tm = [] then (cbs, tm)
      else let (rollover, tm) = detectClockRollover now_ms tm in
        if \<not> rollover \<and> next_of (tm_heap tm) (hd (m_timers tm)) > now_ms then (cbs, tm)
        else
          let (before, after) =
                (if rollover then (m_timers tm, [])
                 else lower_bound (timer_less ((tm_heap tm)(na \<mapsto> Timer_at now_ms))) na (m_timers tm));
              same = takeWhile (\<lambda>a. next_of (tm_heap tm) a = now_ms) after;
              rest = dropWhile (\<lambda>a. next_of (tm_heap tm) a = now_ms) after
          in fire_expired now_ms (before @ same) cbs (tm\<lparr>m_timers := rest\<rparr>))"

subsection \<open>Operations of a timer\<close>

definition cancel :: "nat \<Rightarrow> 'cb TimerManager \<Rightarrow> (bool, 'cb TimerManager) outcome" where
  "cancel a tm =
     (case tm_heap tm a of
        None \<Rightarrow> Crash NullDeref
      | Some t \<Rightarrow>
          if t_cb t \<noteq> None then
            (let h' = (tm_heap tm)(a \<mapsto> t\<lparr>t_cb := None\<rparr>) in
             case set_find (timer_less h') a (m_timers tm) of
               None \<Rightarrow> Crash OutOfBounds \<comment> \<open>\<open>erase(end())\<close>\<close>
             | Some _ \<Rightarrow> Ok True (tm\<lparr>tm_heap := h', m_timers := set_erase (timer_less h') a (m_timers tm)\<rparr>))
          else Ok False tm)"

definition refresh :: "u64 \<Rightarrow> nat \<Rightarrow> 'cb TimerManager \<Rightarrow> (bool, 'cb TimerManager) outcome" where
  "refresh now a tm =
     (case tm_heap tm a of
        None \<Rightarrow> Crash NullDeref
      | Some t \<Rightarrow>
          if t_cb t = None then Ok False tm
          else (case set_find (timer_less (tm_heap tm)) a (m_timers tm) of
                  None \<Rightarrow> Ok False tm
                | Some _ \<Rightarrow>
                    let ts = set_erase (timer_less (tm_heap tm)) a (m_timers tm);
                        h' = (tm_heap tm)(a \<mapsto> t\<lparr>t_next := now + t_ms t\<rparr>)
                    in Ok True (tm\<lparr>tm_heap := h', m_timers := set_insert (timer_less h') a ts\<rparr>)))"

text \<open>\<open>reset\<close> returns its flag together with whether the front notification was sent.\<close>

definition reset :: "u64 \<Rightarrow> u64 \<Rightarrow> bool \<Rightarrow> nat \<Rightarrow> 'cb TimerManager \<Rightarrow> (bool \<times> bool, 'cb TimerManager) outcome" where
  "reset now ms from_now a tm =
     (case tm_heap tm a of
        None \<Rightarrow> Crash NullDeref
      | Some t \<Rightarrow>
          if ms = t_ms t \<and> \<not> from_now then Ok (True, False) tm
          else if t_cb t = None then Ok (False, False) tm
          else (case set_find (timer_less (tm_heap tm)) a (m_timers tm) of
                  None \<Rightarrow> Ok (False, False) tm
                | Some _ \<Rightarrow>
                    let ts = set_erase (timer_less (tm_heap tm)) a (m_timers tm);
                        start = (if from_now then now else t_next t - t_ms t);
                        h' = (tm_heap tm)(a \<mapsto> t\<lparr>t_ms := ms, t_next := start + ms\<rparr>);
                        (notified, tm') = addTimer_locked a (tm\<lparr>tm_heap := h', m_timers := ts\<rparr>)
                    in Ok (True, notified) tm'))"

subsection \<open>The comparison object\<close>

lemma timer_less_iff:
  "timer_less h a b \<longleftrightarrow> next_of h a < next_of h b \<or> next_of h a = next_of h b \<and> a < b"
  by (auto simp: Comparator_def)

lemma timer_equivalent [simp]: "equivalent (timer_less h) a b \<longleftrightarrow> a = b"
  unfolding equivalent_def timer_less_iff
  using linorder_less_linear [of "next_of h a" "next_of h b"] linorder_less_linear [of a b] by auto

lemma timer_less_trans: "timer_less h a b \<Longrightarrow> timer_less h b c \<Longrightarrow> timer_less h a c"
  unfolding timer_less_iff by (metis order.strict_trans)

lemma Comparator_simps [simp]:
  "\<not> Comparator h None None" "Comparator h None (Some r)" "\<not> Comparator h (Some l) None"
  by (simp_all add: Comparator_def)

lemma Comparator_equivalent: "equivalent (Comparator h) x y \<longleftrightarrow> x = y"
  by (cases x; cases y) (simp_all add: equivalent_def timer_equivalent [unfolded equivalent_def])

interpretation timer: strict_weak_order "timer_less h" for h :: "'cb timer_heap"
proof unfold_locales
  fix x y z
  show "\<not> timer_less h x x" by (simp add: timer_less_iff)
  show "timer_less h x y \<Longrightarrow> timer_less h y z \<Longrightarrow> timer_less h x z" by (rule timer_less_trans)
qed simp

interpretation cmp: strict_weak_order "Comparator h" for h :: "'cb timer_heap"
proof unfold_locales
  fix x y z
  show "\<not> Comparator h x x" by (cases x) simp_all
  show "Comparator h x y \<Longrightarrow> Comparator h y z \<Longrightarrow> Comparator h x z"
    by (cases x; cases y; cases z) (auto intro: timer_less_trans)
  show "equivalent (Comparator h) x y \<Longrightarrow> equivalent (Comparator h) y z \<Longrightarrow> equivalent (Comparator h) x z"
    by (simp add: Comparator_equivalent)
qed

lemma set_find_timer: "set_find (timer_less h) a ts = (if a \<in> set ts then Some a else None)"
  unfolding set_find_def by (induction ts) auto

lemma set_erase_timer: "set_erase (timer_less h) a ts = filter (\<lambda>b. b \<noteq> a) ts"
  by (auto simp: set_erase_def intro!: filter_cong)

lemma set_set_insert_timer [simp]: "set (set_insert (timer_less h) a ts) = insert a (set ts)"
  by (induction ts) (auto simp: timer_less_iff)

text \<open>The order of a set depends only on the firing times of its elements.\<close>

lemma sorted_timer_cong:
  assumes "\<And>a. a \<in> set ts \<Longrightarrow> next_of h a = next_of h' a" and "sorted_wrt (timer_less h) ts"
  shows "sorted_wrt (timer_less h') ts"
  using assms by (induction ts) (auto simp: timer_less_iff)

lemma next_of_upd [simp]: "next_of (h(a \<mapsto> t)) b = (if b = a then t_next t else next_of h b)"
  by (simp add: next_of_def)

subsection \<open>Invariant\<close>

text \<open>The set is in firing order, refers to live timers only, and every timer that still has a callback
  is in it.\<close>

definition tm_inv :: "'cb TimerManager \<Rightarrow> bool" where
  "tm_inv tm \<longleftrightarrow>
     sorted_wrt (timer_less (tm_heap tm)) (m_timers tm) \<and>
     set (m_timers tm) \<subseteq> dom (tm_heap tm) \<and>
     (\<forall>a t. tm_heap tm a = Some t \<longrightarrow> t_cb t \<noteq> None \<longrightarrow> a \<in> set (m_timers tm))"

lemma TimerManager_new_inv: "tm_inv (TimerManager_new now)"
  by (simp add: tm_inv_def TimerManager_new_def)

lemma sorted_timers_distinct: "sorted_wrt (timer_less h) ts \<Longrightarrow> distinct ts"
  by (induction ts) (auto simp: timer_less_iff)

lemma sorted_upd_fresh:
  "sorted_wrt (timer_less h) ts \<Longrightarrow> a \<notin> set ts \<Longrightarrow> sorted_wrt (timer_less (h(a \<mapsto> t))) ts"
  by (rule sorted_timer_cong [of ts h]) auto

lemmas sorted_insert_upd = timer.set_insert_sorted [OF sorted_upd_fresh]

lemma addTimer_locked_inv:
  assumes "sorted_wrt (timer_less (tm_heap tm)) (m_timers tm)" and "set (m_timers tm) \<subseteq> dom (tm_heap tm)"
    and "a \<in> dom (tm_heap tm)"
    and "\<forall>b t. tm_heap tm b = Some t \<longrightarrow> t_cb t \<noteq> None \<longrightarrow> b = a \<or> b \<in> set (m_timers tm)"
  shows "tm_inv (snd (addTimer_locked a tm))"
  using assms by (auto simp: addTimer_locked_def Let_def tm_inv_def timer.set_insert_sorted)

lemma addTimer_inv:
  assumes "tm_inv tm" and "tm_heap tm a = None"
  shows "tm_inv (snd (addTimer now a ms cb recurring tm))"
proof -
  have "a \<notin> set (m_timers tm)" using assms by (auto simp: tm_inv_def)
  then have "sorted_wrt (timer_less ((tm_heap tm)(a \<mapsto> t))) (m_timers tm)" for t
    using assms(1) by (simp add: tm_inv_def sorted_upd_fresh)
  with assms(1) show ?thesis unfolding addTimer_def
    by (intro addTimer_locked_inv) (auto simp: tm_inv_def)
qed

lemma set_erase_sorted_upd:
  assumes "sorted_wrt (timer_less h) ts"
  shows "sorted_wrt (timer_less (h(a \<mapsto> t))) (filter (\<lambda>b. b \<noteq> a) ts)"
  using sorted_wrt_filter [OF assms] by (rule sorted_timer_cong [rotated]) auto

lemma set_erase_upd_same: "set_erase (timer_less h') a ts = filter (\<lambda>b. b \<noteq> a) ts"
  by (rule set_erase_timer)

lemma cancel_correct:
  assumes "tm_inv tm" and "tm_heap tm a = Some t"
  shows "cancel a tm = (if t_cb t = None then Ok False tm
     else Ok True (tm\<lparr>tm_heap := (tm_heap tm)(a \<mapsto> t\<lparr>t_cb := None\<rparr>),
                      m_timers := filter (\<lambda>b. b \<noteq> a) (m_timers tm)\<rparr>))"
  using assms by (auto simp: cancel_def set_find_timer set_erase_timer tm_inv_def)

lemma cancel_inv:
  assumes "tm_inv tm" and "cancel a tm = Ok r tm'"
  shows "tm_inv tm'"
proof -
  obtain t where t: "tm_heap tm a = Some t" using assms(2) by (auto simp: cancel_def split: option.splits)
  with assms cancel_correct [OF assms(1) t] show ?thesis
    by (auto simp: tm_inv_def set_erase_sorted_upd split: if_splits)
qed

lemma rearm_inv:
  assumes "tm_inv tm" and "tm_heap tm a = Some t"
  shows "tm_inv (tm\<lparr>tm_heap := (tm_heap tm)(a \<mapsto> t'),
            m_timers := set_insert (timer_less ((tm_heap tm)(a \<mapsto> t'))) a (filter (\<lambda>b. b \<noteq> a) (m_timers tm))\<rparr>)"
  using assms set_erase_sorted_upd [of "tm_heap tm" "m_timers tm" a t']
  by (auto simp: tm_inv_def timer.set_insert_sorted)

lemma refresh_inv:
  assumes "tm_inv tm" and "refresh now a tm = Ok r tm'"
  shows "tm_inv tm'"
  using assms rearm_inv [OF assms(1)]
  by (auto simp: refresh_def Let_def set_erase_timer split: option.splits if_splits)

lemma reset_inv:
  assumes "tm_inv tm" and "reset now ms from_now a tm = Ok r tm'"
  shows "tm_inv tm'"
proof -
  obtain t where t: "tm_heap tm a = Some t" using assms(2) by (auto simp: reset_def split: option.splits)
  have "tm_inv (snd (addTimer_locked a (tm\<lparr>tm_heap := (tm_heap tm)(a \<mapsto> t'),
          m_timers := filter (\<lambda>b. b \<noteq> a) (m_timers tm)\<rparr>)))" for t'
    using assms(1) t by (intro addTimer_locked_inv) (auto simp: tm_inv_def set_erase_sorted_upd)
  from this [of "t\<lparr>t_ms := ms, t_next := (if from_now then now else t_next t - t_ms t) + ms\<rparr>"] assms t
  show ?thesis
    by (auto simp: reset_def Let_def set_erase_timer split: if_splits option.splits prod.splits)
qed

lemma getNextTimer_inv: "tm_inv tm \<Longrightarrow> tm_inv (snd (getNextTimer now tm))"
  by (auto simp: tm_inv_def getNextTimer_def Let_def split: list.splits)

subsection \<open>Expiry\<close>

text \<open>What firing does to a timer: a recurring one is re-armed, another loses its callback.\<close>

definition fired :: "u64 \<Rightarrow> 'cb timer \<Rightarrow> 'cb timer" where
  "fired now t = (if t_recurring t then t\<lparr>t_next := now + t_ms t\<rparr> else t\<lparr>t_cb := None\<rparr>)"

definition cb_of :: "'cb TimerManager \<Rightarrow> nat \<Rightarrow> 'cb option" where
  "cb_of tm a = (case tm_heap tm a of None \<Rightarrow> None | Some t \<Rightarrow> t_cb t)"

definition recurs :: "'cb TimerManager \<Rightarrow> nat \<Rightarrow> bool" where
  "recurs tm a = (case tm_heap tm a of None \<Rightarrow> False | Some t \<Rightarrow> t_recurring t)"

lemma fire_expired_correct:
  assumes "distinct as" and "set as \<subseteq> dom (tm_heap tm)" and "set as \<inter> set (m_timers tm) = {}"
    and "sorted_wrt (timer_less (tm_heap tm)) (m_timers tm)" and "fire_expired now as cbs tm = (cbs', tm')"
  shows "cbs' = cbs @ map (cb_of tm) as \<and>
    tm_heap tm' = (\<lambda>b. if b \<in> set as then map_option (fired now) (tm_heap tm b) else tm_heap tm b) \<and>
    set (m_timers tm') = set (m_timers tm) \<union> {a \<in> set as. recurs tm a} \<and>
    sorted_wrt (timer_less (tm_heap tm')) (m_timers tm') \<and>
    m_tickled tm' = m_tickled tm \<and> m_previousTime tm' = m_previousTime tm"
  using assms
proof (induction as arbitrary: cbs tm)
  case Nil
  then show ?case by simp
next
  case (Cons a as)
  from Cons.prems(2) obtain t where t: "tm_heap tm a = Some t" by auto
  define tm1 where "tm1 = (if t_recurring t
     then tm\<lparr>tm_heap := (tm_heap tm)(a \<mapsto> fired now t),
            m_timers := set_insert (timer_less ((tm_heap tm)(a \<mapsto> fired now t))) a (m_timers tm)\<rparr>
     else tm\<lparr>tm_heap := (tm_heap tm)(a \<mapsto> fired now t)\<rparr>)"
  have step: "fire_expired now (a # as) cbs tm = fire_expired now as (cbs @ [t_cb t]) tm1"
    using t by (simp add: tm1_def fired_def Let_def)
  have heap: "tm_heap tm1 = (tm_heap tm)(a \<mapsto> fired now t)" by (simp add: tm1_def)
  have ts: "set (m_timers tm1) = set (m_timers tm) \<union> (if t_recurring t then {a} else {})"
    by (simp add: tm1_def)
  have an: "a \<notin> set (m_timers tm)" "a \<notin> set as" using Cons.prems by auto
  have sorted: "sorted_wrt (timer_less (tm_heap tm1)) (m_timers tm1)"
    using sorted_insert_upd [OF Cons.prems(4) an(1)] sorted_upd_fresh [OF Cons.prems(4) an(1)]
    by (simp add: tm1_def)
  have "fire_expired now as (cbs @ [t_cb t]) tm1 = (cbs', tm')" using Cons.prems(5) step by simp
  moreover have "set as \<inter> set (m_timers tm1) = {}" using Cons.prems an ts by auto
  moreover have "set as \<subseteq> dom (tm_heap tm1)" using Cons.prems(2) heap by auto
  ultimately have IH: "cbs' = (cbs @ [t_cb t]) @ map (cb_of tm1) as \<and>
    tm_heap tm' = (\<lambda>b. if b \<in> set as then map_option (fired now) (tm_heap tm1 b) else tm_heap tm1 b) \<and>
    set (m_timers tm') = set (m_timers tm1) \<union> {a \<in> set as. recurs tm1 a} \<and>
    sorted_wrt (timer_less (tm_heap tm')) (m_timers tm') \<and>
    m_tickled tm' = m_tickled tm1 \<and> m_previousTime tm' = m_previousTime tm1"
    using Cons.prems(1) sorted by (intro Cons.IH) auto
  have same: "map (cb_of tm1) as = map (cb_of tm) as" "{b \<in> set as. recurs tm1 b} = {b \<in> set as. recurs tm b}"
    using an heap by (auto simp: cb_of_def recurs_def)
  have "tm_heap tm' = (\<lambda>b. if b \<in> set (a # as) then map_option (fired now) (tm_heap tm b) else tm_heap tm b)"
    using IH heap an t by (auto simp: fun_eq_iff)
  moreover have "set (m_timers tm') = set (m_timers tm) \<union> {b \<in> set (a # as). recurs tm b}"
    using IH ts same t by (auto simp: recurs_def)
  moreover have "cbs' = cbs @ map (cb_of tm) (a # as)" using IH same t by (simp add: cb_of_def)
  moreover have "m_tickled tm' = m_tickled tm" "m_previousTime tm' = m_previousTime tm"
    using IH by (simp_all add: tm1_def)
  ultimately show ?case using IH by blast
qed

lemma due_prefix:
  assumes "sorted_wrt (timer_less h) ts" and "\<forall>a\<in>set ts. now \<le> next_of h a"
  shows "takeWhile (\<lambda>a. next_of h a = now) ts = filter (\<lambda>a. next_of h a \<le> now) ts \<and>
    dropWhile (\<lambda>a. next_of h a = now) ts = filter (\<lambda>a. \<not> next_of h a \<le> now) ts"
  using assms
proof (induction ts)
  case (Cons a ts)
  show ?case
  proof (cases "next_of h a = now")
    case True
    with Cons show ?thesis by auto
  next
    case False
    then have "\<forall>b\<in>set (a # ts). now < next_of h b"
      using Cons.prems by (auto simp: timer_less_iff order.strict_iff_order)
    then have "\<forall>b\<in>set (a # ts). \<not> next_of h b \<le> now" by (simp add: not_le)
    then show ?thesis using False by (simp add: filter_empty_conv)
  qed
qed simp

lemma expired_split:
  fixes now :: u64
  assumes "sorted_wrt (timer_less h) ts"
    and "\<forall>a\<in>set ts. P a \<longleftrightarrow> next_of h a < now \<or> next_of h a = now \<and> a < na"
  shows "takeWhile P ts @ takeWhile (\<lambda>a. next_of h a = now) (dropWhile P ts) =
           filter (\<lambda>a. next_of h a \<le> now) ts \<and>
    dropWhile (\<lambda>a. next_of h a = now) (dropWhile P ts) = filter (\<lambda>a. \<not> next_of h a \<le> now) ts"
  using assms
proof (induction ts)
  case (Cons a ts)
  show ?case
  proof (cases "P a")
    case True
    then have "next_of h a \<le> now" using Cons.prems(2) by auto
    with True Cons show ?thesis by simp
  next
    case False
    then have "now \<le> next_of h a" using Cons.prems(2) by auto
    then have "\<forall>b\<in>set (a # ts). now \<le> next_of h b"
      using Cons.prems(1) by (auto simp: timer_less_iff)
    with False due_prefix [OF Cons.prems(1), of now] show ?thesis by simp
  qed
qed simp

text \<open>\<open>listExpiredCb\<close> without iterators: it fires, in order, the timers that are due (all of them after
  a clock rollback).\<close>

definition due :: "u64 \<Rightarrow> 'cb TimerManager \<Rightarrow> nat \<Rightarrow> bool" where
  "due now tm a \<longleftrightarrow> fst (detectClockRollover now tm) \<or> next_of (tm_heap tm) a \<le> now"

lemma listExpiredCb_eq:
  assumes inv: "tm_inv tm" and na: "tm_heap tm na = None" and ne: "m_timers tm \<noteq> []"
  shows "listExpiredCb now na cbs tm =
    fire_expired now (filter (due now tm) (m_timers tm)) cbs
      (tm\<lparr>m_previousTime := now, m_timers := filter (\<lambda>a. \<not> due now tm a) (m_timers tm)\<rparr>)"
proof -
  let ?h = "tm_heap tm" and ?ts = "m_timers tm"
  have srt: "sorted_wrt (timer_less ?h) ?ts" using inv by (simp add: tm_inv_def)
  have fresh: "na \<notin> set ?ts" using inv na by (auto simp: tm_inv_def)
  have P: "\<forall>a\<in>set ?ts. timer_less (?h(na \<mapsto> Timer_at now)) a na \<longleftrightarrow>
      next_of ?h a < now \<or> next_of ?h a = now \<and> a < na"
    using fresh by (auto simp: timer_less_iff Timer_at_def)
  note E = expired_split [OF srt P]
  obtain r where r: "detectClockRollover now tm = (r, tm\<lparr>m_previousTime := now\<rparr>)"
    by (simp add: detectClockRollover_def)
  have keep: "m_timers (tm\<lparr>m_previousTime := now\<rparr>) = ?ts" "tm_heap (tm\<lparr>m_previousTime := now\<rparr>) = ?h" by simp_all
  consider "r" | "\<not> r" "next_of ?h (hd ?ts) > now" | "\<not> r" "\<not> next_of ?h (hd ?ts) > now" by blast
  then show ?thesis
  proof cases
    case 1
    then have "due now tm = (\<lambda>_. True)" using r by (simp add: due_def fun_eq_iff)
    with 1 ne r show ?thesis by (simp add: listExpiredCb_def)
  next
    case 2
    then have late: "\<forall>a\<in>set ?ts. \<not> due now tm a"
      using srt ne r by (cases ?ts) (auto simp: due_def timer_less_iff not_le dest: order.strict_trans)
    have "filter (\<lambda>a. \<not> due now tm a) ?ts = ?ts" "filter (due now tm) ?ts = []"
      using late by (simp_all add: filter_empty_conv)
    with 2 ne r show ?thesis by (simp add: listExpiredCb_def)
  next
    case 3
    then have "due now tm = (\<lambda>a. next_of ?h a \<le> now)" using r by (simp add: due_def fun_eq_iff)
    with 3 ne r keep E show ?thesis
      unfolding listExpiredCb_def lower_bound_def by (simp only: Let_def prod.case if_False simp_thms)
  qed
qed

lemma listExpiredCb_correct:
  assumes inv: "tm_inv tm" and na: "tm_heap tm na = None" and run: "listExpiredCb now na cbs tm = (cbs', tm')"
  shows "cbs' = cbs @ map (cb_of tm) (filter (due now tm) (m_timers tm)) \<and>
    tm_heap tm' = (\<lambda>b. if b \<in> set (m_timers tm) \<and> due now tm b
                       then map_option (fired now) (tm_heap tm b) else tm_heap tm b) \<and>
    set (m_timers tm') = {a \<in> set (m_timers tm). \<not> due now tm a \<or> recurs tm a} \<and> tm_inv tm'"
proof (cases "m_timers tm = []")
  case True
  with run inv show ?thesis by (auto simp: listExpiredCb_def)
next
  case False
  let ?ts = "m_timers tm" and ?exp = "filter (due now tm) (m_timers tm)"
  let ?tm = "tm\<lparr>m_previousTime := now, m_timers := filter (\<lambda>a. \<not> due now tm a) ?ts\<rparr>"
  have I: "sorted_wrt (timer_less (tm_heap tm)) ?ts" "set ?ts \<subseteq> dom (tm_heap tm)"
    "\<forall>a t. tm_heap tm a = Some t \<longrightarrow> t_cb t \<noteq> None \<longrightarrow> a \<in> set ?ts" using inv by (auto simp: tm_inv_def)
  have F: "cbs' = cbs @ map (cb_of ?tm) ?exp \<and>
    tm_heap tm' = (\<lambda>b. if b \<in> set ?exp then map_option (fired now) (tm_heap ?tm b) else tm_heap ?tm b) \<and>
    set (m_timers tm') = set (m_timers ?tm) \<union> {a \<in> set ?exp. recurs ?tm a} \<and>
    sorted_wrt (timer_less (tm_heap tm')) (m_timers tm') \<and>
    m_tickled tm' = m_tickled ?tm \<and> m_previousTime tm' = m_previousTime ?tm"
  proof (rule fire_expired_correct)
    show "fire_expired now ?exp cbs ?tm = (cbs', tm')"
      using run listExpiredCb_eq [OF inv na False, of now cbs] by simp
    show "distinct ?exp" using sorted_timers_distinct [OF I(1)] by simp
    show "sorted_wrt (timer_less (tm_heap ?tm)) (m_timers ?tm)" using sorted_wrt_filter [OF I(1)] by simp
  qed (use I(2) in auto)
  have keep: "tm_heap ?tm = tm_heap tm" by simp
  have same: "cb_of ?tm = cb_of tm" "recurs ?tm = recurs tm" by (simp_all add: fun_eq_iff cb_of_def recurs_def)
  have cbs: "cbs' = cbs @ map (cb_of tm) ?exp" using F same by simp
  have heap: "tm_heap tm' = (\<lambda>b. if b \<in> set ?ts \<and> due now tm b
      then map_option (fired now) (tm_heap tm b) else tm_heap tm b)" using F unfolding keep by simp
  have ts: "set (m_timers tm') = {a \<in> set ?ts. \<not> due now tm a \<or> recurs tm a}" using F same by auto
  have "\<forall>a t. tm_heap tm' a = Some t \<longrightarrow> t_cb t \<noteq> None \<longrightarrow> a \<in> set (m_timers tm')"
  proof (intro allI impI)
    fix a t assume a: "tm_heap tm' a = Some t" "t_cb t \<noteq> None"
    show "a \<in> set (m_timers tm')"
    proof (cases "a \<in> set ?ts \<and> due now tm a")
      case True
      then obtain u where "tm_heap tm a = Some u" "t = fired now u" using a(1) unfolding heap by auto
      then show ?thesis using True a(2) unfolding ts by (auto simp: fired_def recurs_def split: if_splits)
    next
      case False
      then show ?thesis using a I(3) unfolding ts heap by auto
    qed
  qed
  moreover have "set (m_timers tm') \<subseteq> dom (tm_heap tm')" unfolding ts heap using I(2) by auto
  ultimately have "tm_inv tm'" using F unfolding tm_inv_def by blast
  with cbs heap ts show ?thesis by blast
qed

subsection \<open>Histories\<close>

text \<open>One operation on the manager, with the clock and the allocator free; a client passes only timers
  it got from \<open>addTimer\<close>.\<close>

inductive tm_step :: "'cb TimerManager \<Rightarrow> 'cb TimerManager \<Rightarrow> bool" where
  step_add: "tm_heap tm a = None \<Longrightarrow> tm_step tm (snd (addTimer now a ms cb recurring tm))"
| step_cancel: "cancel a tm = Ok r tm' \<Longrightarrow> tm_step tm tm'"
| step_refresh: "refresh now a tm = Ok r tm' \<Longrightarrow> tm_step tm tm'"
| step_reset: "reset now ms from_now a tm = Ok r tm' \<Longrightarrow> tm_step tm tm'"
| step_next: "tm_step tm (snd (getNextTimer now tm))"
| step_expire: "tm_heap tm na = None \<Longrightarrow> tm_step tm (snd (listExpiredCb now na [] tm))"

inductive tm_reachable :: "'cb TimerManager \<Rightarrow> bool" where
  tm_init: "tm_reachable (TimerManager_new now)"
| tm_next: "tm_reachable tm \<Longrightarrow> tm_step tm tm' \<Longrightarrow> tm_reachable tm'"

inductive_cases tm_stepE: "tm_step tm tm'"

lemma tm_step_inv: "tm_step tm tm' \<Longrightarrow> tm_inv tm \<Longrightarrow> tm_inv tm'"
proof (induction rule: tm_step.induct)
  case (step_expire tm na now)
  then show ?case using listExpiredCb_correct [OF step_expire(2,1), of now "[]"] by (metis prod.collapse)
qed (auto intro: addTimer_inv cancel_inv refresh_inv reset_inv getNextTimer_inv)

lemma tm_reachable_inv: "tm_reachable tm \<Longrightarrow> tm_inv tm"
  by (induction rule: tm_reachable.induct) (auto intro: TimerManager_new_inv tm_step_inv)

subsection \<open>Properties\<close>

text \<open>In every history of a manager the set stays in firing order and contains every timer that
  still has a callback, so \<open>cancel\<close> never erases \<open>end()\<close>: on a timer of the manager it returns,
  true exactly when the callback was armed, after which the timer is out of the set and a second
  \<open>cancel\<close> returns false.\<close>

theorem timer_cancel_safe:
  assumes "tm_reachable tm" and "tm_heap tm a = Some t"
  shows "\<exists>tm'. cancel a tm = Ok (t_cb t \<noteq> None) tm' \<and> tm_reachable tm' \<and>
     (t_cb t \<noteq> None \<longrightarrow> set (m_timers tm') = set (m_timers tm) - {a}) \<and> cancel a tm' = Ok False tm'"
proof -
  have inv: "tm_inv tm" using assms(1) by (rule tm_reachable_inv)
  let ?tm = "if t_cb t = None then tm else tm\<lparr>tm_heap := (tm_heap tm)(a \<mapsto> t\<lparr>t_cb := None\<rparr>),
               m_timers := filter (\<lambda>b. b \<noteq> a) (m_timers tm)\<rparr>"
  have eq: "cancel a tm = Ok (t_cb t \<noteq> None) ?tm" using cancel_correct [OF inv assms(2)] by simp
  have inv': "tm_inv ?tm" by (rule cancel_inv [OF inv eq])
  have "tm_reachable ?tm" using assms(1) step_cancel [OF eq] by (rule tm_next)
  moreover have "cancel a ?tm = Ok False ?tm"
    using cancel_correct [OF inv', of a "t\<lparr>t_cb := None\<rparr>"] cancel_correct [OF inv' ] assms(2)
    by (cases "t_cb t") auto
  ultimately show ?thesis using eq by auto
qed

theorem timer_cancel_safe_witness:
  "\<exists>tm tm'. tm = snd (addTimer 100 7 50 (Some ''cb'') False (TimerManager_new 100)) \<and>
     m_timers tm = [7] \<and> cancel 7 tm = Ok True tm' \<and> m_timers tm' = []"
proof -
  let ?tm = "snd (addTimer 100 7 50 (Some ''cb'') False (TimerManager_new 100))"
  have r: "tm_reachable ?tm" by (rule tm_next [OF tm_init step_add]) (simp add: TimerManager_new_def)
  have h: "tm_heap ?tm 7 = Some (Timer_new 100 50 (Some ''cb'') False)" "m_timers ?tm = [7]"
    by (simp_all add: addTimer_def addTimer_locked_def TimerManager_new_def Let_def)
  from timer_cancel_safe [OF r h(1)] obtain tm' where
    "cancel 7 ?tm = Ok True tm'" "set (m_timers tm') = {7} - {7}" by (auto simp: Timer_new_def h(2))
  with h(2) show ?thesis by auto
qed

text \<open>C5. \<open>listExpiredCb\<close> delivers exactly the callbacks of the timers that are due, in firing order
  (after a clock rollback of an hour: all of them), re-arms the recurring ones one period from now,
  disarms the others, and leaves every timer that is not due untouched; what \<open>lower_bound\<close> and the
  address of the temporary timer do in between does not matter.\<close>

theorem timer_expiry_exact:
  assumes "tm_reachable tm" and "tm_heap tm na = None" and "listExpiredCb now na cbs tm = (cbs', tm')"
  shows "cbs' = cbs @ map (cb_of tm) (filter (due now tm) (m_timers tm)) \<and>
    sorted_wrt (timer_less (tm_heap tm)) (m_timers tm) \<and>
    tm_heap tm' = (\<lambda>b. if b \<in> set (m_timers tm) \<and> due now tm b
                       then map_option (fired now) (tm_heap tm b) else tm_heap tm b) \<and>
    set (m_timers tm') = {a \<in> set (m_timers tm). \<not> due now tm a \<or> recurs tm a} \<and>
    tm_inv tm'"
proof -
  have "tm_inv tm" using assms(1) by (rule tm_reachable_inv)
  then have "sorted_wrt (timer_less (tm_heap tm)) (m_timers tm)" by (simp add: tm_inv_def)
  with listExpiredCb_correct [OF \<open>tm_inv tm\<close> assms(2,3)] show ?thesis by blast
qed

theorem timer_expiry_exact_witness:
  "\<exists>tm'. listExpiredCb 150 9 [] (snd (addTimer 100 7 50 (Some ''cb'') True (TimerManager_new 100))) =
     ([Some ''cb''], tm') \<and> m_timers tm' = [7]"
proof -
  let ?tm = "snd (addTimer 100 7 50 (Some ''cb'') True (TimerManager_new 100))"
  have r: "tm_reachable ?tm" by (rule tm_next [OF tm_init step_add]) (simp add: TimerManager_new_def)
  have h: "tm_heap ?tm 7 = Some (Timer_new 100 50 (Some ''cb'') True)" "m_timers ?tm = [7]"
    "tm_heap ?tm 9 = None" "due 150 ?tm 7" "recurs ?tm 7" "cb_of ?tm 7 = Some ''cb''"
    by (simp_all add: addTimer_def addTimer_locked_def TimerManager_new_def Let_def due_def recurs_def
        cb_of_def Timer_new_def)
  obtain cbs' tm' where e: "listExpiredCb 150 9 [] ?tm = (cbs', tm')" by fastforce
  note X = timer_expiry_exact [OF r h(3) e]
  then have "set (m_timers tm') = {a \<in> set (m_timers ?tm). \<not> due 150 ?tm a \<or> recurs ?tm a}" and "tm_inv tm'"
    by blast+
  then have s7: "set (m_timers tm') = {7}" and "sorted_wrt (timer_less (tm_heap tm')) (m_timers tm')"
    using h(2,5) by (auto simp only: tm_inv_def list.set)
  then have "length (m_timers tm') = 1" "set (m_timers tm') = {7}"
    using distinct_card [OF sorted_timers_distinct, of "tm_heap tm'" "m_timers tm'"] by simp_all
  then have "m_timers tm' = [7]" by (auto simp: length_Suc_conv)
  moreover have "cbs' = [] @ map (cb_of ?tm) (filter (due 150 ?tm) (m_timers ?tm))" using X by blast
  then have "cbs' = [Some ''cb'']" using h by simp
  ultimately show ?thesis using e by blast
qed

text \<open>\<open>getNextTimer\<close> returns the time to the earliest timer: 0 when some timer is due, otherwise the
  smallest remaining time over all timers, and the all-ones value when there is none.\<close>

theorem timer_next_minimum:
  assumes "tm_reachable tm" and "getNextTimer now tm = (d, tm')"
  shows "if m_timers tm = [] then d = - 1
    else if (\<exists>a\<in>set (m_timers tm). next_of (tm_heap tm) a \<le> now) then d = 0
    else (\<exists>a\<in>set (m_timers tm). d = next_of (tm_heap tm) a - now) \<and>
         (\<forall>a\<in>set (m_timers tm). d \<le> next_of (tm_heap tm) a - now)"
proof (cases "m_timers tm")
  case Nil
  with assms(2) show ?thesis by (simp add: getNextTimer_def Let_def)
next
  case (Cons b ts)
  let ?n = "next_of (tm_heap tm)"
  have "sorted_wrt (timer_less (tm_heap tm)) (m_timers tm)"
    using tm_reachable_inv [OF assms(1)] by (simp add: tm_inv_def)
  then have min: "\<forall>a\<in>set (m_timers tm). ?n b \<le> ?n a" using Cons by (auto simp: timer_less_iff)
  show ?thesis
  proof (cases "?n b \<le> now")
    case True
    with assms(2) Cons show ?thesis by (auto simp: getNextTimer_def Let_def)
  next
    case False
    then have none: "\<not> (\<exists>a\<in>set (m_timers tm). ?n a \<le> now)" using min by (meson order.trans)
    have d: "d = ?n b - now" using assms(2) Cons False by (simp add: getNextTimer_def Let_def)
    have "d \<le> ?n a - now" if "a \<in> set (m_timers tm)" for a
      using that min False unfolding d word_le_nat_alt by (subst (1 2) unat_sub) (auto simp: not_le word_le_nat_alt)
    with none d Cons show ?thesis by auto
  qed
qed

theorem timer_next_minimum_witness:
  "fst (getNextTimer 120 (snd (addTimer 100 7 50 (Some ''cb'') True (TimerManager_new 100)))) = 30"
proof -
  let ?tm = "snd (addTimer 100 7 50 (Some ''cb'') True (TimerManager_new 100))"
  have r: "tm_reachable ?tm" by (rule tm_next [OF tm_init step_add]) (simp add: TimerManager_new_def)
  have h: "m_timers ?tm = [7]" "next_of (tm_heap ?tm) 7 = 150"
    by (simp_all add: addTimer_def addTimer_locked_def TimerManager_new_def Let_def Timer_new_def)
  obtain d tm' where e: "getNextTimer 120 ?tm = (d, tm')" by fastforce
  from timer_next_minimum [OF r e] h have "d = 30" by simp
  with e show ?thesis by simp
qed

end
