(* ===== verification/IOManager.thy ===== *)
theory IOManager
  imports Scheduler Timer
begin

text \<open>
  \<open>src/iomanager.cc\<close>, \<open>include/sylar/iomanager.hh\<close>: registering fibers and callbacks for descriptor events and
  waking them when \<open>epoll\<close> reports the events.

  \<open>io_ctxs\<close> is \<open>m_fdContexts\<close>. \<open>io_interest\<close> is the kernel's interest list of \<open>m_epfd\<close>: \<open>epoll_ctl\<close> changes it as
  \<open>epoll_ctl(2)\<close> documents, and the argument \<open>fail\<close> lets any call fail. \<open>io_sched\<close> collects the tasks handed to
  the schedulers by \<open>triggerEvent\<close>, \<open>io_pipe\<close> counts the bytes in the tickle pipe. The thread's current
  scheduler and fiber, and the fiber's state, are arguments of \<open>addEvent\<close>.
\<close>

unbundle bit_operations_syntax

subsection \<open>State\<close>

definition NONE :: u32 where "NONE = 0x000"
definition READ :: u32 where "READ = 0x001"
definition WRITE :: u32 where "WRITE = 0x004"
definition EPOLLERR :: u32 where "EPOLLERR = 0x008"
definition EPOLLHUP :: u32 where "EPOLLHUP = 0x010"
definition EPOLLET :: u32 where "EPOLLET = 0x80000000"

record 'c EventContext =
  ec_scheduler :: "nat option"
  ec_fiber :: "nat option"
  ec_cb :: "'c option"

record 'c FdContext =
  fc_read :: "'c EventContext"
  fc_write :: "'c EventContext"
  fc_fd :: int
  fc_events :: u32

record 'c iom =
  io_ctxs :: "'c FdContext list"
  io_pending :: nat
  io_interest :: "int \<rightharpoonup> u32"
  io_sched :: "(nat \<times> 'c task) list"
  io_pipe :: nat

definition EventContext_empty :: "'c EventContext" where
  "EventContext_empty = \<lparr>ec_scheduler = None, ec_fiber = None, ec_cb = None\<rparr>"

definition FdContext_new :: "int \<Rightarrow> 'c FdContext" where
  "FdContext_new fd = \<lparr>fc_read = EventContext_empty, fc_write = EventContext_empty, fc_fd = fd, fc_events = NONE\<rparr>"

text \<open>\<open>epoll_ctl(2)\<close>.\<close>

datatype epoll_op = EPOLL_CTL_ADD | EPOLL_CTL_MOD | EPOLL_CTL_DEL

definition epoll_ctl :: "bool \<Rightarrow> epoll_op \<Rightarrow> int \<Rightarrow> u32 \<Rightarrow> (int \<rightharpoonup> u32) \<Rightarrow> int \<times> (int \<rightharpoonup> u32)" where
  "epoll_ctl fail op fd ev k =
     (if fail then (-1, k)
      else case (op, k fd) of
        (EPOLL_CTL_ADD, None) \<Rightarrow> (0, k(fd \<mapsto> ev))
      | (EPOLL_CTL_MOD, Some _) \<Rightarrow> (0, k(fd \<mapsto> ev))
      | (EPOLL_CTL_DEL, Some _) \<Rightarrow> (0, k(fd := None))
      | _ \<Rightarrow> (-1, k))"

subsection \<open>Event contexts\<close>

definition getContext :: "u32 \<Rightarrow> 'c FdContext \<Rightarrow> fault + 'c EventContext" where
  "getContext event c =
     (if event = READ then Inr (fc_read c) else if event = WRITE then Inr (fc_write c)
      else Inl (AssertFail ''getContext invalid event''))"

definition setContext :: "u32 \<Rightarrow> 'c EventContext \<Rightarrow> 'c FdContext \<Rightarrow> 'c FdContext" where
  "setContext event e c = (if event = READ then c\<lparr>fc_read := e\<rparr> else c\<lparr>fc_write := e\<rparr>)"

definition resetContext :: "'c EventContext \<Rightarrow> 'c EventContext" where
  "resetContext e = e\<lparr>ec_scheduler := None, ec_fiber := None, ec_cb := None\<rparr>"

text \<open>\<open>triggerEvent\<close>: the new context and the task given to the scheduler (\<open>schedule(&ctx.cb)\<close> and
  \<open>schedule(&ctx.fiber)\<close> move the pointer out of the context).\<close>

definition triggerEvent :: "u32 \<Rightarrow> 'c FdContext \<Rightarrow> fault + 'c FdContext \<times> nat \<times> 'c task" where
  "triggerEvent event c =
     (if fc_events c AND event = 0 then Inl (AssertFail ''events & event'')
      else let c = c\<lparr>fc_events := fc_events c AND NOT event\<rparr> in
        case getContext event c of
          Inl x \<Rightarrow> Inl x
        | Inr e \<Rightarrow>
            (case ec_scheduler e of
               None \<Rightarrow> Inl NullDeref
             | Some s \<Rightarrow>
                 if ec_cb e \<noteq> None then
                   Inr (setContext event (e\<lparr>ec_cb := None, ec_scheduler := None\<rparr>) c, s,
                        \<lparr>tk_thread = -1, tk_fiber = None, tk_cb = ec_cb e\<rparr>)
                 else
                   Inr (setContext event (e\<lparr>ec_fiber := None, ec_scheduler := None\<rparr>) c, s,
                        \<lparr>tk_thread = -1, tk_fiber = ec_fiber e, tk_cb = None\<rparr>)))"

definition set_ctx :: "int \<Rightarrow> 'c FdContext \<Rightarrow> 'c iom \<Rightarrow> 'c iom" where
  "set_ctx fd c io = io\<lparr>io_ctxs := (io_ctxs io)[nat fd := c]\<rparr>"

text \<open>\<open>triggerEvent\<close> on the context of \<open>fd\<close>, followed by \<open>--m_pendingEventCount\<close>.\<close>

definition trigger_and_count :: "u32 \<Rightarrow> int \<Rightarrow> 'c iom \<Rightarrow> (unit, 'c iom) outcome" where
  "trigger_and_count event fd io =
     (case triggerEvent event (io_ctxs io ! nat fd) of
        Inl x \<Rightarrow> Crash x
      | Inr (c, s, t) \<Rightarrow>
          Ok () ((set_ctx fd c io)\<lparr>io_sched := io_sched io @ [(s, t)], io_pending := io_pending io - 1\<rparr>))"

subsection \<open>Operations\<close>

definition contextResize :: "nat \<Rightarrow> 'c iom \<Rightarrow> 'c iom" where
  "contextResize n io =
     io\<lparr>io_ctxs := take n (io_ctxs io) @ map (\<lambda>i. FdContext_new (int i)) [length (io_ctxs io)..<n]\<rparr>"

definition IOManager_new :: "'c iom" where
  "IOManager_new = contextResize 32
     \<lparr>io_ctxs = [], io_pending = 0, io_interest = Map.empty, io_sched = [], io_pipe = 0\<rparr>"

definition addEvent :: "bool \<Rightarrow> nat option \<Rightarrow> nat \<Rightarrow> fstate \<Rightarrow> int \<Rightarrow> u32 \<Rightarrow> 'c option \<Rightarrow> 'c iom \<Rightarrow> (int, 'c iom) outcome" where
  "addEvent fail cur_sched cur_fiber cur_state fd event cb io =
     (let io = (if int (length (io_ctxs io)) > fd then io else contextResize (nat (fd * 3 div 2)) io) in
      if fd < 0 \<or> int (length (io_ctxs io)) \<le> fd then Crash OutOfBounds
      else let c = io_ctxs io ! nat fd in
        if fc_events c AND event \<noteq> 0 then Crash (AssertFail ''!(fd_ctx->events & event)'')
        else
          let op = (if fc_events c \<noteq> 0 then EPOLL_CTL_MOD else EPOLL_CTL_ADD);
              (rt, k) = epoll_ctl fail op fd (EPOLLET OR fc_events c OR event) (io_interest io)
          in if rt \<noteq> 0 then Ok (-1) io
             else
               let io = io\<lparr>io_interest := k, io_pending := io_pending io + 1\<rparr>;
                   c = c\<lparr>fc_events := fc_events c OR event\<rparr>
               in case getContext event c of
                    Inl x \<Rightarrow> Crash x
                  | Inr e \<Rightarrow>
                      if ec_scheduler e \<noteq> None \<or> ec_fiber e \<noteq> None \<or> ec_cb e \<noteq> None
                      then Crash (AssertFail ''!event_ctx.scheduler && !event_ctx.fiber && !event_ctx.cb'')
                      else let e = e\<lparr>ec_scheduler := cur_sched\<rparr> in
                        if cb \<noteq> None then Ok 0 (set_ctx fd (setContext event (e\<lparr>ec_cb := cb\<rparr>) c) io)
                        else if cur_state \<noteq> F_EXEC then Crash (AssertFail ''state'')
                        else Ok 0 (set_ctx fd (setContext event (e\<lparr>ec_fiber := Some cur_fiber\<rparr>) c) io))"

definition delEvent :: "bool \<Rightarrow> int \<Rightarrow> u32 \<Rightarrow> 'c iom \<Rightarrow> (bool, 'c iom) outcome" where
  "delEvent fail fd event io =
     (if int (length (io_ctxs io)) \<le> fd then Ok False io
      else if fd < 0 then Crash OutOfBounds
      else let c = io_ctxs io ! nat fd in
        if fc_events c AND event = 0 then Ok False io
        else
          let new_events = fc_events c AND NOT event;
              op = (if new_events \<noteq> 0 then EPOLL_CTL_MOD else EPOLL_CTL_DEL);
              (rt, k) = epoll_ctl fail op fd (EPOLLET OR new_events) (io_interest io)
          in if rt \<noteq> 0 then Ok False io
             else
               let io = io\<lparr>io_interest := k, io_pending := io_pending io - 1\<rparr>;
                   c = c\<lparr>fc_events := new_events\<rparr>
               in case getContext event c of
                    Inl x \<Rightarrow> Crash x
                  | Inr e \<Rightarrow> Ok True (set_ctx fd (setContext event (resetContext e) c) io))"

definition cancelEvent :: "bool \<Rightarrow> int \<Rightarrow> u32 \<Rightarrow> 'c iom \<Rightarrow> (bool, 'c iom) outcome" where
  "cancelEvent fail fd event io =
     (if int (length (io_ctxs io)) \<le> fd then Ok False io
      else if fd < 0 then Crash OutOfBounds
      else let c = io_ctxs io ! nat fd in
        if fc_events c AND event = 0 then Ok False io
        else
          let new_events = fc_events c AND NOT event;
              op = (if new_events \<noteq> 0 then EPOLL_CTL_MOD else EPOLL_CTL_DEL);
              (rt, k) = epoll_ctl fail op fd (EPOLLET OR new_events) (io_interest io)
          in if rt \<noteq> 0 then Ok False io
             else andThen (trigger_and_count event fd) (\<lambda>_. ret True) (io\<lparr>io_interest := k\<rparr>))"

definition trigger_if :: "u32 \<Rightarrow> u32 \<Rightarrow> int \<Rightarrow> 'c iom \<Rightarrow> (unit, 'c iom) outcome" where
  "trigger_if event evs fd io = (if evs AND event \<noteq> 0 then trigger_and_count event fd io else Ok () io)"

definition cancelAll :: "bool \<Rightarrow> int \<Rightarrow> 'c iom \<Rightarrow> (bool, 'c iom) outcome" where
  "cancelAll fail fd io =
     (if int (length (io_ctxs io)) \<le> fd then Ok False io
      else if fd < 0 then Crash OutOfBounds
      else if fc_events (io_ctxs io ! nat fd) = 0 then Ok False io
      else
        let (rt, k) = epoll_ctl fail EPOLL_CTL_DEL fd 0 (io_interest io) in
        if rt \<noteq> 0 then Ok False io
        else andThen (\<lambda>io. trigger_if READ (fc_events (io_ctxs io ! nat fd)) fd io)
               (\<lambda>_. andThen (\<lambda>io. trigger_if WRITE (fc_events (io_ctxs io ! nat fd)) fd io)
                 (\<lambda>_ io. if fc_events (io_ctxs io ! nat fd) \<noteq> 0 then Crash (AssertFail ''fd_ctx->events == 0'')
                         else Ok True io)) (io\<lparr>io_interest := k\<rparr>))"

text \<open>\<open>tickle()\<close>: \<open>write_ok\<close> says whether \<open>write(m_tickleFds[1], "T", 1)\<close> returned 1.\<close>

definition io_tickle :: "bool \<Rightarrow> bool \<Rightarrow> 'c iom \<Rightarrow> (unit, 'c iom) outcome" where
  "io_tickle has_idle write_ok io =
     (if \<not> has_idle then Ok () io
      else if \<not> write_ok then Crash (AssertFail ''rt == 1'')
      else Ok () (io\<lparr>io_pipe := io_pipe io + 1\<rparr>))"

definition io_stopping :: "u64 \<Rightarrow> 'cb TimerManager \<Rightarrow> 'c iom \<Rightarrow> 'c sched \<Rightarrow> bool \<times> u64 \<times> 'cb TimerManager" where
  "io_stopping now tm io sc =
     (let (timeout, tm') = getNextTimer now tm
      in (timeout = - 1 \<and> io_pending io = 0 \<and> stopping sc, timeout, tm'))"

text \<open>The timeout \<open>idle()\<close> passes to \<open>epoll_wait\<close>: \<open>static_cast<int>\<close> of a 64-bit value keeps the low 32 bits.\<close>

definition MAX_TIMEOUT :: int where "MAX_TIMEOUT = 3000"

definition wait_timeout :: "u64 \<Rightarrow> int" where
  "wait_timeout next_timeout =
     (let nt = (if next_timeout \<noteq> - 1
                then (if sint (ucast next_timeout :: u32) > MAX_TIMEOUT then of_int MAX_TIMEOUT else next_timeout)
                else of_int MAX_TIMEOUT)
      in sint (ucast nt :: u32))"

text \<open>The body of the loop over the events \<open>epoll_wait\<close> returned, for an event on a descriptor of a context.\<close>

definition real_events :: "u32 \<Rightarrow> u32" where
  "real_events ev =
     (let ev = (if ev AND (EPOLLERR OR EPOLLHUP) \<noteq> 0 then ev OR READ OR WRITE else ev)
      in (if ev AND READ \<noteq> 0 then READ else 0) OR (if ev AND WRITE \<noteq> 0 then WRITE else 0))"

definition handle_event :: "bool \<Rightarrow> int \<Rightarrow> u32 \<Rightarrow> 'c iom \<Rightarrow> (unit, 'c iom) outcome" where
  "handle_event fail fd ev io =
     (let c = io_ctxs io ! nat fd; re = real_events ev in
      if fc_events c AND re = NONE then Ok () io
      else
        let left_events = fc_events c AND NOT re;
            op = (if left_events \<noteq> 0 then EPOLL_CTL_MOD else EPOLL_CTL_DEL);
            (rt2, k) = epoll_ctl fail op (fc_fd c) (EPOLLET OR left_events) (io_interest io)
        in if rt2 \<noteq> 0 then Ok () io
           else andThen (trigger_if READ re fd) (\<lambda>_. trigger_if WRITE re fd) (io\<lparr>io_interest := k\<rparr>))"

text \<open>One event of the array: a tickle drains the pipe.\<close>

datatype epoll_event = TickleEvent | FdEvent int u32

fun handle_epoll :: "bool \<Rightarrow> epoll_event \<Rightarrow> 'c iom \<Rightarrow> (unit, 'c iom) outcome" where
  "handle_epoll fail TickleEvent io = Ok () (io\<lparr>io_pipe := 0\<rparr>)"
| "handle_epoll fail (FdEvent fd ev) io = handle_event fail fd ev io"

fun handle_all :: "(bool \<times> epoll_event) list \<Rightarrow> 'c iom \<Rightarrow> (unit, 'c iom) outcome" where
  "handle_all [] io = Ok () io"
| "handle_all ((fail, e) # es) io = andThen (handle_epoll fail e) (\<lambda>_. handle_all es) io"

text \<open>One round of \<open>idle()\<close>: the stop test, the expired timers, the reported events; \<open>True\<close> means leave the
  loop. \<open>now1\<close>, \<open>now2\<close> are the two readings of the clock.\<close>

definition idle_round :: "u64 \<Rightarrow> u64 \<Rightarrow> nat \<Rightarrow> (bool \<times> epoll_event) list \<Rightarrow>
    'c TimerManager \<times> 'c iom \<times> 'c sched \<Rightarrow> (bool, 'c TimerManager \<times> 'c iom \<times> 'c sched) outcome" where
  "idle_round now1 now2 na es st =
     (case st of (tm, io, sc) \<Rightarrow>
        (case io_stopping now1 tm io sc of (stop, timeout, tm) \<Rightarrow>
           if stop then Ok True (tm, io, sc)
           else
             (case listExpiredCb now2 na [] tm of (cbs, tm) \<Rightarrow>
                let sc = (if cbs \<noteq> [] then schedule_range (map (\<lambda>cb. \<lparr>tk_thread = -1, tk_fiber = None, tk_cb = cb\<rparr>) cbs) sc
                          else sc)
                in case handle_all es io of
                     Ok _ io \<Rightarrow> Ok False (tm, io, sc)
                   | Throw e io \<Rightarrow> Throw e (tm, io, sc)
                   | Crash x \<Rightarrow> Crash x)))"

subsection \<open>Event masks\<close>

definition event_masks :: "u32 set" where
  "event_masks = {0, 1, 4, 5}"

lemmas ev_defs = NONE_def READ_def WRITE_def EPOLLERR_def EPOLLHUP_def EPOLLET_def event_masks_def

lemma mask_table [simp]:
  "(1::u32) AND 1 = 1" "(1::u32) AND 4 = 0" "(4::u32) AND 1 = 0" "(4::u32) AND 4 = 4" "(5::u32) AND 1 = 1" "(5::u32) AND 4 = 4"
  "(5::u32) AND 5 = 5" "(1::u32) AND 5 = 1" "(4::u32) AND 5 = 4"
  "(1::u32) AND NOT 1 = 0" "(1::u32) AND NOT 4 = 1" "(4::u32) AND NOT 1 = 4" "(4::u32) AND NOT 4 = 0"
  "(5::u32) AND NOT 1 = 4" "(5::u32) AND NOT 4 = 1" "(1::u32) AND NOT 5 = 0" "(4::u32) AND NOT 5 = 0" "(5::u32) AND NOT 5 = 0"
  "(1::u32) OR 4 = 5" "(4::u32) OR 1 = 5" "(1::u32) OR 1 = 1" "(4::u32) OR 4 = 4" "(5::u32) OR 1 = 5" "(5::u32) OR 4 = 5"
  by code_simp+

subsection \<open>Invariant\<close>

text \<open>A registered event has a scheduler and exactly one of fiber and callback to wake; an event that is not
  registered has an empty context. The kernel's interest list agrees with the contexts, and
  \<open>m_pendingEventCount\<close> counts the registered events.\<close>

definition armed :: "'c EventContext \<Rightarrow> bool" where
  "armed e \<longleftrightarrow> ec_scheduler e \<noteq> None \<and> (ec_cb e = None) = (ec_fiber e \<noteq> None)"

definition slot_ok :: "bool \<Rightarrow> 'c EventContext \<Rightarrow> bool" where
  "slot_ok on e \<longleftrightarrow> (if on then armed e else e = EventContext_empty)"

definition ctx_ok :: "int \<Rightarrow> 'c FdContext \<Rightarrow> bool" where
  "ctx_ok fd c \<longleftrightarrow> fc_events c \<in> event_masks \<and> fc_fd c = fd \<and>
     slot_ok (fc_events c AND READ \<noteq> 0) (fc_read c) \<and> slot_ok (fc_events c AND WRITE \<noteq> 0) (fc_write c)"

definition registered :: "u32 \<Rightarrow> nat" where
  "registered ev = (if ev AND READ \<noteq> 0 then 1 else 0) + (if ev AND WRITE \<noteq> 0 then 1 else 0)"

definition wanted :: "u32 \<Rightarrow> u32 option" where
  "wanted ev = (if ev = 0 then None else Some (EPOLLET OR ev))"

definition io_inv :: "'c iom \<Rightarrow> bool" where
  "io_inv io \<longleftrightarrow>
     32 \<le> length (io_ctxs io) \<and>
     (\<forall>i < length (io_ctxs io). ctx_ok (int i) (io_ctxs io ! i)) \<and>
     (\<forall>i < length (io_ctxs io). io_interest io (int i) = wanted (fc_events (io_ctxs io ! i))) \<and>
     (\<forall>fd. fd < 0 \<or> int (length (io_ctxs io)) \<le> fd \<longrightarrow> io_interest io fd = None) \<and>
     io_pending io = sum_list (map (registered \<circ> fc_events) (io_ctxs io))"

lemma io_invD:
  assumes "io_inv io" and "i < length (io_ctxs io)"
  shows "ctx_ok (int i) (io_ctxs io ! i)" "io_interest io (int i) = wanted (fc_events (io_ctxs io ! i))"
  using assms by (simp_all add: io_inv_def)

lemma sum_list_update_eq:
  "i < length xs \<Longrightarrow> sum_list (map f (xs[i := x])) + f (xs ! i) = sum_list (map f xs) + (f x :: nat)"
proof (induction xs arbitrary: i)
  case (Cons y ys)
  then show ?case by (cases i) auto
qed simp

lemma io_update:
  assumes "io_inv io" and i: "i < length (io_ctxs io)" and "ctx_ok (int i) c"
    and "io_ctxs io' = (io_ctxs io)[i := c]" and "io_interest io' = (io_interest io)(int i := wanted (fc_events c))"
    and "io_pending io' + registered (fc_events (io_ctxs io ! i)) = io_pending io + registered (fc_events c)"
  shows "io_inv io'"
proof -
  have len: "length (io_ctxs io') = length (io_ctxs io)" using assms(4) by simp
  have "io_pending io' = sum_list (map (registered \<circ> fc_events) (io_ctxs io'))"
    using assms(1,4,6) sum_list_update_eq [OF i, of "registered \<circ> fc_events" c] by (simp add: io_inv_def)
  moreover have "ctx_ok (int j) (io_ctxs io' ! j)" "io_interest io' (int j) = wanted (fc_events (io_ctxs io' ! j))"
    if "j < length (io_ctxs io')" for j
    using that assms io_invD [OF assms(1), of j] by (cases "j = i"; simp)+
  moreover have "io_interest io' fd = None" if "fd < 0 \<or> int (length (io_ctxs io')) \<le> fd" for fd
    using that assms(1,5) i len by (auto simp: io_inv_def)
  moreover have "32 \<le> length (io_ctxs io')" using assms(1) len by (simp add: io_inv_def)
  ultimately show ?thesis by (simp add: io_inv_def)
qed

lemma contextResize_inv:
  assumes "io_inv io" and "length (io_ctxs io) \<le> n"
  shows "io_inv (contextResize n io)" "length (io_ctxs (contextResize n io)) = n"
    "i < length (io_ctxs io) \<Longrightarrow> io_ctxs (contextResize n io) ! i = io_ctxs io ! i"
    "length (io_ctxs io) \<le> i \<Longrightarrow> i < n \<Longrightarrow> io_ctxs (contextResize n io) ! i = FdContext_new (int i)"
proof -
  let ?new = "map (\<lambda>i. FdContext_new (int i)) [length (io_ctxs io)..<n]"
  have ctxs: "io_ctxs (contextResize n io) = io_ctxs io @ ?new" using assms(2) by (simp add: contextResize_def)
  show len: "length (io_ctxs (contextResize n io)) = n" using assms(2) ctxs by simp
  show old: "i < length (io_ctxs io) \<Longrightarrow> io_ctxs (contextResize n io) ! i = io_ctxs io ! i" for i
    by (simp add: ctxs nth_append)
  show new: "length (io_ctxs io) \<le> i \<Longrightarrow> i < n \<Longrightarrow> io_ctxs (contextResize n io) ! i = FdContext_new (int i)" for i
    by (simp add: ctxs nth_append)
  have "sum_list (map (registered \<circ> fc_events) ?new) = 0"
    by (simp add: sum_list_eq_0_iff registered_def FdContext_new_def NONE_def)
  moreover have "ctx_ok (int i) (io_ctxs (contextResize n io) ! i) \<and>
      io_interest io (int i) = wanted (fc_events (io_ctxs (contextResize n io) ! i))" if "i < n" for i
  proof (cases "i < length (io_ctxs io)")
    case True
    then show ?thesis using old io_invD [OF assms(1)] by simp
  next
    case False
    then have "io_interest io (int i) = None" using assms(1) by (simp add: io_inv_def)
    then show ?thesis using False new [of i] that
      by (simp add: ctx_ok_def FdContext_new_def slot_ok_def wanted_def ev_defs)
  qed
  ultimately show "io_inv (contextResize n io)"
    using assms len unfolding io_inv_def by (auto simp: ctxs contextResize_def)
qed

lemma IOManager_new_inv: "io_inv IOManager_new"
proof -
  let ?new = "map (\<lambda>i. FdContext_new (int i)) [0..<32]"
  have c: "io_ctxs IOManager_new = ?new" "io_pending IOManager_new = 0" "io_interest IOManager_new = Map.empty"
    by (simp_all add: IOManager_new_def contextResize_def)
  have "sum_list (map (registered \<circ> fc_events) ?new) = 0"
    by (simp add: sum_list_eq_0_iff registered_def FdContext_new_def NONE_def)
  then show ?thesis unfolding io_inv_def c
    by (auto simp: ctx_ok_def FdContext_new_def slot_ok_def wanted_def ev_defs simp del: upt_Suc)
qed

subsection \<open>Behaviour of the operations\<close>

lemma mask_cases:
  assumes "ev \<in> event_masks"
  obtains "ev = 0" | "ev = 1" | "ev = 4" | "ev = 5"
  using assms by (auto simp: event_masks_def)

lemma epoll_ctl_wanted:
  assumes "k fd = wanted old" and "ok = (if fail then -1 else 0)"
  shows "old = 0 \<Longrightarrow> epoll_ctl fail EPOLL_CTL_ADD fd v k = (ok, if fail then k else k(fd \<mapsto> v))"
    "old \<noteq> 0 \<Longrightarrow> epoll_ctl fail EPOLL_CTL_MOD fd v k = (ok, if fail then k else k(fd \<mapsto> v))"
    "old \<noteq> 0 \<Longrightarrow> epoll_ctl fail EPOLL_CTL_DEL fd v k = (ok, if fail then k else k(fd := None))"
  using assms by (auto simp: epoll_ctl_def wanted_def)

lemma epoll_ctl_set:
  assumes "k fd = wanted old" and "old \<noteq> 0"
  shows "epoll_ctl fail (if new \<noteq> 0 then EPOLL_CTL_MOD else EPOLL_CTL_DEL) fd (EPOLLET OR new) k =
    (if fail then (-1, k) else (0, k(fd := wanted new)))"
  using assms by (auto simp: epoll_ctl_def wanted_def)

lemma armed_task:
  assumes "armed e"
  obtains s where "ec_scheduler e = Some s"
  using assms by (auto simp: armed_def)

text \<open>The task a registered event wakes.\<close>

definition waiter :: "'c EventContext \<Rightarrow> nat \<times> 'c task" where
  "waiter e = (the (ec_scheduler e), \<lparr>tk_thread = -1, tk_fiber = ec_fiber e, tk_cb = ec_cb e\<rparr>)"

lemma trigger_correct:
  assumes "ctx_ok fd c" and "event \<in> {READ, WRITE}" and "fc_events c AND event \<noteq> 0"
  shows "\<exists>c'. triggerEvent event c = Inr (c', waiter (if event = READ then fc_read c else fc_write c)) \<and>
     ctx_ok fd c' \<and> fc_events c' = fc_events c AND NOT event \<and>
     registered (fc_events c') + 1 = registered (fc_events c) \<and>
     (event = READ \<longrightarrow> fc_write c' = fc_write c) \<and> (event = WRITE \<longrightarrow> fc_read c' = fc_read c)"
proof -
  let ?e = "if event = READ then fc_read c else fc_write c"
  have rw: "READ \<noteq> WRITE" by (simp add: ev_defs)
  have a: "armed ?e" using assms by (auto simp: ctx_ok_def slot_ok_def)
  then obtain s where s: "ec_scheduler ?e = Some s" by (rule armed_task)
  let ?c = "setContext event EventContext_empty (c\<lparr>fc_events := fc_events c AND NOT event\<rparr>)"
  have "triggerEvent event c = Inr (?c, waiter ?e)"
    using assms(2,3) a s rw
    by (auto simp: triggerEvent_def Let_def getContext_def setContext_def waiter_def armed_def EventContext_empty_def)
  moreover have "ctx_ok fd ?c" "registered (fc_events ?c) + 1 = registered (fc_events c)"
  proof -
    have m: "fc_events c \<in> event_masks" using assms(1) by (simp add: ctx_ok_def)
    then show "ctx_ok fd ?c" "registered (fc_events ?c) + 1 = registered (fc_events c)"
      by (rule mask_cases; use assms in \<open>auto simp: ctx_ok_def slot_ok_def setContext_def registered_def ev_defs\<close>)+
  qed
  ultimately show ?thesis using rw assms(2) by (auto simp: setContext_def)
qed

definition waiter_of :: "u32 \<Rightarrow> 'c FdContext \<Rightarrow> nat \<times> 'c task" where
  "waiter_of event c = waiter (if event = READ then fc_read c else fc_write c)"

lemma trigger_and_count_correct:
  assumes "ctx_ok (int i) (io_ctxs io ! i)" and "event \<in> {READ, WRITE}" and "fc_events (io_ctxs io ! i) AND event \<noteq> 0"
  shows "\<exists>c'. trigger_and_count event (int i) io = Ok () (io\<lparr>io_ctxs := (io_ctxs io)[i := c'],
       io_sched := io_sched io @ [waiter_of event (io_ctxs io ! i)], io_pending := io_pending io - 1\<rparr>) \<and>
     ctx_ok (int i) c' \<and> fc_events c' = fc_events (io_ctxs io ! i) AND NOT event \<and>
     registered (fc_events c') + 1 = registered (fc_events (io_ctxs io ! i)) \<and>
     (event = READ \<longrightarrow> fc_write c' = fc_write (io_ctxs io ! i))"
  using trigger_correct [OF assms] by (auto simp: trigger_and_count_def set_ctx_def waiter_of_def split: prod.splits)

lemma registered_le_pending:
  assumes "io_inv io" and "i < length (io_ctxs io)"
  shows "registered (fc_events (io_ctxs io ! i)) \<le> io_pending io"
proof -
  have "registered (fc_events (io_ctxs io ! i)) \<in> set (map (registered \<circ> fc_events) (io_ctxs io))"
    using nth_mem [of i "map (registered \<circ> fc_events) (io_ctxs io)"] assms(2) by simp
  then have "registered (fc_events (io_ctxs io ! i)) \<le> sum_list (map (registered \<circ> fc_events) (io_ctxs io))"
    by (rule member_le_sum_list) simp
  then show ?thesis using assms(1) by (simp add: io_inv_def)
qed

lemma registered_pos: "event \<in> {READ, WRITE} \<Longrightarrow> ev AND event \<noteq> 0 \<Longrightarrow> 0 < registered ev"
  by (auto simp: registered_def)

lemma cancelEvent_correct:
  assumes inv: "io_inv io" and i: "i < length (io_ctxs io)" and ev: "event \<in> {READ, WRITE}"
  shows "\<exists>io'. cancelEvent fail (int i) event io = Ok (\<not> fail \<and> fc_events (io_ctxs io ! i) AND event \<noteq> 0) io' \<and> io_inv io' \<and>
    (if \<not> fail \<and> fc_events (io_ctxs io ! i) AND event \<noteq> 0
     then io_sched io' = io_sched io @ [waiter_of event (io_ctxs io ! i)] \<and>
       fc_events (io_ctxs io' ! i) = fc_events (io_ctxs io ! i) AND NOT event \<and> io_pending io' + 1 = io_pending io
     else io' = io)"
proof -
  let ?c = "io_ctxs io ! i"
  note D = io_invD [OF inv i]
  show ?thesis
  proof (cases "fc_events ?c AND event = 0")
    case True
    then show ?thesis using i inv by (auto simp: cancelEvent_def Let_def)
  next
    case False
    then have nz: "fc_events ?c \<noteq> 0" by auto
    let ?new = "fc_events ?c AND NOT event"
    note K = epoll_ctl_set [where k = "io_interest io" and fd = "int i" and new = ?new and fail = fail, OF D(2) nz]
    show ?thesis
    proof (cases fail)
      case True
      then show ?thesis using i inv K False by (auto simp: cancelEvent_def Let_def)
    next
      case nofail: False
      let ?io = "io\<lparr>io_interest := (io_interest io)(int i := wanted ?new)\<rparr>"
      obtain c' where c': "trigger_and_count event (int i) ?io = Ok () (?io\<lparr>io_ctxs := (io_ctxs io)[i := c'],
          io_sched := io_sched io @ [waiter_of event ?c], io_pending := io_pending io - 1\<rparr>)"
        "ctx_ok (int i) c'" "fc_events c' = ?new" "registered (fc_events c') + 1 = registered (fc_events ?c)"
        using trigger_and_count_correct [of i ?io event] D(1) ev False by auto
      let ?io' = "?io\<lparr>io_ctxs := (io_ctxs io)[i := c'], io_sched := io_sched io @ [waiter_of event ?c], io_pending := io_pending io - 1\<rparr>"
      have pos: "0 < io_pending io"
        using registered_le_pending [OF inv i] registered_pos [OF ev False] by simp
      have "io_inv ?io'" by (rule io_update [OF inv i c'(2)]) (use c' pos in auto)
      moreover have "cancelEvent fail (int i) event io = Ok True ?io'"
        using i False nofail K c'(1) by (simp add: cancelEvent_def Let_def)
      ultimately show ?thesis using False nofail c'(3) i pos by auto
    qed
  qed
qed

lemma resetContext_empty: "resetContext e = EventContext_empty"
  by (cases e) (simp add: resetContext_def EventContext_empty_def)

lemma delEvent_correct:
  assumes inv: "io_inv io" and i: "i < length (io_ctxs io)" and ev: "event \<in> {READ, WRITE}"
  shows "\<exists>io'. delEvent fail (int i) event io = Ok (\<not> fail \<and> fc_events (io_ctxs io ! i) AND event \<noteq> 0) io' \<and> io_inv io' \<and>
    io_sched io' = io_sched io \<and>
    (if \<not> fail \<and> fc_events (io_ctxs io ! i) AND event \<noteq> 0
     then fc_events (io_ctxs io' ! i) = fc_events (io_ctxs io ! i) AND NOT event else io' = io)"
proof -
  let ?c = "io_ctxs io ! i" and ?new = "fc_events (io_ctxs io ! i) AND NOT event"
  note D = io_invD [OF inv i]
  show ?thesis
  proof (cases "fc_events ?c AND event = 0 \<or> fail")
    case True
    have "fc_events ?c AND event \<noteq> 0 \<Longrightarrow> fc_events ?c \<noteq> 0" by auto
    then show ?thesis using True i inv epoll_ctl_set [where k = "io_interest io" and fd = "int i" and new = ?new and fail = fail, OF D(2)]
      by (auto simp: delEvent_def Let_def)
  next
    case False
    then have nz: "fc_events ?c \<noteq> 0" by auto
    let ?cc = "setContext event EventContext_empty (?c\<lparr>fc_events := ?new\<rparr>)"
    let ?io' = "io\<lparr>io_interest := (io_interest io)(int i := wanted ?new), io_pending := io_pending io - 1,
                   io_ctxs := (io_ctxs io)[i := ?cc]\<rparr>"
    have rw: "READ \<noteq> WRITE" by (simp add: ev_defs)
    have "delEvent fail (int i) event io = Ok True ?io'"
      using i ev False epoll_ctl_set [where k = "io_interest io" and fd = "int i" and new = ?new and fail = fail, OF D(2) nz] rw
      by (auto simp: delEvent_def Let_def getContext_def set_ctx_def setContext_def resetContext_empty)
    moreover have ok: "ctx_ok (int i) ?cc \<and> registered (fc_events ?cc) + 1 = registered (fc_events ?c)"
    proof -
      have m: "fc_events ?c \<in> event_masks" using D(1) by (simp add: ctx_ok_def)
      then show ?thesis
        by (rule mask_cases; use D(1) ev False in \<open>auto simp: ctx_ok_def slot_ok_def setContext_def registered_def ev_defs\<close>)
    qed
    moreover have pos: "0 < io_pending io"
      using registered_le_pending [OF inv i] registered_pos [OF ev] False by force
    have "io_inv ?io'" by (rule io_update [OF inv i, of ?cc]) (use ok pos in \<open>auto simp: setContext_def\<close>)
    ultimately show ?thesis using False i by (auto simp: setContext_def)
  qed
qed

lemma addEvent_correct:
  assumes inv: "io_inv io" and fd: "0 \<le> fd" and ev: "event \<in> {READ, WRITE}" and cb: "cb \<noteq> None \<or> st = F_EXEC"
    and free: "\<forall>i < length (io_ctxs io). int i = fd \<longrightarrow> fc_events (io_ctxs io ! i) AND event = 0"
  shows "\<exists>io'. addEvent fail (Some s) f st fd event cb io = Ok (if fail then -1 else 0) io' \<and> io_inv io' \<and>
    io_sched io' = io_sched io \<and> nat fd < length (io_ctxs io') \<and>
    (\<not> fail \<longrightarrow> fc_events (io_ctxs io' ! nat fd) AND event \<noteq> 0 \<and>
       waiter_of event (io_ctxs io' ! nat fd) =
         (s, \<lparr>tk_thread = -1, tk_fiber = (if cb = None then Some f else None), tk_cb = cb\<rparr>))"
proof -
  define io1 where "io1 = (if int (length (io_ctxs io)) > fd then io else contextResize (nat (fd * 3 div 2)) io)"
  define i where "i = nat fd"
  have fdi: "fd = int i" using fd by (simp add: i_def)
  have big: "32 \<le> length (io_ctxs io)" using inv by (simp add: io_inv_def)
  have grow: "length (io_ctxs io) \<le> nat (fd * 3 div 2) \<and> i < nat (fd * 3 div 2)" if "\<not> int (length (io_ctxs io)) > fd"
    using that big fdi by linarith
  have inv1: "io_inv io1" and i: "i < length (io_ctxs io1)" and free1: "fc_events (io_ctxs io1 ! i) AND event = 0"
    and sched1: "io_sched io1 = io_sched io"
  proof -
    have "io_inv io1 \<and> i < length (io_ctxs io1) \<and> fc_events (io_ctxs io1 ! i) AND event = 0 \<and> io_sched io1 = io_sched io"
    proof (cases "int (length (io_ctxs io)) > fd")
      case True
      then show ?thesis using inv free fdi by (simp add: io1_def)
    next
      case False
      with grow contextResize_inv [OF inv, of "nat (fd * 3 div 2)"] fdi show ?thesis
        by (auto simp: io1_def FdContext_new_def NONE_def) (simp add: contextResize_def)
    qed
    then show "io_inv io1" "i < length (io_ctxs io1)" "fc_events (io_ctxs io1 ! i) AND event = 0" "io_sched io1 = io_sched io"
      by auto
  qed
  let ?c = "io_ctxs io1 ! i"
  note D = io_invD [OF inv1 i]
  let ?e = "\<lparr>ec_scheduler = Some s, ec_fiber = (if cb = None then Some f else None), ec_cb = cb\<rparr>"
  let ?cc = "setContext event ?e (?c\<lparr>fc_events := fc_events ?c OR event\<rparr>)"
  have rw: "READ \<noteq> WRITE" "event \<noteq> 0" using ev by (auto simp: ev_defs)
  have m: "fc_events ?c \<in> event_masks" using D(1) by (simp add: ctx_ok_def)
  have ok: "ctx_ok (int i) ?cc \<and> registered (fc_events ?cc) = registered (fc_events ?c) + 1 \<and>
      wanted (fc_events ?cc) = Some (EPOLLET OR fc_events ?c OR event) \<and> fc_events ?cc AND event \<noteq> 0"
    using m by (rule mask_cases; use D(1) ev free1 in
      \<open>auto simp: ctx_ok_def slot_ok_def setContext_def registered_def ev_defs armed_def wanted_def or.assoc\<close>)
  have empty: "getContext event (?c\<lparr>fc_events := v\<rparr>) = Inr EventContext_empty" for v
    using D(1) ev free1 rw by (auto simp: getContext_def ctx_ok_def slot_ok_def)
  let ?k = "(io_interest io1)(int i \<mapsto> EPOLLET OR fc_events ?c OR event)"
  have K: "epoll_ctl fail (if fc_events ?c \<noteq> 0 then EPOLL_CTL_MOD else EPOLL_CTL_ADD) fd
      (EPOLLET OR fc_events ?c OR event) (io_interest io1) = (if fail then (-1, io_interest io1) else (0, ?k))"
    using epoll_ctl_wanted [of "io_interest io1" "int i" "fc_events ?c" _ fail] D(2) fdi by auto
  let ?io' = "io1\<lparr>io_interest := ?k, io_pending := io_pending io1 + 1, io_ctxs := (io_ctxs io1)[i := ?cc]\<rparr>"
  have run: "addEvent fail (Some s) f st fd event cb io = (if fail then Ok (-1) io1 else Ok 0 ?io')"
  proof -
    have in_range: "\<not> (fd < 0 \<or> int (length (io_ctxs io1)) \<le> fd)" using fdi i by simp
    show ?thesis
      unfolding addEvent_def io1_def [symmetric] Let_def i_def [symmetric] K
      using in_range free1 cb
      by (cases fail; cases cb) (simp_all add: empty set_ctx_def EventContext_empty_def i_def [symmetric])
  qed
  have "io_inv ?io'" by (rule io_update [OF inv1 i, of ?cc]) (use ok in auto)
  moreover have "waiter_of event ?cc = (s, \<lparr>tk_thread = -1, tk_fiber = (if cb = None then Some f else None), tk_cb = cb\<rparr>)"
    using ev rw by (auto simp: waiter_of_def waiter_def setContext_def)
  ultimately show ?thesis using run inv1 i ok sched1 unfolding i_def [symmetric] by (cases fail) auto
qed

definition wakes :: "u32 \<Rightarrow> 'c FdContext \<Rightarrow> (nat \<times> 'c task) list" where
  "wakes m c = (if m AND READ \<noteq> 0 then [waiter (fc_read c)] else []) @
               (if m AND WRITE \<noteq> 0 then [waiter (fc_write c)] else [])"

text \<open>Triggering a set \<open>m\<close> of registered events, reads first.\<close>

lemma trigger_both:
  assumes ok: "ctx_ok (int i) (io_ctxs io ! i)" and i: "i < length (io_ctxs io)" and m: "m \<in> event_masks"
    and sub: "m AND NOT (fc_events (io_ctxs io ! i)) = 0"
  shows "\<exists>c'. andThen (trigger_if READ m (int i)) (\<lambda>_. trigger_if WRITE m (int i)) io =
      Ok () (io\<lparr>io_ctxs := (io_ctxs io)[i := c'], io_sched := io_sched io @ wakes m (io_ctxs io ! i),
                io_pending := io_pending io - registered m\<rparr>) \<and>
    ctx_ok (int i) c' \<and> fc_events c' = fc_events (io_ctxs io ! i) AND NOT m \<and>
    registered (fc_events c') + registered m = registered (fc_events (io_ctxs io ! i))"
proof -
  let ?c = "io_ctxs io ! i"
  have em: "fc_events ?c \<in> event_masks" using ok by (simp add: ctx_ok_def)
  have r: "m AND READ \<noteq> 0 \<Longrightarrow> fc_events ?c AND READ \<noteq> 0" and w: "m AND WRITE \<noteq> 0 \<Longrightarrow> fc_events ?c AND WRITE \<noteq> 0"
    using m em sub by (auto simp: ev_defs)
  obtain c1 where c1: "trigger_if READ m (int i) io = Ok () (io\<lparr>io_ctxs := (io_ctxs io)[i := c1],
        io_sched := io_sched io @ (if m AND READ \<noteq> 0 then [waiter (fc_read ?c)] else []),
        io_pending := io_pending io - (if m AND READ \<noteq> 0 then 1 else 0)\<rparr>)"
    "ctx_ok (int i) c1" "fc_write c1 = fc_write ?c"
    "fc_events c1 = (if m AND READ \<noteq> 0 then fc_events ?c AND NOT READ else fc_events ?c)"
    "registered (fc_events c1) + (if m AND READ \<noteq> 0 then 1 else 0) = registered (fc_events ?c)"
  proof (cases "m AND READ = 0")
    case True
    then show ?thesis using that [of ?c] ok by (simp add: trigger_if_def)
  next
    case False
    then show ?thesis using that trigger_and_count_correct [OF ok, of READ] r
      by (auto simp: trigger_if_def waiter_of_def)
  qed
  let ?io = "io\<lparr>io_ctxs := (io_ctxs io)[i := c1],
        io_sched := io_sched io @ (if m AND READ \<noteq> 0 then [waiter (fc_read ?c)] else []),
        io_pending := io_pending io - (if m AND READ \<noteq> 0 then 1 else 0)\<rparr>"
  have w1: "m AND WRITE \<noteq> 0 \<Longrightarrow> fc_events c1 AND WRITE \<noteq> 0"
    using w c1(4) m em by (auto simp: ev_defs)
  obtain c2 where c2: "trigger_if WRITE m (int i) ?io = Ok () (?io\<lparr>io_ctxs := (io_ctxs io)[i := c2],
        io_sched := io_sched ?io @ (if m AND WRITE \<noteq> 0 then [waiter (fc_write c1)] else []),
        io_pending := io_pending ?io - (if m AND WRITE \<noteq> 0 then 1 else 0)\<rparr>)"
    "ctx_ok (int i) c2" "fc_events c2 = (if m AND WRITE \<noteq> 0 then fc_events c1 AND NOT WRITE else fc_events c1)"
    "registered (fc_events c2) + (if m AND WRITE \<noteq> 0 then 1 else 0) = registered (fc_events c1)"
  proof (cases "m AND WRITE = 0")
    case True
    then show ?thesis using that [of c1] c1(2) by (simp add: trigger_if_def)
  next
    case False
    have rw: "WRITE \<noteq> READ" by (simp add: ev_defs)
    have "ctx_ok (int i) (io_ctxs ?io ! i)" "fc_events (io_ctxs ?io ! i) AND WRITE \<noteq> 0"
      using c1(2) i w1 False by simp_all
    from trigger_and_count_correct [OF this(1) _ this(2)] False rw i show ?thesis
      using that by (auto simp: trigger_if_def waiter_of_def)
  qed
  have reg: "registered m = (if m AND READ \<noteq> 0 then 1 else 0) + (if m AND WRITE \<noteq> 0 then 1 else 0)"
    by (simp add: registered_def)
  have "fc_events c2 = fc_events ?c AND NOT m"
    using c1(4) c2(3) m em by (auto simp: ev_defs)
  then show ?thesis using c1 c2 reg by (intro exI [of _ c2]) (auto simp: wakes_def)
qed

lemma handle_event_correct:
  assumes inv: "io_inv io" and i: "i < length (io_ctxs io)"
    and sub: "real_events ev AND NOT (fc_events (io_ctxs io ! i)) = 0"
  shows "\<exists>io'. handle_event fail (int i) ev io = Ok () io' \<and> io_inv io' \<and>
    (if fail then io' = io
     else io_sched io' = io_sched io @ wakes (real_events ev) (io_ctxs io ! i) \<and>
       fc_events (io_ctxs io' ! i) = fc_events (io_ctxs io ! i) AND NOT (real_events ev))"
proof -
  let ?c = "io_ctxs io ! i" and ?m = "real_events ev"
  note D = io_invD [OF inv i]
  have m: "?m \<in> event_masks" unfolding real_events_def Let_def by (auto simp: ev_defs)
  have em: "fc_events ?c \<in> event_masks" using D(1) by (simp add: ctx_ok_def)
  show ?thesis
  proof (cases "?m = 0")
    case True
    then show ?thesis using inv by (auto simp: handle_event_def Let_def NONE_def wakes_def)
  next
    case False
    then have hit: "fc_events ?c AND ?m \<noteq> 0" and nz: "fc_events ?c \<noteq> 0" using m em sub by (auto simp: ev_defs)
    let ?new = "fc_events ?c AND NOT ?m"
    let ?io = "io\<lparr>io_interest := (io_interest io)(int i := wanted ?new)\<rparr>"
    note K = epoll_ctl_set [where k = "io_interest io" and fd = "int i" and new = ?new and fail = fail, OF D(2) nz]
    have fd: "fc_fd ?c = int i" using D(1) by (simp add: ctx_ok_def)
    obtain c' where c': "andThen (trigger_if READ ?m (int i)) (\<lambda>_. trigger_if WRITE ?m (int i)) ?io =
        Ok () (?io\<lparr>io_ctxs := (io_ctxs io)[i := c'], io_sched := io_sched io @ wakes ?m ?c,
                  io_pending := io_pending io - registered ?m\<rparr>)"
      "ctx_ok (int i) c'" "fc_events c' = ?new" "registered (fc_events c') + registered ?m = registered (fc_events ?c)"
      using trigger_both [of i ?io ?m] D(1) i m sub by auto
    let ?io' = "?io\<lparr>io_ctxs := (io_ctxs io)[i := c'], io_sched := io_sched io @ wakes ?m ?c,
                  io_pending := io_pending io - registered ?m\<rparr>"
    have "registered ?m \<le> io_pending io" using registered_le_pending [OF inv i] c'(4) by simp
    then have "io_inv ?io'" by (intro io_update [OF inv i c'(2)]) (use c' in auto)
    moreover have "handle_event fail (int i) ev io = (if fail then Ok () io else Ok () ?io')"
      using hit K fd c'(1) by (simp add: handle_event_def Let_def NONE_def)
    ultimately show ?thesis using inv c'(3) i by auto
  qed
qed

lemma cancelAll_correct:
  assumes inv: "io_inv io" and i: "i < length (io_ctxs io)"
  shows "\<exists>io'. cancelAll fail (int i) io = Ok (\<not> fail \<and> fc_events (io_ctxs io ! i) \<noteq> 0) io' \<and> io_inv io' \<and>
    (if fail then io' = io
     else io_sched io' = io_sched io @ wakes (fc_events (io_ctxs io ! i)) (io_ctxs io ! i) \<and>
       fc_events (io_ctxs io' ! i) = 0 \<and> io_pending io' + registered (fc_events (io_ctxs io ! i)) = io_pending io)"
proof -
  let ?c = "io_ctxs io ! i"
  let ?m = "fc_events ?c"
  note D = io_invD [OF inv i]
  have em: "?m \<in> event_masks" using D(1) by (simp add: ctx_ok_def)
  have self: "?m AND NOT ?m = 0" by simp
  show ?thesis
  proof (cases "?m = 0")
    case True
    then show ?thesis using inv i by (auto simp: cancelAll_def wakes_def registered_def)
  next
    case False
    let ?io = "io\<lparr>io_interest := (io_interest io)(int i := None)\<rparr>"
    have K: "epoll_ctl fail EPOLL_CTL_DEL (int i) 0 (io_interest io) =
        (if fail then (-1, io_interest io) else (0, (io_interest io)(int i := None)))"
      using epoll_ctl_wanted(3) [of "io_interest io" "int i" ?m _ fail 0] D(2) False by auto
    obtain c' where c': "andThen (trigger_if READ ?m (int i)) (\<lambda>_. trigger_if WRITE ?m (int i)) ?io =
        Ok () (?io\<lparr>io_ctxs := (io_ctxs io)[i := c'], io_sched := io_sched io @ wakes ?m ?c,
                  io_pending := io_pending io - registered ?m\<rparr>)"
      "ctx_ok (int i) c'" "fc_events c' = ?m AND NOT ?m" "registered (fc_events c') + registered ?m = registered ?m"
      using trigger_both [of i ?io ?m] D(1) i em self by auto
    let ?io' = "?io\<lparr>io_ctxs := (io_ctxs io)[i := c'], io_sched := io_sched io @ wakes ?m ?c,
                  io_pending := io_pending io - registered ?m\<rparr>"
    have le: "registered ?m \<le> io_pending io" by (rule registered_le_pending [OF inv i])
    have z: "fc_events c' = 0" using c'(3) by simp
    have inv': "io_inv ?io'" by (rule io_update [OF inv i c'(2)]) (use c' le z in \<open>auto simp: wanted_def\<close>)
    have tr: "trigger_if WRITE (fc_events (io_ctxs io1 ! i)) (int i) io1 = trigger_if WRITE ?m (int i) io1"
      if "trigger_if READ ?m (int i) ?io = Ok () io1" for io1
    proof -
      have "fc_events (io_ctxs io1 ! i) AND WRITE \<noteq> 0 \<longleftrightarrow> ?m AND WRITE \<noteq> 0"
        using that trigger_and_count_correct [of i ?io READ] D(1) i em
        by (auto simp: trigger_if_def ev_defs split: if_splits)
      then show ?thesis by (simp add: trigger_if_def)
    qed
    obtain io1 where io1: "trigger_if READ ?m (int i) ?io = Ok () io1" "trigger_if WRITE ?m (int i) io1 = Ok () ?io'"
      using c'(1) by (auto simp: andThen_def split: outcome.splits)
    have "cancelAll fail (int i) io = (if fail then Ok False io else Ok True ?io')"
      using i False K io1 tr [OF io1(1)] z by (simp add: cancelAll_def)
    then show ?thesis using inv inv' False le z i by auto
  qed
qed

subsection \<open>Histories\<close>

text \<open>The operations a program performs, with every \<open>epoll_ctl\<close> free to fail, and the events the kernel
  reports; \<open>ready\<close> covers reports of registered events only.\<close>

inductive io_step :: "'c iom \<Rightarrow> 'c iom \<Rightarrow> bool" where
  io_add: "0 \<le> fd \<Longrightarrow> event \<in> {READ, WRITE} \<Longrightarrow> cb \<noteq> None \<or> st = F_EXEC \<Longrightarrow>
     \<forall>i < length (io_ctxs io). int i = fd \<longrightarrow> fc_events (io_ctxs io ! i) AND event = 0 \<Longrightarrow>
     addEvent fail (Some s) f st fd event cb io = Ok r io' \<Longrightarrow> io_step io io'"
| io_del: "i < length (io_ctxs io) \<Longrightarrow> event \<in> {READ, WRITE} \<Longrightarrow> delEvent fail (int i) event io = Ok r io' \<Longrightarrow> io_step io io'"
| io_cancel: "i < length (io_ctxs io) \<Longrightarrow> event \<in> {READ, WRITE} \<Longrightarrow> cancelEvent fail (int i) event io = Ok r io' \<Longrightarrow> io_step io io'"
| io_cancel_all: "i < length (io_ctxs io) \<Longrightarrow> cancelAll fail (int i) io = Ok r io' \<Longrightarrow> io_step io io'"
| io_ready: "i < length (io_ctxs io) \<Longrightarrow> real_events ev AND NOT (fc_events (io_ctxs io ! i)) = 0 \<Longrightarrow>
     handle_event fail (int i) ev io = Ok () io' \<Longrightarrow> io_step io io'"

inductive io_reachable :: "'c iom \<Rightarrow> bool" where
  io_init: "io_reachable IOManager_new"
| io_next: "io_reachable io \<Longrightarrow> io_step io io' \<Longrightarrow> io_reachable io'"

lemma io_step_inv: "io_step io io' \<Longrightarrow> io_inv io \<Longrightarrow> io_inv io'"
proof (induction rule: io_step.induct)
  case (io_add fd event cb st io fail s f r io')
  then show ?case using addEvent_correct [of io fd event cb st fail s f] by auto
next
  case (io_del i io event fail r io')
  then show ?case using delEvent_correct [of io i event fail] by auto
next
  case (io_cancel i io event fail r io')
  then show ?case using cancelEvent_correct [of io i event fail] by auto
next
  case (io_cancel_all i io fail r io')
  then show ?case using cancelAll_correct [of io i fail] by auto
next
  case (io_ready i io ev fail io')
  then show ?case using handle_event_correct [of io i ev fail] by auto
qed

lemma io_reachable_inv: "io_reachable io \<Longrightarrow> io_inv io"
  by (induction rule: io_reachable.induct) (auto intro: IOManager_new_inv io_step_inv)

subsection \<open>Properties\<close>

lemma length_IOManager_new: "length (io_ctxs IOManager_new) = 32"
  by (simp add: IOManager_new_def contextResize_def)

lemma IOManager_new_nth: "i < 32 \<Longrightarrow> io_ctxs IOManager_new ! i = FdContext_new (int i)"
  by (simp add: IOManager_new_def contextResize_def del: upt_Suc)

lemma IOManager_new_fields:
  "io_interest IOManager_new = Map.empty" "io_pending IOManager_new = 0" "io_sched IOManager_new = []"
  by (simp_all add: IOManager_new_def contextResize_def)



text \<open>C4. From registration to wake-up: a successful \<open>addEvent\<close> on a descriptor with nothing registered stores the
  callback, or the current fiber when there is none; when the kernel then reports the descriptor readable or
  writable accordingly, exactly this waiter is handed to the scheduler that registered it, once, and
  the registration is gone, from the kernel's list too.\<close>

theorem io_wakeup:
  assumes "io_reachable io" and "i < length (io_ctxs io)" and "fc_events (io_ctxs io ! i) = 0"
    and "event \<in> {READ, WRITE}" and "cb \<noteq> None \<or> st = F_EXEC"
  shows "\<exists>io1 io2. addEvent False (Some s) f st (int i) event cb io = Ok 0 io1 \<and>
    handle_event False (int i) event io1 = Ok () io2 \<and>
    io_sched io2 = io_sched io @ [(s, \<lparr>tk_thread = -1, tk_fiber = (if cb = None then Some f else None), tk_cb = cb\<rparr>)] \<and>
    fc_events (io_ctxs io2 ! i) = 0 \<and> io_interest io2 (int i) = None"
proof -
  have inv: "io_inv io" using assms(1) by (rule io_reachable_inv)
  let ?t = "(s, \<lparr>tk_thread = -1, tk_fiber = (if cb = None then Some f else None), tk_cb = cb\<rparr>)"
  have "int (length (io_ctxs io)) > int i" using assms(2) by simp
  obtain io1 where io1: "addEvent False (Some s) f st (int i) event cb io = Ok 0 io1" "io_inv io1" "io_sched io1 = io_sched io"
    "i < length (io_ctxs io1)" "fc_events (io_ctxs io1 ! i) AND event \<noteq> 0" "waiter_of event (io_ctxs io1 ! i) = ?t"
    using addEvent_correct [OF inv _ assms(4,5), of "int i" False s f] assms(3) by auto
  have ev1: "fc_events (io_ctxs io1 ! i) = event"
  proof -
    have "getContext event ((io_ctxs io ! i)\<lparr>fc_events := event\<rparr>) = Inr EventContext_empty"
      using io_invD(1) [OF inv assms(2)] assms(3,4) by (auto simp: getContext_def ctx_ok_def slot_ok_def ev_defs)
    then show ?thesis using io1(1) assms(2-5)
      by (auto simp: addEvent_def Let_def epoll_ctl_def io_invD(2) [OF inv] wanted_def set_ctx_def setContext_def
          EventContext_empty_def split: if_splits)
  qed
  have re: "real_events event = event" using assms(4) by (auto simp: real_events_def Let_def ev_defs)
  obtain io2 where io2: "handle_event False (int i) event io1 = Ok () io2" "io_inv io2"
    "io_sched io2 = io_sched io1 @ wakes event (io_ctxs io1 ! i)" "fc_events (io_ctxs io2 ! i) = event AND NOT event"
    using handle_event_correct [OF io1(2,4), of event False] re ev1 by auto
  have w: "wakes event (io_ctxs io1 ! i) = [?t]"
    using assms(4) io1(6) by (auto simp: wakes_def waiter_of_def ev_defs)
  have z: "fc_events (io_ctxs io2 ! i) = 0" using io2(4) by simp
  have len2: "i < length (io_ctxs io2)"
  proof -
    have "length (io_ctxs io2) = length (io_ctxs io1)"
      using io2(1) trigger_both [of i _ "real_events event"]
      by (auto simp: handle_event_def Let_def trigger_if_def trigger_and_count_def set_ctx_def andThen_def
          split: if_splits prod.splits sum.splits outcome.splits)
    then show ?thesis using io1(4) by simp
  qed
  have "io_interest io2 (int i) = None" using io_invD(2) [OF io2(2) len2] z by (simp add: wanted_def)
  then show ?thesis using io1(1,3) io2(1,3) w z by auto
qed

theorem io_wakeup_witness:
  "\<exists>io1 io2. addEvent False (Some 0) 7 F_EXEC (int 3) READ (None :: string option) IOManager_new = Ok 0 io1 \<and>
    handle_event False (int 3) READ io1 = Ok () io2 \<and>
    io_sched io2 = [(0, \<lparr>tk_thread = -1, tk_fiber = Some 7, tk_cb = None\<rparr>)]"
  using io_wakeup [OF io_init, of 3 READ "None :: string option" F_EXEC 0 7]
  by (auto simp: length_IOManager_new IOManager_new_nth FdContext_new_def NONE_def)
     (auto simp: IOManager_new_def contextResize_def)

text \<open>\<open>cancelAll\<close> wakes every waiter of the descriptor, the reader first, and leaves nothing registered;
  it returns false exactly when nothing was registered or the kernel call failed.\<close>

theorem io_cancelAll_wakes_all:
  assumes "io_reachable io" and "i < length (io_ctxs io)"
  shows "\<exists>io'. cancelAll fail (int i) io = Ok (\<not> fail \<and> fc_events (io_ctxs io ! i) \<noteq> 0) io' \<and> io_inv io' \<and>
    (if fail then io' = io
     else io_sched io' = io_sched io @ wakes (fc_events (io_ctxs io ! i)) (io_ctxs io ! i) \<and>
       fc_events (io_ctxs io' ! i) = 0 \<and> io_pending io' + registered (fc_events (io_ctxs io ! i)) = io_pending io)"
  by (rule cancelAll_correct [OF io_reachable_inv [OF assms(1)] assms(2)])

theorem io_cancelAll_wakes_all_witness:
  "\<exists>io'. cancelAll False (int 3) (IOManager_new :: string iom) = Ok False io' \<and> io_inv io'"
  using io_cancelAll_wakes_all [OF io_init, of 3 False]
  by (auto simp: length_IOManager_new IOManager_new_nth FdContext_new_def NONE_def)

text \<open>A hang-up on a descriptor with only a reader registered fails the assertion of \<open>triggerEvent\<close>:
  \<open>EPOLLHUP\<close> is widened to both directions, not to the registered ones, so the absent write event is
  triggered too.\<close>

theorem io_hangup_asserts:
  assumes "io_reachable io" and "i < length (io_ctxs io)" and "fc_events (io_ctxs io ! i) = READ"
    and "ev AND (EPOLLERR OR EPOLLHUP) \<noteq> 0"
  shows "handle_event False (int i) ev io = Crash (AssertFail ''events & event'')"
proof -
  have inv: "io_inv io" using assms(1) by (rule io_reachable_inv)
  note D = io_invD [OF inv assms(2)]
  have rr: "(ev OR READ OR WRITE) AND READ \<noteq> 0" "(ev OR READ OR WRITE) AND WRITE \<noteq> 0"
  proof -
    have "bit ((ev OR READ OR WRITE) AND READ) 0" "bit ((ev OR READ OR WRITE) AND WRITE) 2"
      by (simp_all add: READ_def WRITE_def bit_simps)
    then show "(ev OR READ OR WRITE) AND READ \<noteq> 0" "(ev OR READ OR WRITE) AND WRITE \<noteq> 0" by (metis bit_0_eq bot_apply bot_bool_def)+
  qed
  have re: "real_events ev = 5" using assms(4) rr by (simp add: real_events_def Let_def) (simp add: ev_defs)
  have R: "READ = 1" "WRITE = 4" by (simp_all add: ev_defs)
  obtain c' where c': "trigger_and_count READ (int i) (io\<lparr>io_interest := (io_interest io)(int i := None)\<rparr>) =
      Ok () (io\<lparr>io_interest := (io_interest io)(int i := None), io_ctxs := (io_ctxs io)[i := c'],
         io_sched := io_sched io @ [waiter_of READ (io_ctxs io ! i)], io_pending := io_pending io - 1\<rparr>)"
    "fc_events c' = READ AND NOT READ"
    using trigger_and_count_correct [of i "io\<lparr>io_interest := (io_interest io)(int i := None)\<rparr>" READ] D(1) assms(3)
    by (auto simp: R)
  have "epoll_ctl False EPOLL_CTL_DEL (int i) (EPOLLET OR 0) (io_interest io) = (0, (io_interest io)(int i := None))"
    using epoll_ctl_wanted(3) [of "io_interest io" "int i" READ 0 False] D(2) assms(3) by (simp add: R)
  then show ?thesis
    using c' assms(2,3) re D(1)
    by (simp add: handle_event_def Let_def R NONE_def ctx_ok_def trigger_if_def)
       (simp add: trigger_and_count_def triggerEvent_def)
qed

theorem io_hangup_asserts_witness:
  "\<exists>io. addEvent False (Some 0) 7 F_EXEC (int 3) READ (None :: string option) IOManager_new = Ok 0 io \<and>
     handle_event False (int 3) EPOLLHUP io = Crash (AssertFail ''events & event'')"
proof -
  let ?c = "\<lparr>fc_read = \<lparr>ec_scheduler = Some 0, ec_fiber = Some 7, ec_cb = None\<rparr>, fc_write = EventContext_empty,
             fc_fd = 3, fc_events = READ\<rparr> :: string FdContext"
  let ?io = "IOManager_new\<lparr>io_interest := [3 \<mapsto> EPOLLET OR READ], io_pending := 1,
               io_ctxs := (io_ctxs IOManager_new)[3 := ?c]\<rparr>"
  have a: "addEvent False (Some 0) 7 F_EXEC (int 3) READ (None :: string option) IOManager_new = Ok 0 ?io"
    by (simp add: addEvent_def Let_def length_IOManager_new IOManager_new_nth FdContext_new_def NONE_def
        getContext_def EventContext_empty_def set_ctx_def setContext_def epoll_ctl_def IOManager_new_fields)
  have "io_reachable ?io"
    by (rule io_next [OF io_init io_add [OF _ _ _ _ a]])
       (auto simp: length_IOManager_new IOManager_new_nth FdContext_new_def NONE_def)
  then have "handle_event False (int 3) EPOLLHUP ?io = Crash (AssertFail ''events & event'')"
    by (rule io_hangup_asserts)
       (simp_all add: length_IOManager_new EPOLLHUP_def EPOLLERR_def)
  with a show ?thesis by blast
qed

text \<open>The timeout of \<open>epoll_wait\<close> is at most three seconds and never past the next timer for timers less than
  \<open>2^31\<close> ms away; but the 64-bit value is narrowed to \<open>int\<close> first, so for one that is \<open>2^31\<close> to \<open>2^32 - 1\<close> ms away the
  argument is negative and \<open>epoll_wait\<close> blocks indefinitely.\<close>

theorem io_wait_timeout:
  "wait_timeout (- 1) = 3000 \<and>
   (uint t < 2 ^ 31 \<longrightarrow> 0 \<le> wait_timeout t \<and> wait_timeout t = min 3000 (uint t)) \<and>
   (2 ^ 31 \<le> uint t \<and> uint t < 2 ^ 32 \<longrightarrow> wait_timeout t < 0)"
proof -
  have low: "sint (ucast t :: u32) = (if uint t < 2 ^ 31 then uint t else uint t - 2 ^ 32)" if "uint t < 2 ^ 32"
  proof -
    have u: "uint (ucast t :: u32) = uint t" using that by (simp add: unsigned_ucast_eq take_bit_int_eq_self)
    have "sint (ucast t :: u32) = signed_take_bit 31 (uint t)" by (simp add: sint_uint u)
    moreover have "signed_take_bit 31 (uint t) = uint t" if "uint t < 2 ^ 31"
      using that signed_take_bit_int_eq_self [of 31 "uint t"] uint_ge_0 [of t] by simp
    moreover have "signed_take_bit 31 (uint t) = uint t - 2 ^ 32" if "\<not> uint t < 2 ^ 31"
    proof -
      have "uint t div 2 ^ 31 = 1"
        by (rule int_div_pos_eq [where r = "uint t - 2 ^ 31"]) (use that \<open>uint t < 2 ^ 32\<close> in auto)
      then have "bit (uint t) 31" by (simp add: bit_iff_odd)
      then show ?thesis using \<open>uint t < 2 ^ 32\<close>
        by (simp add: signed_take_bit_eq_take_bit_minus take_bit_int_eq_self)
    qed
    ultimately show ?thesis by simp
  qed
  have m1: "uint (- 1 :: u64) = 2 ^ 64 - 1" by code_simp
  have "t \<noteq> - 1" if "uint t < 2 ^ 32" using that m1 by auto
  moreover have k: "sint (ucast (of_int MAX_TIMEOUT :: u64) :: u32) = 3000" unfolding MAX_TIMEOUT_def by code_simp
  ultimately show ?thesis using low unfolding wait_timeout_def Let_def by (auto simp: MAX_TIMEOUT_def min_def)
qed

theorem io_wait_timeout_witness:
  "wait_timeout (2 ^ 31) < 0 \<and> wait_timeout 5 = 5"
  using io_wait_timeout [of "2 ^ 31"] io_wait_timeout [of 5] by simp

end
