(* ===== verification/Hook.thy ===== *)
theory Hook
  imports FdManager IOManager
begin

text \<open>
  \<open>src/hook.cc\<close>: the system calls the library replaces.

  \<open>t_hook_enable\<close> is an argument. \<open>do_io\<close> and \<open>connect_with_timeout\<close> talk to the kernel and to the scheduler:
  what the original system call returns each time is the list of answers \<open>rs\<close>, and how each wait for the
  event ends (registration failed, woken by the event, cancelled by the timeout) the list \<open>ws\<close>; running out
  of answers means the call has not returned yet (\<open>None\<close>). The descriptor flags go through \<open>k_flags\<close>, which
  \<open>fcntl_f\<close> and \<open>ioctl_f(FIONBIO)\<close> change as documented.
\<close>

definition EINTR :: int where "EINTR = 4"
definition EBADF :: int where "EBADF = 9"
definition EAGAIN :: int where "EAGAIN = 11"
definition ETIMEDOUT :: int where "ETIMEDOUT = 110"
definition EINPROGRESS :: int where "EINPROGRESS = 115"

text \<open>The result of a system call: a value, or -1 with \<open>errno\<close>.\<close>

datatype sysret = SRet int | SErr int

datatype wake = AddFail int | Woken | TimedOut

subsection \<open>Blocking I/O as waiting for an event\<close>

text \<open>From the label \<open>retry\<close> on. A timer exists only if a timeout is set, so only then can a wait
  end in \<open>TimedOut\<close>.\<close>

fun do_io_retry :: "u64 \<Rightarrow> sysret list \<Rightarrow> wake list \<Rightarrow> sysret option" where
  "do_io_retry to [] ws = None"
| "do_io_retry to (r # rs) ws =
     (if r = SErr EINTR then do_io_retry to rs ws
      else if r = SErr EAGAIN then
        (case ws of
           [] \<Rightarrow> None
         | AddFail e # _ \<Rightarrow> Some (SErr e)
         | TimedOut # _ \<Rightarrow> (if to \<noteq> - 1 then Some (SErr ETIMEDOUT) else None)
         | Woken # ws \<Rightarrow> do_io_retry to rs ws)
      else Some r)"

definition do_io :: "bool \<Rightarrow> (int \<Rightarrow> bool option) \<Rightarrow> int \<Rightarrow> int \<Rightarrow> fdm \<Rightarrow> sysret list \<Rightarrow> wake list \<Rightarrow>
    (sysret option, fdm) outcome" where
  "do_io hook_enable fstat fd timeout_so m rs ws =
     (let direct = (case rs of [] \<Rightarrow> None | r # _ \<Rightarrow> Some r) in
      if \<not> hook_enable then Ok direct m
      else andThen (fdm_get fstat fd False) (\<lambda>ctx m.
        case ctx of
          None \<Rightarrow> Ok direct m
        | Some c \<Rightarrow>
            if fx_isClosed c then Ok (Some (SErr EBADF)) m
            else if \<not> fx_isSocket c \<or> fx_userNonblock c then Ok direct m
            else Ok (do_io_retry (getTimeout timeout_so c) rs ws) m) m)"

definition hook_read :: "bool \<Rightarrow> (int \<Rightarrow> bool option) \<Rightarrow> int \<Rightarrow> fdm \<Rightarrow> sysret list \<Rightarrow> wake list \<Rightarrow> (sysret option, fdm) outcome" where
  "hook_read en fstat fd m rs ws = do_io en fstat fd SO_RCVTIMEO m rs ws"

definition hook_write :: "bool \<Rightarrow> (int \<Rightarrow> bool option) \<Rightarrow> int \<Rightarrow> fdm \<Rightarrow> sysret list \<Rightarrow> wake list \<Rightarrow> (sysret option, fdm) outcome" where
  "hook_write en fstat fd m rs ws = do_io en fstat fd SO_SNDTIMEO m rs ws"

text \<open>\<open>accept\<close>: a new descriptor gets a context.\<close>

definition hook_accept :: "bool \<Rightarrow> (int \<Rightarrow> bool option) \<Rightarrow> int \<Rightarrow> fdm \<Rightarrow> sysret list \<Rightarrow> wake list \<Rightarrow> (sysret option, fdm) outcome" where
  "hook_accept en fstat s m rs ws =
     andThen (\<lambda>m. do_io en fstat s SO_RCVTIMEO m rs ws) (\<lambda>r m.
       case r of
         Some (SRet fd) \<Rightarrow>
           if fd \<ge> 0 then andThen (fdm_get fstat fd True) (\<lambda>_. ret r) m else Ok r m
       | _ \<Rightarrow> Ok r m) m"

definition hook_socket :: "bool \<Rightarrow> (int \<Rightarrow> bool option) \<Rightarrow> int \<Rightarrow> fdm \<Rightarrow> (int, fdm) outcome" where
  "hook_socket en fstat fd m =
     (if \<not> en then Ok fd m
      else if fd = -1 then Ok fd m
      else andThen (fdm_get fstat fd True) (\<lambda>_. ret fd) m)"

text \<open>\<open>connect_with_timeout\<close>: \<open>r\<close> is the answer of \<open>connect_f\<close>, \<open>w\<close> how the wait for writability ended, \<open>so_error\<close>
  what \<open>getsockopt(SO_ERROR)\<close> delivered (\<open>None\<close>: it failed, leaving \<open>e\<close> in \<open>errno\<close>).\<close>

definition connect_with_timeout :: "bool \<Rightarrow> (int \<Rightarrow> bool option) \<Rightarrow> int \<Rightarrow> u64 \<Rightarrow> fdm \<Rightarrow> sysret \<Rightarrow> wake \<Rightarrow> int option \<Rightarrow> int \<Rightarrow>
    (sysret option, fdm) outcome" where
  "connect_with_timeout en fstat fd timeout_ms m r w so_error e =
     (let check = (case so_error of
            None \<Rightarrow> Some (SErr e)
          | Some err \<Rightarrow> (if err = 0 then Some (SRet 0) else Some (SErr err)))
      in
      if \<not> en then Ok (Some r) m
      else andThen (fdm_get fstat fd False) (\<lambda>ctx m.
        case ctx of
          None \<Rightarrow> Ok (Some (SErr EBADF)) m
        | Some c \<Rightarrow>
            if fx_isClosed c then Ok (Some (SErr EBADF)) m
            else if \<not> fx_isSocket c then Ok (Some r) m
            else if fx_userNonblock c then Ok (Some r) m
            else if r = SRet 0 then Ok (Some (SRet 0)) m
            else if r \<noteq> SErr EINPROGRESS then Ok (Some r) m
            else case w of
              AddFail _ \<Rightarrow> Ok check m
            | Woken \<Rightarrow> Ok check m
            | TimedOut \<Rightarrow> Ok (if timeout_ms \<noteq> - 1 then Some (SErr ETIMEDOUT) else None) m) m)"

subsection \<open>Sleeping\<close>

text \<open>The milliseconds handed to \<open>addTimer\<close>: \<open>seconds * 1000\<close> is computed in \<open>unsigned int\<close>, the sum in \<open>nanosleep\<close>
  in \<open>long\<close> and then narrowed to \<open>int\<close>.\<close>

definition sleep_ms :: "u32 \<Rightarrow> u64" where
  "sleep_ms seconds = ucast (seconds * 1000)"

definition usleep_ms :: "u32 \<Rightarrow> u64" where
  "usleep_ms usec = ucast (usec div 1000)"

definition nanosleep_ms :: "u64 \<Rightarrow> u64 \<Rightarrow> u64" where
  "nanosleep_ms tv_sec tv_nsec = scast (ucast (tv_sec * 1000 + tv_nsec div 1000 div 1000) :: u32)"

definition hook_sleep :: "u64 \<Rightarrow> nat \<Rightarrow> u32 \<Rightarrow> 'cb \<Rightarrow> 'cb TimerManager \<Rightarrow> bool \<times> 'cb TimerManager" where
  "hook_sleep now a seconds wake_fiber tm = addTimer now a (sleep_ms seconds) (Some wake_fiber) False tm"

definition hook_usleep :: "u64 \<Rightarrow> nat \<Rightarrow> u32 \<Rightarrow> 'cb \<Rightarrow> 'cb TimerManager \<Rightarrow> bool \<times> 'cb TimerManager" where
  "hook_usleep now a usec wake_fiber tm = addTimer now a (usleep_ms usec) (Some wake_fiber) False tm"

definition hook_nanosleep :: "u64 \<Rightarrow> nat \<Rightarrow> u64 \<Rightarrow> u64 \<Rightarrow> 'cb \<Rightarrow> 'cb TimerManager \<Rightarrow> bool \<times> 'cb TimerManager" where
  "hook_nanosleep now a tv_sec tv_nsec wake_fiber tm =
     addTimer now a (nanosleep_ms tv_sec tv_nsec) (Some wake_fiber) False tm"

subsection \<open>Descriptor flags and options\<close>

datatype fcntl_cmd = F_SETFL u32 | F_GETFL | F_OTHER

text \<open>\<open>fcntl_f\<close>: the result of the commands the hook only forwards is the argument \<open>other\<close>.\<close>

definition hook_fcntl :: "(int \<Rightarrow> bool option) \<Rightarrow> u32 \<Rightarrow> int \<Rightarrow> fcntl_cmd \<Rightarrow> fdm \<Rightarrow> (u32, fdm) outcome" where
  "hook_fcntl fstat other fd cmd m =
     (case cmd of
        F_SETFL arg \<Rightarrow>
          andThen (fdm_get fstat fd False) (\<lambda>ctx m.
            case ctx of
              None \<Rightarrow> Ok 0 (m\<lparr>k_flags := (k_flags m)(fd := arg)\<rparr>)
            | Some c \<Rightarrow>
                if fx_isClosed c \<or> \<not> fx_isSocket c then Ok 0 (m\<lparr>k_flags := (k_flags m)(fd := arg)\<rparr>)
                else
                  let c = setUserNonblock (arg AND O_NONBLOCK \<noteq> 0) c;
                      arg = (if fx_sysNonblock c then arg OR O_NONBLOCK else arg AND NOT O_NONBLOCK);
                      m = fdm_put fd c m
                  in Ok 0 (m\<lparr>k_flags := (k_flags m)(fd := arg)\<rparr>)) m
      | F_GETFL \<Rightarrow>
          andThen (fdm_get fstat fd False) (\<lambda>ctx m.
            let arg = k_flags m fd in
            case ctx of
              None \<Rightarrow> Ok arg m
            | Some c \<Rightarrow>
                if fx_isClosed c \<or> \<not> fx_isSocket c then Ok arg m
                else if fx_userNonblock c then Ok (arg OR O_NONBLOCK) m
                else Ok (arg AND NOT O_NONBLOCK) m) m
      | F_OTHER \<Rightarrow> Ok other m)"

text \<open>\<open>ioctl(fd, FIONBIO, &flag)\<close>: the hook records the user's wish and passes it on to the kernel, which sets
  or clears \<open>O_NONBLOCK\<close> (\<open>ioctl_tty\<close>, \<open>socket(7)\<close>).\<close>

definition ioctl_FIONBIO :: "(int \<Rightarrow> bool option) \<Rightarrow> int \<Rightarrow> bool \<Rightarrow> fdm \<Rightarrow> (unit, fdm) outcome" where
  "ioctl_FIONBIO fstat fd flag m =
     (let kernel = (\<lambda>m. m\<lparr>k_flags := (k_flags m)(fd := if flag then k_flags m fd OR O_NONBLOCK
                                                         else k_flags m fd AND NOT O_NONBLOCK)\<rparr>)
      in andThen (fdm_get fstat fd False) (\<lambda>ctx m.
           case ctx of
             None \<Rightarrow> Ok () (kernel m)
           | Some c \<Rightarrow>
               if fx_isClosed c \<or> \<not> fx_isSocket c then Ok () (kernel m)
               else Ok () (kernel (fdm_put fd (setUserNonblock flag c) m))) m)"

definition SOL_SOCKET :: int where "SOL_SOCKET = 1"

text \<open>\<open>setsockopt\<close>: a timeout is also kept in the context, in milliseconds; \<open>r\<close> is the answer of \<open>setsockopt_f\<close>.
  The option is an \<open>int\<close> or a \<open>timeval\<close>, whose \<open>long\<close> fields are divided as C++ does, towards zero.\<close>

datatype optval = OptInt int | OptTime int int

definition quot :: "int \<Rightarrow> int \<Rightarrow> int" where
  "quot a b = sgn a * sgn b * (\<bar>a\<bar> div \<bar>b\<bar>)"

fun timeout_of :: "optval \<Rightarrow> u64" where
  "timeout_of (OptTime tv_sec tv_usec) = of_int (tv_sec * 1000 + quot tv_usec 1000)"
| "timeout_of (OptInt v) = of_int v"

definition hook_setsockopt :: "bool \<Rightarrow> (int \<Rightarrow> bool option) \<Rightarrow> int \<Rightarrow> int \<Rightarrow> int \<Rightarrow> optval \<Rightarrow> sysret \<Rightarrow> fdm \<Rightarrow> (sysret, fdm) outcome" where
  "hook_setsockopt en fstat sockfd level optname v r m =
     (if en \<and> level = SOL_SOCKET \<and> (optname = SO_RCVTIMEO \<or> optname = SO_SNDTIMEO) then
        andThen (fdm_get fstat sockfd False) (\<lambda>ctx m.
          case ctx of
            None \<Rightarrow> Ok r m
          | Some c \<Rightarrow> Ok r (fdm_put sockfd (setTimeout optname (timeout_of v) c) m)) m
      else Ok r m)"

text \<open>\<open>close\<close>: wake everyone waiting on the descriptor, forget its context, close it. \<open>iom\<close> is \<open>IOManager::GetThis()\<close>.\<close>

definition hook_close :: "bool \<Rightarrow> (int \<Rightarrow> bool option) \<Rightarrow> bool \<Rightarrow> int \<Rightarrow> fdm \<times> 'c iom option \<Rightarrow>
    (unit, fdm \<times> 'c iom option) outcome" where
  "hook_close en fstat fail fd st =
     (case st of (m, iom) \<Rightarrow>
        if \<not> en then Ok () (m, iom)
        else case fdm_get fstat fd False m of
          Crash x \<Rightarrow> Crash x
        | Throw e m \<Rightarrow> Throw e (m, iom)
        | Ok None m \<Rightarrow> Ok () (m, iom)
        | Ok (Some c) m \<Rightarrow>
            (case (case iom of None \<Rightarrow> Ok False None
                   | Some io \<Rightarrow> (case cancelAll fail fd io of
                       Ok b io \<Rightarrow> Ok b (Some io) | Throw e io \<Rightarrow> Throw e (Some io) | Crash x \<Rightarrow> Crash x)) of
               Crash x \<Rightarrow> Crash x
             | Throw e iom \<Rightarrow> Throw e (m, iom)
             | Ok _ iom \<Rightarrow>
                 (case fdm_del fd m of
                    Ok _ m \<Rightarrow> Ok () (m, iom) | Throw e m \<Rightarrow> Throw e (m, iom) | Crash x \<Rightarrow> Crash x)))"

subsection \<open>Lemmas\<close>

definition retried :: "sysret \<Rightarrow> bool" where
  "retried r \<longleftrightarrow> r = SErr EINTR \<or> r = SErr EAGAIN"

lemma do_io_retry_woken:
  assumes "list_all retried as" and "\<not> retried r" and "length (filter (\<lambda>x. x = SErr EAGAIN) as) \<le> k"
  shows "do_io_retry to (as @ r # rs) (replicate k Woken @ ws) = Some r"
  using assms
proof (induction as arbitrary: k)
  case Nil
  then show ?case by (simp add: retried_def)
next
  case (Cons a as)
  show ?case
  proof (cases "a = SErr EAGAIN")
    case True
    then obtain j where "k = Suc j" using Cons.prems(3) by (cases k) auto
    then show ?thesis using True Cons by (simp add: EINTR_def EAGAIN_def)
  next
    case False
    then have "a = SErr EINTR" using Cons.prems(1) by (simp add: retried_def)
    then show ?thesis using False Cons by simp
  qed
qed

lemma do_io_retry_results:
  assumes "do_io_retry to rs ws = Some r"
  shows "r \<in> set rs \<and> \<not> retried r \<or> r = SErr ETIMEDOUT \<and> to \<noteq> - 1 \<and> TimedOut \<in> set ws \<or>
    (\<exists>e. r = SErr e \<and> AddFail e \<in> set ws)"
  using assms
proof (induction to rs ws rule: do_io_retry.induct)
  case (2 to x rs ws)
  consider "x = SErr EINTR" | "x = SErr EAGAIN" "x \<noteq> SErr EINTR" | "\<not> retried x" by (auto simp: retried_def)
  then show ?case
  proof cases
    case 1
    then show ?thesis using 2 by auto
  next
    case again: 2
    show ?thesis
    proof (cases ws)
      case Nil
      then show ?thesis using 2 again by simp
    next
      case (Cons w ws')
      then show ?thesis using 2 again by (cases w) (auto split: if_splits)
    qed
  next
    case 3
    then show ?thesis using 2 by (auto simp: retried_def)
  qed
qed simp

lemma bit_O_NONBLOCK: "bit O_NONBLOCK n \<longleftrightarrow> n = 11"
proof -
  have N: "O_NONBLOCK = push_bit 11 1" by (simp add: O_NONBLOCK_def)
  show ?thesis unfolding N by (simp only: bit_push_bit_iff bit_1_iff) auto
qed

text \<open>A descriptor the manager knows as a socket.\<close>

definition managed :: "int \<Rightarrow> FdCtx \<Rightarrow> fdm \<Rightarrow> bool" where
  "managed fd c m \<longleftrightarrow> 0 \<le> fd \<and> nat fd < length (m_datas m) \<and> m_datas m ! nat fd = Some c \<and> fx_isSocket c"

lemma managed_get: "managed fd c m \<Longrightarrow> fdm_get fstat fd False m = Ok (Some c) m"
  by (auto simp: managed_def fdm_get_def)

lemma managed_inv:
  "fdm_inv m \<Longrightarrow> managed fd c m \<Longrightarrow> fx_sysNonblock c \<and> \<not> fx_isClosed c \<and> fx_fd c = fd \<and> k_flags m fd AND O_NONBLOCK \<noteq> 0"
  by (auto simp: managed_def fdm_inv_def)

lemma fdm_inv_flags:
  assumes "fdm_inv m" and "v AND O_NONBLOCK \<noteq> 0"
  shows "fdm_inv (m\<lparr>k_flags := (k_flags m)(fd := v)\<rparr>)"
  using assms by (auto simp: fdm_inv_def)

subsection \<open>Properties\<close>

definition demo_fdm :: fdm where
  "demo_fdm = (case fdm_get (\<lambda>_. Some True) 5 True (FdManager_new (\<lambda>_. 2)) of Ok _ m \<Rightarrow> m | _ \<Rightarrow> FdManager_new (\<lambda>_. 0))"

definition demo_ctx5 :: FdCtx where
  "demo_ctx5 = \<lparr>fx_isInit = True, fx_isSocket = True, fx_sysNonblock = True, fx_userNonblock = False,
     fx_isClosed = False, fx_fd = 5, fx_recvTimeout = - 1, fx_sendTimeout = - 1\<rparr>"

lemma demo_fdm_eq: "demo_fdm = \<lparr>m_datas = (replicate 64 None)[5 := Some demo_ctx5], k_flags = (\<lambda>_. 2)(5 := 2 OR O_NONBLOCK)\<rparr>"
proof -
  have "(2::u32) AND O_NONBLOCK = 0" by (simp add: O_NONBLOCK_def)
  then show ?thesis
    by (simp add: demo_fdm_def fdm_get_def FdManager_new_def FdCtx_new_def FdCtx_init_def Let_def demo_ctx5_def
        del: replicate.simps)
qed

lemma demo_fdm_ok: "fdm_inv demo_fdm" "managed 5 demo_ctx5 demo_fdm"
proof -
  obtain r m where "fdm_get (\<lambda>_. Some True) 5 True (FdManager_new (\<lambda>_. 2)) = Ok r m" "fdm_inv m"
    using fdm_get_correct [OF FdManager_new_inv, of 5 "\<lambda>_. Some True" True "\<lambda>_. 2"] by auto
  then show "fdm_inv demo_fdm" by (simp add: demo_fdm_def)
  show "managed 5 demo_ctx5 demo_fdm" by (simp add: demo_fdm_eq managed_def demo_ctx5_def del: replicate.simps)
qed

text \<open>C6. A hooked call on a managed socket in blocking mode behaves like the blocking call: interruptions and
  "would block" answers are retried, and when every wait ends with the event the caller gets exactly
  the first other answer of the kernel.\<close>

theorem do_io_transparent:
  assumes "fdm_inv m" and "managed fd c m" and "\<not> fx_userNonblock c"
    and "list_all retried as" and "\<not> retried r" and "length (filter (\<lambda>x. x = SErr EAGAIN) as) \<le> k"
  shows "do_io True fstat fd so m (as @ r # rs) (replicate k Woken) = Ok (Some r) m"
  using do_io_retry_woken [OF assms(4-6), of "getTimeout so c" rs "[]"] managed_get [OF assms(2), of fstat]
    managed_inv [OF assms(1,2)] assms(2,3)
  by (simp add: do_io_def Let_def managed_def)

theorem do_io_transparent_witness:
  "do_io True (\<lambda>_. Some True) 5 SO_RCVTIMEO demo_fdm [SErr EINTR, SErr EAGAIN, SRet 42] [Woken] = Ok (Some (SRet 42)) demo_fdm"
  using do_io_transparent [OF demo_fdm_ok, of "[SErr EINTR, SErr EAGAIN]" "SRet 42" 1 "\<lambda>_. Some True" SO_RCVTIMEO "[]"]
  by (simp add: demo_ctx5_def retried_def EINTR_def EAGAIN_def)

text \<open>What a hooked call can return at all: a final answer of the kernel, the error of a failed registration,
  or \<open>ETIMEDOUT\<close>, the latter only if a timeout is set; never \<open>EINTR\<close> or \<open>EAGAIN\<close> of its own.\<close>

theorem do_io_results:
  assumes "fdm_inv m" and "managed fd c m" and "\<not> fx_userNonblock c"
    and "do_io True fstat fd so m rs ws = Ok (Some r) m'"
  shows "m' = m \<and> (r \<in> set rs \<and> \<not> retried r \<or>
    r = SErr ETIMEDOUT \<and> getTimeout so c \<noteq> - 1 \<and> TimedOut \<in> set ws \<or> (\<exists>e. r = SErr e \<and> AddFail e \<in> set ws))"
  using do_io_retry_results [of "getTimeout so c" rs ws r] managed_get [OF assms(2), of fstat]
    managed_inv [OF assms(1,2)] assms(2-4)
  by (auto simp: do_io_def Let_def managed_def)

theorem do_io_results_witness:
  "\<exists>m'. do_io True (\<lambda>_. Some True) 5 SO_RCVTIMEO demo_fdm [SErr EAGAIN] [AddFail 12] = Ok (Some (SErr 12)) m' \<and> m' = demo_fdm"
proof -
  have "do_io True (\<lambda>_. Some True) 5 SO_RCVTIMEO demo_fdm [SErr EAGAIN] [AddFail 12] = Ok (Some (SErr 12)) demo_fdm"
    using managed_get [OF demo_fdm_ok(2), of "\<lambda>_. Some True"]
    by (simp add: do_io_def demo_ctx5_def EINTR_def EAGAIN_def)
  with do_io_results [OF demo_fdm_ok _ this] show ?thesis by (simp add: demo_ctx5_def)
qed

text \<open>Descriptor flags are virtualised: after \<open>fcntl(F_SETFL, arg)\<close> on a managed socket \<open>F_GETFL\<close> returns exactly
  \<open>arg\<close>, with the user's choice of \<open>O_NONBLOCK\<close>, while in the kernel the socket stays non-blocking and
  the manager's invariant is kept.\<close>

theorem fcntl_virtualised:
  assumes "fdm_inv m" and "managed fd c m"
  shows "\<exists>m1. hook_fcntl fstat other fd (F_SETFL arg) m = Ok 0 m1 \<and> fdm_inv m1 \<and>
    hook_fcntl fstat other fd F_GETFL m1 = Ok arg m1 \<and> k_flags m1 fd = arg OR O_NONBLOCK"
proof -
  note I = managed_inv [OF assms]
  let ?c = "setUserNonblock (arg AND O_NONBLOCK \<noteq> 0) c"
  let ?m = "(fdm_put fd ?c m)\<lparr>k_flags := (k_flags (fdm_put fd ?c m))(fd := arg OR O_NONBLOCK)\<rparr>"
  have set: "hook_fcntl fstat other fd (F_SETFL arg) m = Ok 0 ?m"
    using managed_get [OF assms(2), of fstat] assms(2) I
    by (simp add: hook_fcntl_def Let_def setUserNonblock_def managed_def)
  have "fdm_inv (fdm_put fd ?c m)"
    by (rule fdm_put_inv [OF assms(1)]) (use assms(2) in \<open>auto simp: managed_def setUserNonblock_def\<close>)
  then have inv: "fdm_inv ?m" by (rule fdm_inv_flags) simp
  have man: "managed fd ?c ?m" using assms(2) by (auto simp: managed_def fdm_put_def setUserNonblock_def)
  have on: "arg AND O_NONBLOCK \<noteq> 0 \<Longrightarrow> (arg OR O_NONBLOCK) OR O_NONBLOCK = arg"
    and off: "arg AND O_NONBLOCK = 0 \<Longrightarrow> (arg OR O_NONBLOCK) AND NOT O_NONBLOCK = arg"
  proof -
    have a: "arg AND O_NONBLOCK = (if bit arg 11 then O_NONBLOCK else 0)"
      by (rule bit_word_eqI) (auto simp: bit_simps bit_O_NONBLOCK)
    show "arg AND O_NONBLOCK \<noteq> 0 \<Longrightarrow> (arg OR O_NONBLOCK) OR O_NONBLOCK = arg"
      using a by (intro bit_word_eqI) (auto simp: bit_simps bit_O_NONBLOCK split: if_splits)
    show "arg AND O_NONBLOCK = 0 \<Longrightarrow> (arg OR O_NONBLOCK) AND NOT O_NONBLOCK = arg"
      using a by (intro bit_word_eqI) (auto simp: bit_simps bit_O_NONBLOCK split: if_splits)
  qed
  have "hook_fcntl fstat other fd F_GETFL ?m = Ok arg ?m"
    using managed_get [OF man, of fstat] managed_inv [OF inv man] man on off
    by (cases "arg AND O_NONBLOCK = 0") (simp_all add: hook_fcntl_def Let_def setUserNonblock_def managed_def)
  then show ?thesis using set inv by (intro exI [of _ ?m]) simp
qed

theorem fcntl_virtualised_witness:
  "\<exists>m1. hook_fcntl (\<lambda>_. Some True) 0 5 (F_SETFL 2) demo_fdm = Ok 0 m1 \<and>
     hook_fcntl (\<lambda>_. Some True) 0 5 F_GETFL m1 = Ok 2 m1"
  using fcntl_virtualised [OF demo_fdm_ok, of "\<lambda>_. Some True" 0 2] by blast

text \<open>\<open>ioctl(FIONBIO)\<close> is not: asking for blocking mode on a managed socket clears \<open>O_NONBLOCK\<close> in the kernel
  while the manager still takes the socket to be non-blocking, so the next hooked read blocks the
  whole thread.\<close>

theorem fionbio_blocks_kernel:
  assumes "fdm_inv m" and "managed fd c m"
  shows "\<exists>m1 c1. ioctl_FIONBIO fstat fd False m = Ok () m1 \<and> managed fd c1 m1 \<and> fx_sysNonblock c1 \<and>
    \<not> fx_userNonblock c1 \<and> k_flags m1 fd AND O_NONBLOCK = 0 \<and> \<not> fdm_inv m1"
proof -
  note I = managed_inv [OF assms]
  let ?c = "setUserNonblock False c"
  let ?m = "(fdm_put fd ?c m)\<lparr>k_flags := (k_flags (fdm_put fd ?c m))(fd := k_flags m fd AND NOT O_NONBLOCK)\<rparr>"
  have run: "ioctl_FIONBIO fstat fd False m = Ok () ?m"
    using managed_get [OF assms(2), of fstat] assms(2) I by (simp add: ioctl_FIONBIO_def Let_def managed_def fdm_put_def)
  have man: "managed fd ?c ?m" using assms(2) by (auto simp: managed_def fdm_put_def setUserNonblock_def)
  have z: "k_flags ?m fd AND O_NONBLOCK = 0" by (simp add: and.assoc)
  then have "\<not> fdm_inv ?m" using managed_inv [OF _ man] by blast
  with run man z I show ?thesis by (intro exI [of _ ?m] exI [of _ ?c]) (simp add: setUserNonblock_def)
qed

theorem fionbio_blocks_kernel_witness:
  "\<exists>m1. ioctl_FIONBIO (\<lambda>_. Some True) 5 False demo_fdm = Ok () m1 \<and> k_flags m1 5 AND O_NONBLOCK = 0"
  using fionbio_blocks_kernel [OF demo_fdm_ok, of "\<lambda>_. Some True"] by blast

text \<open>Closing a managed descriptor wakes every fiber waiting on it, reader and writer, removes its events from
  the I/O manager and its context from the descriptor manager.\<close>

theorem close_wakes_waiters:
  assumes "fdm_inv m" and "managed fd c m" and "io_reachable io" and "nat fd < length (io_ctxs io)"
  shows "\<exists>m1 io1. hook_close True fstat False fd (m, Some io) = Ok () (m1, Some io1) \<and>
    fdm_inv m1 \<and> io_inv io1 \<and> m_datas m1 ! nat fd = None \<and> fc_events (io_ctxs io1 ! nat fd) = 0 \<and>
    io_sched io1 = io_sched io @ wakes (fc_events (io_ctxs io ! nat fd)) (io_ctxs io ! nat fd)"
proof -
  have fd: "int (nat fd) = fd" using assms(2) by (simp add: managed_def)
  obtain b io1 where io1: "cancelAll False fd io = Ok b io1" "io_inv io1" "fc_events (io_ctxs io1 ! nat fd) = 0"
    "io_sched io1 = io_sched io @ wakes (fc_events (io_ctxs io ! nat fd)) (io_ctxs io ! nat fd)"
    using cancelAll_correct [OF io_reachable_inv [OF assms(3)] assms(4), of False] fd by auto
  let ?m = "m\<lparr>m_datas := (m_datas m)[nat fd := None]\<rparr>"
  have del: "fdm_del fd m = Ok () ?m" using assms(2) by (auto simp: managed_def fdm_del_def)
  then have "hook_close True fstat False fd (m, Some io) = Ok () (?m, Some io1)"
    using managed_get [OF assms(2), of fstat] io1(1) by (simp add: hook_close_def)
  moreover have "fdm_inv ?m" by (rule fdm_del_inv [OF assms(1) del])
  ultimately show ?thesis using io1 assms(2) by (auto simp: managed_def)
qed

theorem close_wakes_waiters_witness:
  "\<exists>m1 (io1 :: string iom). hook_close True (\<lambda>_. Some True) False 5 (demo_fdm, Some IOManager_new) = Ok () (m1, Some io1) \<and>
     m_datas m1 ! 5 = None"
  using close_wakes_waiters [OF demo_fdm_ok io_init, of "\<lambda>_. Some True"] by (auto simp: length_IOManager_new)

text \<open>A fiber that sleeps is woken after exactly the requested time only up to 4294967 seconds:
  beyond, \<open>seconds * 1000\<close> overflows \<open>unsigned int\<close> and the timer is shorter; \<open>usleep\<close> drops fractions of a
  millisecond.\<close>

theorem sleep_duration:
  "uint (sleep_ms s) = (uint s * 1000) mod 2 ^ 32 \<and> (uint (sleep_ms s) = uint s * 1000 \<longleftrightarrow> uint s \<le> 4294967) \<and>
   uint (usleep_ms u) = uint u div 1000"
proof -
  have "uint (s * 1000) = (uint s * 1000) mod 2 ^ 32" by (simp add: uint_word_ariths)
  then have a: "uint (sleep_ms s) = (uint s * 1000) mod 2 ^ 32"
    by (simp add: sleep_ms_def unsigned_ucast_eq take_bit_eq_mod mod_mod_cancel)
  have "uint s * 1000 mod 2 ^ 32 = uint s * 1000 \<longleftrightarrow> uint s * 1000 < 2 ^ 32"
    using uint_ge_0 [of s] by (metis mod_pos_pos_trivial mult_nonneg_nonneg pos_mod_bound zero_le_numeral zero_less_numeral zero_less_power)
  then have b: "uint (sleep_ms s) = uint s * 1000 \<longleftrightarrow> uint s \<le> 4294967" unfolding a by auto
  have "uint (u div 1000) = uint u div 1000" by (simp add: uint_div)
  moreover have "uint u div 1000 < 2 ^ 64" "0 \<le> uint u div 1000"
    using uint_bounded [of u] uint_ge_0 [of u] by (simp_all add: div_int_pos_iff)
  ultimately have "uint (usleep_ms u) = uint u div 1000"
    by (simp add: usleep_ms_def unsigned_ucast_eq take_bit_int_eq_self)
  with a b show ?thesis by blast
qed

end
