(* ===== verification/HookWait.thy ===== *)
theory HookWait
  imports Hook
begin

text \<open>
  How a hooked call waits: the part of \<open>do_io\<close> (\<open>src/hook.cc\<close>) between the answer \<open>EAGAIN\<close> and the retry, over the state it
  really changes, the timers and the events of the thread's \<open>IOManager\<close> and the shared \<open>timer_info\<close> object.
  \<open>connect_with_timeout\<close> waits for writability in the same way.

  \<open>h_tinfo\<close> maps the address of a \<open>timer_info\<close> to its \<open>cancelled\<close> field as long as a \<open>shared_ptr\<close> keeps it alive.
  \<open>CancelLambda\<close> is the closure given to \<open>addConditionTimer\<close>, \<open>BindOnTimer\<close> what that function registers.
\<close>

unbundle bit_operations_syntax

datatype lambda = CancelLambda nat int u32

datatype 'u hcb = UserCb 'u | BindOnTimer nat lambda

record 'u hio =
  h_iom :: "'u hcb iom"
  h_tm :: "'u hcb TimerManager"
  h_tinfo :: "nat \<rightharpoonup> int"

definition on_iom :: "('u hcb iom \<Rightarrow> ('a, 'u hcb iom) outcome) \<Rightarrow> 'u hio \<Rightarrow> ('a, 'u hio) outcome" where
  "on_iom f h = (case f (h_iom h) of
     Ok v io \<Rightarrow> Ok v (h\<lparr>h_iom := io\<rparr>) | Throw e io \<Rightarrow> Throw e (h\<lparr>h_iom := io\<rparr>) | Crash x \<Rightarrow> Crash x)"

definition on_tm :: "('u hcb TimerManager \<Rightarrow> ('a, 'u hcb TimerManager) outcome) \<Rightarrow> 'u hio \<Rightarrow> ('a, 'u hio) outcome" where
  "on_tm f h = (case f (h_tm h) of
     Ok v tm \<Rightarrow> Ok v (h\<lparr>h_tm := tm\<rparr>) | Throw e tm \<Rightarrow> Throw e (h\<lparr>h_tm := tm\<rparr>) | Crash x \<Rightarrow> Crash x)"

definition cancel_timer :: "nat option \<Rightarrow> 'u hio \<Rightarrow> (unit, 'u hio) outcome" where
  "cancel_timer t h = (case t of None \<Rightarrow> Ok () h | Some a \<Rightarrow> andThen (on_tm (cancel a)) (\<lambda>_. ret ()) h)"

text \<open>What the timer runs.\<close>

fun timeout_lambda :: "bool \<Rightarrow> lambda \<Rightarrow> 'u hio \<Rightarrow> (unit, 'u hio) outcome" where
  "timeout_lambda fail (CancelLambda winfo fd event) h =
     (case h_tinfo h winfo of
        None \<Rightarrow> Ok () h
      | Some cancelled \<Rightarrow>
          if cancelled \<noteq> 0 then Ok () h
          else andThen (on_iom (cancelEvent fail fd event)) (\<lambda>_. ret ())
                 (h\<lparr>h_tinfo := (h_tinfo h)(winfo \<mapsto> ETIMEDOUT)\<rparr>))"

definition run_bound :: "bool \<Rightarrow> nat \<Rightarrow> lambda \<Rightarrow> 'u hio \<Rightarrow> (unit, 'u hio) outcome" where
  "run_bound fail w cb h = OnTimer (\<lambda>w. h_tinfo h w \<noteq> None) w (timeout_lambda fail cb) h"

datatype blocked = Failed | Yielded "nat option"

text \<open>Up to \<open>YieldToHold\<close>: the timer, the event; a failed registration cancels the timer.\<close>

definition do_io_block :: "u64 \<Rightarrow> nat \<Rightarrow> bool \<Rightarrow> nat \<Rightarrow> nat \<Rightarrow> fstate \<Rightarrow> u64 \<Rightarrow> nat \<Rightarrow> int \<Rightarrow> u32 \<Rightarrow> 'u hio \<Rightarrow>
    (blocked, 'u hio) outcome" where
  "do_io_block now a fail sched fiber st to tinfo fd event h =
     (let timer = (if to \<noteq> - 1 then Some a else None);
          h = (if to \<noteq> - 1
               then h\<lparr>h_tm := snd (addConditionTimer BindOnTimer now a to (CancelLambda tinfo fd event) tinfo False (h_tm h))\<rparr>
               else h)
      in andThen (on_iom (addEvent fail (Some sched) fiber st fd event None)) (\<lambda>rt h.
           if rt \<noteq> 0 then andThen (cancel_timer timer) (\<lambda>_. ret Failed) h
           else Ok (Yielded timer) h) h)"

text \<open>From the return of \<open>YieldToHold\<close> on: \<open>Some errno\<close> means return -1, \<open>None\<close> means \<open>goto retry\<close>.\<close>

definition do_io_resume :: "nat option \<Rightarrow> nat \<Rightarrow> 'u hio \<Rightarrow> (int option, 'u hio) outcome" where
  "do_io_resume timer tinfo h =
     andThen (cancel_timer timer) (\<lambda>_ h.
       case h_tinfo h tinfo of
         None \<Rightarrow> Crash UseAfterFree
       | Some cancelled \<Rightarrow> Ok (if cancelled \<noteq> 0 then Some cancelled else None) h) h"
subsection \<open>Lemmas\<close>

lemma on_iom_Ok [simp]: "f (h_iom h) = Ok v io \<Longrightarrow> on_iom f h = Ok v (h\<lparr>h_iom := io\<rparr>)"
  by (simp add: on_iom_def)

lemma on_tm_Ok [simp]: "f (h_tm h) = Ok v tm \<Longrightarrow> on_tm f h = Ok v (h\<lparr>h_tm := tm\<rparr>)"
  by (simp add: on_tm_def)

lemma handle_event_length:
  "handle_event fail fd ev io = Ok r io' \<Longrightarrow> length (io_ctxs io') = length (io_ctxs io)"
  by (auto simp: handle_event_def Let_def trigger_if_def trigger_and_count_def set_ctx_def andThen_def
      split: if_splits prod.splits sum.splits outcome.splits)

lemma cancelEvent_length:
  "cancelEvent fail fd event io = Ok r io' \<Longrightarrow> length (io_ctxs io') = length (io_ctxs io)"
  by (auto simp: cancelEvent_def Let_def trigger_and_count_def set_ctx_def andThen_def
      split: if_splits prod.splits sum.splits outcome.splits)

lemma one_direction:
  assumes "event \<in> {READ, WRITE}" and "(m :: u32) \<in> event_masks"
  shows "real_events event = event" "wakes event c = [waiter_of event c]"
    "m AND event \<noteq> 0 \<Longrightarrow> event AND NOT m = 0" "(m AND NOT event) AND event = 0"
  using assms by (auto simp: real_events_def Let_def ev_defs wakes_def waiter_of_def event_masks_def)

text \<open>A descriptor with a waiter: either the report or the cancellation wakes it, and the other then finds nothing.\<close>

lemma event_or_cancel:
  assumes "io_inv io" and "i < length (io_ctxs io)" and "event \<in> {READ, WRITE}"
    and "fc_events (io_ctxs io ! i) AND event \<noteq> 0"
  shows "\<exists>io'. handle_event False (int i) event io = Ok () io' \<and> io_inv io' \<and>
      io_sched io' = io_sched io @ [waiter_of event (io_ctxs io ! i)] \<and> cancelEvent fail (int i) event io' = Ok False io'"
    and "\<exists>io'. cancelEvent False (int i) event io = Ok True io' \<and> io_inv io' \<and>
      io_sched io' = io_sched io @ [waiter_of event (io_ctxs io ! i)] \<and> handle_event fail (int i) event io' = Ok () io'"
proof -
  have m: "fc_events (io_ctxs io ! i) \<in> event_masks" using io_invD(1) [OF assms(1,2)] by (simp add: ctx_ok_def)
  note one = one_direction(1,3,4) [OF assms(3) m] and w = one_direction(2) [OF assms(3) m, of "io_ctxs io ! i"]
  obtain io1 where h: "handle_event False (int i) event io = Ok () io1" "io_inv io1"
    "io_sched io1 = io_sched io @ [waiter_of event (io_ctxs io ! i)]"
    "fc_events (io_ctxs io1 ! i) = fc_events (io_ctxs io ! i) AND NOT event"
    using handle_event_correct [OF assms(1,2), of event False] one(1,2) w assms(4) by auto
  have "i < length (io_ctxs io1)" using handle_event_length [OF h(1)] assms(2) by simp
  then have "cancelEvent fail (int i) event io1 = Ok False io1"
    using cancelEvent_correct [OF h(2) _ assms(3), of i fail] h(4) one(3) by auto
  with h show "\<exists>io'. handle_event False (int i) event io = Ok () io' \<and> io_inv io' \<and>
      io_sched io' = io_sched io @ [waiter_of event (io_ctxs io ! i)] \<and> cancelEvent fail (int i) event io' = Ok False io'"
    by blast
  obtain io2 where c: "cancelEvent False (int i) event io = Ok True io2" "io_inv io2"
    "io_sched io2 = io_sched io @ [waiter_of event (io_ctxs io ! i)]"
    "fc_events (io_ctxs io2 ! i) = fc_events (io_ctxs io ! i) AND NOT event"
    using cancelEvent_correct [OF assms(1-3), of False] assms(4) by auto
  have "handle_event fail (int i) event io2 = Ok () io2"
    using c(4) one(1,3) by (simp add: handle_event_def Let_def NONE_def)
  with c show "\<exists>io'. cancelEvent False (int i) event io = Ok True io' \<and> io_inv io' \<and>
      io_sched io' = io_sched io @ [waiter_of event (io_ctxs io ! i)] \<and> handle_event fail (int i) event io' = Ok () io'"
    by blast
qed

lemma do_io_block_waits:
  assumes "io_inv (h_iom h)" and "i < length (io_ctxs (h_iom h))" and "fc_events (io_ctxs (h_iom h) ! i) AND event = 0"
    and "event \<in> {READ, WRITE}" and "to \<noteq> - 1"
  shows "\<exists>io. do_io_block now a False s f F_EXEC to ti (int i) event h =
      Ok (Yielded (Some a)) (h\<lparr>h_iom := io,
        h_tm := snd (addTimer now a to (Some (BindOnTimer ti (CancelLambda ti (int i) event))) False (h_tm h))\<rparr>) \<and>
    io_inv io \<and> i < length (io_ctxs io) \<and> io_sched io = io_sched (h_iom h) \<and>
    fc_events (io_ctxs io ! i) AND event \<noteq> 0 \<and>
    waiter_of event (io_ctxs io ! i) = (s, \<lparr>tk_thread = -1, tk_fiber = Some f, tk_cb = None\<rparr>)"
proof -
  obtain io where io: "addEvent False (Some s) f F_EXEC (int i) event None (h_iom h) = Ok 0 io" "io_inv io"
    "io_sched io = io_sched (h_iom h)" "i < length (io_ctxs io)" "fc_events (io_ctxs io ! i) AND event \<noteq> 0"
    "waiter_of event (io_ctxs io ! i) = (s, \<lparr>tk_thread = -1, tk_fiber = Some f, tk_cb = None\<rparr>)"
    using addEvent_correct [OF assms(1) _ assms(4), of "int i" None F_EXEC False s f] assms(3) by auto
  then show ?thesis using assms(5)
    by (auto simp: do_io_block_def Let_def addConditionTimer_def intro!: exI [of _ io])
qed

subsection \<open>Properties\<close>




end
