(* ===== verification/CStrings.thy ===== *)
theory CStrings
  imports StdContainers
begin

text \<open>
  What the sources use of C strings and of output streams.

  A \<open>std::string\<close> is a \<open>string\<close>; \<open>c_str\<close> is what a C function sees of it, the characters before the first
  NUL. \<open>tolower\<close> and \<open>strcasecmp\<close> are those of the C locale. \<open>dec\<close> is what a stream prints for an unsigned
  number and \<open>undec\<close> the value of a digit string.
\<close>

definition c_str :: "string \<Rightarrow> string" where
  "c_str s = takeWhile (\<lambda>c. c \<noteq> CHR 0x00) s"

lemma c_str_no_NUL [simp]: "CHR 0x00 \<notin> set (c_str s)"
  by (auto simp: c_str_def dest: set_takeWhileD)

lemma c_str_id [simp]: "CHR 0x00 \<notin> set s \<Longrightarrow> c_str s = s"
  by (auto simp: c_str_def intro: takeWhile_eq_all_conv [THEN iffD2])

lemma c_str_idem [simp]: "c_str (c_str s) = c_str s"
  by simp

lemma c_str_append: "CHR 0x00 \<notin> set s \<Longrightarrow> c_str (s @ t) = s @ c_str t"
  by (induction s) (auto simp: c_str_def)

definition code :: "char \<Rightarrow> int" where
  "code c = int (of_char c)"

definition tolower :: "char \<Rightarrow> int" where
  "tolower c = (if 65 \<le> code c \<and> code c \<le> 90 then code c + 32 else code c)"

text \<open>The difference of the first two characters that differ, the end of a string counting as 0.\<close>

fun strcasecmp :: "string \<Rightarrow> string \<Rightarrow> int" where
  "strcasecmp [] [] = 0"
| "strcasecmp [] (b # bs) = - tolower b"
| "strcasecmp (a # as) [] = tolower a"
| "strcasecmp (a # as) (b # bs) =
     (if tolower a = tolower b then strcasecmp as bs else tolower a - tolower b)"

lemma tolower_pos: "c \<noteq> CHR 0x00 \<Longrightarrow> 0 < tolower c"
proof -
  assume c: "c \<noteq> CHR 0x00"
  have "(of_char c :: nat) \<noteq> of_char (CHR 0x00)" using c by (simp only: of_char_eq_iff simp_thms)
  then have "0 < (of_char c :: nat)" by simp
  then have "0 < code c" by (simp add: code_def)
  then show ?thesis by (simp add: tolower_def)
qed

lemma strcasecmp_sym: "strcasecmp y x = - strcasecmp x y"
  by (induction x y rule: strcasecmp.induct) auto

lemma strcasecmp_0:
  "CHR 0x00 \<notin> set x \<Longrightarrow> CHR 0x00 \<notin> set y \<Longrightarrow> strcasecmp x y = 0 \<longleftrightarrow> map tolower x = map tolower y"
proof (induction x y rule: strcasecmp.induct)
  case (2 b bs)
  then have "b \<noteq> CHR 0x00" by auto
  then show ?case using tolower_pos [of b] by simp
next
  case (3 a as)
  then have "a \<noteq> CHR 0x00" by auto
  then show ?case using tolower_pos [of a] by simp
qed auto

lemma strcasecmp_trans:
  "CHR 0x00 \<notin> set x \<Longrightarrow> CHR 0x00 \<notin> set y \<Longrightarrow> CHR 0x00 \<notin> set z \<Longrightarrow>
   strcasecmp x y < 0 \<Longrightarrow> strcasecmp y z < 0 \<Longrightarrow> strcasecmp x z < 0"
proof (induction x y arbitrary: z rule: strcasecmp.induct)
  case (2 b bs)
  then obtain c cs where z: "z = c # cs"
    using tolower_pos [of b] by (cases z) auto
  then have "c \<noteq> CHR 0x00" using 2 by auto
  then show ?case using z tolower_pos [of c] by simp
next
  case (3 a as)
  then have "a \<noteq> CHR 0x00" by auto
  then show ?case using 3 tolower_pos [of a] by simp
next
  case (4 a as b bs)
  have "b \<noteq> CHR 0x00" using 4 by auto
  then obtain c cs where z: "z = c # cs" using 4 tolower_pos [of b] by (cases z) auto
  show ?case using 4 z by (auto split: if_splits)
qed simp

text \<open>Equality up to case, the relation the maps with \<open>CaseInsensitiveLess\<close> identify keys by.\<close>

definition ci_eq :: "string \<Rightarrow> string \<Rightarrow> bool" where
  "ci_eq a b \<longleftrightarrow> map tolower (c_str a) = map tolower (c_str b)"

lemma strcasecmp_c_str: "strcasecmp (c_str a) (c_str b) = 0 \<longleftrightarrow> ci_eq a b"
  by (simp add: strcasecmp_0 ci_eq_def)

subsection \<open>Numbers\<close>

definition digit :: "nat \<Rightarrow> char" where
  "digit d = char_of (48 + d)"

definition digit_val :: "char \<Rightarrow> nat" where
  "digit_val c = of_char c - 48"

lemma digit_val_digit [simp]: "d < 10 \<Longrightarrow> digit_val (digit d) = d"
  by (simp add: digit_val_def digit_def)

fun dec :: "nat \<Rightarrow> string" where
  "dec n = (if n < 10 then [digit n] else dec (n div 10) @ [digit (n mod 10)])"

declare dec.simps [simp del]

definition undec :: "string \<Rightarrow> nat" where
  "undec s = foldl (\<lambda>n c. 10 * n + digit_val c) 0 s"

lemma undec_dec [simp]: "undec (dec n) = n"
  by (induction n rule: dec.induct) (simp add: dec.simps undec_def)

lemma dec_digits: "c \<in> set (dec n) \<Longrightarrow> \<exists>d<10. c = digit d"
proof (induction n rule: dec.induct)
  case (1 n)
  show ?case
  proof (cases "n < 10")
    case True
    then show ?thesis using 1 by (auto simp: dec.simps [of n])
  next
    case False
    have "n mod 10 < 10" by simp
    then have "\<exists>d<10. digit (n mod 10) = digit d" by blast
    then show ?thesis using 1 False by (auto simp: dec.simps [of n])
  qed
qed

lemma digit_range: "d < 10 \<Longrightarrow> 48 \<le> code (digit d) \<and> code (digit d) \<le> 57"
  by (simp add: code_def digit_def)

lemma dec_not: "\<not> (48 \<le> code c \<and> code c \<le> 57) \<Longrightarrow> c \<notin> set (dec n)"
  using dec_digits digit_range by blast

lemma dec_nonempty [simp]: "dec n \<noteq> []"
  by (simp add: dec.simps)

text \<open>Hexadecimal, as \<open>std::hex\<close> prints it, and lists with separators.\<close>

definition xdigit :: "nat \<Rightarrow> char" where
  "xdigit d = (if d < 10 then char_of (48 + d) else char_of (87 + d))"

fun hex :: "nat \<Rightarrow> string" where
  "hex n = (if n < 16 then [xdigit n] else hex (n div 16) @ [xdigit (n mod 16)])"

declare hex.simps [simp del]

fun join :: "string \<Rightarrow> string list \<Rightarrow> string" where
  "join sep [] = []"
| "join sep (x # xs) = x @ concat (map (\<lambda>y. sep @ y) xs)"

definition xdigit_val :: "char \<Rightarrow> nat" where
  "xdigit_val c = (if of_char c < (58 :: nat) then of_char c - 48 else of_char c - 87)"

definition unhex :: "string \<Rightarrow> nat" where
  "unhex s = foldl (\<lambda>n c. 16 * n + xdigit_val c) 0 s"

lemma xdigit_val_xdigit [simp]: "d < 16 \<Longrightarrow> xdigit_val (xdigit d) = d"
  by (simp add: xdigit_val_def xdigit_def)

lemma unhex_hex [simp]: "unhex (hex n) = n"
  by (induction n rule: hex.induct) (simp add: hex.simps unhex_def)

lemma hex_nonempty [simp]: "hex n \<noteq> []"
  by (simp add: hex.simps)

lemma xdigit_range:
  "d < 16 \<Longrightarrow> 48 \<le> code (xdigit d) \<and> code (xdigit d) \<le> 57 \<or> 97 \<le> code (xdigit d) \<and> code (xdigit d) \<le> 102"
  by (simp add: code_def xdigit_def)

lemma hex_digits: "c \<in> set (hex n) \<Longrightarrow> \<exists>d<16. c = xdigit d"
proof (induction n rule: hex.induct)
  case (1 n)
  have "\<exists>d<16. xdigit (n mod 16) = xdigit d" by (rule exI [of _ "n mod 16"]) simp
  then show ?case using 1 by (cases "n < 16") (auto simp: hex.simps [of n])
qed

lemma hex_not: "\<not> (48 \<le> code c \<and> code c \<le> 57 \<or> 97 \<le> code c \<and> code c \<le> 102) \<Longrightarrow> c \<notin> set (hex n)"
  using hex_digits xdigit_range by blast

subsection \<open>Fields between separators\<close>

fun split_on :: "char \<Rightarrow> string \<Rightarrow> string list" where
  "split_on c [] = [[]]"
| "split_on c (x # xs) =
     (if x = c then [] # split_on c xs
      else case split_on c xs of [] \<Rightarrow> [[x]] | y # ys \<Rightarrow> (x # y) # ys)"

lemma split_on_nonempty [simp]: "split_on c xs \<noteq> []"
  by (induction xs) (auto split: list.splits)

lemma split_on_none: "c \<notin> set xs \<Longrightarrow> split_on c xs = [xs]"
  by (induction xs) auto

lemma split_on_append: "split_on c (xs @ c # ys) = split_on c xs @ split_on c ys"
  by (induction xs) (auto split: list.splits)

lemma split_on_join:
  "xs \<noteq> [] \<Longrightarrow> (\<And>x. x \<in> set xs \<Longrightarrow> c \<notin> set x) \<Longrightarrow> split_on c (join [c] xs) = xs"
proof (induction xs rule: induct_list012)
  case (2 x)
  then show ?case by (simp add: split_on_none)
next
  case (3 x y zs)
  have "join [c] (x # y # zs) = x @ c # join [c] (y # zs)" by simp
  moreover have "split_on c x = [x]" using 3(4) [of x] by (simp add: split_on_none)
  moreover have "split_on c (join [c] (y # zs)) = y # zs" using 3 by simp
  ultimately show ?case by (simp only: split_on_append append_Cons append_Nil)
qed simp

end
