(* ===== verification/KeyedStore.thy ===== *)
theory KeyedStore
  imports Prelude
begin

text \<open>
  The contract of everything in the program that stores values under keys: header, parameter and cookie maps, routing
  tables, program arguments.

  A provider gives a lookup, an insertion that replaces, a deletion and an invariant; \<open>same\<close> says which keys it
  identifies. What clients rely on is proved once for any history of operations: a lookup
  returns what the last operation on the key left there.
\<close>

datatype ('k, 'v) store_op = Put 'k 'v | Del 'k

fun run_op :: "('k \<Rightarrow> 'v \<Rightarrow> 's \<Rightarrow> 's) \<Rightarrow> ('k \<Rightarrow> 's \<Rightarrow> 's) \<Rightarrow> ('k, 'v) store_op \<Rightarrow> 's \<Rightarrow> 's" where
  "run_op put del (Put k v) s = put k v s"
| "run_op put del (Del k) s = del k s"

definition replay :: "('k \<Rightarrow> 'v \<Rightarrow> 's \<Rightarrow> 's) \<Rightarrow> ('k \<Rightarrow> 's \<Rightarrow> 's) \<Rightarrow> ('k, 'v) store_op list \<Rightarrow> 's \<Rightarrow> 's" where
  "replay put del ops s = fold (run_op put del) ops s"

fun op_key :: "('k, 'v) store_op \<Rightarrow> 'k" where
  "op_key (Put k v) = k"
| "op_key (Del k) = k"

fun op_value :: "('k, 'v) store_op \<Rightarrow> 'v option" where
  "op_value (Put k v) = Some v"
| "op_value (Del k) = None"

text \<open>The value the last operation on \<open>k\<close> leaves, \<open>before\<close> if there is none.\<close>

definition last_value :: "('k \<Rightarrow> 'k \<Rightarrow> bool) \<Rightarrow> 'k \<Rightarrow> ('k, 'v) store_op list \<Rightarrow> 'v option \<Rightarrow> 'v option" where
  "last_value same k ops before =
     (case find (\<lambda>c. same (op_key c) k) (rev ops) of None \<Rightarrow> before | Some c \<Rightarrow> op_value c)"

lemma replay_simps [simp]:
  "replay put del [] s = s" "replay put del (ops @ [c]) s = run_op put del c (replay put del ops s)"
  by (simp_all add: replay_def)

lemma last_value_simps [simp]:
  "last_value same k [] b = b"
  "last_value same k (ops @ [c]) b = (if same (op_key c) k then op_value c else last_value same k ops b)"
  by (simp_all add: last_value_def)

locale keyed_store =
  fixes inv :: "'s \<Rightarrow> bool"
    and same :: "'k \<Rightarrow> 'k \<Rightarrow> bool"
    and lookup :: "'k \<Rightarrow> 's \<Rightarrow> 'v option"
    and put :: "'k \<Rightarrow> 'v \<Rightarrow> 's \<Rightarrow> 's"
    and del :: "'k \<Rightarrow> 's \<Rightarrow> 's"
  assumes lookup_put: "inv s \<Longrightarrow> lookup k' (put k v s) = (if same k k' then Some v else lookup k' s)"
    and lookup_del: "inv s \<Longrightarrow> lookup k' (del k s) = (if same k k' then None else lookup k' s)"
    and inv_put: "inv s \<Longrightarrow> inv (put k v s)"
    and inv_del: "inv s \<Longrightarrow> inv (del k s)"
begin

lemma inv_op: "inv s \<Longrightarrow> inv (run_op put del c s)"
  by (cases c) (simp_all add: inv_put inv_del)

lemma lookup_op: "inv s \<Longrightarrow> lookup k (run_op put del c s) = (if same (op_key c) k then op_value c else lookup k s)"
  by (cases c) (simp_all add: lookup_put lookup_del)

lemma inv_replay: "inv s \<Longrightarrow> inv (replay put del ops s)"
  by (induction ops rule: rev_induct) (simp_all add: inv_op)

lemma lookup_replay: "inv s \<Longrightarrow> lookup k (replay put del ops s) = last_value same k ops (lookup k s)"
  by (induction ops rule: rev_induct) (simp_all add: lookup_op inv_replay)

end

end
