(* ===== verification/HttpMessage.thy ===== *)
theory HttpMessage
  imports CStrings KeyedStore "HOL-Library.Sublist"
begin

text \<open>
  \<open>src/http.cc\<close> and \<open>include/http/http.hh\<close>: the methods and status codes of HTTP, the request and response objects
  and their serialisation.

  The X-macro tables are lists in the order of the source, the third argument stringised as the preprocessor
  does it. A \<open>HttpStatus\<close> is its 32-bit value, since the parser casts any number to it; the maps
  \<open>m_headers\<close>, \<open>m_params\<close> and \<open>m_cookies\<close> are association lists in the order of \<open>CaseInsensitiveLess\<close>.
  \<open>boost::lexical_cast\<close> is the argument \<open>cast\<close> of \<open>getAs\<close> and \<open>checkGetAs\<close>, \<open>None\<close> when it throws.
\<close>

unbundle bit_operations_syntax

subsection \<open>Methods and status codes\<close>

datatype HttpMethod =
    DELETE | GET | HEAD | POST | PUT | CONNECT | OPTIONS | TRACE | COPY | LOCK | MKCOL | MOVE |
    PROPFIND | PROPPATCH | SEARCH | UNLOCK | BIND | REBIND | UNBIND | ACL | REPORT | MKACTIVITY |
    CHECKOUT | MERGE | MSEARCH | NOTIFY | SUBSCRIBE | UNSUBSCRIBE | PATCH | PURGE | MKCALENDAR |
    LINK | UNLINK | SOURCE | INVAILD_METHOD

definition HTTP_METHOD_MAP :: "(nat \<times> HttpMethod \<times> string) list" where
  "HTTP_METHOD_MAP = [
     (0, DELETE, ''DELETE''), (1, GET, ''GET''), (2, HEAD, ''HEAD''), (3, POST, ''POST''),
     (4, PUT, ''PUT''), (5, CONNECT, ''CONNECT''), (6, OPTIONS, ''OPTIONS''),
     (7, TRACE, ''TRACE''), (8, COPY, ''COPY''), (9, LOCK, ''LOCK''), (10, MKCOL, ''MKCOL''),
     (11, MOVE, ''MOVE''), (12, PROPFIND, ''PROPFIND''), (13, PROPPATCH, ''PROPPATCH''),
     (14, SEARCH, ''SEARCH''), (15, UNLOCK, ''UNLOCK''), (16, BIND, ''BIND''),
     (17, REBIND, ''REBIND''), (18, UNBIND, ''UNBIND''), (19, ACL, ''ACL''),
     (20, REPORT, ''REPORT''), (21, MKACTIVITY, ''MKACTIVITY''), (22, CHECKOUT, ''CHECKOUT''),
     (23, MERGE, ''MERGE''), (24, MSEARCH, ''M - SEARCH''), (25, NOTIFY, ''NOTIFY''),
     (26, SUBSCRIBE, ''SUBSCRIBE''), (27, UNSUBSCRIBE, ''UNSUBSCRIBE''), (28, PATCH, ''PATCH''),
     (29, PURGE, ''PURGE''), (30, MKCALENDAR, ''MKCALENDAR''), (31, LINK, ''LINK''),
     (32, UNLINK, ''UNLINK''), (33, SOURCE, ''SOURCE'')]"

type_synonym HttpStatus = u32

definition HTTP_STATUS_MAP :: "(HttpStatus \<times> string) list" where
  "HTTP_STATUS_MAP = [
     (100, ''Continue''), (101, ''Switching Protocols''), (102, ''Processing''), (200, ''OK''),
     (201, ''Created''), (202, ''Accepted''), (203, ''Non - Authoritative Information''),
     (204, ''No Content''), (205, ''Reset Content''), (206, ''Partial Content''),
     (207, ''Multi - Status''), (208, ''Already Reported''), (226, ''IM Used''),
     (300, ''Multiple Choices''), (301, ''Moved Permanently''), (302, ''Found''),
     (303, ''See Other''), (304, ''Not Modified''), (305, ''Use Proxy''),
     (307, ''Temporary Redirect''), (308, ''Permanent Redirect''), (400, ''Bad Request''),
     (401, ''Unauthorized''), (402, ''Payment Required''), (403, ''Forbidden''),
     (404, ''Not Found''), (405, ''Method Not Allowed''), (406, ''Not Acceptable''),
     (407, ''Proxy Authentication Required''), (408, ''Request Timeout''), (409, ''Conflict''),
     (410, ''Gone''), (411, ''Length Required''), (412, ''Precondition Failed''),
     (413, ''Payload Too Large''), (414, ''URI Too Long''), (415, ''Unsupported Media Type''),
     (416, ''Range Not Satisfiable''), (417, ''Expectation Failed''),
     (421, ''Misdirected Request''), (422, ''Unprocessable Entity''), (423, ''Locked''),
     (424, ''Failed Dependency''), (426, ''Upgrade Required''), (428, ''Precondition Required''),
     (429, ''Too Many Requests''), (431, ''Request Header Fields Too Large''),
     (451, ''Unavailable For Legal Reasons''), (500, ''Internal Server Error''),
     (501, ''Not Implemented''), (502, ''Bad Gateway''), (503, ''Service Unavailable''),
     (504, ''Gateway Timeout''), (505, ''HTTP Version Not Supported''),
     (506, ''Variant Also Negotiates''), (507, ''Insufficient Storage''), (508, ''Loop Detected''),
     (510, ''Not Extended''), (511, ''Network Authentication Required'')]"

definition StringToHttpMethod :: "string \<Rightarrow> HttpMethod" where
  "StringToHttpMethod m =
     (case find (\<lambda>(_, _, str). str = c_str m) HTTP_METHOD_MAP of
        Some (_, name, _) \<Rightarrow> name | None \<Rightarrow> INVAILD_METHOD)"

text \<open>\<open>strncmp(#string, m, strlen(#string)) == 0\<close>: the table entry is a prefix of the C string.\<close>

definition CharsToHttpMethod :: "string \<Rightarrow> HttpMethod" where
  "CharsToHttpMethod m =
     (case find (\<lambda>(_, _, str). take (length str) (c_str m) = str) HTTP_METHOD_MAP of
        Some (_, name, _) \<Rightarrow> name | None \<Rightarrow> INVAILD_METHOD)"

definition s_method_string :: "string list" where
  "s_method_string = map (\<lambda>(_, _, str). str) HTTP_METHOD_MAP"

text \<open>The value of an enumerator: the first column; \<open>INVAILD_METHOD\<close> follows the last one.\<close>

definition method_num :: "HttpMethod \<Rightarrow> nat" where
  "method_num m = (case find (\<lambda>(_, name, _). name = m) HTTP_METHOD_MAP of Some (num, _) \<Rightarrow> num | None \<Rightarrow> 34)"

definition HttpMethodToString :: "HttpMethod \<Rightarrow> string" where
  "HttpMethodToString m =
     (let idx = method_num m in
      if idx \<ge> length s_method_string then ''<unknow>'' else s_method_string ! idx)"

definition HttpStatusToString :: "HttpStatus \<Rightarrow> string" where
  "HttpStatusToString s = (case map_of HTTP_STATUS_MAP s of Some desc \<Rightarrow> desc | None \<Rightarrow> ''<unknow>'')"

subsection \<open>Maps with case-insensitive keys\<close>

definition CaseInsensitiveLess :: "string \<Rightarrow> string \<Rightarrow> bool" where
  "CaseInsensitiveLess lhs rhs \<longleftrightarrow> strcasecmp (c_str lhs) (c_str rhs) < 0"

type_synonym MapType = "(string \<times> string) list"

abbreviation ci_find :: "string \<Rightarrow> MapType \<Rightarrow> string option" where
  "ci_find \<equiv> map_find CaseInsensitiveLess"

definition checkGetAs :: "(string \<Rightarrow> 'a option) \<Rightarrow> MapType \<Rightarrow> string \<Rightarrow> 'a \<Rightarrow> bool \<times> 'a" where
  "checkGetAs cast m key def =
     (case ci_find key m of
        None \<Rightarrow> (False, def)
      | Some v \<Rightarrow> (case cast v of Some x \<Rightarrow> (True, x) | None \<Rightarrow> (False, def)))"

definition getAs :: "(string \<Rightarrow> 'a option) \<Rightarrow> MapType \<Rightarrow> string \<Rightarrow> 'a \<Rightarrow> 'a" where
  "getAs cast m key def =
     (case ci_find key m of
        None \<Rightarrow> def
      | Some v \<Rightarrow> (case cast v of Some x \<Rightarrow> x | None \<Rightarrow> def))"

subsection \<open>Requests\<close>

record HttpRequest =
  rq_close :: bool
  rq_version :: u8
  rq_method :: HttpMethod
  rq_path :: string
  rq_query :: string
  rq_body :: string
  rq_fragment :: string
  rq_headers :: MapType
  rq_params :: MapType
  rq_cookies :: MapType

definition HttpRequest_new :: "u8 \<Rightarrow> bool \<Rightarrow> HttpRequest" where
  "HttpRequest_new version close =
     \<lparr>rq_close = close, rq_version = version, rq_method = GET, rq_path = ''/'', rq_query = [], rq_body = [],
      rq_fragment = [], rq_headers = [], rq_params = [], rq_cookies = []\<rparr>"

definition getHeader :: "string \<Rightarrow> string \<Rightarrow> HttpRequest \<Rightarrow> string" where
  "getHeader key def r = (case ci_find key (rq_headers r) of None \<Rightarrow> def | Some v \<Rightarrow> v)"

definition getParam :: "string \<Rightarrow> string \<Rightarrow> HttpRequest \<Rightarrow> string" where
  "getParam key def r = (case ci_find key (rq_params r) of None \<Rightarrow> def | Some v \<Rightarrow> v)"

definition getCookie :: "string \<Rightarrow> string \<Rightarrow> HttpRequest \<Rightarrow> string" where
  "getCookie key def r = (case ci_find key (rq_cookies r) of None \<Rightarrow> def | Some v \<Rightarrow> v)"

definition setMethod :: "HttpMethod \<Rightarrow> HttpRequest \<Rightarrow> HttpRequest" where
  "setMethod v r = r\<lparr>rq_method := v\<rparr>"

definition setVersion :: "u8 \<Rightarrow> HttpRequest \<Rightarrow> HttpRequest" where
  "setVersion v r = r\<lparr>rq_version := v\<rparr>"

definition setPath :: "string \<Rightarrow> HttpRequest \<Rightarrow> HttpRequest" where
  "setPath v r = r\<lparr>rq_path := v\<rparr>"

definition setQuery :: "string \<Rightarrow> HttpRequest \<Rightarrow> HttpRequest" where
  "setQuery v r = r\<lparr>rq_query := v\<rparr>"

definition setFragment :: "string \<Rightarrow> HttpRequest \<Rightarrow> HttpRequest" where
  "setFragment v r = r\<lparr>rq_fragment := v\<rparr>"

definition setBody :: "string \<Rightarrow> HttpRequest \<Rightarrow> HttpRequest" where
  "setBody v r = r\<lparr>rq_body := v\<rparr>"

definition setHeaders :: "MapType \<Rightarrow> HttpRequest \<Rightarrow> HttpRequest" where
  "setHeaders v r = r\<lparr>rq_headers := v\<rparr>"

definition setParams :: "MapType \<Rightarrow> HttpRequest \<Rightarrow> HttpRequest" where
  "setParams v r = r\<lparr>rq_params := v\<rparr>"

definition setCookies :: "MapType \<Rightarrow> HttpRequest \<Rightarrow> HttpRequest" where
  "setCookies v r = r\<lparr>rq_cookies := v\<rparr>"

definition setHeader :: "string \<Rightarrow> string \<Rightarrow> HttpRequest \<Rightarrow> HttpRequest" where
  "setHeader key v r = r\<lparr>rq_headers := map_assign CaseInsensitiveLess key v (rq_headers r)\<rparr>"

definition setParam :: "string \<Rightarrow> string \<Rightarrow> HttpRequest \<Rightarrow> HttpRequest" where
  "setParam key v r = r\<lparr>rq_params := map_assign CaseInsensitiveLess key v (rq_params r)\<rparr>"

definition setCookie :: "string \<Rightarrow> string \<Rightarrow> HttpRequest \<Rightarrow> HttpRequest" where
  "setCookie key v r = r\<lparr>rq_cookies := map_assign CaseInsensitiveLess key v (rq_cookies r)\<rparr>"

definition setClose :: "bool \<Rightarrow> HttpRequest \<Rightarrow> HttpRequest" where
  "setClose v r = r\<lparr>rq_close := v\<rparr>"

definition delHeader :: "string \<Rightarrow> HttpRequest \<Rightarrow> HttpRequest" where
  "delHeader key r = r\<lparr>rq_headers := map_erase CaseInsensitiveLess key (rq_headers r)\<rparr>"

definition delParam :: "string \<Rightarrow> HttpRequest \<Rightarrow> HttpRequest" where
  "delParam key r = r\<lparr>rq_params := map_erase CaseInsensitiveLess key (rq_params r)\<rparr>"

definition delCookie :: "string \<Rightarrow> HttpRequest \<Rightarrow> HttpRequest" where
  "delCookie key r = r\<lparr>rq_cookies := map_erase CaseInsensitiveLess key (rq_cookies r)\<rparr>"

text \<open>The out-parameter \<open>val\<close> is \<open>None\<close> for a null pointer, otherwise the string it points to.\<close>

definition has_key :: "MapType \<Rightarrow> string \<Rightarrow> string option \<Rightarrow> bool \<times> string option" where
  "has_key m key val =
     (case ci_find key m of
        None \<Rightarrow> (False, val)
      | Some v \<Rightarrow> (True, map_option (\<lambda>_. v) val))"

definition hasHeader :: "string \<Rightarrow> string option \<Rightarrow> HttpRequest \<Rightarrow> bool \<times> string option" where
  "hasHeader key val r = has_key (rq_headers r) key val"

definition hasParam :: "string \<Rightarrow> string option \<Rightarrow> HttpRequest \<Rightarrow> bool \<times> string option" where
  "hasParam key val r = has_key (rq_params r) key val"

definition hasCookie :: "string \<Rightarrow> string option \<Rightarrow> HttpRequest \<Rightarrow> bool \<times> string option" where
  "hasCookie key val r = has_key (rq_cookies r) key val"

definition checkGetHeaderAs :: "(string \<Rightarrow> 'a option) \<Rightarrow> string \<Rightarrow> 'a \<Rightarrow> HttpRequest \<Rightarrow> bool \<times> 'a" where
  "checkGetHeaderAs cast key def r = checkGetAs cast (rq_headers r) key def"

definition getHeaderAs :: "(string \<Rightarrow> 'a option) \<Rightarrow> string \<Rightarrow> 'a \<Rightarrow> HttpRequest \<Rightarrow> 'a" where
  "getHeaderAs cast key def r = getAs cast (rq_headers r) key def"

definition checkGetCookieAs :: "(string \<Rightarrow> 'a option) \<Rightarrow> string \<Rightarrow> 'a \<Rightarrow> HttpRequest \<Rightarrow> bool \<times> 'a" where
  "checkGetCookieAs cast key def r = checkGetAs cast (rq_cookies r) key def"

subsection \<open>Serialisation\<close>

definition CRLF :: string where
  "CRLF = [CHR 0x0D, CHR 0x0A]"

definition version_text :: "u8 \<Rightarrow> string" where
  "version_text v = ''HTTP/'' @ dec (unat (drop_bit 4 v)) @ ''.'' @ dec (unat (v AND 0x0F))"

definition connection_line :: "bool \<Rightarrow> string" where
  "connection_line close = ''Connection: '' @ (if close then ''Close'' else ''Keep-Alive'')"

definition is_connection :: "string \<Rightarrow> bool" where
  "is_connection key \<longleftrightarrow> strcasecmp (c_str key) ''connection'' = 0"

text \<open>The loop over the headers, which skips the connection header.\<close>

fun dump_headers :: "MapType \<Rightarrow> string" where
  "dump_headers [] = []"
| "dump_headers ((k, v) # m) =
     (if is_connection k then dump_headers m
      else k @ '': '' @ v @ CRLF @ dump_headers m)"

definition dump_body :: "string \<Rightarrow> string" where
  "dump_body body =
     (if body \<noteq> [] then ''Content-Length: '' @ dec (length body) @ CRLF @ CRLF @ body else CRLF)"

definition request_line :: "HttpRequest \<Rightarrow> string" where
  "request_line r =
     HttpMethodToString (rq_method r) @ '' '' @ rq_path r
     @ (if rq_query r = [] then [] else ''?'') @ rq_query r
     @ (if rq_fragment r = [] then [] else ''#'') @ rq_fragment r @ '' '' @ version_text (rq_version r)"

definition dump_request :: "HttpRequest \<Rightarrow> string" where
  "dump_request r =
     request_line r @ CRLF @ connection_line (rq_close r) @ CRLF @ dump_headers (rq_headers r)
     @ dump_body (rq_body r)"

subsection \<open>Responses\<close>

record HttpResponse =
  rs_status :: HttpStatus
  rs_version :: u8
  rs_close :: bool
  rs_body :: string
  rs_reason :: string
  rs_headers :: MapType

definition HttpResponse_new :: "u8 \<Rightarrow> bool \<Rightarrow> HttpResponse" where
  "HttpResponse_new version close =
     \<lparr>rs_status = 200, rs_version = version, rs_close = close, rs_body = [], rs_reason = [], rs_headers = []\<rparr>"

definition rs_setStatus :: "HttpStatus \<Rightarrow> HttpResponse \<Rightarrow> HttpResponse" where
  "rs_setStatus status r = r\<lparr>rs_status := status\<rparr>"

definition rs_setVersion :: "u8 \<Rightarrow> HttpResponse \<Rightarrow> HttpResponse" where
  "rs_setVersion version r = r\<lparr>rs_version := version\<rparr>"

definition rs_setBody :: "string \<Rightarrow> HttpResponse \<Rightarrow> HttpResponse" where
  "rs_setBody body r = r\<lparr>rs_body := body\<rparr>"

definition rs_setReason :: "string \<Rightarrow> HttpResponse \<Rightarrow> HttpResponse" where
  "rs_setReason reason r = r\<lparr>rs_reason := reason\<rparr>"

definition rs_setHeaders :: "MapType \<Rightarrow> HttpResponse \<Rightarrow> HttpResponse" where
  "rs_setHeaders headers r = r\<lparr>rs_headers := headers\<rparr>"

definition rs_setClose :: "bool \<Rightarrow> HttpResponse \<Rightarrow> HttpResponse" where
  "rs_setClose close r = r\<lparr>rs_close := close\<rparr>"

definition rs_getHeaders :: "string \<Rightarrow> string \<Rightarrow> HttpResponse \<Rightarrow> string" where
  "rs_getHeaders key def r = (case ci_find key (rs_headers r) of None \<Rightarrow> def | Some v \<Rightarrow> v)"

definition rs_setHeader :: "string \<Rightarrow> string \<Rightarrow> HttpResponse \<Rightarrow> HttpResponse" where
  "rs_setHeader key v r = r\<lparr>rs_headers := map_assign CaseInsensitiveLess key v (rs_headers r)\<rparr>"

definition rs_delHeader :: "string \<Rightarrow> HttpResponse \<Rightarrow> HttpResponse" where
  "rs_delHeader key r = r\<lparr>rs_headers := map_erase CaseInsensitiveLess key (rs_headers r)\<rparr>"

definition rs_checkGetHeaderAs :: "(string \<Rightarrow> 'a option) \<Rightarrow> string \<Rightarrow> 'a \<Rightarrow> HttpResponse \<Rightarrow> bool \<times> 'a" where
  "rs_checkGetHeaderAs cast key def r = checkGetAs cast (rs_headers r) key def"

definition rs_getHeaderAs :: "(string \<Rightarrow> 'a option) \<Rightarrow> string \<Rightarrow> 'a \<Rightarrow> HttpResponse \<Rightarrow> 'a" where
  "rs_getHeaderAs cast key def r = getAs cast (rs_headers r) key def"

definition status_line :: "HttpResponse \<Rightarrow> string" where
  "status_line r =
     version_text (rs_version r) @ '' '' @ dec (unat (rs_status r)) @ '' ''
     @ (if rs_reason r = [] then HttpStatusToString (rs_status r) else rs_reason r)"

definition dump_response :: "HttpResponse \<Rightarrow> string" where
  "dump_response r =
     status_line r @ CRLF @ dump_headers (rs_headers r) @ connection_line (rs_close r) @ CRLF
     @ dump_body (rs_body r)"
subsection \<open>The comparison object\<close>

lemma ci_equivalent [simp]: "equivalent CaseInsensitiveLess a b \<longleftrightarrow> ci_eq a b"
proof -
  have "strcasecmp (c_str b) (c_str a) = - strcasecmp (c_str a) (c_str b)" by (rule strcasecmp_sym)
  then show ?thesis
    unfolding equivalent_def CaseInsensitiveLess_def strcasecmp_c_str [symmetric] by linarith
qed

interpretation ci: strict_weak_order CaseInsensitiveLess
proof unfold_locales
  fix x y z
  show "\<not> CaseInsensitiveLess x x"
    using strcasecmp_c_str [of x x] by (simp add: CaseInsensitiveLess_def ci_eq_def)
  show "CaseInsensitiveLess x y \<Longrightarrow> CaseInsensitiveLess y z \<Longrightarrow> CaseInsensitiveLess x z"
    unfolding CaseInsensitiveLess_def
    using strcasecmp_trans [of "c_str x" "c_str y" "c_str z"] by (simp del: c_str_id)
  show "equivalent CaseInsensitiveLess x y \<Longrightarrow> equivalent CaseInsensitiveLess y z \<Longrightarrow>
    equivalent CaseInsensitiveLess x z"
    by (simp add: ci_eq_def)
qed

lemma is_connection_ci: "is_connection k \<longleftrightarrow> ci_eq k ''connection''"
  using strcasecmp_c_str [of k "''connection''"] by (simp add: is_connection_def)

subsection \<open>The tables\<close>

lemma methods_prefix_free:
  "list_all (\<lambda>(_, n, a). list_all (\<lambda>(_, n', b). n = n' \<or> \<not> prefix a b) HTTP_METHOD_MAP) HTTP_METHOD_MAP"
  by code_simp

lemma methods_no_NUL: "list_all (\<lambda>(_, _, a). CHR 0x00 \<notin> set a) HTTP_METHOD_MAP"
  by code_simp

lemma method_entry:
  "m \<noteq> INVAILD_METHOD \<Longrightarrow> (method_num m, m, HttpMethodToString m) \<in> set HTTP_METHOD_MAP"
proof -
  have "m = INVAILD_METHOD \<or> list_ex (\<lambda>e. e = (method_num m, m, HttpMethodToString m)) HTTP_METHOD_MAP"
    by (induction m) code_simp+
  then show "m \<noteq> INVAILD_METHOD \<Longrightarrow> ?thesis" by (simp add: list_ex_iff)
qed

lemma methods_unique:
  assumes "(i, m, a) \<in> set HTTP_METHOD_MAP" and "(j, n, b) \<in> set HTTP_METHOD_MAP" and "prefix a b \<or> prefix b a"
  shows "m = n"
  using methods_prefix_free assms unfolding list_all_iff by fastforce

lemma find_method:
  assumes "m \<noteq> INVAILD_METHOD" and "P (HttpMethodToString m)"
    and "\<And>a. P a \<Longrightarrow> prefix a (HttpMethodToString m) \<or> prefix (HttpMethodToString m) a"
  shows "\<exists>i a. find (\<lambda>(_, _, a). P a) HTTP_METHOD_MAP = Some (i, m, a)"
proof (cases "find (\<lambda>(_, _, a). P a) HTTP_METHOD_MAP")
  case None
  then show ?thesis using method_entry [OF assms(1)] assms(2) by (auto simp: find_None_iff)
next
  case (Some e)
  obtain i n a where e: "e = (i, n, a)" by (cases e)
  then have "(i, n, a) \<in> set HTTP_METHOD_MAP" "P a" using find_SomeD [OF Some] by auto
  then have "n = m" using methods_unique [OF _ method_entry [OF assms(1)]] assms(3) by blast
  then show ?thesis using Some e by simp
qed

lemma method_name_no_NUL: "m \<noteq> INVAILD_METHOD \<Longrightarrow> CHR 0x00 \<notin> set (HttpMethodToString m)"
  using methods_no_NUL method_entry [of m] by (auto simp: list_all_iff)

lemma CharsToHttpMethod_prefix:
  assumes "m \<noteq> INVAILD_METHOD" and "prefix (HttpMethodToString m) (c_str s)"
  shows "CharsToHttpMethod s = m"
proof -
  have eq: "take (length a) (c_str s) = a \<longleftrightarrow> prefix a (c_str s)" for a
    by (metis append_eq_conv_conj append_take_drop_id prefixE prefixI)
  show ?thesis
    using find_method [OF assms(1), of "\<lambda>a. take (length a) (c_str s) = a"] assms(2) prefix_same_cases
    unfolding CharsToHttpMethod_def eq by fastforce
qed

lemma CharsToHttpMethod_name: "m \<noteq> INVAILD_METHOD \<Longrightarrow> CharsToHttpMethod (HttpMethodToString m @ rest) = m"
  by (rule CharsToHttpMethod_prefix) (simp_all add: c_str_append [OF method_name_no_NUL])

text \<open>The names of the methods and the enumerators correspond: for every method the name is converted back
  to it, and a C string is taken for a method exactly when it begins with its name, whatever follows,
  so \<open>GETX\<close> is a \<open>GET\<close>; the name of the UPnP method is \<open>M - SEARCH\<close>, with blanks, and \<open>M-SEARCH\<close> is
  not recognised.\<close>

theorem http_method_names:
  assumes "m \<noteq> INVAILD_METHOD"
  shows "StringToHttpMethod (HttpMethodToString m) = m \<and>
    CharsToHttpMethod (HttpMethodToString m @ rest) = m \<and>
    (CharsToHttpMethod s = m \<longleftrightarrow> prefix (HttpMethodToString m) (c_str s)) \<and>
    CharsToHttpMethod ''M-SEARCH'' = INVAILD_METHOD"
proof (intro conjI)
  note no = method_name_no_NUL [OF assms]
  show "StringToHttpMethod (HttpMethodToString m) = m"
    using find_method [OF assms, of "\<lambda>a. a = HttpMethodToString m"] no
    by (fastforce simp: StringToHttpMethod_def)
  show "CharsToHttpMethod (HttpMethodToString m @ rest) = m"
    by (rule CharsToHttpMethod_name [OF assms])
  show "CharsToHttpMethod s = m \<longleftrightarrow> prefix (HttpMethodToString m) (c_str s)"
  proof
    assume "CharsToHttpMethod s = m"
    then obtain i a where "find (\<lambda>(_, _, a). take (length a) (c_str s) = a) HTTP_METHOD_MAP = Some (i, m, a)"
      using assms by (auto simp: CharsToHttpMethod_def split: option.splits)
    from find_SomeD [OF this] have a: "(i, m, a) \<in> set HTTP_METHOD_MAP" "take (length a) (c_str s) = a" by auto
    have "list_all (\<lambda>(_, n, b). HttpMethodToString n = b) HTTP_METHOD_MAP" by code_simp
    with a(1) have "HttpMethodToString m = a" by (auto simp: list_all_iff)
    with a(2) show "prefix (HttpMethodToString m) (c_str s)" by (metis take_is_prefix)
  qed (rule CharsToHttpMethod_prefix [OF assms])
  show "CharsToHttpMethod ''M-SEARCH'' = INVAILD_METHOD" by code_simp
qed

theorem http_method_names_witness:
  "GET \<noteq> INVAILD_METHOD \<and> StringToHttpMethod (HttpMethodToString GET) = GET \<and> CharsToHttpMethod ''GETX / HTTP/1.1'' = GET"
proof -
  have "prefix (HttpMethodToString GET) (c_str ''GETX / HTTP/1.1'')" by code_simp
  then show ?thesis using http_method_names [of GET "[]" "''GETX / HTTP/1.1''"] by simp
qed
subsection \<open>Header, parameter and cookie maps\<close>

definition rq_sorted :: "HttpRequest \<Rightarrow> bool" where
  "rq_sorted r \<longleftrightarrow> map_sorted CaseInsensitiveLess (rq_headers r) \<and>
     map_sorted CaseInsensitiveLess (rq_params r) \<and> map_sorted CaseInsensitiveLess (rq_cookies r)"

definition rq_header :: "string \<Rightarrow> HttpRequest \<Rightarrow> string option" where
  "rq_header k r = ci_find k (rq_headers r)"

definition rq_param :: "string \<Rightarrow> HttpRequest \<Rightarrow> string option" where
  "rq_param k r = ci_find k (rq_params r)"

definition rq_cookie :: "string \<Rightarrow> HttpRequest \<Rightarrow> string option" where
  "rq_cookie k r = ci_find k (rq_cookies r)"

lemmas ci_maps = ci.map_find_assign ci.map_find_erase ci.map_assign_sorted ci.map_erase_sorted rq_sorted_def

interpretation headers: keyed_store rq_sorted ci_eq rq_header setHeader delHeader
  by unfold_locales (simp_all add: rq_header_def setHeader_def delHeader_def ci_maps)

interpretation params: keyed_store rq_sorted ci_eq rq_param setParam delParam
  by unfold_locales (simp_all add: rq_param_def setParam_def delParam_def ci_maps)

interpretation cookies: keyed_store rq_sorted ci_eq rq_cookie setCookie delCookie
  by unfold_locales (simp_all add: rq_cookie_def setCookie_def delCookie_def ci_maps)

lemma HttpRequest_new_fields [simp]:
  "rq_sorted (HttpRequest_new v c)" "rq_header k (HttpRequest_new v c) = None"
  "rq_param k (HttpRequest_new v c) = None" "rq_cookie k (HttpRequest_new v c) = None"
  by (simp_all add: rq_sorted_def HttpRequest_new_def map_sorted_def rq_header_def rq_param_def rq_cookie_def map_find_def)

lemma headers_only:
  "rq_params (replay setHeader delHeader ops r) = rq_params r \<and> rq_cookies (replay setHeader delHeader ops r) = rq_cookies r \<and>
   rq_body (replay setHeader delHeader ops r) = rq_body r"
proof (induction ops rule: rev_induct)
  case (snoc c ops)
  then show ?case by (cases c) (simp_all add: setHeader_def delHeader_def)
qed simp

text \<open>The three maps of a request are case-insensitive stores: after any sequence of \<open>set\<close> and \<open>del\<close> calls on a new
  request, a lookup under any spelling of a name returns what the last call on that name under any spelling left
  there, \<open>has\<close> and the typed reader agree with it, iteration is in strictly ascending order, so no name
  is stored twice, and operations on the headers do not touch parameters, cookies or body.\<close>

theorem http_header_store:
  "getHeader k d (replay setHeader delHeader ops (HttpRequest_new v c)) =
     (case last_value ci_eq k ops None of None \<Rightarrow> d | Some x \<Rightarrow> x) \<and>
   hasHeader k (Some d) (replay setHeader delHeader ops (HttpRequest_new v c)) =
     (case last_value ci_eq k ops None of None \<Rightarrow> (False, Some d) | Some x \<Rightarrow> (True, Some x)) \<and>
   getHeaderAs cast k y (replay setHeader delHeader ops (HttpRequest_new v c)) =
     (case last_value ci_eq k ops None of None \<Rightarrow> y | Some x \<Rightarrow> (case cast x of None \<Rightarrow> y | Some z \<Rightarrow> z)) \<and>
   getParam k d (replay setParam delParam ops (HttpRequest_new v c)) =
     (case last_value ci_eq k ops None of None \<Rightarrow> d | Some x \<Rightarrow> x) \<and>
   getCookie k d (replay setCookie delCookie ops (HttpRequest_new v c)) =
     (case last_value ci_eq k ops None of None \<Rightarrow> d | Some x \<Rightarrow> x) \<and>
   rq_sorted (replay setHeader delHeader ops (HttpRequest_new v c)) \<and>
   rq_params (replay setHeader delHeader ops (HttpRequest_new v c)) = [] \<and>
   rq_cookies (replay setHeader delHeader ops (HttpRequest_new v c)) = [] \<and>
   rq_body (replay setHeader delHeader ops (HttpRequest_new v c)) = []"
proof -
  let ?r = "HttpRequest_new v c"
  have h: "rq_header k (replay setHeader delHeader ops ?r) = last_value ci_eq k ops None"
    and p: "rq_param k (replay setParam delParam ops ?r) = last_value ci_eq k ops None"
    and q: "rq_cookie k (replay setCookie delCookie ops ?r) = last_value ci_eq k ops None"
    using headers.lookup_replay [of ?r k ops] params.lookup_replay [of ?r k ops] cookies.lookup_replay [of ?r k ops]
    by simp_all
  have "rq_params ?r = []" "rq_cookies ?r = []" "rq_body ?r = []" by (simp_all add: HttpRequest_new_def)
  then show ?thesis
    using h p q headers.inv_replay [of ?r ops] headers_only [of ops ?r]
    by (simp add: getHeader_def getParam_def getCookie_def hasHeader_def has_key_def getHeaderAs_def getAs_def
        rq_header_def rq_param_def rq_cookie_def split: option.split)
qed

subsection \<open>Reading a message back\<close>

text \<open>What a receiver makes of a byte stream: lines end at CRLF, the head ends at an empty line, a field is its name
  up to the first colon and, after a blank, its value.\<close>

fun read_line :: "string \<Rightarrow> (string \<times> string) option" where
  "read_line [] = None"
| "read_line (c # s) =
     (if take 2 (c # s) = CRLF then Some ([], drop 1 s)
      else map_option (\<lambda>(l, r). (c # l, r)) (read_line s))"

lemma read_line_length: "read_line s = Some (l, r) \<Longrightarrow> length r < length s"
  by (induction s arbitrary: l) (auto split: if_splits)

function read_head :: "string \<Rightarrow> (string list \<times> string) option" where
  "read_head s =
     (case read_line s of
        None \<Rightarrow> None
      | Some (l, r) \<Rightarrow>
          if l = [] then Some ([], r) else map_option (\<lambda>(ls, b). (l # ls, b)) (read_head r))"
  by auto
termination by (relation "measure length") (auto dest: read_line_length)

declare read_head.simps [simp del]

definition read_field :: "string \<Rightarrow> string \<times> string" where
  "read_field l = (takeWhile (\<lambda>c. c \<noteq> CHR '':'') l, drop 2 (dropWhile (\<lambda>c. c \<noteq> CHR '':'') l))"

definition read_message :: "string \<Rightarrow> (string \<times> MapType \<times> string) option" where
  "read_message s = (case read_head s of Some (l # ls, b) \<Rightarrow> Some (l, map read_field ls, b) | _ \<Rightarrow> None)"

definition no_CR :: "string \<Rightarrow> bool" where
  "no_CR s \<longleftrightarrow> CHR 0x0D \<notin> set s"

definition fields_ok :: "MapType \<Rightarrow> bool" where
  "fields_ok m \<longleftrightarrow> (\<forall>(k, v) \<in> set m. no_CR k \<and> no_CR v \<and> CHR '':'' \<notin> set k)"

lemma read_line_CRLF: "no_CR l \<Longrightarrow> read_line (l @ CRLF @ s) = Some (l, s)"
  by (induction l) (auto simp: no_CR_def CRLF_def)

lemma read_head_lines:
  "\<forall>l\<in>set ls. l \<noteq> [] \<and> no_CR l \<Longrightarrow> read_head (concat (map (\<lambda>l. l @ CRLF) ls) @ CRLF @ b) = Some (ls, b)"
proof (induction ls)
  case Nil
  have "read_line (CRLF @ b) = Some ([], b)" using read_line_CRLF [of "[]" b] by (simp add: no_CR_def)
  then show ?case by (simp add: read_head.simps)
next
  case (Cons l ls)
  let ?r = "concat (map (\<lambda>l. l @ CRLF) ls) @ CRLF @ b"
  have "read_line (l @ CRLF @ ?r) = Some (l, ?r)" using Cons.prems by (intro read_line_CRLF) simp
  then show ?case using Cons by (simp add: read_head.simps [of "l @ CRLF @ ?r"])
qed

definition field_line :: "string \<times> string \<Rightarrow> string" where
  "field_line = (\<lambda>(k, v). k @ '': '' @ v)"

definition other_fields :: "MapType \<Rightarrow> MapType" where
  "other_fields m = filter (\<lambda>(k, _). \<not> is_connection k) m"

definition length_field :: "string \<Rightarrow> MapType" where
  "length_field body = (if body = [] then [] else [(''Content-Length'', dec (length body))])"

definition connection_field :: "bool \<Rightarrow> string \<times> string" where
  "connection_field close = (''Connection'', if close then ''Close'' else ''Keep-Alive'')"

lemma dump_headers_lines: "dump_headers m = concat (map (\<lambda>l. l @ CRLF) (map field_line (other_fields m)))"
  by (induction m) (auto simp: other_fields_def field_line_def)

lemma dump_body_lines:
  "dump_body b = concat (map (\<lambda>l. l @ CRLF) (map field_line (length_field b))) @ CRLF @ b"
  by (simp add: dump_body_def length_field_def field_line_def)

lemma connection_line_field: "connection_line c = field_line (connection_field c)"
  by (simp add: connection_line_def connection_field_def field_line_def)

lemma read_field_line: "CHR '':'' \<notin> set k \<Longrightarrow> read_field (field_line (k, v)) = (k, v)"
  by (simp add: read_field_def field_line_def takeWhile_append dropWhile_append)

lemma read_message_fields:
  assumes "no_CR l" and "l \<noteq> []" and "fields_ok fs"
  shows "read_message (l @ CRLF @ concat (map (\<lambda>l. l @ CRLF) (map field_line fs)) @ CRLF @ b) = Some (l, fs, b)"
proof -
  have "\<forall>x\<in>set (l # map field_line fs). x \<noteq> [] \<and> no_CR x"
    using assms by (auto simp: fields_ok_def field_line_def no_CR_def)
  from read_head_lines [OF this, of b]
  have "read_head (l @ CRLF @ concat (map (\<lambda>l. l @ CRLF) (map field_line fs)) @ CRLF @ b) =
    Some (l # map field_line fs, b)" by simp
  moreover have "map (read_field \<circ> field_line) fs = fs"
    using assms(3) by (intro map_idI) (auto simp: fields_ok_def read_field_line)
  ultimately show ?thesis by (simp add: read_message_def)
qed

lemma length_field_ok: "fields_ok (length_field b)"
  using dec_not [of "CHR 0x0D" "length b"] by (simp add: fields_ok_def length_field_def no_CR_def code_def)

lemma connection_field_ok: "fields_ok [connection_field c]"
  by (simp add: fields_ok_def connection_field_def no_CR_def)

lemma other_fields_ok: "fields_ok m \<Longrightarrow> fields_ok (other_fields m)"
  by (auto simp: fields_ok_def other_fields_def)

lemma fields_ok_append [simp]: "fields_ok (a @ b) \<longleftrightarrow> fields_ok a \<and> fields_ok b"
  by (auto simp: fields_ok_def)

lemma version_no_CR: "no_CR (version_text v)"
  by (simp add: version_text_def no_CR_def dec_not code_def)

lemma method_no_CR: "no_CR (HttpMethodToString m)"
  by (induction m) code_simp+

lemma status_no_CR: "no_CR (HttpStatusToString s)"
proof -
  have "list_all (\<lambda>(_, d). no_CR d) HTTP_STATUS_MAP" by code_simp
  then show ?thesis
    by (auto simp: HttpStatusToString_def list_all_iff no_CR_def dest!: map_of_SomeD split: option.split)
qed

lemma connection_filters [simp]:
  "is_connection ''Connection''" "\<not> is_connection ''Content-Length''"
  by code_simp+

lemma filter_connection [simp]:
  "filter (\<lambda>(k, _). is_connection k) (other_fields m) = []"
  "filter (\<lambda>(k, _). is_connection k) (length_field b) = []"
  "case connection_field c of (k, _) \<Rightarrow> is_connection k"
  by (auto simp: other_fields_def length_field_def connection_field_def filter_empty_conv)

lemma filter_fields:
  "filter (\<lambda>(k, _). is_connection k) (other_fields m @ connection_field c # length_field b) = [connection_field c]"
  by simp

lemma connection_not_length: "ci_eq ''Content-Length'' k \<Longrightarrow> \<not> is_connection k"
proof
  assume "ci_eq ''Content-Length'' k" "is_connection k"
  then have "ci_eq ''Content-Length'' ''connection''" by (simp add: is_connection_ci ci_eq_def)
  moreover have "\<not> ci_eq ''Content-Length'' ''connection''" by code_simp
  ultimately show False by simp
qed

lemma user_length_twice:
  assumes "b \<noteq> []" and "ci_find ''Content-Length'' m = Some v"
  shows "2 \<le> length (filter (\<lambda>(k, _). ci_eq ''Content-Length'' k) (other_fields m @ connection_field c # length_field b))"
proof -
  have "\<exists>k. (k, v) \<in> set m \<and> ci_eq ''Content-Length'' k"
    using assms(2) by (auto simp: map_find_def dest!: find_SomeD)
  then obtain k where k: "(k, v) \<in> set m" "ci_eq ''Content-Length'' k" by blast
  then have "(k, v) \<in> set (filter (\<lambda>(k, _). ci_eq ''Content-Length'' k) (other_fields m))"
    using connection_not_length [OF k(2)] by (auto simp: other_fields_def)
  then have "1 \<le> length (filter (\<lambda>(k, _). ci_eq ''Content-Length'' k) (other_fields m))"
    by (metis One_nat_def Suc_leI length_pos_if_in_set)
  moreover have "filter (\<lambda>(k, _). ci_eq ''Content-Length'' k) (length_field b) = length_field b"
    using assms(1) by (simp add: length_field_def ci_eq_def)
  moreover have "length (length_field b) = 1" using assms(1) by (simp add: length_field_def)
  ultimately show ?thesis by (simp add: numeral_2_eq_2 le_SucI)
qed

subsection \<open>Messages on the wire\<close>

text \<open>C30. A serialised request is read back by any receiver that splits lines at CRLF as the request line, exactly one
  \<open>Connection\<close> field (the one of \<open>m_close\<close>, whatever the user set under any spelling), the user's other
  headers in order, a \<open>Content-Length\<close> field with the size of a non-empty body, and the body. The
  precondition is the absence of CR in the parts, and of colons in header names: \<open>dump\<close> does
  not escape anything.\<close>

theorem http_request_framing:
  assumes "no_CR (rq_path r)" and "no_CR (rq_query r)" and "no_CR (rq_fragment r)" and "fields_ok (rq_headers r)"
  shows "read_message (dump_request r) =
      Some (request_line r,
            connection_field (rq_close r) # other_fields (rq_headers r) @ length_field (rq_body r),
            rq_body r) \<and>
    filter (\<lambda>(k, _). is_connection k)
      (connection_field (rq_close r) # other_fields (rq_headers r) @ length_field (rq_body r)) =
      [connection_field (rq_close r)] \<and>
    (rq_body r \<noteq> [] \<longrightarrow> map (undec \<circ> snd) (length_field (rq_body r)) = [length (rq_body r)])"
proof -
  let ?fs = "connection_field (rq_close r) # other_fields (rq_headers r) @ length_field (rq_body r)"
  have fs: "fields_ok ?fs"
    using fields_ok_append [of "[connection_field (rq_close r)]"] connection_field_ok length_field_ok
      other_fields_ok [OF assms(4)] by simp
  have l: "no_CR (request_line r)" "request_line r \<noteq> []"
    using assms(1-3) method_no_CR [of "rq_method r"] version_no_CR [of "rq_version r"]
    by (auto simp: request_line_def no_CR_def)
  have "dump_request r = request_line r @ CRLF @ concat (map (\<lambda>l. l @ CRLF) (map field_line ?fs)) @ CRLF @ rq_body r"
    by (simp add: dump_request_def connection_line_field dump_headers_lines dump_body_lines)
  then show ?thesis using read_message_fields [OF l fs] connection_filters by (simp add: length_field_def)
qed

theorem http_request_framing_witness:
  "read_message (dump_request (setBody ''ok'' (setHeader ''CONNECTION'' ''upgrade'' (setHeader ''Host'' ''a'' (HttpRequest_new 0x11 True))))) =
     Some (''GET / HTTP/1.1'', [(''Connection'', ''Close''), (''Host'', ''a''), (''Content-Length'', ''2'')], ''ok'')"
proof -
  let ?r = "setBody ''ok'' (setHeader ''CONNECTION'' ''upgrade'' (setHeader ''Host'' ''a'' (HttpRequest_new 0x11 True)))"
  have p: "no_CR (rq_path ?r)" "no_CR (rq_query ?r)" "no_CR (rq_fragment ?r)" "fields_ok (rq_headers ?r)"
    by code_simp+
  have "(request_line ?r, connection_field (rq_close ?r) # other_fields (rq_headers ?r) @ length_field (rq_body ?r), rq_body ?r) =
    (''GET / HTTP/1.1'', [(''Connection'', ''Close''), (''Host'', ''a''), (''Content-Length'', ''2'')], ''ok'')"
    by code_simp
  then show ?thesis using http_request_framing [OF p, THEN conjunct1] by (simp only:)
qed

text \<open>The same for a response: status line, the user's headers except any \<open>Connection\<close>, the \<open>Connection\<close> field of
  \<open>m_close\<close>, the length of a non-empty body, the body. With a body and a \<open>Content-Length\<close> set by the user,
  for instance copied from another message, the field occurs twice.\<close>

theorem http_response_framing:
  assumes "no_CR (rs_reason r)" and "fields_ok (rs_headers r)"
  shows "read_message (dump_response r) =
      Some (status_line r,
            other_fields (rs_headers r) @ connection_field (rs_close r) # length_field (rs_body r),
            rs_body r) \<and>
    filter (\<lambda>(k, _). is_connection k)
      (other_fields (rs_headers r) @ connection_field (rs_close r) # length_field (rs_body r)) =
      [connection_field (rs_close r)] \<and>
    (rs_body r \<noteq> [] \<and> ci_find ''Content-Length'' (rs_headers r) \<noteq> None \<longrightarrow>
       2 \<le> length (filter (\<lambda>(k, _). ci_eq ''Content-Length'' k)
             (other_fields (rs_headers r) @ connection_field (rs_close r) # length_field (rs_body r))))"
proof -
  let ?fs = "other_fields (rs_headers r) @ connection_field (rs_close r) # length_field (rs_body r)"
  have fs: "fields_ok ?fs"
    using fields_ok_append [of "[connection_field (rs_close r)]"] connection_field_ok length_field_ok
      other_fields_ok [OF assms(2)] by simp
  have l: "no_CR (status_line r)" "status_line r \<noteq> []"
    using assms(1) status_no_CR version_no_CR [of "rs_version r"] dec_not [of "CHR 0x0D" "unat (rs_status r)"]
    by (auto simp: status_line_def no_CR_def code_def)
  have "dump_response r = status_line r @ CRLF @ concat (map (\<lambda>l. l @ CRLF) (map field_line ?fs)) @ CRLF @ rs_body r"
    by (simp add: dump_response_def connection_line_field dump_headers_lines dump_body_lines)
  then have "read_message (dump_response r) = Some (status_line r, ?fs, rs_body r)"
    using read_message_fields [OF l fs] by simp
  then show ?thesis using user_length_twice [of "rs_body r" "rs_headers r" _ "rs_close r"]
    by (auto simp del: filter_append length_append filter.simps simp: filter_fields)
qed

theorem http_response_framing_witness:
  "read_message (dump_response (rs_setBody ''ok'' (rs_setHeader ''content-length'' ''9'' (HttpResponse_new 0x11 False)))) =
     Some (''HTTP/1.1 200 OK'',
       [(''content-length'', ''9''), (''Connection'', ''Keep-Alive''), (''Content-Length'', ''2'')], ''ok'')"
proof -
  let ?r = "rs_setBody ''ok'' (rs_setHeader ''content-length'' ''9'' (HttpResponse_new 0x11 False))"
  have p: "no_CR (rs_reason ?r)" "fields_ok (rs_headers ?r)" by code_simp+
  have "(status_line ?r, other_fields (rs_headers ?r) @ connection_field (rs_close ?r) # length_field (rs_body ?r), rs_body ?r) =
    (''HTTP/1.1 200 OK'', [(''content-length'', ''9''), (''Connection'', ''Keep-Alive''), (''Content-Length'', ''2'')], ''ok'')"
    by code_simp
  then show ?thesis using http_response_framing [OF p, THEN conjunct1] by (simp only:)
qed

end
