(* ===== verification/Servlet.thy ===== *)
theory Servlet
  imports HttpMessage
begin

text \<open>
  \<open>src/servlet.cc\<close>, \<open>include/http/servlet.hh\<close>: routing a request to its handler.

  A handler takes the request, the response to fill and the session, whose state has the type \<open>'s\<close>.
  A \<open>Servlet::ptr\<close> that may be null is an option. \<open>m_datas\<close> is a map since the order of an
  \<open>unordered_map\<close> is never used; \<open>m_globs\<close> is the vector. \<open>fnmatch(3)\<close> is the argument \<open>fnmatch\<close>, 0 for a match.
\<close>

type_synonym 's callBack = "HttpRequest \<Rightarrow> HttpResponse \<Rightarrow> 's \<Rightarrow> int \<times> HttpResponse \<times> 's"

datatype 's Servlet = ServletFunction "'s callBack" | ServletNotFound | UserServlet string "'s callBack"

definition RSP_BODY :: string where
  "RSP_BODY = ''<html><head><title>404 Not Found''
     @ ''</title></head><body><center><h1>404 Not Found</h1></center>''
     @ ''<hr><center>sylar/1.0.0</center></body></html>''"

definition NotFound_handle :: "'s callBack" where
  "NotFound_handle request response session =
     (let response = rs_setStatus 404 response;
          response = rs_setHeader ''Server'' ''sylar/1.0.0'' response;
          response = rs_setHeader ''Content-Type'' ''text/html'' response;
          response = rs_setBody RSP_BODY response
      in (0, response, session))"

text \<open>The virtual \<open>handle\<close>.\<close>

fun servlet_handle :: "'s Servlet \<Rightarrow> 's callBack" where
  "servlet_handle (ServletFunction cb) request response session = cb request response session"
| "servlet_handle ServletNotFound request response session = NotFound_handle request response session"
| "servlet_handle (UserServlet name cb) request response session = cb request response session"

fun getName :: "'s Servlet \<Rightarrow> string" where
  "getName (ServletFunction cb) = ''FunctionServlet''"
| "getName ServletNotFound = ''ServletNotFound''"
| "getName (UserServlet name cb) = name"

record 's ServletDispatcher =
  sd_datas :: "string \<rightharpoonup> 's Servlet option"
  sd_globs :: "(string \<times> 's Servlet option) list"
  sd_default :: "'s Servlet option"

definition ServletDispatcher_new :: "'s ServletDispatcher" where
  "ServletDispatcher_new = \<lparr>sd_datas = Map.empty, sd_globs = [], sd_default = Some ServletNotFound\<rparr>"

definition addServlet :: "string \<Rightarrow> 's Servlet option \<Rightarrow> 's ServletDispatcher \<Rightarrow> 's ServletDispatcher" where
  "addServlet uri servlet d = d\<lparr>sd_datas := (sd_datas d)(uri \<mapsto> servlet)\<rparr>"

definition addServlet_cb :: "string \<Rightarrow> 's callBack \<Rightarrow> 's ServletDispatcher \<Rightarrow> 's ServletDispatcher" where
  "addServlet_cb uri cb d = d\<lparr>sd_datas := (sd_datas d)(uri \<mapsto> Some (ServletFunction cb))\<rparr>"

text \<open>The loop that erases the first entry of the pattern.\<close>

fun erase_first :: "string \<Rightarrow> (string \<times> 'v) list \<Rightarrow> (string \<times> 'v) list" where
  "erase_first uri [] = []"
| "erase_first uri (p # ps) = (if fst p = uri then ps else p # erase_first uri ps)"

definition addGlobServlet :: "string \<Rightarrow> 's Servlet option \<Rightarrow> 's ServletDispatcher \<Rightarrow> 's ServletDispatcher" where
  "addGlobServlet uri servlet d = d\<lparr>sd_globs := erase_first uri (sd_globs d) @ [(uri, servlet)]\<rparr>"

definition addGlobServlet_cb :: "string \<Rightarrow> 's callBack \<Rightarrow> 's ServletDispatcher \<Rightarrow> 's ServletDispatcher" where
  "addGlobServlet_cb uri cb d = addGlobServlet uri (Some (ServletFunction cb)) d"

definition delServlet :: "string \<Rightarrow> 's ServletDispatcher \<Rightarrow> 's ServletDispatcher" where
  "delServlet uri d = d\<lparr>sd_datas := (sd_datas d)(uri := None)\<rparr>"

definition delGlobServlet :: "string \<Rightarrow> 's ServletDispatcher \<Rightarrow> 's ServletDispatcher" where
  "delGlobServlet uri d = d\<lparr>sd_globs := erase_first uri (sd_globs d)\<rparr>"

definition setDefault :: "'s Servlet option \<Rightarrow> 's ServletDispatcher \<Rightarrow> 's ServletDispatcher" where
  "setDefault servlet d = d\<lparr>sd_default := servlet\<rparr>"

definition getServlet :: "string \<Rightarrow> 's ServletDispatcher \<Rightarrow> 's Servlet option" where
  "getServlet uri d = (case sd_datas d uri of None \<Rightarrow> None | Some servlet \<Rightarrow> servlet)"

fun glob_entry :: "string \<Rightarrow> (string \<times> 's Servlet option) list \<Rightarrow> 's Servlet option" where
  "glob_entry uri [] = None"
| "glob_entry uri (p # ps) = (if fst p = uri then snd p else glob_entry uri ps)"

definition getGlobServlet :: "string \<Rightarrow> 's ServletDispatcher \<Rightarrow> 's Servlet option" where
  "getGlobServlet uri d = glob_entry uri (sd_globs d)"

fun match_globs :: "(string \<Rightarrow> string \<Rightarrow> int) \<Rightarrow> string \<Rightarrow> (string \<times> 's Servlet option) list \<Rightarrow>
    's Servlet option \<Rightarrow> 's Servlet option" where
  "match_globs fnmatch uri [] deflt = deflt"
| "match_globs fnmatch uri (p # ps) deflt =
     (if fnmatch (c_str (fst p)) (c_str uri) = 0 then snd p else match_globs fnmatch uri ps deflt)"

definition getMatchedServlet :: "(string \<Rightarrow> string \<Rightarrow> int) \<Rightarrow> string \<Rightarrow> 's ServletDispatcher \<Rightarrow> 's Servlet option" where
  "getMatchedServlet fnmatch uri d =
     (case sd_datas d uri of
        Some servlet \<Rightarrow> servlet
      | None \<Rightarrow> match_globs fnmatch uri (sd_globs d) (sd_default d))"

definition dispatcher_handle :: "(string \<Rightarrow> string \<Rightarrow> int) \<Rightarrow> 's ServletDispatcher \<Rightarrow> 's callBack" where
  "dispatcher_handle fnmatch d request response session =
     (case getMatchedServlet fnmatch (rq_path request) d of
        Some servlet \<Rightarrow> (0, snd (servlet_handle servlet request response session))
      | None \<Rightarrow> (0, response, session))"

subsection \<open>Tables as stores\<close>

definition routes_ok :: "'s ServletDispatcher \<Rightarrow> bool" where
  "routes_ok d \<longleftrightarrow> distinct (map fst (sd_globs d))"

definition data_entry :: "string \<Rightarrow> 's ServletDispatcher \<Rightarrow> 's Servlet option option" where
  "data_entry uri d = sd_datas d uri"

definition glob_lookup :: "string \<Rightarrow> 's ServletDispatcher \<Rightarrow> 's Servlet option option" where
  "glob_lookup uri d = map_of (sd_globs d) uri"

lemma erase_first_eq: "distinct (map fst ps) \<Longrightarrow> erase_first uri ps = filter (\<lambda>p. fst p \<noteq> uri) ps"
proof (induction ps)
  case (Cons p ps)
  have "fst p = uri \<Longrightarrow> filter (\<lambda>q. fst q \<noteq> uri) ps = ps" using Cons.prems by (auto simp: filter_id_conv intro: rev_image_eqI)
  then show ?case using Cons by simp
qed simp

lemma map_of_erase_add:
  assumes "distinct (map fst ps)"
  shows "map_of (erase_first k ps @ [(k, v)]) k' = (if k = k' then Some v else map_of ps k')"
  using map_of_filter_key [of k ps k']
  by (auto simp: erase_first_eq [OF assms] map_add_def split: option.split)

lemma distinct_erase: "distinct (map fst ps) \<Longrightarrow> distinct (map fst (erase_first k ps)) \<and> k \<notin> fst ` set (erase_first k ps)"
  by (auto simp: erase_first_eq distinct_map_filter)

interpretation datas: keyed_store routes_ok "(=)" data_entry addServlet delServlet
  by unfold_locales (auto simp: data_entry_def addServlet_def delServlet_def routes_ok_def)

interpretation globs: keyed_store routes_ok "(=)" glob_lookup addGlobServlet delGlobServlet
  by unfold_locales
    (simp_all add: glob_lookup_def addGlobServlet_def delGlobServlet_def routes_ok_def map_of_erase_add
      distinct_erase del: map_of_append, simp add: erase_first_eq map_of_filter_key)

subsection \<open>Routing\<close>

lemma match_globs_none:
  "\<forall>(p, _)\<in>set ps. fnmatch (c_str p) (c_str uri) \<noteq> 0 \<Longrightarrow> match_globs fnmatch uri ps deflt = deflt"
  by (induction ps) auto

lemma match_globs_only:
  assumes "(p, s) \<in> set ps" and "distinct (map fst ps)" and "fnmatch (c_str p) (c_str uri) = 0"
    and "\<forall>(q, _)\<in>set ps. fnmatch (c_str q) (c_str uri) = 0 \<longrightarrow> q = p"
  shows "match_globs fnmatch uri ps deflt = s"
  using assms
proof (induction ps)
  case (Cons e ps)
  show ?case
  proof (cases "fst e = p")
    case True
    have "s = snd e" using Cons.prems(1,2) True by (cases e) (auto intro: rev_image_eqI)
    then show ?thesis using Cons.prems(3) True by simp
  next
    case False
    then show ?thesis using Cons by (cases e) auto
  qed
qed simp

interpretation rs_headers: keyed_store "\<lambda>r. map_sorted CaseInsensitiveLess (rs_headers r)" ci_eq
    "\<lambda>k r. ci_find k (rs_headers r)" rs_setHeader rs_delHeader
  by unfold_locales (simp_all add: rs_setHeader_def rs_delHeader_def ci_maps)

lemma not_found_page:
  "\<exists>rs'. servlet_handle ServletNotFound rq rs se = (0, rs', se) \<and> rs_status rs' = 404 \<and> rs_body rs' = RSP_BODY \<and>
     rs_getHeaders ''content-type'' [] rs' = ''text/html'' \<and> rs_getHeaders ''server'' [] rs' = ''sylar/1.0.0''"
proof -
  have e: "ci_eq ''Content-Type'' ''content-type''" "ci_eq ''Server'' ''server''" "\<not> ci_eq ''Content-Type'' ''server''"
    by code_simp+
  show ?thesis
    by (simp add: NotFound_handle_def Let_def rs_getHeaders_def rs_setStatus_def rs_setHeader_def rs_setBody_def
        ci.map_find_assign e)
qed

definition routed :: "(string, 's Servlet option) store_op list \<Rightarrow> (string, 's Servlet option) store_op list \<Rightarrow> 's ServletDispatcher" where
  "routed ops gops = replay addGlobServlet delGlobServlet gops (replay addServlet delServlet ops ServletDispatcher_new)"

lemma glob_ops_keep: "sd_datas (replay addGlobServlet delGlobServlet gops d) = sd_datas d \<and>
  sd_default (replay addGlobServlet delGlobServlet gops d) = sd_default d"
proof (induction gops rule: rev_induct)
  case (snoc c gops)
  then show ?case by (cases c) (simp_all add: addGlobServlet_def delGlobServlet_def)
qed simp

lemma data_ops_keep: "sd_globs (replay addServlet delServlet ops d) = sd_globs d \<and>
  sd_default (replay addServlet delServlet ops d) = sd_default d"
proof (induction ops rule: rev_induct)
  case (snoc c ops)
  then show ?case by (cases c) (simp_all add: addServlet_def delServlet_def)
qed simp

lemma routed_tables:
  "sd_datas (routed ops gops) uri = last_value (=) uri ops None"
  "map_of (sd_globs (routed ops gops)) p = last_value (=) p gops None"
  "distinct (map fst (sd_globs (routed ops gops)))"
  "sd_default (routed ops gops) = Some ServletNotFound"
proof -
  let ?d = "ServletDispatcher_new"
  have ok: "routes_ok ?d" by (simp add: routes_ok_def ServletDispatcher_new_def)
  note ok1 = datas.inv_replay [OF ok, of ops]
  show "sd_datas (routed ops gops) uri = last_value (=) uri ops None"
    using datas.lookup_replay [OF ok, of uri ops] glob_ops_keep [of gops "replay addServlet delServlet ops ?d"]
    by (simp add: routed_def data_entry_def ServletDispatcher_new_def)
  show "map_of (sd_globs (routed ops gops)) p = last_value (=) p gops None"
    using globs.lookup_replay [OF ok1, of p gops] data_ops_keep [of ops ?d]
    by (simp add: routed_def glob_lookup_def ServletDispatcher_new_def)
  show "distinct (map fst (sd_globs (routed ops gops)))"
    using globs.inv_replay [OF ok1, of gops] by (simp add: routed_def routes_ok_def)
  show "sd_default (routed ops gops) = Some ServletNotFound"
    using glob_ops_keep [of gops "replay addServlet delServlet ops ?d"] data_ops_keep [of ops ?d] by (simp add: routed_def ServletDispatcher_new_def)
qed

lemma glob_in_table: "(q, t) \<in> set (sd_globs (routed ops gops)) \<longleftrightarrow> last_value (=) q gops None = Some t"
  using map_of_eq_Some_iff [OF routed_tables(3)] routed_tables(2) by metis

lemma matched_exact:
  "last_value (=) uri ops None = Some t \<Longrightarrow> getMatchedServlet fnmatch uri (routed ops gops) = t"
  by (simp add: getMatchedServlet_def routed_tables(1))

lemma matched_glob:
  assumes "last_value (=) uri ops None = None" and "last_value (=) p gops None = Some t"
    and "fnmatch (c_str p) (c_str uri) = 0"
    and "\<forall>q. last_value (=) q gops None \<noteq> None \<and> fnmatch (c_str q) (c_str uri) = 0 \<longrightarrow> q = p"
  shows "getMatchedServlet fnmatch uri (routed ops gops) = t"
proof -
  have "\<forall>(q, _)\<in>set (sd_globs (routed ops gops)). fnmatch (c_str q) (c_str uri) = 0 \<longrightarrow> q = p"
    using assms(4) glob_in_table [of _ _ ops gops] by blast
  with glob_in_table [of p t ops gops] show ?thesis
    using match_globs_only [OF _ routed_tables(3), of p t ops gops fnmatch uri "Some ServletNotFound"] assms(1-3)
    by (simp add: getMatchedServlet_def routed_tables(1,4))
qed

lemma matched_none:
  assumes "last_value (=) uri ops None = None"
    and "\<forall>q. last_value (=) q gops None \<noteq> None \<longrightarrow> fnmatch (c_str q) (c_str uri) \<noteq> 0"
  shows "getMatchedServlet fnmatch uri (routed ops gops) = Some ServletNotFound"
proof -
  have "\<forall>(q, _)\<in>set (sd_globs (routed ops gops)). fnmatch (c_str q) (c_str uri) \<noteq> 0"
    using assms(2) glob_in_table [of _ _ ops gops] by blast
  then have "match_globs fnmatch uri (sd_globs (routed ops gops)) (Some ServletNotFound) = Some ServletNotFound"
    by (rule match_globs_none)
  then show ?thesis using assms(1) by (simp add: getMatchedServlet_def routed_tables(1,4))
qed


definition star_match :: "string \<Rightarrow> string \<Rightarrow> int" where
  "star_match p u = (if p = u \<or> p \<noteq> [] \<and> last p = CHR ''*'' \<and> take (length p - 1) u = butlast p then 0 else 1)"

definition echo_servlet :: "unit Servlet" where
  "echo_servlet = ServletFunction (\<lambda>rq rs s. (0, rs_setBody (rq_path rq) rs, s))"


end
