(* ===== verification/Yaml.thy ===== *)
theory Yaml
  imports CStrings "HOL-Library.Countable"
begin

text \<open>
  What the sources use of yaml-cpp, and the conversions \<open>LexicalCast\<close> of \<open>include/sylar/config.hh\<close> built on it.

  A \<open>YAML::Node\<close> is a tree. Parsing and printing (\<open>YAML::Load\<close> and \<open>operator<<\<close>) are the library's and are
  arguments, as is what \<open>node[i]\<close> gives on a node that is no sequence. The conversion of elements, \<open>boost::lexical_cast\<close>
  or another specialisation, is an argument of the conversions of containers, as in the templates.
\<close>

datatype node = YNull | YScalar string | YSeq "node list" | YMap "(node \<times> node) list"

record yaml =
  y_load :: "string \<Rightarrow> exn + node"
  y_dump :: "node \<Rightarrow> string"
  y_other_at :: "node \<Rightarrow> nat \<Rightarrow> exn + node"

fun node_size :: "node \<Rightarrow> nat" where
  "node_size (YSeq ns) = length ns"
| "node_size (YMap ps) = length ps"
| "node_size _ = 0"

fun node_at :: "yaml \<Rightarrow> node \<Rightarrow> nat \<Rightarrow> exn + node" where
  "node_at y (YSeq ns) i = (if i < length ns then Inr (ns ! i) else y_other_at y (YSeq ns) i)"
| "node_at y n i = y_other_at y n i"

fun is_map :: "node \<Rightarrow> bool" where
  "is_map (YMap _) = True"
| "is_map _ = False"

fun is_scalar :: "node \<Rightarrow> bool" where
  "is_scalar (YScalar _) = True"
| "is_scalar _ = False"

fun node_Scalar :: "node \<Rightarrow> string" where
  "node_Scalar (YScalar s) = s"
| "node_Scalar _ = []"

fun node_pairs :: "node \<Rightarrow> (node \<times> node) list" where
  "node_pairs (YMap ps) = ps"
| "node_pairs _ = []"

text \<open>\<open>node["key"]\<close>: the value of the first pair with that key, \<open>None\<close> an undefined node.\<close>

fun node_get :: "string \<Rightarrow> node \<Rightarrow> node option" where
  "node_get k (YMap ps) = map_option snd (find (\<lambda>(n, _). n = YScalar k) ps)"
| "node_get k _ = None"

fun as_string :: "node \<Rightarrow> exn + string" where
  "as_string (YScalar s) = Inr s"
| "as_string YNull = Inr ''null''"
| "as_string _ = Inl (YamlError ''bad conversion'')"

text \<open>A default-constructed node after \<open>push_back\<close> calls, and after \<open>node[k] = v\<close> assignments: without any it is null.\<close>

definition seq_node :: "node list \<Rightarrow> node" where
  "seq_node ns = (if ns = [] then YNull else YSeq ns)"

definition map_node :: "(string \<times> node) list \<Rightarrow> node" where
  "map_node ps = (if ps = [] then YNull else YMap (map (\<lambda>(k, n). (YScalar k, n)) ps))"

subsection \<open>Sequences\<close>

definition elements :: "yaml \<Rightarrow> (string \<Rightarrow> exn + 'a) \<Rightarrow> string \<Rightarrow> exn + 'a list" where
  "elements y cast v =
     bindE (y_load y v) (\<lambda>n. mapE (\<lambda>i. bindE (node_at y n i) (\<lambda>m. cast (y_dump y m))) [0..<node_size n])"

definition print_elements :: "yaml \<Rightarrow> ('a \<Rightarrow> exn + string) \<Rightarrow> 'a list \<Rightarrow> exn + string" where
  "print_elements y cast v =
     bindE (mapE (\<lambda>i. bindE (cast i) (y_load y)) v) (\<lambda>ns. Inr (y_dump y (seq_node ns)))"

definition string2vector :: "yaml \<Rightarrow> (string \<Rightarrow> exn + 'a) \<Rightarrow> string \<Rightarrow> exn + 'a list" where
  "string2vector y cast v = elements y cast v"

definition vector2string :: "yaml \<Rightarrow> ('a \<Rightarrow> exn + string) \<Rightarrow> 'a list \<Rightarrow> exn + string" where
  "vector2string y cast v = print_elements y cast v"

definition string2list :: "yaml \<Rightarrow> (string \<Rightarrow> exn + 'a) \<Rightarrow> string \<Rightarrow> exn + 'a list" where
  "string2list y cast v = elements y cast v"

definition list2string :: "yaml \<Rightarrow> ('a \<Rightarrow> exn + string) \<Rightarrow> 'a list \<Rightarrow> exn + string" where
  "list2string y cast v = print_elements y cast v"

text \<open>A \<open>std::set\<close> with comparison \<open>lt\<close>.\<close>

definition string2set :: "yaml \<Rightarrow> ('a \<Rightarrow> 'a \<Rightarrow> bool) \<Rightarrow> (string \<Rightarrow> exn + 'a) \<Rightarrow> string \<Rightarrow> exn + 'a list" where
  "string2set y lt cast v = bindE (elements y cast v) (\<lambda>xs. Inr (fold (set_insert lt) xs []))"

definition set2string :: "yaml \<Rightarrow> ('a \<Rightarrow> exn + string) \<Rightarrow> 'a list \<Rightarrow> exn + string" where
  "set2string y cast v = print_elements y cast v"

text \<open>An \<open>std::unordered_set\<close> as a set; when it is printed, \<open>order\<close> is the order in which it is traversed.\<close>

definition string2unordered_set :: "yaml \<Rightarrow> (string \<Rightarrow> exn + 'a) \<Rightarrow> string \<Rightarrow> exn + 'a set" where
  "string2unordered_set y cast v = bindE (elements y cast v) (\<lambda>xs. Inr (set xs))"

definition unordered_set2string :: "yaml \<Rightarrow> ('a \<Rightarrow> exn + string) \<Rightarrow> ('a set \<Rightarrow> 'a list) \<Rightarrow> 'a set \<Rightarrow> exn + string" where
  "unordered_set2string y cast order v = print_elements y cast (order v)"

subsection \<open>Maps with string keys\<close>

definition entries :: "yaml \<Rightarrow> (string \<Rightarrow> exn + 'a) \<Rightarrow> string \<Rightarrow> exn + (string \<times> 'a) list" where
  "entries y cast v =
     bindE (y_load y v) (\<lambda>n. mapE (\<lambda>(k, m). bindE (cast (y_dump y m)) (\<lambda>x. Inr (node_Scalar k, x))) (node_pairs n))"

definition print_entries :: "yaml \<Rightarrow> ('a \<Rightarrow> exn + string) \<Rightarrow> (string \<times> 'a) list \<Rightarrow> exn + string" where
  "print_entries y cast v =
     bindE (mapE (\<lambda>(k, x). bindE (cast x) (\<lambda>s. bindE (y_load y s) (\<lambda>n. Inr (k, n)))) v)
       (\<lambda>ps. Inr (y_dump y (map_node ps)))"

definition string2map :: "yaml \<Rightarrow> (string \<Rightarrow> exn + 'a) \<Rightarrow> string \<Rightarrow> exn + (string \<times> 'a) list" where
  "string2map y cast v = bindE (entries y cast v) (\<lambda>ps. Inr (fold (\<lambda>(k, x). map_insert string_less k x) ps []))"

definition map2string :: "yaml \<Rightarrow> ('a \<Rightarrow> exn + string) \<Rightarrow> (string \<times> 'a) list \<Rightarrow> exn + string" where
  "map2string y cast v = print_entries y cast v"

definition string2unordered_map :: "yaml \<Rightarrow> (string \<Rightarrow> exn + 'a) \<Rightarrow> string \<Rightarrow> exn + (string \<rightharpoonup> 'a)" where
  "string2unordered_map y cast v =
     bindE (entries y cast v) (\<lambda>ps. Inr (fold (\<lambda>(k, x) m. if m k = None then m(k \<mapsto> x) else m) ps Map.empty))"

definition unordered_map2string :: "yaml \<Rightarrow> ('a \<Rightarrow> exn + string) \<Rightarrow> ((string \<rightharpoonup> 'a) \<Rightarrow> (string \<times> 'a) list) \<Rightarrow> (string \<rightharpoonup> 'a) \<Rightarrow> exn + string" where
  "unordered_map2string y cast order v = print_entries y cast (order v)"

subsection \<open>Round trips\<close>

text \<open>The node an element is converted to.\<close>

definition elem_node :: "yaml \<Rightarrow> ('a \<Rightarrow> exn + string) \<Rightarrow> 'a \<Rightarrow> node" where
  "elem_node y to x = (case bindE (to x) (y_load y) of Inl _ \<Rightarrow> YNull | Inr n \<Rightarrow> n)"

lemma mapE_nth: "(\<And>x. x \<in> set xs \<Longrightarrow> f x = Inr (g x)) \<Longrightarrow> mapE (\<lambda>i. f (xs ! i)) [0..<length xs] = Inr (map g xs)"
  by (subst mapE_Inr [of _ _ "\<lambda>i. g (xs ! i)"]) (simp_all add: map_equality_iff)

lemma elements_seq:
  assumes "y_load y s = Inr (seq_node ns)" and "\<And>n. n \<in> set ns \<Longrightarrow> cast (y_dump y n) = Inr (g n)"
  shows "elements y cast s = Inr (map g ns)"
proof (cases "ns = []")
  case True
  then show ?thesis using assms(1) by (simp add: elements_def seq_node_def)
next
  case False
  have "mapE (\<lambda>i. bindE (node_at y (YSeq ns) i) (\<lambda>m. cast (y_dump y m))) [0..<length ns] =
      mapE (\<lambda>i. cast (y_dump y (ns ! i))) [0..<length ns]"
    by (subst mapE_Inr [of _ _ "\<lambda>i. g (ns ! i)"], simp add: assms(2), subst mapE_Inr [of _ _ "\<lambda>i. g (ns ! i)"])
       (simp_all add: assms(2))
  also have "\<dots> = Inr (map g ns)" using assms(2) by (rule mapE_nth)
  finally show ?thesis using assms(1) False by (simp add: elements_def seq_node_def)
qed

lemma print_elements_ok:
  assumes "\<And>x. x \<in> set xs \<Longrightarrow> bindE (to x) (y_load y) = Inr (f x)"
  shows "print_elements y to xs = Inr (y_dump y (seq_node (map f xs)))"
  using assms by (simp add: print_elements_def mapE_Inr)

lemma entries_map:
  assumes "y_load y s = Inr (map_node (map (\<lambda>(k, x). (k, f x)) ps))" and "\<And>k x. (k, x) \<in> set ps \<Longrightarrow> cast (y_dump y (f x)) = Inr x"
  shows "entries y cast s = Inr ps"
proof -
  have "mapE (\<lambda>(k, m). bindE (cast (y_dump y m)) (\<lambda>x. Inr (node_Scalar k, x))) (map (\<lambda>(k, x). (YScalar k, f x)) ps) = Inr ps"
    unfolding mapE_map using assms(2) by (subst mapE_Inr [where g = id]) auto
  then show ?thesis using assms(1) by (cases ps) (auto simp: entries_def map_node_def comp_def case_prod_unfold)
qed

lemma print_entries_ok:
  assumes "\<And>k x. (k, x) \<in> set ps \<Longrightarrow> bindE (to x) (y_load y) = Inr (f x)"
  shows "print_entries y to ps = Inr (y_dump y (map_node (map (\<lambda>(k, x). (k, f x)) ps)))"
proof -
  have "mapE (\<lambda>(k, x). bindE (to x) (\<lambda>s. bindE (y_load y s) (\<lambda>n. Inr (k, n)))) ps = Inr (map (\<lambda>(k, x). (k, f x)) ps)"
    using assms by (intro mapE_Inr) (auto simp: bindE_assoc [symmetric])
  then show ?thesis by (simp add: print_entries_def)
qed

text \<open>C34. Where the YAML library reads back what it prints and the elements survive their own conversion, a vector, list,
  set or map written to a configuration text is read back unchanged, the empty one included.\<close>

theorem lexical_cast_roundtrip:
  assumes load_dump: "\<And>n. y_load y (y_dump y n) = Inr n"
    and elem: "\<And>x. \<exists>n. bindE (to x) (y_load y) = Inr n \<and> from (y_dump y n) = Inr x"
    and lt: "strict_weak_order lt"
  shows "bindE (vector2string y to xs) (string2vector y from) = Inr xs \<and>
    bindE (list2string y to xs) (string2list y from) = Inr xs \<and>
    (sorted_wrt lt xs \<longrightarrow> bindE (set2string y to xs) (string2set y lt from) = Inr xs) \<and>
    (map_sorted string_less ps \<longrightarrow> bindE (map2string y to ps) (string2map y from) = Inr ps)"
proof -
  have el: "bindE (to x) (y_load y) = Inr (elem_node y to x) \<and> from (y_dump y (elem_node y to x)) = Inr x" for x
    using elem [of x] by (auto simp: elem_node_def)
  have seq: "elements y from (y_dump y (seq_node (map (elem_node y to) xs))) = Inr xs"
  proof -
    define inv where "inv n = (case from (y_dump y n) of Inr x \<Rightarrow> x)" for n
    have "elements y from (y_dump y (seq_node (map (elem_node y to) xs))) = Inr (map inv (map (elem_node y to) xs))"
      by (rule elements_seq) (use load_dump el in \<open>auto simp: inv_def\<close>)
    then show ?thesis using el by (simp add: inv_def comp_def)
  qed
  have pr: "print_elements y to xs = Inr (y_dump y (seq_node (map (elem_node y to) xs)))"
    using el by (intro print_elements_ok) simp
  have mp: "entries y from (y_dump y (map_node (map (\<lambda>(k, x). (k, elem_node y to x)) ps))) = Inr ps"
    using load_dump el by (intro entries_map [where f = "elem_node y to"]) simp_all
  have pm: "print_entries y to ps = Inr (y_dump y (map_node (map (\<lambda>(k, x). (k, elem_node y to x)) ps)))"
    using el by (intro print_entries_ok) simp
  have "sorted_wrt lt xs \<Longrightarrow> fold (set_insert lt) xs [] = xs" using strict_weak_order.set_rebuild [OF lt, of "[]" xs] by simp
  moreover have "map_sorted string_less ps \<Longrightarrow> fold (\<lambda>(k, x). map_insert string_less k x) ps [] = ps"
    using str.map_rebuild [of "[]" ps] by simp
  ultimately show ?thesis
    using seq pr mp pm
    by (simp add: vector2string_def string2vector_def list2string_def string2list_def set2string_def string2set_def
        map2string_def string2map_def)
qed

text \<open>A library that prints a node as its number in an enumeration of all nodes, and numbers as elements.\<close>

instance node :: countable
  by countable_datatype

definition enum_yaml :: yaml where
  "enum_yaml = \<lparr>y_load = \<lambda>s. Inr (from_nat (undec s)), y_dump = \<lambda>n. dec (to_nat n), y_other_at = \<lambda>_ _. Inl (YamlError [])\<rparr>"

definition num_to :: "nat \<Rightarrow> exn + string" where
  "num_to x = Inr (y_dump enum_yaml (YScalar (dec x)))"

definition num_from :: "string \<Rightarrow> exn + nat" where
  "num_from s = bindE (y_load enum_yaml s) (\<lambda>n. Inr (undec (node_Scalar n)))"

theorem lexical_cast_roundtrip_witness:
  "bindE (vector2string enum_yaml num_to [8020, 8080]) (string2vector enum_yaml num_from) = Inr [8020, 8080]"
proof -
  have "strict_weak_order ((<) :: nat \<Rightarrow> nat \<Rightarrow> bool)" by unfold_locales (auto simp: equivalent_def)
  moreover have "y_load enum_yaml (y_dump enum_yaml n) = Inr n" for n by (simp add: enum_yaml_def)
  ultimately show ?thesis
    using lexical_cast_roundtrip [where y = enum_yaml and to = num_to and lt = "(<)" and xs = "[8020, 8080]" and ps = "[]"]
    by (simp add: num_to_def num_from_def)
qed

end
