(* ===== verification/Util.thy ===== *)
theory Util
  imports CStrings
begin

text \<open>
  \<open>src/util.cc\<close>: paths, directories, pid files, clocks and back traces.

  The calls to the kernel are the fields of an argument \<open>os\<close>; the state of the file system is of any type \<open>'fs\<close>. The
  entries of a directory are a tree; \<open>None\<close> stands for a directory that \<open>access\<close> or \<open>opendir\<close> refuses.
\<close>

record 'fs os =
  os_access :: "string \<Rightarrow> 'fs \<Rightarrow> bool"
  os_lstat :: "string \<Rightarrow> 'fs \<Rightarrow> bool"
  os_mkdir :: "string \<Rightarrow> 'fs \<Rightarrow> bool \<times> 'fs"
  os_open :: "string \<Rightarrow> 'fs \<Rightarrow> bool \<times> 'fs"

subsection \<open>Paths\<close>

text \<open>\<open>rfind\<close>: the position of the last occurrence.\<close>

definition rfind :: "char \<Rightarrow> string \<Rightarrow> nat option" where
  "rfind c s = (if c \<in> set s then Some (length s - 1 - length (takeWhile (\<lambda>x. x \<noteq> c) (rev s))) else None)"

definition Dirname :: "string \<Rightarrow> string" where
  "Dirname file_name =
     (if file_name = [] then ''.''
      else case rfind (CHR ''/'') file_name of
        None \<Rightarrow> ''.''
      | Some pos \<Rightarrow> if pos = 0 then ''/'' else take pos file_name)"

definition Basename :: "string \<Rightarrow> string" where
  "Basename file_name =
     (if file_name = [] then file_name
      else case rfind (CHR ''/'') file_name of
        None \<Rightarrow> file_name
      | Some pos \<Rightarrow> drop (pos + 1) file_name)"

subsection \<open>Directories\<close>

text \<open>\<open>__MkDir\<close>; success is a result of 0.\<close>

definition mk_dir :: "'fs os \<Rightarrow> string \<Rightarrow> 'fs \<Rightarrow> bool \<times> 'fs" where
  "mk_dir os dirname fs = (if os_access os dirname fs then (True, fs) else os_mkdir os dirname fs)"

text \<open>The loop of \<open>MKDir\<close> over the positions of \<open>/\<close>; the result is \<open>ptr == nullptr\<close>.\<close>

fun mkdir_loop :: "'fs os \<Rightarrow> string \<Rightarrow> nat list \<Rightarrow> 'fs \<Rightarrow> bool \<times> 'fs" where
  "mkdir_loop os path [] fs = (True, fs)"
| "mkdir_loop os path (p # ps) fs = (case mk_dir os (take p path) fs of
     (True, fs') \<Rightarrow> mkdir_loop os path ps fs'
   | (False, fs') \<Rightarrow> (False, fs'))"

text \<open>\<open>path\<close> is freed before the last directory is created from it.\<close>

definition MKDir :: "'fs os \<Rightarrow> string \<Rightarrow> 'fs \<Rightarrow> fault + bool \<times> 'fs" where
  "MKDir os dirname fs =
     (let path = c_str dirname in
      if os_lstat os path fs then Inr (True, fs)
      else if path = [] then Inl OutOfBounds
      else case mkdir_loop os path (filter (\<lambda>i. path ! i = CHR ''/'') [1..<length path]) fs of
        (False, fs') \<Rightarrow> Inr (False, fs')
      | (True, fs') \<Rightarrow> Inl UseAfterFree)"

definition OpenForWrite :: "'fs os \<Rightarrow> string \<Rightarrow> 'fs \<Rightarrow> fault + bool \<times> 'fs" where
  "OpenForWrite os file_name fs = (case os_open os (c_str file_name) fs of
     (True, fs') \<Rightarrow> Inr (True, fs')
   | (False, fs') \<Rightarrow> (case MKDir os (Dirname file_name) fs' of
       Inl x \<Rightarrow> Inl x
     | Inr (_, fs'') \<Rightarrow> Inr (os_open os (c_str file_name) fs'')))"

definition OpenForRead :: "('fs \<Rightarrow> string \<Rightarrow> bool) \<Rightarrow> string \<Rightarrow> 'fs \<Rightarrow> bool" where
  "OpenForRead opens file_name fs = opens fs (c_str file_name)"

datatype dirent = DT_DIR string "dirent list option" | DT_REG string | DT_OTHER string

definition has_subfix :: "string \<Rightarrow> string \<Rightarrow> bool" where
  "has_subfix subfix name \<longleftrightarrow>
     subfix = [] \<or> \<not> length name < length subfix \<and> drop (length name - length subfix) name = subfix"

fun list_entries :: "string \<Rightarrow> string \<Rightarrow> dirent list \<Rightarrow> string list" where
  "list_entries path subfix [] = []"
| "list_entries path subfix (DT_DIR name sub # ds) =
     (if name = ''.'' \<or> name = ''..'' then []
      else case sub of None \<Rightarrow> [] | Some es \<Rightarrow> list_entries (path @ ''/'' @ name) subfix es) @
     list_entries path subfix ds"
| "list_entries path subfix (DT_REG name # ds) =
     (if has_subfix subfix name then [path @ ''/'' @ name] else []) @ list_entries path subfix ds"
| "list_entries path subfix (DT_OTHER name # ds) = list_entries path subfix ds"

definition ListAllFile :: "string list \<Rightarrow> string \<Rightarrow> string \<Rightarrow> dirent list option \<Rightarrow> string list" where
  "ListAllFile files path subfix dir = files @ (case dir of None \<Rightarrow> [] | Some es \<Rightarrow> list_entries path subfix es)"

subsection \<open>Pid files\<close>

definition is_digit :: "char \<Rightarrow> bool" where
  "is_digit c \<longleftrightarrow> 48 \<le> code c \<and> code c \<le> 57"

definition is_space :: "char \<Rightarrow> bool" where
  "is_space c \<longleftrightarrow> code c = 32 \<or> 9 \<le> code c \<and> code c \<le> 13"

text \<open>\<open>atoi\<close> on values that fit an \<open>int\<close>.\<close>

definition atoi :: "string \<Rightarrow> int" where
  "atoi s =
     (let t = dropWhile is_space (c_str s) in
      case t of
        [] \<Rightarrow> 0
      | c # cs \<Rightarrow>
          if c = CHR ''-'' then - int (undec (takeWhile is_digit cs))
          else if c = CHR ''+'' then int (undec (takeWhile is_digit cs))
          else int (undec (takeWhile is_digit t)))"

lemma atoi_dec: "atoi (dec n) = int n"
proof -
  have digits: "48 \<le> code c \<and> code c \<le> 57" if "c \<in> set (dec n)" for c using dec_not that by blast
  have "CHR 0x00 \<notin> set (dec n)" by (rule dec_not) (simp add: code_def)
  then have nul: "c_str (dec n) = dec n" by (auto simp: c_str_def takeWhile_eq_all_conv)
  obtain c cs where c: "dec n = c # cs" by (cases "dec n") simp_all
  have code: "48 \<le> code c \<and> code c \<le> 57" by (rule digits) (simp add: c)
  then have "\<not> is_space c" "c \<noteq> CHR ''-''" "c \<noteq> CHR ''+''" by (auto simp: is_space_def code_def)
  moreover have "takeWhile is_digit (dec n) = dec n" using digits by (auto simp: takeWhile_eq_all_conv is_digit_def)
  ultimately show ?thesis using nul c undec_dec [of n] by (simp add: atoi_def)
qed

text \<open>\<open>line\<close> is what \<open>getline\<close> reads of the file, \<open>None\<close> when it cannot be opened or is empty; \<open>alive\<close> is \<open>kill(pid, 0) == 0\<close>.\<close>

definition ISRunningPidFile :: "bool \<Rightarrow> string option \<Rightarrow> (int \<Rightarrow> bool) \<Rightarrow> bool" where
  "ISRunningPidFile exists line alive =
     (if \<not> exists then False
      else case line of
        None \<Rightarrow> False
      | Some l \<Rightarrow>
          if l = [] then False
          else let pid = atoi l in if pid \<le> 1 then False else if \<not> alive pid then False else True)"

subsection \<open>Clocks and back traces\<close>

definition GetCurrentMS :: "u64 \<Rightarrow> u64 \<Rightarrow> u64" where
  "GetCurrentMS tv_sec tv_usec = tv_sec * 1000 + tv_usec div 1000"

definition GetCurrentUS :: "u64 \<Rightarrow> u64 \<Rightarrow> u64" where
  "GetCurrentUS tv_sec tv_usec = tv_sec * 1000 * 1000 + tv_usec"

text \<open>\<open>symbols\<close> is the result of \<open>backtrace_symbols\<close>.\<close>

definition Backtrace :: "string list \<Rightarrow> string list option \<Rightarrow> nat \<Rightarrow> string list" where
  "Backtrace bt symbols skip = (case symbols of None \<Rightarrow> bt | Some strings \<Rightarrow> bt @ map c_str (drop skip strings))"

definition BacktraceToString :: "string list option \<Rightarrow> nat \<Rightarrow> string \<Rightarrow> string" where
  "BacktraceToString symbols skip prefix =
     concat (map (\<lambda>s. prefix @ s @ [CHR 0x0A]) (Backtrace [] symbols skip))"

definition Time2Str :: "(string \<Rightarrow> u64 \<Rightarrow> string option) \<Rightarrow> u64 \<Rightarrow> string \<Rightarrow> fault + string" where
  "Time2Str strftime ts format = (case strftime (c_str format) ts of None \<Rightarrow> Inl Uninitialised | Some s \<Rightarrow> Inr (c_str s))"

subsection \<open>Properties\<close>

lemma rfind_append: "c \<notin> set b \<Longrightarrow> rfind c (d @ c # b) = Some (length d)"
proof -
  assume "c \<notin> set b"
  then have "takeWhile (\<lambda>x. x \<noteq> c) (rev b @ c # rev d) = rev b"
    by (subst takeWhile_append2) (auto simp: takeWhile_eq_all_conv)
  then show ?thesis by (simp add: rfind_def)
qed

lemma rfind_none: "c \<notin> set s \<Longrightarrow> rfind c s = None"
  by (simp add: rfind_def)

text \<open>The directory and the last component of a path.\<close>

lemma dirname_basename:
  assumes "CHR ''/'' \<notin> set b"
  shows "Dirname (d @ CHR ''/'' # b) = (if d = [] then ''/'' else d) \<and> Basename (d @ CHR ''/'' # b) = b \<and>
    Dirname b = ''.'' \<and> Basename b = b"
  using assms by (auto simp: Dirname_def Basename_def rfind_append rfind_none)

text \<open>\<open>MKDir\<close> reports success only for a directory that exists already: when it has created every parent it reads the
  path it has just freed. So opening a log file in a directory that does not exist yet never gets as far as
  opening it.\<close>

theorem mkdir_use_after_free:
  assumes "\<not> os_lstat os (c_str dirname) fs" and "c_str dirname \<noteq> []"
    and "\<And>d fs. fst (os_mkdir os d fs)"
  shows "MKDir os dirname fs = Inl UseAfterFree"
proof -
  have "fst (mkdir_loop os path ps fs)" for path ps fs
    using assms(3) by (induction ps arbitrary: fs) (auto simp: mk_dir_def split: prod.splits bool.splits, metis fst_conv)
  then show ?thesis using assms(1,2) by (auto simp: MKDir_def Let_def split: prod.splits bool.splits) (metis fst_conv)
qed

theorem mkdir_use_after_free_witness:
  "MKDir \<lparr>os_access = \<lambda>d fs. d \<in> fs, os_lstat = \<lambda>d fs. d \<in> fs, os_mkdir = \<lambda>d fs. (True, insert d fs), os_open = \<lambda>f fs. (True, fs)\<rparr>
     ''/var/log/sylar'' {''/var''} = Inl UseAfterFree"
proof -
  let ?os = "\<lparr>os_access = \<lambda>d fs. d \<in> fs, os_lstat = \<lambda>d fs. d \<in> fs, os_mkdir = \<lambda>d fs. (True, insert d fs), os_open = \<lambda>f fs. (True, fs)\<rparr>"
  have "c_str ''/var/log/sylar'' = ''/var/log/sylar''" by code_simp
  then show ?thesis by (intro mkdir_use_after_free) simp_all
qed

text \<open>The files below a directory that end in a suffix.\<close>

inductive file_below :: "string \<Rightarrow> string \<Rightarrow> dirent list \<Rightarrow> string \<Rightarrow> bool" for subfix where
  here: "DT_REG name \<in> set es \<Longrightarrow> has_subfix subfix name \<Longrightarrow> file_below subfix path es (path @ CHR ''/'' # name)"
| sub: "DT_DIR name (Some ds) \<in> set es \<Longrightarrow> name \<noteq> ''.'' \<Longrightarrow> name \<noteq> ''..'' \<Longrightarrow>
    file_below subfix (path @ CHR ''/'' # name) ds f \<Longrightarrow> file_below subfix path es f"

lemma file_below_mono: "file_below subfix path es f \<Longrightarrow> set es \<subseteq> set es' \<Longrightarrow> file_below subfix path es' f"
  by (induction rule: file_below.induct) (auto intro: file_below.intros)

lemma list_entries_sound: "f \<in> set (list_entries path subfix es) \<Longrightarrow> file_below subfix path es f"
proof (induction path subfix es rule: list_entries.induct)
  case (2 path subfix name sub ds)
  show ?case
  proof (cases "f \<in> set (list_entries path subfix ds)")
    case True
    then show ?thesis using 2(2) file_below_mono [of subfix path ds f "DT_DIR name sub # ds"] by auto
  next
    case False
    then obtain es where es: "name \<noteq> ''.''" "name \<noteq> ''..''" "sub = Some es"
        "f \<in> set (list_entries (path @ CHR ''/'' # name) subfix es)"
      using 2(3) by (auto split: if_splits option.splits)
    then have "file_below subfix (path @ CHR ''/'' # name) es f" using 2(1) [of es] by simp
    from file_below.sub [OF _ es(1,2) this] show ?thesis by (simp add: es(3))
  qed
next
  case (3 path subfix name ds)
  then show ?case using file_below_mono [of subfix path ds f "DT_REG name # ds"]
    by (cases "f \<in> set (list_entries path subfix ds)") (auto split: if_splits intro: file_below.here)
next
  case (4 path subfix name ds)
  then show ?case using file_below_mono [of subfix path ds f "DT_OTHER name # ds"] by auto
qed simp

lemma list_entries_mem:
  "DT_REG name \<in> set es \<Longrightarrow> has_subfix subfix name \<Longrightarrow> path @ CHR ''/'' # name \<in> set (list_entries path subfix es)"
  "DT_DIR name (Some ds) \<in> set es \<Longrightarrow> name \<noteq> ''.'' \<Longrightarrow> name \<noteq> ''..'' \<Longrightarrow>
     f \<in> set (list_entries (path @ CHR ''/'' # name) subfix ds) \<Longrightarrow> f \<in> set (list_entries path subfix es)"
  by (induction path subfix es rule: list_entries.induct) auto

lemma list_entries_complete: "file_below subfix path es f \<Longrightarrow> f \<in> set (list_entries path subfix es)"
  by (induction rule: file_below.induct) (auto intro: list_entries_mem)

lemma ListAllFile_correct:
  "set (ListAllFile files path subfix (Some es)) = set files \<union> {f. file_below subfix path es f}"
  using list_entries_sound list_entries_complete by (auto simp: ListAllFile_def)

end
