(* ===== verification/Env.thy ===== *)
theory Env
  imports Util KeyedStore
begin

text \<open>
  \<open>src/env.cc\<close>: program arguments, help texts and paths.

  The link that \<open>readlink\<close> resolves and the environment of the process are arguments. A failed \<open>init\<close> returns false
  with the arguments read so far stored, as the code leaves them.
\<close>

record Env =
  m_args :: "(string \<times> string) list"
  m_helps :: "(string \<times> string) list"
  m_program :: string
  m_exe :: string
  m_cwd :: string

subsection \<open>Arguments\<close>

definition env_add :: "string \<Rightarrow> string \<Rightarrow> Env \<Rightarrow> Env" where
  "env_add key val e = e\<lparr>m_args := map_assign string_less key val (m_args e)\<rparr>"

definition env_del :: "string \<Rightarrow> Env \<Rightarrow> Env" where
  "env_del key e = e\<lparr>m_args := map_erase string_less key (m_args e)\<rparr>"

definition env_find :: "string \<Rightarrow> Env \<Rightarrow> string option" where
  "env_find key e = map_find string_less key (m_args e)"

definition env_has :: "string \<Rightarrow> Env \<Rightarrow> bool" where
  "env_has key e \<longleftrightarrow> env_find key e \<noteq> None"

definition env_get :: "string \<Rightarrow> string \<Rightarrow> Env \<Rightarrow> string" where
  "env_get key default_value e = (case env_find key e of None \<Rightarrow> default_value | Some v \<Rightarrow> v)"

definition argsIsEmpty :: "Env \<Rightarrow> bool" where
  "argsIsEmpty e \<longleftrightarrow> m_args e = []"

text \<open>The loop over \<open>argv\<close>: \<open>now_key\<close> is the option that waits for its value. \<open>argv[i]\<close> is a C string, so \<open>argv[i][0]\<close> of an
  empty one is its terminator.\<close>

fun args_loop :: "string list \<Rightarrow> string option \<Rightarrow> Env \<Rightarrow> bool \<times> string option \<times> Env" where
  "args_loop [] now_key e = (True, now_key, e)"
| "args_loop (a # as) now_key e =
     (if a \<noteq> [] \<and> hd a = CHR ''-'' then
        (if length a > 1 then
           args_loop as (Some (tl a)) (case now_key of None \<Rightarrow> e | Some k \<Rightarrow> env_add k [] e)
         else (False, now_key, e))
      else case now_key of
        Some k \<Rightarrow> args_loop as None (env_add k a e)
      | None \<Rightarrow> (False, now_key, e))"

definition printHelp :: "Env \<Rightarrow> string" where
  "printHelp e = ''Usage: '' @ m_program e @ '' [Options]'' @ [CHR 0x0A] @
     concat (map (\<lambda>(k, d). ''    -'' @ k @ '' : '' @ d @ [CHR 0x0A]) (m_helps e))"

text \<open>\<open>exe\<close> is the path \<open>readlink\<close> stores in the zeroed buffer, at most 1023 characters; the text \<open>init\<close> prints is part of the result.\<close>

definition env_init :: "string \<Rightarrow> string \<Rightarrow> string list \<Rightarrow> Env \<Rightarrow> bool \<times> string \<times> Env" where
  "env_init exe program args e =
     (let exe = c_str exe;
          cwd = (case rfind (CHR ''/'') exe of None \<Rightarrow> exe | Some pos \<Rightarrow> take pos exe) @ ''/'';
          e = e\<lparr>m_exe := exe, m_cwd := cwd, m_program := program\<rparr>
      in case args_loop args None e of
           (False, _, e) \<Rightarrow> (False, [], e)
         | (True, now_key, e) \<Rightarrow>
             let e = (case now_key of None \<Rightarrow> e | Some k \<Rightarrow> env_add k [] e)
             in (True, if argsIsEmpty e then printHelp e else [], e))"

subsection \<open>Help texts\<close>

definition removeHelp :: "string \<Rightarrow> Env \<Rightarrow> Env" where
  "removeHelp key e = e\<lparr>m_helps := filter (\<lambda>p. fst p \<noteq> key) (m_helps e)\<rparr>"

definition addHelp :: "string \<Rightarrow> string \<Rightarrow> Env \<Rightarrow> Env" where
  "addHelp key desc e = (let e = removeHelp key e in e\<lparr>m_helps := m_helps e @ [(key, desc)]\<rparr>)"

definition find_help :: "string \<Rightarrow> Env \<Rightarrow> string option" where
  "find_help key e = map_of (m_helps e) key"

subsection \<open>Environment and paths\<close>

definition setEnv :: "string \<Rightarrow> string \<Rightarrow> (string \<rightharpoonup> string) \<Rightarrow> bool \<times> (string \<rightharpoonup> string)" where
  "setEnv key val env =
     (let k = c_str key in
      if k = [] \<or> CHR ''='' \<in> set k then (False, env) else (True, env(k \<mapsto> c_str val)))"

definition getEnv :: "string \<Rightarrow> string \<Rightarrow> (string \<rightharpoonup> string) \<Rightarrow> string" where
  "getEnv key default_value env = (case env (c_str key) of None \<Rightarrow> default_value | Some v \<Rightarrow> v)"

definition getAbsolutePath :: "string \<Rightarrow> Env \<Rightarrow> string" where
  "getAbsolutePath path e =
     (if path = [] then ''/'' else if hd path = CHR ''/'' then path else m_cwd e @ path)"

subsection \<open>The stores\<close>

interpretation args: keyed_store "\<lambda>e. map_sorted string_less (m_args e)" "(=)" env_find env_add env_del
  by unfold_locales
    (simp_all add: env_find_def env_add_def env_del_def str.map_find_assign str.map_find_erase
      str.map_assign_sorted str.map_erase_sorted)

interpretation helps: keyed_store "\<lambda>_. True" "(=)" find_help addHelp removeHelp
  by unfold_locales
    (auto simp: find_help_def addHelp_def removeHelp_def Let_def map_add_Some_iff map_of_filter_key map_add_def
      split: option.splits)

subsection \<open>The command line\<close>

text \<open>A command line as it is meant: options \<open>-key\<close> and \<open>-key value\<close>.\<close>

fun show_args :: "(string \<times> string option) list \<Rightarrow> string list" where
  "show_args [] = []"
| "show_args ((k, None) # as) = (CHR ''-'' # k) # show_args as"
| "show_args ((k, Some v) # as) = (CHR ''-'' # k) # v # show_args as"

definition arg_ops :: "(string \<times> string option) list \<Rightarrow> (string, string) store_op list" where
  "arg_ops as = map (\<lambda>(k, v). Put k (case v of None \<Rightarrow> [] | Some w \<Rightarrow> w)) as"

definition arg_ok :: "string \<times> string option \<Rightarrow> bool" where
  "arg_ok a \<longleftrightarrow> fst a \<noteq> [] \<and> (case snd a of None \<Rightarrow> True | Some v \<Rightarrow> v = [] \<or> hd v \<noteq> CHR ''-'')"

definition flush_key :: "string option \<Rightarrow> Env \<Rightarrow> Env" where
  "flush_key now_key e = (case now_key of None \<Rightarrow> e | Some k \<Rightarrow> env_add k [] e)"

lemma replay_Cons: "replay put del (c # ops) s = replay put del ops (run_op put del c s)"
  by (simp add: replay_def)

lemma run_op_cwd: "m_cwd (run_op env_add env_del c e) = m_cwd e"
  by (cases c) (simp_all add: env_add_def env_del_def)

lemma args_loop_ok:
  "list_all arg_ok as \<Longrightarrow>
   \<exists>k' e'. args_loop (show_args as) k e = (True, k', e') \<and> flush_key k' e' = replay env_add env_del (arg_ops as) (flush_key k e)"
proof (induction as arbitrary: k e)
  case Nil
  then show ?case by (simp add: arg_ops_def)
next
  case (Cons a as)
  obtain key v where a: "a = (key, v)" by (cases a)
  then have key: "key \<noteq> []" using Cons.prems by (simp add: arg_ok_def)
  show ?case
  proof (cases v)
    case None
    then show ?thesis using Cons.IH [of "Some key" "flush_key k e"] Cons.prems a key
      by (simp add: arg_ops_def replay_Cons flush_key_def)
  next
    case (Some w)
    then have "\<not> (w \<noteq> [] \<and> hd w = CHR ''-'')" using Cons.prems a by (simp add: arg_ok_def)
    then show ?thesis using Cons.IH [of None "env_add key w (flush_key k e)"] Cons.prems a key Some
      by (auto simp: arg_ops_def replay_Cons flush_key_def)
  qed
qed

text \<open>A command line of options with and without values is read as it was written: \<open>init\<close> succeeds and afterwards
  every option has its last value, the empty one when it was given none, and no other option is present. The
  directory of the program is the path up to its last slash.\<close>

theorem env_command_line:
  assumes "list_all arg_ok as" and "m_args e0 = []" and "CHR ''/'' \<notin> set prog" and "CHR 0x00 \<notin> set (dir @ prog)"
  shows "\<exists>out e. env_init (dir @ CHR ''/'' # prog) program (show_args as) e0 = (True, out, e) \<and>
    (\<forall>k. env_find k e = last_value (=) k (arg_ops as) None) \<and>
    m_cwd e = dir @ ''/'' \<and> getAbsolutePath prog e = (if prog = [] then ''/'' else dir @ CHR ''/'' # prog)"
proof -
  let ?exe = "dir @ CHR ''/'' # prog"
  let ?e = "e0\<lparr>m_exe := ?exe, m_cwd := dir @ ''/'', m_program := program\<rparr>"
  obtain k e where loop: "args_loop (show_args as) None ?e = (True, k, e)"
      "flush_key k e = replay env_add env_del (arg_ops as) ?e"
    using args_loop_ok [OF assms(1), of None ?e] by (auto simp: flush_key_def)
  have "env_init ?exe program (show_args as) e0 =
      (True, if argsIsEmpty (flush_key k e) then printHelp (flush_key k e) else [], flush_key k e)"
    using loop(1) assms(3,4) by (simp add: env_init_def Let_def rfind_append flush_key_def)
  moreover have "map_sorted string_less (m_args ?e)" using assms(2) by (simp add: map_sorted_def)
  then have "env_find k' (flush_key k e) = last_value (=) k' (arg_ops as) None" for k'
    using args.lookup_replay [of ?e k' "arg_ops as"] assms(2) loop(2) by (simp add: env_find_def map_find_def)
  moreover have "m_cwd (replay env_add env_del ops x) = m_cwd x" for ops x
    by (induction ops rule: rev_induct) (auto simp: run_op_cwd)
  ultimately show ?thesis using loop(2) assms(3) by (cases prog) (auto simp: getAbsolutePath_def)
qed

text \<open>\<open>/opt/sylar/bin/server -d -c conf\<close>.\<close>

theorem env_command_line_witness:
  "\<exists>out e. env_init ''/opt/bin/server'' ''server'' [''-d'', ''-c'', ''conf''] \<lparr>m_args = [], m_helps = [], m_program = [], m_exe = [], m_cwd = []\<rparr> =
      (True, out, e) \<and> env_find ''c'' e = Some ''conf'' \<and> env_find ''d'' e = Some [] \<and> m_cwd e = ''/opt/bin/''"
proof -
  let ?e0 = "\<lparr>m_args = [], m_helps = [], m_program = [], m_exe = [], m_cwd = []\<rparr>" and ?as = "[(''d'', None), (''c'', Some ''conf'')]"
  have "list_all arg_ok ?as" by code_simp
  then obtain out e where "env_init ''/opt/bin/server'' ''server'' (show_args ?as) ?e0 = (True, out, e)"
      "\<forall>k. env_find k e = last_value (=) k (arg_ops ?as) None" "m_cwd e = ''/opt/bin/''"
    using env_command_line [of ?as ?e0 "''server''" "''/opt/bin''" "''server''"] by auto
  then show ?thesis by (simp add: arg_ops_def last_value_def)
qed

end
