(* ===== verification/Config.thy ===== *)
theory Config
  imports Yaml Env
begin

text \<open>
  \<open>include/sylar/config.hh\<close> and \<open>src/config.cc\<close>: configuration variables, their registry and loading from YAML.

  A \<open>ConfigVar<T>\<close> of any \<open>T\<close> is a record over one type \<open>'v\<close> of values; \<open>cv_type\<close> is \<open>typeid(T).name()\<close>, which
  decides \<open>dynamic_pointer_cast\<close>, and \<open>cv_from\<close> and \<open>cv_to\<close> are the conversions \<open>FromStr\<close> and \<open>ToStr\<close>. Listeners act on
  the rest of the program, a state of any type \<open>'w\<close>, and may throw. A pointer to a variable is the key it is
  registered under. \<open>boost::regex_search\<close> with \<open>[^a-zA-Z0-9._]\<close> is the predicate \<open>valid_name\<close>.
\<close>

type_synonym ('v, 'w) listener = "'v \<Rightarrow> 'v \<Rightarrow> 'w \<Rightarrow> (unit, 'w) outcome"

record ('v, 'w) ConfigVar =
  cv_name :: string
  cv_description :: string
  cv_type :: string
  cv_val :: 'v
  cv_from :: "string \<Rightarrow> exn + 'v"
  cv_to :: "'v \<Rightarrow> exn + string"
  cv_cbs :: "(u64 \<times> ('v, 'w) listener) list"

definition lower :: "string \<Rightarrow> string" where
  "lower s = map (\<lambda>c. char_of (nat (tolower c))) s"

definition ConfigVar_new :: "string \<Rightarrow> 'v \<Rightarrow> string \<Rightarrow> string \<Rightarrow> (string \<Rightarrow> exn + 'v) \<Rightarrow> ('v \<Rightarrow> exn + string) \<Rightarrow> ('v, 'w) ConfigVar" where
  "ConfigVar_new name default_value description ty fromS toS =
     \<lparr>cv_name = lower name, cv_description = description, cv_type = ty, cv_val = default_value, cv_from = fromS, cv_to = toS, cv_cbs = []\<rparr>"

subsection \<open>Variables\<close>

text \<open>The listeners in the order of their identifiers.\<close>

fun run_cbs :: "(u64 \<times> ('v, 'w) listener) list \<Rightarrow> 'v \<Rightarrow> 'v \<Rightarrow> 'w \<Rightarrow> (unit, 'w) outcome" where
  "run_cbs [] old_value new_value w = Ok () w"
| "run_cbs ((_, cb) # cbs) old_value new_value w = (case cb old_value new_value w of
     Ok _ w' \<Rightarrow> run_cbs cbs old_value new_value w'
   | Throw e w' \<Rightarrow> Throw e w'
   | Crash x \<Rightarrow> Crash x)"

definition setValue :: "'v \<Rightarrow> ('v, 'w) ConfigVar \<Rightarrow> 'w \<Rightarrow> (unit, ('v, 'w) ConfigVar \<times> 'w) outcome" where
  "setValue v cv w =
     (if v = cv_val cv then Ok () (cv, w)
      else case run_cbs (cv_cbs cv) (cv_val cv) v w of
        Ok _ w' \<Rightarrow> Ok () (cv\<lparr>cv_val := v\<rparr>, w')
      | Throw e w' \<Rightarrow> Throw e (cv, w')
      | Crash x \<Rightarrow> Crash x)"

definition fromString :: "string \<Rightarrow> ('v, 'w) ConfigVar \<Rightarrow> 'w \<Rightarrow> (bool, ('v, 'w) ConfigVar \<times> 'w) outcome" where
  "fromString val cv w = (case cv_from cv val of
     Inl _ \<Rightarrow> Ok False (cv, w)
   | Inr v \<Rightarrow> (case setValue v cv w of
       Ok _ s \<Rightarrow> Ok True s
     | Throw _ s \<Rightarrow> Ok False s
     | Crash x \<Rightarrow> Crash x))"

definition toString :: "('v, 'w) ConfigVar \<Rightarrow> string" where
  "toString cv = (case cv_to cv (cv_val cv) of Inl _ \<Rightarrow> [] | Inr s \<Rightarrow> s)"

definition getValue :: "('v, 'w) ConfigVar \<Rightarrow> 'v" where
  "getValue cv = cv_val cv"

text \<open>\<open>s_fun_id\<close> is the static counter of the class.\<close>

definition addListener :: "('v, 'w) listener \<Rightarrow> u64 \<Rightarrow> ('v, 'w) ConfigVar \<Rightarrow> u64 \<times> u64 \<times> ('v, 'w) ConfigVar" where
  "addListener cb s_fun_id cv =
     (let s_fun_id = s_fun_id + 1 in (s_fun_id, s_fun_id, cv\<lparr>cv_cbs := map_assign (<) s_fun_id cb (cv_cbs cv)\<rparr>))"

definition delListener :: "u64 \<Rightarrow> ('v, 'w) ConfigVar \<Rightarrow> ('v, 'w) ConfigVar" where
  "delListener key cv = cv\<lparr>cv_cbs := map_erase (<) key (cv_cbs cv)\<rparr>"

definition clearListener :: "('v, 'w) ConfigVar \<Rightarrow> ('v, 'w) ConfigVar" where
  "clearListener cv = cv\<lparr>cv_cbs := []\<rparr>"

definition getListener :: "u64 \<Rightarrow> ('v, 'w) ConfigVar \<Rightarrow> ('v, 'w) listener option" where
  "getListener key cv = map_find (<) key (cv_cbs cv)"

subsection \<open>The registry\<close>

type_synonym ('v, 'w) datas = "string \<rightharpoonup> ('v, 'w) ConfigVar"

definition name_char :: "char \<Rightarrow> bool" where
  "name_char c \<longleftrightarrow> 97 \<le> code c \<and> code c \<le> 122 \<or> 65 \<le> code c \<and> code c \<le> 90 \<or> 48 \<le> code c \<and> code c \<le> 57 \<or>
     c = CHR ''.'' \<or> c = CHR ''_''"

definition valid_name :: "string \<Rightarrow> bool" where
  "valid_name s \<longleftrightarrow> list_all name_char s"

text \<open>\<open>Lookup\<close> with a default value.\<close>

definition Config_Lookup :: "string \<Rightarrow> 'v \<Rightarrow> string \<Rightarrow> string \<Rightarrow> (string \<Rightarrow> exn + 'v) \<Rightarrow> ('v \<Rightarrow> exn + string) \<Rightarrow>
    ('v, 'w) datas \<Rightarrow> (string option, ('v, 'w) datas) outcome" where
  "Config_Lookup name default_value description ty fromS toS d = (case d name of
     Some cv \<Rightarrow> Ok (if cv_type cv = ty then Some name else None) d
   | None \<Rightarrow>
       if \<not> valid_name name then Throw (InvalidArgument name) d
       else Ok (Some name) (d(name \<mapsto> ConfigVar_new name default_value description ty fromS toS)))"

definition Config_Lookup_existing :: "string \<Rightarrow> string \<Rightarrow> ('v, 'w) datas \<Rightarrow> string option" where
  "Config_Lookup_existing name ty d = (case d name of
     None \<Rightarrow> None
   | Some cv \<Rightarrow> if cv_type cv = ty then Some name else None)"

definition LookupBase :: "string \<Rightarrow> ('v, 'w) datas \<Rightarrow> ('v, 'w) ConfigVar option" where
  "LookupBase name d = d name"

text \<open>\<open>keys\<close> is the order in which the hash map is traversed.\<close>

definition Visit :: "string list \<Rightarrow> (('v, 'w) ConfigVar \<Rightarrow> 'x \<Rightarrow> 'x) \<Rightarrow> ('v, 'w) datas \<Rightarrow> 'x \<Rightarrow> 'x" where
  "Visit keys cb d x = fold (\<lambda>k x. case d k of None \<Rightarrow> x | Some cv \<Rightarrow> cb cv x) keys x"

subsection \<open>Loading\<close>

fun ListAllMember :: "string \<Rightarrow> node \<Rightarrow> (string \<times> node) list"
  and list_members :: "string \<Rightarrow> (node \<times> node) list \<Rightarrow> (string \<times> node) list" where
  "ListAllMember prefix (YMap ps) =
     (if \<not> valid_name prefix then [] else (prefix, YMap ps) # list_members prefix ps)"
| "ListAllMember prefix n = (if \<not> valid_name prefix then [] else [(prefix, n)])"
| "list_members prefix [] = []"
| "list_members prefix ((k, n) # ps) =
     ListAllMember (if prefix = [] then node_Scalar k else prefix @ ''.'' @ node_Scalar k) n @ list_members prefix ps"

definition node_text :: "yaml \<Rightarrow> node \<Rightarrow> string" where
  "node_text y n = (if is_scalar n then node_Scalar n else y_dump y n)"

fun load_nodes :: "yaml \<Rightarrow> (string \<times> node) list \<Rightarrow> ('v, 'w) datas \<Rightarrow> 'w \<Rightarrow> (unit, ('v, 'w) datas \<times> 'w) outcome" where
  "load_nodes y [] d w = Ok () (d, w)"
| "load_nodes y ((p, n) # ns) d w =
     (if p = [] then load_nodes y ns d w
      else let key = lower p in
        case LookupBase key d of
          None \<Rightarrow> load_nodes y ns d w
        | Some var \<Rightarrow> (case fromString (node_text y n) var w of
            Ok _ (var', w') \<Rightarrow> load_nodes y ns (d(key \<mapsto> var')) w'
          | Throw e (var', w') \<Rightarrow> Throw e (d(key \<mapsto> var'), w')
          | Crash x \<Rightarrow> Crash x))"

definition LoadFromYaml :: "yaml \<Rightarrow> node \<Rightarrow> ('v, 'w) datas \<Rightarrow> 'w \<Rightarrow> (unit, ('v, 'w) datas \<times> 'w) outcome" where
  "LoadFromYaml y root d w = load_nodes y (ListAllMember [] root) d w"

text \<open>The loop of \<open>LoadFromConfDir\<close>: \<open>mtime\<close> is what \<open>lstat\<close> reports and \<open>load_file\<close> is \<open>YAML::LoadFile\<close>; \<open>seen\<close> is
  \<open>S_FileModifyTime\<close>, 0 for a file not there.\<close>

fun load_files :: "yaml \<Rightarrow> (string \<Rightarrow> u64) \<Rightarrow> (string \<Rightarrow> exn + node) \<Rightarrow> string list \<Rightarrow> (string \<Rightarrow> u64) \<Rightarrow>
    ('v, 'w) datas \<Rightarrow> 'w \<Rightarrow> (string \<Rightarrow> u64, ('v, 'w) datas \<times> 'w) outcome" where
  "load_files y mtime load_file [] seen d w = Ok seen (d, w)"
| "load_files y mtime load_file (f # fs) seen d w =
     (if seen f = mtime f then load_files y mtime load_file fs seen d w
      else case load_file f of
        Inl _ \<Rightarrow> load_files y mtime load_file fs (seen(f := mtime f)) d w
      | Inr root \<Rightarrow> (case LoadFromYaml y root d w of
          Ok _ (d', w') \<Rightarrow> load_files y mtime load_file fs (seen(f := mtime f)) d' w'
        | Throw _ (d', w') \<Rightarrow> load_files y mtime load_file fs (seen(f := mtime f)) d' w'
        | Crash x \<Rightarrow> Crash x))"

definition LoadFromConfDir :: "yaml \<Rightarrow> Env \<Rightarrow> (string \<Rightarrow> dirent list option) \<Rightarrow> (string \<Rightarrow> u64) \<Rightarrow> (string \<Rightarrow> exn + node) \<Rightarrow> string \<Rightarrow>
    (string \<Rightarrow> u64) \<Rightarrow> ('v, 'w) datas \<Rightarrow> 'w \<Rightarrow> (string \<Rightarrow> u64, ('v, 'w) datas \<times> 'w) outcome" where
  "LoadFromConfDir y env dir mtime load_file path seen d w =
     (let absolute_path = getAbsolutePath path env
      in load_files y mtime load_file (ListAllFile [] absolute_path ''.yaml'' (dir absolute_path)) seen d w)"

subsection \<open>Setting a value\<close>

lemma run_cbs_append:
  "run_cbs (xs @ ys) a b w = (case run_cbs xs a b w of Ok _ w' \<Rightarrow> run_cbs ys a b w' | Throw e w' \<Rightarrow> Throw e w' | Crash x \<Rightarrow> Crash x)"
proof (induction xs arbitrary: w)
  case (Cons x xs)
  obtain i cb where "x = (i, cb)" by (cases x)
  then show ?case using Cons by (cases "cb a b w") simp_all
qed simp

lemma setValue_same: "setValue (cv_val cv) cv w = Ok () (cv, w)"
  by (simp add: setValue_def)

lemma setValue_val:
  "setValue v cv w = Ok u (cv', w') \<Longrightarrow> cv' = cv\<lparr>cv_val := v\<rparr>"
  by (auto simp: setValue_def split: if_splits outcome.splits)

lemma setValue_throw: "setValue v cv w = Throw e (cv', w') \<Longrightarrow> cv' = cv"
  by (auto simp: setValue_def split: if_splits outcome.splits)

lemma fromString_outcome:
  assumes "fromString t cv w = Ok b (cv', w')"
  shows "if b then \<exists>v. cv_from cv t = Inr v \<and> cv' = cv\<lparr>cv_val := v\<rparr> else cv' = cv"
  using assms by (auto simp: fromString_def split: sum.splits outcome.splits dest: setValue_val setValue_throw)

lemma fromString_never_throws: "fromString t cv w \<noteq> Throw e s"
  by (auto simp: fromString_def split: sum.splits outcome.splits)

text \<open>The listeners as seen from outside: which were called, with which values.\<close>

definition recorder :: "u64 \<Rightarrow> ('v, (u64 \<times> 'v \<times> 'v) list) listener" where
  "recorder i = (\<lambda>old new w. Ok () (w @ [(i, old, new)]))"

lemma run_recorders:
  "\<forall>(i, cb)\<in>set cbs. cb = recorder i \<Longrightarrow> run_cbs cbs a b w = Ok () (w @ map (\<lambda>(i, _). (i, a, b)) cbs)"
  by (induction cbs arbitrary: w) (auto simp: recorder_def)

text \<open>Setting a variable to a new value calls every listener once, in the order of their identifiers, with the old and
  the new value, and then stores the new value; setting the value it has does nothing. When a listener throws, the
  listeners behind it are not called and the variable keeps its old value: a text that converts is then still
  reported as refused.\<close>

theorem config_set_value:
  assumes "\<forall>(i, cb)\<in>set cbs1. cb = recorder i" and "\<forall>(i, cb)\<in>set cbs2. cb = recorder i" and "v \<noteq> cv_val cv"
    and "bad = (\<lambda>_ _ w. Throw e w)" and "cv_from cv t = Inr v"
  shows "setValue v (cv\<lparr>cv_cbs := cbs1 @ cbs2\<rparr>) w =
      Ok () (cv\<lparr>cv_cbs := cbs1 @ cbs2, cv_val := v\<rparr>, w @ map (\<lambda>(i, _). (i, cv_val cv, v)) (cbs1 @ cbs2)) \<and>
    setValue (cv_val cv) cv w = Ok () (cv, w) \<and>
    fromString t (cv\<lparr>cv_cbs := cbs1 @ (n, bad) # cbs2\<rparr>) w =
      Ok False (cv\<lparr>cv_cbs := cbs1 @ (n, bad) # cbs2\<rparr>, w @ map (\<lambda>(i, _). (i, cv_val cv, v)) cbs1)"
proof -
  have "\<forall>(i, cb)\<in>set (cbs1 @ cbs2). cb = recorder i" using assms(1,2) by auto
  note run = run_recorders [OF this] run_recorders [OF assms(1)]
  show ?thesis
    using assms(3-5) by (simp add: setValue_def fromString_def run run_cbs_append [of cbs1 "(n, \<lambda>_ _. Throw e) # cbs2"] del: map_append)
qed

theorem config_set_value_witness:
  "\<exists>cv w. setValue (8080 :: int) (cv :: (int, (u64 \<times> int \<times> int) list) ConfigVar) w =
     Ok () (cv\<lparr>cv_val := 8080\<rparr>, [(1, 80, 8080), (2, 80, 8080)])"
proof -
  let ?cv = "ConfigVar_new ''port'' 80 [] ''int'' (\<lambda>s. Inr (int (undec s))) (\<lambda>_. Inr []) :: (int, (u64 \<times> int \<times> int) list) ConfigVar"
  let ?cbs = "[(1, recorder 1), (2, recorder 2)] :: (u64 \<times> (int, (u64 \<times> int \<times> int) list) listener) list"
  have "undec ''8080'' = 8080" by code_simp
  then have "setValue 8080 (?cv\<lparr>cv_cbs := ?cbs\<rparr>) [] = Ok () (?cv\<lparr>cv_cbs := ?cbs, cv_val := 8080\<rparr>, [(1, 80, 8080), (2, 80, 8080)])"
    using config_set_value [of "[(1, recorder 1)]" "[(2, recorder 2)]" 8080 ?cv "\<lambda>_ _ w. Throw (LogicError []) w" "LogicError []" "''8080''" "[]" 3]
    by (simp add: ConfigVar_new_def)
  then show ?thesis by (intro exI [of _ "?cv\<lparr>cv_cbs := ?cbs\<rparr>"] exI [of _ "[]"]) simp
qed

subsection \<open>Loading a document\<close>

lemma tolower_idem: "tolower (char_of (nat (tolower c))) = tolower c"
proof -
  have "(of_char c :: nat) < 256" by simp
  then show ?thesis by (auto simp: tolower_def code_def nat_add_distrib)
qed

lemma lower_idem [simp]: "lower (lower s) = lower s"
  by (simp add: lower_def tolower_idem)

text \<open>The texts a document has for a key, in document order.\<close>

definition texts_for :: "yaml \<Rightarrow> string \<Rightarrow> (string \<times> node) list \<Rightarrow> string list" where
  "texts_for y k ns = map (\<lambda>(_, n). node_text y n) (filter (\<lambda>(p, _). p \<noteq> [] \<and> lower p = k) ns)"

text \<open>What the texts make of a value: each that converts replaces it.\<close>

definition assign_texts :: "(string \<Rightarrow> exn + 'v) \<Rightarrow> string list \<Rightarrow> 'v \<Rightarrow> 'v" where
  "assign_texts fromS ts v = fold (\<lambda>t v. case fromS t of Inl _ \<Rightarrow> v | Inr v' \<Rightarrow> v') ts v"

definition quiet :: "('v, 'w) ConfigVar \<Rightarrow> bool" where
  "quiet cv \<longleftrightarrow> (\<forall>(_, cb)\<in>set (cv_cbs cv). \<forall>a b w. is_Ok (cb a b w))"

lemma run_cbs_quiet: "\<forall>(_, cb)\<in>set cbs. \<forall>a b w. is_Ok (cb a b w) \<Longrightarrow> \<exists>w'. run_cbs cbs a b w = Ok () w'"
proof (induction cbs arbitrary: w)
  case (Cons x cbs)
  obtain i cb where x: "x = (i, cb)" by (cases x)
  then have "is_Ok (cb a b w)" using Cons.prems by auto
  then obtain u w' where "cb a b w = Ok u w'" by (cases "cb a b w") simp_all
  then show ?case using Cons x by simp
qed simp

lemma fromString_quiet:
  assumes "quiet cv"
  shows "\<exists>b w'. fromString t cv w = Ok b (cv\<lparr>cv_val := (case cv_from cv t of Inl _ \<Rightarrow> cv_val cv | Inr v \<Rightarrow> v)\<rparr>, w')"
proof (cases "cv_from cv t")
  case (Inr v)
  then show ?thesis
    using run_cbs_quiet [of "cv_cbs cv" "cv_val cv" v w] assms by (auto simp: fromString_def setValue_def quiet_def)
qed (auto simp: fromString_def)

lemma load_nodes_quiet:
  assumes "\<And>k cv. d k = Some cv \<Longrightarrow> quiet cv"
  shows "\<exists>d' w'. load_nodes y ns d w = Ok () (d', w') \<and>
    (\<forall>k. d' k = map_option (\<lambda>cv. cv\<lparr>cv_val := assign_texts (cv_from cv) (texts_for y k ns) (cv_val cv)\<rparr>) (d k))"
  using assms
proof (induction ns arbitrary: d w)
  case Nil
  have "map_option (\<lambda>cv. cv\<lparr>cv_val := cv_val cv\<rparr>) x = x" for x :: "('a, 'b) ConfigVar option" by (cases x) simp_all
  then show ?case by (simp add: texts_for_def assign_texts_def)
next
  case (Cons pn ns)
  obtain p n where pn: "pn = (p, n)" by (cases pn)
  have skip: "texts_for y k (pn # ns) = texts_for y k ns" if "p = [] \<or> lower p \<noteq> k" for k
    using that pn by (auto simp: texts_for_def)
  show ?case
  proof (cases "p = [] \<or> d (lower p) = None")
    case True
    have "map_option (\<lambda>cv. cv\<lparr>cv_val := assign_texts (cv_from cv) (texts_for y k (pn # ns)) (cv_val cv)\<rparr>) (d k) =
        map_option (\<lambda>cv. cv\<lparr>cv_val := assign_texts (cv_from cv) (texts_for y k ns) (cv_val cv)\<rparr>) (d k)" for k
    proof (cases "d k")
      case (Some a)
      then have "p = [] \<or> lower p \<noteq> k" using True by auto
      then show ?thesis by (simp add: skip)
    qed simp
    moreover have "load_nodes y (pn # ns) d w = load_nodes y ns d w" using True pn by (auto simp: LookupBase_def)
    ultimately show ?thesis using Cons.IH [of d w] Cons.prems by simp
  next
    case False
    then obtain cv where cv: "p \<noteq> []" "d (lower p) = Some cv" by auto
    let ?cv = "cv\<lparr>cv_val := (case cv_from cv (node_text y n) of Inl _ \<Rightarrow> cv_val cv | Inr v \<Rightarrow> v)\<rparr>"
    obtain b w' where fs: "fromString (node_text y n) cv w = Ok b (?cv, w')"
      using fromString_quiet [OF Cons.prems [OF cv(2)], of "node_text y n" w] by auto
    have "quiet ?cv" using Cons.prems [OF cv(2)] by (simp add: quiet_def)
    then have "quiet c" if "(d(lower p \<mapsto> ?cv)) k = Some c" for k c
      using that Cons.prems by (cases "k = lower p") auto
    then obtain d' w'' where d': "load_nodes y ns (d(lower p \<mapsto> ?cv)) w' = Ok () (d', w'')"
        "\<forall>k. d' k = map_option (\<lambda>cv. cv\<lparr>cv_val := assign_texts (cv_from cv) (texts_for y k ns) (cv_val cv)\<rparr>) ((d(lower p \<mapsto> ?cv)) k)"
      using Cons.IH [of "d(lower p \<mapsto> ?cv)" w'] by blast
    have "load_nodes y (pn # ns) d w = Ok () (d', w'')" using cv pn fs d'(1) by (simp add: LookupBase_def)
    moreover have "d' k = map_option (\<lambda>cv. cv\<lparr>cv_val := assign_texts (cv_from cv) (texts_for y k (pn # ns)) (cv_val cv)\<rparr>) (d k)" for k
      using d'(2) cv pn skip [of k] by (cases "k = lower p") (auto simp: texts_for_def assign_texts_def)
    ultimately show ?thesis by blast
  qed
qed



subsection \<open>The registry as a store\<close>

text \<open>A variable is created once: looking it up again with the same type gives the same variable, with another type a
  null pointer, and neither changes it. A name with a character outside \<open>a-zA-Z0-9._\<close> is refused by an exception and
  registers nothing.\<close>

theorem config_lookup:
  assumes "d name = None"
  shows "if valid_name name
    then \<exists>d'. Config_Lookup name v desc ty fromS toS d = Ok (Some name) d' \<and>
      (\<forall>k. k \<noteq> name \<longrightarrow> d' k = d k) \<and> map_option getValue (LookupBase name d') = Some v \<and>
      Config_Lookup name v' desc' ty' fromS' toS' d' = Ok (if ty = ty' then Some name else None) d' \<and>
      Config_Lookup_existing name ty' d' = (if ty = ty' then Some name else None)
    else Config_Lookup name v desc ty fromS toS d = Throw (InvalidArgument name) d"
  using assms by (auto simp: Config_Lookup_def Config_Lookup_existing_def LookupBase_def getValue_def ConfigVar_new_def)

theorem config_lookup_witness:
  "Config_Lookup ''tcp port'' (80 :: nat) [] ''int'' (\<lambda>s. Inr (undec s)) (\<lambda>_. Inr []) (Map.empty :: (nat, unit) datas) =
     Throw (InvalidArgument ''tcp port'') Map.empty"
proof -
  have "\<not> valid_name ''tcp port''" by code_simp
  then show ?thesis
    using config_lookup [of Map.empty "''tcp port''" "80 :: nat" "[]" "''int''" "\<lambda>s. Inr (undec s)" "\<lambda>_. Inr []"] by simp
qed

interpretation u64_less: strict_weak_order "(<) :: u64 \<Rightarrow> u64 \<Rightarrow> bool"
  by unfold_locales (auto simp: equivalent_def)

lemma u64_equivalent [simp]: "equivalent (<) x y \<longleftrightarrow> x = y" for x y :: u64
  by (auto simp: equivalent_def)

text \<open>The listeners of a variable are a store under the identifiers \<open>addListener\<close> hands out.\<close>

interpretation listeners: keyed_store "\<lambda>cv. map_sorted (<) (cv_cbs cv)" "(=)" getListener
    "\<lambda>i cb cv. snd (snd (addListener cb (i - 1) cv))" delListener
  by unfold_locales
    (simp_all add: getListener_def addListener_def delListener_def u64_less.map_find_assign u64_less.map_find_erase
      u64_less.map_assign_sorted u64_less.map_erase_sorted)

subsection \<open>Loading a directory\<close>

lemma load_files_seen:
  "load_files y mtime lf fs seen d w = Ok seen' s \<Longrightarrow> (\<forall>f\<in>set fs. seen' f = mtime f) \<and> (\<forall>f. seen f = mtime f \<longrightarrow> seen' f = mtime f)"
proof (induction fs arbitrary: seen d w)
  case (Cons f fs)
  show ?case
  proof (cases "seen f = mtime f")
    case True
    then have "load_files y mtime lf fs seen d w = Ok seen' s" using Cons.prems by simp
    from Cons.IH [OF this] show ?thesis using True unfolding list.set(2) by blast
  next
    case False
    have "\<exists>d' w'. load_files y mtime lf fs (seen(f := mtime f)) d' w' = Ok seen' s"
    proof (cases "lf f")
      case (Inl x)
      have "load_files y mtime lf fs (seen(f := mtime f)) d w = Ok seen' s" using Cons.prems False Inl by simp
      then show ?thesis by blast
    next
      case (Inr root)
      show ?thesis
      proof (cases "LoadFromYaml y root d w")
        case (Ok u t)
        obtain d1 w1 where "t = (d1, w1)" by (cases t)
        then have "load_files y mtime lf fs (seen(f := mtime f)) d1 w1 = Ok seen' s" using Cons.prems False Inr Ok by simp
        then show ?thesis by blast
      next
        case (Throw e t)
        obtain d1 w1 where "t = (d1, w1)" by (cases t)
        then have "load_files y mtime lf fs (seen(f := mtime f)) d1 w1 = Ok seen' s" using Cons.prems False Inr Throw by simp
        then show ?thesis by blast
      next
        case (Crash x)
        then show ?thesis using Cons.prems False Inr by simp
      qed
    qed
    then obtain d' w' where "load_files y mtime lf fs (seen(f := mtime f)) d' w' = Ok seen' s" by blast
    from Cons.IH [OF this] show ?thesis by (auto split: if_splits)
  qed
qed simp

lemma load_files_idle: "\<forall>f\<in>set fs. seen f = mtime f \<Longrightarrow> load_files y mtime lf fs seen d w = Ok seen (d, w)"
  by (induction fs) simp_all

text \<open>Loading a configuration directory again, while no file has a new modification time, changes nothing and calls no
  listener.\<close>

theorem config_dir_reload:
  assumes "LoadFromConfDir y env dir mtime lf path seen d w = Ok seen' (d', w')"
  shows "LoadFromConfDir y env dir mtime lf path seen' d' w' = Ok seen' (d', w')"
proof -
  let ?fs = "ListAllFile [] (getAbsolutePath path env) ''.yaml'' (dir (getAbsolutePath path env))"
  have "load_files y mtime lf ?fs seen d w = Ok seen' (d', w')" using assms by (simp add: LoadFromConfDir_def Let_def)
  from load_files_seen [OF this] have "\<forall>f\<in>set ?fs. seen' f = mtime f" by (rule conjunct1)
  from load_files_idle [OF this] show ?thesis by (simp add: LoadFromConfDir_def Let_def)
qed

theorem config_dir_reload_witness:
  "\<exists>seen. LoadFromConfDir enum_yaml \<lparr>m_args = [], m_helps = [], m_program = [], m_exe = [], m_cwd = ''/opt/''\<rparr>
     (\<lambda>_. Some [DT_REG ''a.yaml'']) (\<lambda>_. 7) (\<lambda>_. Inr YNull) ''conf'' seen (Map.empty :: (nat, unit) datas) () = Ok seen (Map.empty, ())"
proof -
  let ?env = "\<lparr>m_args = [], m_helps = [], m_program = [], m_exe = [], m_cwd = ''/opt/''\<rparr>"
  have "LoadFromConfDir enum_yaml ?env (\<lambda>_. Some [DT_REG ''a.yaml'']) (\<lambda>_. 7) (\<lambda>_. Inr YNull) ''conf'' (\<lambda>_. 0) (Map.empty :: (nat, unit) datas) () =
      Ok ((\<lambda>_. 0)(''/opt/conf/a.yaml'' := 7)) (Map.empty, ())"
    by (simp add: LoadFromConfDir_def getAbsolutePath_def ListAllFile_def has_subfix_def LoadFromYaml_def valid_name_def)
  from config_dir_reload [OF this] show ?thesis by blast
qed

end
