(* ===== verification/LogFormat.thy ===== *)
theory LogFormat
  imports CStrings
begin

text \<open>
  The formatting half of \<open>src/log.cc\<close>: levels, events and \<open>LogFormatter\<close>.

  \<open>LogFormatter::init\<close> is translated with its two nested loops over positions of the pattern; both terminate
  because the position grows. The rendering of times (\<open>localtime_r\<close> and \<open>strftime\<close> into a buffer of 64 characters) is
  an argument, \<open>None\<close> when the text does not fit and the buffer is left without a defined content.
\<close>

subsection \<open>Levels\<close>

datatype Level = UNKNOW | DEBUG | INFO | WARN | ERROR | FATAL

fun level_num :: "Level \<Rightarrow> nat" where
  "level_num UNKNOW = 0"
| "level_num DEBUG = 1"
| "level_num INFO = 2"
| "level_num WARN = 3"
| "level_num ERROR = 4"
| "level_num FATAL = 5"

lemma level_num_inject: "level_num a = level_num b \<longleftrightarrow> a = b"
  by (cases a; cases b) simp_all

instantiation Level :: linorder
begin

definition less_eq_Level :: "Level \<Rightarrow> Level \<Rightarrow> bool" where
  "a \<le> b \<longleftrightarrow> level_num a \<le> level_num b"

definition less_Level :: "Level \<Rightarrow> Level \<Rightarrow> bool" where
  "a < b \<longleftrightarrow> level_num a < level_num b"

instance
  by standard (auto simp: less_eq_Level_def less_Level_def level_num_inject)

end

fun LogLevel_ToString :: "Level \<Rightarrow> string" where
  "LogLevel_ToString DEBUG = ''DEBUG''"
| "LogLevel_ToString INFO = ''INFO''"
| "LogLevel_ToString WARN = ''WARN''"
| "LogLevel_ToString ERROR = ''ERROR''"
| "LogLevel_ToString FATAL = ''FATAL''"
| "LogLevel_ToString UNKNOW = ''UNKNOW''"

definition LogLevel_FromString :: "string \<Rightarrow> Level" where
  "LogLevel_FromString str =
     (if str = ''debug'' then DEBUG else if str = ''info'' then INFO else if str = ''warn'' then WARN
      else if str = ''error'' then ERROR else if str = ''fatal'' then FATAL
      else if str = ''DEBUG'' then DEBUG else if str = ''INFO'' then INFO else if str = ''WARN'' then WARN
      else if str = ''ERROR'' then ERROR else if str = ''FATAL'' then FATAL else UNKNOW)"

subsection \<open>Events\<close>

record LogEvent =
  ev_file :: string
  ev_line :: "32 word"
  ev_elapse :: u32
  ev_threadId :: u32
  ev_fiberId :: u32
  ev_time :: u64
  ev_threadName :: string
  ev_level :: Level
  ev_content :: string

definition LogEvent_new :: "Level \<Rightarrow> string \<Rightarrow> 32 word \<Rightarrow> u32 \<Rightarrow> u32 \<Rightarrow> u32 \<Rightarrow> u64 \<Rightarrow> string \<Rightarrow> LogEvent" where
  "LogEvent_new level file line elapse thread_id fiber_id time thread_name =
     \<lparr>ev_file = file, ev_line = line, ev_elapse = elapse, ev_threadId = thread_id, ev_fiberId = fiber_id,
      ev_time = time, ev_threadName = thread_name, ev_level = level, ev_content = []\<rparr>"

text \<open>\<open>getTime\<close> returns a \<open>uint32_t\<close>.\<close>

definition getTime :: "LogEvent \<Rightarrow> u32" where
  "getTime e = ucast (ev_time e)"

text \<open>\<open>LogEvent::format\<close>: \<open>printed\<close> is what \<open>vasprintf\<close> produces, \<open>None\<close> when it fails.\<close>

definition LogEvent_format :: "string option \<Rightarrow> LogEvent \<Rightarrow> LogEvent" where
  "LogEvent_format printed e = (case printed of None \<Rightarrow> e | Some s \<Rightarrow> e\<lparr>ev_content := ev_content e @ s\<rparr>)"

subsection \<open>Format items\<close>

datatype FormatItem =
    MessageFormatItem
  | LevelFormatItem
  | ElapseFormatItem
  | NameFormatItem
  | ThreadIdFormatItem
  | NewLineFormatItem
  | DateTimeFormatItem string
  | FilenameFormatItem
  | LineFormatItem
  | TabFormatItem
  | FiberIdFormatItem
  | ThreadNameFormatItem
  | StringFormatItem string

definition DateTimeFormatItem_new :: "string \<Rightarrow> FormatItem" where
  "DateTimeFormatItem_new format = DateTimeFormatItem (if format = [] then ''%Y-%m-%d  %H:%M:%S'' else format)"

definition show_int :: "32 word \<Rightarrow> string" where
  "show_int w = (if sint w < 0 then CHR ''-'' # dec (nat (- sint w)) else dec (nat (sint w)))"

type_synonym strftime = "string \<Rightarrow> u32 \<Rightarrow> string option"

text \<open>\<open>item->format(os, logger, level, event)\<close>; \<open>name\<close> is \<open>logger->getName()\<close>.\<close>

fun item_format :: "strftime \<Rightarrow> string \<Rightarrow> Level \<Rightarrow> LogEvent \<Rightarrow> FormatItem \<Rightarrow> fault + string" where
  "item_format tf name level e MessageFormatItem = Inr (ev_content e)"
| "item_format tf name level e LevelFormatItem = Inr (LogLevel_ToString level)"
| "item_format tf name level e ElapseFormatItem = Inr (dec (unat (ev_elapse e)))"
| "item_format tf name level e NameFormatItem = Inr name"
| "item_format tf name level e ThreadIdFormatItem = Inr (dec (unat (ev_threadId e)))"
| "item_format tf name level e NewLineFormatItem = Inr [CHR 0x0A]"
| "item_format tf name level e (DateTimeFormatItem m_format) =
     (case tf (c_str m_format) (getTime e) of None \<Rightarrow> Inl Uninitialised | Some s \<Rightarrow> Inr (c_str s))"
| "item_format tf name level e FilenameFormatItem = Inr (c_str (ev_file e))"
| "item_format tf name level e LineFormatItem = Inr (show_int (ev_line e))"
| "item_format tf name level e TabFormatItem = Inr [CHR 0x09]"
| "item_format tf name level e FiberIdFormatItem = Inr (dec (unat (ev_fiberId e)))"
| "item_format tf name level e ThreadNameFormatItem = Inr (ev_threadName e)"
| "item_format tf name level e (StringFormatItem m_string) = Inr m_string"

fun items_format :: "strftime \<Rightarrow> string \<Rightarrow> Level \<Rightarrow> LogEvent \<Rightarrow> FormatItem list \<Rightarrow> fault + string" where
  "items_format tf name level e [] = Inr []"
| "items_format tf name level e (i # is) = (case item_format tf name level e i of
     Inl x \<Rightarrow> Inl x
   | Inr s \<Rightarrow> (case items_format tf name level e is of Inl x \<Rightarrow> Inl x | Inr t \<Rightarrow> Inr (s @ t)))"

subsection \<open>The pattern\<close>

definition substr :: "string \<Rightarrow> nat \<Rightarrow> nat \<Rightarrow> string" where
  "substr s pos n = take n (drop pos s)"

definition isalpha :: "char \<Rightarrow> bool" where
  "isalpha c \<longleftrightarrow> 65 \<le> code c \<and> code c \<le> 90 \<or> 97 \<le> code c \<and> code c \<le> 122"

text \<open>The inner loop of \<open>init\<close>, from position \<open>n\<close> behind the \<open>%\<close> at \<open>i\<close>; \<open>st\<close> is \<open>fmt_status == 1\<close>. The result is the
  final \<open>n\<close>, \<open>fmt_status\<close>, \<open>str\<close> and \<open>fmt\<close>.\<close>

function item_loop :: "string \<Rightarrow> nat \<Rightarrow> nat \<Rightarrow> bool \<Rightarrow> nat \<Rightarrow> string \<Rightarrow> string \<Rightarrow> nat \<times> bool \<times> string \<times> string" where
  "item_loop p i n st fmt_begin str fmt =
     (if n \<ge> length p then (n, st, str, fmt)
      else if \<not> st \<and> \<not> isalpha (p ! n) \<and> p ! n \<noteq> CHR ''{'' \<and> p ! n \<noteq> CHR ''}'' then
        (n, st, substr p (i + 1) (n - i - 1), fmt)
      else if \<not> st \<and> p ! n = CHR ''{'' then
        item_loop p i (n + 1) True n (substr p (i + 1) (n - i - 1)) fmt
      else if st \<and> p ! n = CHR ''}'' then
        (n + 1, False, str, substr p (fmt_begin + 1) (n - fmt_begin - 1))
      else
        item_loop p i (n + 1) st fmt_begin
          (if n + 1 = length p \<and> str = [] then drop (i + 1) p else str) fmt)"
  by pat_completeness auto
termination
  by (relation "measure (\<lambda>(p, i, n, _). length p - n)") auto

declare item_loop.simps [simp del]

lemma item_loop_grows: "n \<le> fst (item_loop p i n st fmt_begin str fmt)"
proof (induction p i n st fmt_begin str fmt rule: item_loop.induct)
  case (1 p i n st fmt_begin str fmt)
  then show ?case by (subst item_loop.simps) (auto simp: Let_def split: if_splits)
qed

lemma item_loop_progress: "(n, r) = item_loop p i (Suc i) st fmt_begin str fmt \<Longrightarrow> i < n"
  using item_loop_grows [of "Suc i" p i st fmt_begin str fmt] by (metis Suc_le_eq fst_conv)

text \<open>The outer loop: \<open>vec\<close> holds the triples collected, \<open>nstr\<close> the pending plain text.\<close>

function init_loop :: "string \<Rightarrow> nat \<Rightarrow> string \<Rightarrow> (string \<times> string \<times> nat) list \<Rightarrow> bool \<Rightarrow>
    string \<times> (string \<times> string \<times> nat) list \<times> bool" where
  "init_loop p i nstr vec err =
     (if i \<ge> length p then (nstr, vec, err)
      else if p ! i \<noteq> CHR ''%'' then init_loop p (i + 1) (nstr @ [p ! i]) vec err
      else if i + 1 < length p \<and> p ! (i + 1) = CHR ''%'' then init_loop p (i + 1) (nstr @ ''%'') vec err
      else case item_loop p i (i + 1) False 0 [] [] of (n, st, str, fmt) \<Rightarrow>
        if \<not> st then
          init_loop p n [] (vec @ (if nstr \<noteq> [] then [(nstr, [], 0)] else []) @ [(str, fmt, 1)]) err
        else init_loop p (i + 1) nstr (vec @ [(''<<pattern_error>>'', fmt, 0)]) True)"
  by pat_completeness auto
termination
  by (relation "measure (\<lambda>(p, i, _). length p - i)") (auto dest: item_loop_progress)

declare init_loop.simps [simp del]

definition s_format_items :: "(string \<times> (string \<Rightarrow> FormatItem)) list" where
  "s_format_items =
     [(''m'', \<lambda>_. MessageFormatItem), (''p'', \<lambda>_. LevelFormatItem), (''r'', \<lambda>_. ElapseFormatItem),
      (''c'', \<lambda>_. NameFormatItem), (''t'', \<lambda>_. ThreadIdFormatItem), (''n'', \<lambda>_. NewLineFormatItem),
      (''d'', DateTimeFormatItem_new), (''f'', \<lambda>_. FilenameFormatItem), (''l'', \<lambda>_. LineFormatItem),
      (''T'', \<lambda>_. TabFormatItem), (''F'', \<lambda>_. FiberIdFormatItem), (''N'', \<lambda>_. ThreadNameFormatItem)]"

text \<open>The last loop of \<open>init\<close>: one triple to its item, and whether it sets \<open>m_error\<close>.\<close>

definition make_item :: "string \<times> string \<times> nat \<Rightarrow> FormatItem \<times> bool" where
  "make_item = (\<lambda>(str, fmt, kind).
     if kind = 0 then (StringFormatItem str, False)
     else case map_of s_format_items str of
       None \<Rightarrow> (StringFormatItem (''<<error_format %'' @ str @ ''>>''), True)
     | Some f \<Rightarrow> (f fmt, False))"

record LogFormatter =
  m_pattern :: string
  m_items :: "FormatItem list"
  m_error :: bool

definition LogFormatter_new :: "string \<Rightarrow> LogFormatter" where
  "LogFormatter_new pattern =
     (let (nstr, vec, err) = init_loop pattern 0 [] [] False;
          vec = vec @ (if nstr \<noteq> [] then [(nstr, [], 0)] else []);
          items = map make_item vec
      in \<lparr>m_pattern = pattern, m_items = map fst items, m_error = (err \<or> list_ex snd items)\<rparr>)"

definition LogFormatter_format :: "strftime \<Rightarrow> string \<Rightarrow> Level \<Rightarrow> LogEvent \<Rightarrow> LogFormatter \<Rightarrow> fault + string" where
  "LogFormatter_format tf name level e f = items_format tf name level e (m_items f)"

subsection \<open>What a pattern means\<close>

text \<open>A pattern is meant as a sequence of plain text, items \<open>%name\<close> and items with a format \<open>%name{format}\<close>.\<close>

datatype seg = Lit string | Item string | ItemF string string

fun show_seg :: "seg \<Rightarrow> string" where
  "show_seg (Lit s) = s"
| "show_seg (Item n) = CHR ''%'' # n"
| "show_seg (ItemF n f) = CHR ''%'' # n @ CHR ''{'' # f @ ''}''"

definition show_pattern :: "seg list \<Rightarrow> string" where
  "show_pattern segs = concat (map show_seg segs)"

definition ends_name :: "char \<Rightarrow> bool" where
  "ends_name c \<longleftrightarrow> \<not> isalpha c \<and> c \<noteq> CHR ''{'' \<and> c \<noteq> CHR ''}''"

definition name_ok :: "string \<Rightarrow> bool" where
  "name_ok n \<longleftrightarrow> n \<noteq> [] \<and> list_all isalpha n"

fun is_lit :: "seg list \<Rightarrow> bool" where
  "is_lit (Lit s # _) = True"
| "is_lit _ = False"

text \<open>Plain text is maximal and does not continue a name.\<close>

fun wf_segs :: "seg list \<Rightarrow> bool" where
  "wf_segs [] \<longleftrightarrow> True"
| "wf_segs (Lit s # r) \<longleftrightarrow> s \<noteq> [] \<and> CHR ''%'' \<notin> set s \<and> \<not> is_lit r \<and> wf_segs r"
| "wf_segs (Item n # r) \<longleftrightarrow> name_ok n \<and> (case r of Lit s # _ \<Rightarrow> ends_name (hd s) | _ \<Rightarrow> True) \<and> wf_segs r"
| "wf_segs (ItemF n f # r) \<longleftrightarrow> name_ok n \<and> CHR ''}'' \<notin> set f \<and> wf_segs r"

fun seg_entry :: "seg \<Rightarrow> string \<times> string \<times> nat" where
  "seg_entry (Lit s) = (s, [], 0)"
| "seg_entry (Item n) = (n, [], 1)"
| "seg_entry (ItemF n f) = (n, f, 1)"

definition flush :: "string \<Rightarrow> (string \<times> string \<times> nat) list" where
  "flush nstr = (if nstr \<noteq> [] then [(nstr, [], 0)] else [])"

lemma isalpha_not [simp]: "\<not> isalpha (CHR ''%'')" "\<not> isalpha (CHR ''{'')" "\<not> isalpha (CHR ''}'')"
  by (simp_all add: isalpha_def code_def)

lemma ends_name_percent [simp]: "ends_name (CHR ''%'')"
  by (simp add: ends_name_def)

lemma nth_mid: "(xs @ y # ys) ! length xs = y"
  by (simp add: nth_append)

lemma item_loop_name:
  "list_all isalpha ls \<Longrightarrow> rest \<noteq> [] \<Longrightarrow>
   item_loop (xs @ ls @ rest) i (length xs) False fb [] fmt =
   item_loop (xs @ ls @ rest) i (length xs + length ls) False fb [] fmt"
proof (induction ls arbitrary: xs)
  case (Cons c ls)
  have "item_loop (xs @ c # ls @ rest) i (length xs) False fb [] fmt =
      item_loop (xs @ c # ls @ rest) i (Suc (length xs)) False fb [] fmt"
    using Cons.prems by (subst item_loop.simps) (auto simp: nth_mid)
  also have "\<dots> = item_loop ((xs @ [c]) @ ls @ rest) i (length (xs @ [c])) False fb [] fmt" by simp
  also have "\<dots> = item_loop ((xs @ [c]) @ ls @ rest) i (length (xs @ [c]) + length ls) False fb [] fmt"
    by (rule Cons.IH) (use Cons.prems in simp_all)
  finally show ?case by simp
qed simp

lemma item_loop_last_name:
  "list_all isalpha ls \<Longrightarrow> ls \<noteq> [] \<Longrightarrow>
   item_loop (xs @ ls) i (length xs) False fb [] fmt = (length xs + length ls, False, drop (i + 1) (xs @ ls), fmt)"
proof (induction ls arbitrary: xs)
  case (Cons c ls)
  show ?case
  proof (cases "ls = []")
    case True
    then show ?thesis using Cons.prems
      by (subst item_loop.simps) (auto simp: nth_mid item_loop.simps [of _ _ "Suc (length xs)"])
  next
    case False
    have "item_loop (xs @ c # ls) i (length xs) False fb [] fmt = item_loop (xs @ c # ls) i (Suc (length xs)) False fb [] fmt"
      using Cons.prems False by (subst item_loop.simps) (auto simp: nth_mid)
    then show ?thesis using Cons.IH [of "xs @ [c]"] Cons.prems False by simp
  qed
qed simp

lemma item_loop_format:
  "CHR ''}'' \<notin> set f \<Longrightarrow> str \<noteq> [] \<Longrightarrow>
   item_loop (xs @ f @ CHR ''}'' # rest) i (length xs) True fb str fmt =
   (length xs + length f + 1, False, str, substr (xs @ f @ CHR ''}'' # rest) (fb + 1) (length xs + length f - fb - 1))"
proof (induction f arbitrary: xs)
  case Nil
  then show ?case by (subst item_loop.simps) (simp add: nth_mid)
next
  case (Cons c f)
  have "item_loop (xs @ c # f @ CHR ''}'' # rest) i (length xs) True fb str fmt =
      item_loop (xs @ c # f @ CHR ''}'' # rest) i (Suc (length xs)) True fb str fmt"
    using Cons.prems by (subst item_loop.simps) (auto simp: nth_mid)
  then show ?case using Cons.IH [of "xs @ [c]"] Cons.prems by simp
qed

lemma item_loop_Item:
  assumes "name_ok n" and "rest = [] \<or> ends_name (hd rest)"
  shows "item_loop (pre @ CHR ''%'' # n @ rest) (length pre) (Suc (length pre)) False 0 [] [] =
    (length pre + 1 + length n, False, n, [])"
proof (cases rest)
  case Nil
  then show ?thesis using assms item_loop_last_name [of n "pre @ ''%''" "length pre"] by (simp add: name_ok_def)
next
  case (Cons c cs)
  let ?p = "pre @ CHR ''%'' # n @ rest"
  have "item_loop ?p (length pre) (Suc (length pre)) False 0 [] [] =
      item_loop ?p (length pre) (Suc (length pre) + length n) False 0 [] []"
    using item_loop_name [of n rest "pre @ ''%''" "length pre"] assms Cons by (simp add: name_ok_def)
  moreover have "?p ! (Suc (length pre) + length n) = c"
    using nth_mid [of "pre @ CHR ''%'' # n" c cs] Cons by simp
  ultimately show ?thesis using assms(2) Cons
    by (simp add: item_loop.simps [of _ _ "Suc (length pre + length n)"] ends_name_def substr_def)
qed

lemma item_loop_ItemF:
  assumes "name_ok n" and "CHR ''}'' \<notin> set f"
  shows "item_loop (pre @ CHR ''%'' # n @ CHR ''{'' # f @ CHR ''}'' # rest) (length pre) (Suc (length pre)) False 0 [] [] =
    (length pre + length n + length f + 3, False, n, f)"
proof -
  let ?p = "pre @ CHR ''%'' # n @ CHR ''{'' # f @ CHR ''}'' # rest" and ?k = "Suc (length pre) + length n"
  have "item_loop ?p (length pre) (Suc (length pre)) False 0 [] [] = item_loop ?p (length pre) ?k False 0 [] []"
    using item_loop_name [of n "CHR ''{'' # f @ CHR ''}'' # rest" "pre @ ''%''" "length pre"] assms by (simp add: name_ok_def)
  also have "?p ! ?k = CHR ''{''" using nth_mid [of "pre @ CHR ''%'' # n"] by simp
  then have "item_loop ?p (length pre) ?k False 0 [] [] = item_loop ?p (length pre) (Suc ?k) True ?k n []"
    by (subst item_loop.simps) (simp add: substr_def)
  also have "\<dots> = (length pre + length n + length f + 3, False, n, f)"
    using item_loop_format [of f n "pre @ CHR ''%'' # n @ ''{''" rest "length pre" ?k "[]"] assms
    by (simp add: name_ok_def substr_def numeral_3_eq_3)
  finally show ?thesis .
qed

lemma init_loop_plain:
  "CHR ''%'' \<notin> set s \<Longrightarrow>
   init_loop (pre @ s @ rest) (length pre) nstr vec err = init_loop (pre @ s @ rest) (length pre + length s) (nstr @ s) vec err"
proof (induction s arbitrary: pre nstr)
  case (Cons c s)
  have "init_loop (pre @ c # s @ rest) (length pre) nstr vec err =
      init_loop (pre @ c # s @ rest) (Suc (length pre)) (nstr @ [c]) vec err"
    using Cons.prems by (subst init_loop.simps) (auto simp: nth_mid)
  then show ?case using Cons.IH [of "pre @ [c]" "nstr @ [c]"] Cons.prems by simp
qed simp

lemma name_not_percent: "name_ok n \<Longrightarrow> (n @ rest) ! 0 \<noteq> CHR ''%''"
  by (cases n) (auto simp: name_ok_def)

lemma init_loop_item:
  assumes "p = pre @ CHR ''%'' # q" and "q \<noteq> []" and "q ! 0 \<noteq> CHR ''%''"
    and "item_loop p (length pre) (Suc (length pre)) False 0 [] [] = (n, False, str, fmt)"
  shows "init_loop p (length pre) nstr vec err = init_loop p n [] (vec @ flush nstr @ [(str, fmt, 1)]) err"
proof -
  have "p ! length pre = CHR ''%''" "p ! Suc (length pre) = q ! 0" using assms(1) by (simp_all add: nth_append)
  then show ?thesis using assms by (subst init_loop.simps) (auto simp: flush_def)
qed

lemma show_pattern_Cons [simp]: "show_pattern (s # segs) = show_seg s @ show_pattern segs"
  by (simp add: show_pattern_def)

lemma show_pattern_hd:
  "wf_segs segs \<Longrightarrow> show_pattern segs = [] \<or> hd (show_pattern segs) = CHR ''%'' \<or>
     (\<exists>s r. segs = Lit s # r \<and> hd (show_pattern segs) = hd s)"
  by (cases segs rule: wf_segs.cases) (auto simp: show_pattern_def hd_append)

definition init_result :: "string \<times> (string \<times> string \<times> nat) list \<times> bool \<Rightarrow> (string \<times> string \<times> nat) list \<times> bool" where
  "init_result = (\<lambda>(nstr, vec, err). (vec @ flush nstr, err))"

lemma init_loop_segs:
  "wf_segs segs \<Longrightarrow> nstr = [] \<or> \<not> is_lit segs \<Longrightarrow>
   init_result (init_loop (pre @ show_pattern segs) (length pre) nstr vec err) =
   (vec @ flush nstr @ map seg_entry segs, err)"
proof (induction segs arbitrary: pre nstr vec)
  case Nil
  then show ?case by (subst init_loop.simps) (simp add: init_result_def show_pattern_def)
next
  case (Cons g segs)
  let ?p = "pre @ show_pattern (g # segs)"
  show ?case
  proof (cases g)
    case (Lit s)
    then have "nstr = []" using Cons.prems by simp
    moreover have "init_loop ?p (length pre) [] vec err = init_loop ?p (length pre + length s) s vec err"
      using init_loop_plain [of s pre "show_pattern segs" "[]"] Lit Cons.prems by simp
    moreover have "init_result (init_loop ((pre @ s) @ show_pattern segs) (length (pre @ s)) s vec err) =
        (vec @ flush s @ map seg_entry segs, err)"
      by (rule Cons.IH) (use Lit Cons.prems in simp_all)
    ultimately show ?thesis using Lit Cons.prems by (simp add: flush_def)
  next
    case (Item n)
    have "show_pattern segs = [] \<or> ends_name (hd (show_pattern segs))"
      using show_pattern_hd [of segs] Item Cons.prems by (auto split: list.splits seg.splits)
    then have "item_loop ?p (length pre) (Suc (length pre)) False 0 [] [] = (length pre + 1 + length n, False, n, [])"
      using item_loop_Item [of n "show_pattern segs" pre] Item Cons.prems by simp
    then have "init_loop ?p (length pre) nstr vec err =
        init_loop ?p (length pre + 1 + length n) [] (vec @ flush nstr @ [(n, [], 1)]) err"
      using Item Cons.prems name_not_percent [of n "show_pattern segs"]
      by (intro init_loop_item [of _ pre "n @ show_pattern segs"]) (auto simp: name_ok_def)
    then show ?thesis
      using Cons.IH [of "[]" "pre @ CHR ''%'' # n" "vec @ flush nstr @ [(n, [], 1)]"] Item Cons.prems by (simp add: flush_def)
  next
    case (ItemF n f)
    let ?pre = "pre @ CHR ''%'' # n @ CHR ''{'' # f @ ''}''"
    have "item_loop ?p (length pre) (Suc (length pre)) False 0 [] [] = (length ?pre, False, n, f)"
      using item_loop_ItemF [of n f pre "show_pattern segs"] ItemF Cons.prems by simp
    then have "init_loop ?p (length pre) nstr vec err = init_loop ?p (length ?pre) [] (vec @ flush nstr @ [(n, f, 1)]) err"
      using ItemF Cons.prems name_not_percent [of n "CHR ''{'' # f @ CHR ''}'' # show_pattern segs"]
      by (intro init_loop_item [of _ pre "n @ CHR ''{'' # f @ CHR ''}'' # show_pattern segs"]) (auto simp: name_ok_def)
    then show ?thesis
      using Cons.IH [of "[]" ?pre "vec @ flush nstr @ [(n, f, 1)]"] ItemF Cons.prems by (simp add: flush_def)
  qed
qed

lemma LogFormatter_new_result:
  "init_result (init_loop p 0 [] [] False) = (vec, err) \<Longrightarrow>
   LogFormatter_new p = \<lparr>m_pattern = p, m_items = map (\<lambda>v. fst (make_item v)) vec, m_error = (err \<or> list_ex (\<lambda>v. snd (make_item v)) vec)\<rparr>"
  by (auto simp: LogFormatter_new_def init_result_def flush_def list_ex_iff split: prod.splits)

lemma items_format_concat:
  "(\<And>i. i \<in> set is \<Longrightarrow> item_format tf name level e i = Inr (out i)) \<Longrightarrow>
   items_format tf name level e is = Inr (concat (map out is))"
  by (induction "is") simp_all

definition known :: "seg \<Rightarrow> bool" where
  "known g = (case g of Lit s \<Rightarrow> True | Item n \<Rightarrow> map_of s_format_items n \<noteq> None | ItemF n f \<Rightarrow> map_of s_format_items n \<noteq> None)"

lemma make_item_seg: "snd (make_item (seg_entry g)) \<longleftrightarrow> \<not> known g"
  by (cases g) (simp_all add: make_item_def known_def split: option.splits)

text \<open>The item a part of a pattern stands for.\<close>

definition seg_item :: "seg \<Rightarrow> FormatItem" where
  "seg_item g = fst (make_item (seg_entry g))"

text \<open>C23. A pattern made of plain text, \<open>%name\<close> and \<open>%name{format}\<close> is parsed into exactly these parts, in this order; the
  formatter reports an error just if one of the names is unknown; and a line it formats is the concatenation of
  what the items print.\<close>

theorem log_pattern_meaning:
  assumes "wf_segs segs" and "\<And>g. g \<in> set segs \<Longrightarrow> item_format tf name level e (seg_item g) = Inr (out g)"
  shows "m_items (LogFormatter_new (show_pattern segs)) = map seg_item segs \<and>
    m_error (LogFormatter_new (show_pattern segs)) = list_ex (\<lambda>g. \<not> known g) segs \<and>
    LogFormatter_format tf name level e (LogFormatter_new (show_pattern segs)) = Inr (concat (map out segs))"
proof -
  have "init_result (init_loop (show_pattern segs) 0 [] [] False) = (map seg_entry segs, False)"
    using init_loop_segs [OF assms(1), of "[]" "[]" "[]" False] by (simp add: flush_def)
  then have eq: "LogFormatter_new (show_pattern segs) = \<lparr>m_pattern = show_pattern segs, m_items = map seg_item segs,
      m_error = list_ex (\<lambda>g. \<not> known g) segs\<rparr>"
    using LogFormatter_new_result [of "show_pattern segs" "map seg_entry segs" False]
    by (simp add: seg_item_def [abs_def] make_item_seg comp_def list_ex_iff)
  have "items_format tf name level e (map seg_item segs) = Inr (concat (map out segs))"
    using assms(2) by (induction segs) simp_all
  with eq show ?thesis by (simp add: LogFormatter_format_def)
qed

text \<open>The pattern \<open>[%p] %m%n\<close>.\<close>

theorem log_pattern_meaning_witness:
  "LogFormatter_format (\<lambda>_ _. None) ''root'' WARN ((LogEvent_new WARN ''a.cc'' 7 0 1 0 0 ''main'')\<lparr>ev_content := ''hi''\<rparr>)
     (LogFormatter_new ''[%p] %m%n'') = Inr (''[WARN] hi'' @ [CHR 0x0A])"
proof -
  let ?e = "(LogEvent_new WARN ''a.cc'' 7 0 1 0 0 ''main'')\<lparr>ev_content := ''hi''\<rparr>"
  let ?segs = "[Lit ''['', Item ''p'', Lit ''] '', Item ''m'', Item ''n'']"
  let ?out = "\<lambda>g. projr (item_format (\<lambda>_ _. None) ''root'' WARN ?e (seg_item g))"
  have wf: "wf_segs ?segs" by code_simp
  have items: "map seg_item ?segs = [StringFormatItem ''['', LevelFormatItem, StringFormatItem ''] '', MessageFormatItem, NewLineFormatItem]"
    by code_simp
  have "show_pattern ?segs = ''[%p] %m%n''" by code_simp
  moreover have "item_format (\<lambda>_ _. None) ''root'' WARN ?e (seg_item g) = Inr (?out g)" if "g \<in> set ?segs" for g
    using that items by auto
  ultimately show ?thesis
    using log_pattern_meaning [OF wf, of "\<lambda>_ _. None" "''root''" WARN ?e ?out] items by simp
qed

subsection \<open>Patterns that fail\<close>

lemma init_loop_err: "err \<Longrightarrow> snd (snd (init_loop p i nstr vec err))"
  by (induction p i nstr vec err rule: init_loop.induct) (subst init_loop.simps, auto split: prod.splits)

lemma item_loop_open:
  "CHR ''}'' \<notin> set f \<Longrightarrow> str \<noteq> [] \<Longrightarrow>
   item_loop (xs @ f) i (length xs) True fb str fmt = (length xs + length f, True, str, fmt)"
proof (induction f arbitrary: xs)
  case Nil
  then show ?case by (subst item_loop.simps) simp
next
  case (Cons c f)
  have "item_loop (xs @ c # f) i (length xs) True fb str fmt = item_loop (xs @ c # f) i (Suc (length xs)) True fb str fmt"
    using Cons.prems by (subst item_loop.simps) (auto simp: nth_mid)
  then show ?case using Cons.IH [of "xs @ [c]"] Cons.prems by simp
qed

lemma init_loop_double_percent:
  assumes "CHR ''%'' \<notin> set s"
  shows "init_loop (s @ ''%%'' @ t) 0 nstr vec err = init_loop (s @ ''%%'' @ t) (length s + 1) (nstr @ s @ ''%'') vec err"
proof -
  have "init_loop (s @ ''%%'' @ t) 0 nstr vec err = init_loop (s @ ''%%'' @ t) (length s) (nstr @ s) vec err"
    using init_loop_plain [OF assms, of "[]" "''%%'' @ t"] by simp
  then show ?thesis
    using nth_mid [of s "CHR ''%''" "CHR ''%'' # t"] nth_mid [of "s @ ''%''" "CHR ''%''" t] by (subst (asm) (2) init_loop.simps) simp
qed

lemma open_format_error:
  assumes "CHR ''%'' \<notin> set s" and "name_ok n" and "CHR ''}'' \<notin> set f"
  shows "m_error (LogFormatter_new (s @ CHR ''%'' # n @ CHR ''{'' # f))"
proof -
  let ?p = "s @ CHR ''%'' # n @ CHR ''{'' # f" and ?k = "Suc (length s) + length n"
  have "item_loop ?p (length s) (Suc (length s)) False 0 [] [] = item_loop ?p (length s) ?k False 0 [] []"
    using item_loop_name [of n "CHR ''{'' # f" "s @ ''%''" "length s"] assms(2) by (simp add: name_ok_def)
  also have "?p ! ?k = CHR ''{''" using nth_mid [of "s @ CHR ''%'' # n"] by simp
  then have "item_loop ?p (length s) ?k False 0 [] [] = item_loop ?p (length s) (Suc ?k) True ?k n []"
    by (subst item_loop.simps) (simp add: substr_def)
  also have "\<dots> = (length ?p, True, n, [])"
    using item_loop_open [of f n "s @ CHR ''%'' # n @ ''{''" "length s" ?k "[]"] assms by (simp add: name_ok_def)
  finally have item: "item_loop ?p (length s) (Suc (length s)) False 0 [] [] = (length ?p, True, n, [])" .
  have "?p ! length s = CHR ''%''" "?p ! Suc (length s) \<noteq> CHR ''%''"
    using name_not_percent [OF assms(2), of "CHR ''{'' # f"] by (simp_all add: nth_append)
  then have "snd (snd (init_loop ?p (length s) nstr vec err))" for nstr vec err
    using item by (subst init_loop.simps) (auto intro: init_loop_err)
  then have "snd (snd (init_loop ?p 0 [] [] False))"
    using init_loop_plain [OF assms(1), of "[]" "CHR ''%'' # n @ CHR ''{'' # f" "[]" "[]" False] by simp
  then show ?thesis 
    by (cases "init_loop ?p 0 [] [] False") (auto simp: LogFormatter_new_def)
qed

lemma percent_at_end:
  assumes "CHR ''%'' \<notin> set s"
  shows "LogFormatter_new (s @ ''%%'') = \<lparr>m_pattern = s @ ''%%'',
    m_items = [StringFormatItem (s @ ''%''), StringFormatItem ''<<error_format %>>''], m_error = True\<rparr>"
proof -
  let ?p = "s @ ''%%''"
  have "item_loop ?p (Suc (length s)) (Suc (Suc (length s))) False 0 [] [] = (Suc (Suc (length s)), False, [], [])"
    by (subst item_loop.simps) simp
  then have "init_loop ?p (Suc (length s)) nstr vec err = ([], vec @ flush nstr @ [([], [], 1)], err)" for nstr vec err
    using nth_mid [of "s @ ''%''" "CHR ''%''" "[]"]
    by (subst init_loop.simps) (simp add: flush_def init_loop.simps [of _ "Suc (Suc (length s))"])
  then have "init_result (init_loop ?p 0 [] [] False) = ([(s @ ''%'', [], 0), ([], [], 1)], False)"
    using init_loop_double_percent [OF assms, of "[]" "[]" "[]" False] by (simp add: init_result_def flush_def)
  from LogFormatter_new_result [OF this] show ?thesis by (simp add: make_item_def s_format_items_def)
qed

lemma percent_before_name:
  assumes "CHR ''%'' \<notin> set s" and "name_ok n"
  shows "m_items (LogFormatter_new (s @ ''%%'' @ n)) = [StringFormatItem (s @ ''%''), seg_item (Item n)]"
proof -
  let ?p = "s @ ''%%'' @ n"
  have "init_result (init_loop ((s @ ''%'') @ show_pattern [Item n]) (length (s @ ''%'')) (s @ ''%'') [] False) =
      ([] @ flush (s @ ''%'') @ map seg_entry [Item n], False)"
    by (rule init_loop_segs) (use assms(2) in simp_all)
  then have r: "init_result (init_loop ?p 0 [] [] False) = ([(s @ ''%'', [], 0), (n, [], 1)], False)"
    using init_loop_double_percent [OF assms(1), of n "[]" "[]" False] by (simp add: flush_def show_pattern_def)
  have "make_item (s @ ''%'', [], 0) = (StringFormatItem (s @ ''%''), False)" by (simp add: make_item_def)
  then show ?thesis using LogFormatter_new_result [OF r] by (simp add: seg_item_def)
qed

text \<open>An unterminated format is reported as an error. The escape \<open>%%\<close> does not print a percent sign: at the end of
  a pattern it is an error, and before a name it prints the sign and then treats the name as an item.\<close>

theorem log_pattern_errors:
  assumes "CHR ''%'' \<notin> set s" and "name_ok n" and "CHR ''}'' \<notin> set f"
  shows "m_error (LogFormatter_new (s @ CHR ''%'' # n @ CHR ''{'' # f)) \<and>
    m_error (LogFormatter_new (s @ ''%%'')) \<and>
    m_items (LogFormatter_new (s @ ''%%'')) = [StringFormatItem (s @ ''%''), StringFormatItem ''<<error_format %>>''] \<and>
    m_items (LogFormatter_new (s @ ''%%'' @ n)) = [StringFormatItem (s @ ''%''), seg_item (Item n)]"
  using assms percent_before_name [of s n] by (simp add: open_format_error percent_at_end)

theorem log_pattern_errors_witness:
  "m_items (LogFormatter_new ''100%%'') = [StringFormatItem ''100%'', StringFormatItem ''<<error_format %>>'']"
proof -
  have "name_ok ''d''" by code_simp
  from log_pattern_errors [of "''100''" "''d''" "''%H''", OF _ this] show ?thesis by simp
qed

lemma level_names: "LogLevel_FromString (LogLevel_ToString l) = l"
  by (cases l) (simp_all add: LogLevel_FromString_def)

end
