(* ===== verification/Log.thy ===== *)
theory Log
  imports LogFormat Env
begin

text \<open>
  The delivering half of \<open>src/log.cc\<close>: appenders, loggers and \<open>LoggerManager\<close>.

  Appenders and loggers are objects behind shared pointers: a pointer is a number into the stores \<open>ls_appenders\<close> and
  \<open>ls_loggers\<close> of the state, so an appender that two loggers share is one object. Formatters do not change once
  constructed and are values. What reaches the console and the files is recorded in \<open>ls_out\<close>. The mutexes
  are held for whole member functions; the model runs one member function at a time.
\<close>

datatype sink = Stdout | File string

datatype ap_class = StdoutLogAppender string | FileLogAppender string string

record appender =
  ap_class :: ap_class
  ap_level :: Level
  ap_hasFormatter :: bool
  ap_formatter :: "LogFormatter option"
  ap_lastTime :: u64
  ap_stream :: bool

record Logger =
  lg_name :: string
  lg_level :: Level
  lg_appenders :: "nat list"
  lg_formatter :: "LogFormatter option"
  lg_root :: "nat option"

record 'fs logsys =
  ls_appenders :: "nat \<Rightarrow> appender"
  ls_loggers :: "nat \<Rightarrow> Logger"
  ls_next_appender :: nat
  ls_next_logger :: nat
  ls_names :: "(string \<times> nat) list"
  ls_root :: nat
  ls_out :: "(sink \<times> string) list"
  ls_fs :: 'fs

definition set_appender :: "nat \<Rightarrow> appender \<Rightarrow> 'fs logsys \<Rightarrow> 'fs logsys" where
  "set_appender i a s = s\<lparr>ls_appenders := (ls_appenders s)(i := a)\<rparr>"

definition set_logger :: "nat \<Rightarrow> Logger \<Rightarrow> 'fs logsys \<Rightarrow> 'fs logsys" where
  "set_logger i l s = s\<lparr>ls_loggers := (ls_loggers s)(i := l)\<rparr>"

definition emit :: "sink \<Rightarrow> string \<Rightarrow> 'fs logsys \<Rightarrow> 'fs logsys" where
  "emit k t s = s\<lparr>ls_out := ls_out s @ [(k, t)]\<rparr>"

subsection \<open>Appenders\<close>

definition new_appender :: "ap_class \<Rightarrow> appender" where
  "new_appender c = \<lparr>ap_class = c, ap_level = DEBUG, ap_hasFormatter = False, ap_formatter = None, ap_lastTime = 0, ap_stream = True\<rparr>"

text \<open>\<open>operator==\<close> of the two classes.\<close>

fun same_class :: "ap_class \<Rightarrow> ap_class \<Rightarrow> bool" where
  "same_class (StdoutLogAppender n) (StdoutLogAppender n') \<longleftrightarrow> n = n'"
| "same_class (FileLogAppender f n) (FileLogAppender f' n') \<longleftrightarrow> n = n'"
| "same_class _ _ \<longleftrightarrow> False"

definition appender_eq :: "appender \<Rightarrow> appender \<Rightarrow> bool" where
  "appender_eq a b \<longleftrightarrow> same_class (ap_class a) (ap_class b) \<and> ap_level a = ap_level b"

definition appender_setFormatter :: "LogFormatter option \<Rightarrow> appender \<Rightarrow> appender" where
  "appender_setFormatter var a = a\<lparr>ap_formatter := var, ap_hasFormatter := (var \<noteq> None)\<rparr>"

definition appender_setLevel :: "Level \<Rightarrow> appender \<Rightarrow> appender" where
  "appender_setLevel val a = a\<lparr>ap_level := val\<rparr>"

definition reopen :: "'fs os \<Rightarrow> nat \<Rightarrow> 'fs logsys \<Rightarrow> fault + 'fs logsys" where
  "reopen os i s = (case ap_class (ls_appenders s i) of
     StdoutLogAppender _ \<Rightarrow> Inr s
   | FileLogAppender filename _ \<Rightarrow> (case OpenForWrite os filename (ls_fs s) of
       Inl x \<Rightarrow> Inl x
     | Inr (ok, fs) \<Rightarrow> Inr ((set_appender i ((ls_appenders s i)\<lparr>ap_stream := ok\<rparr>) s)\<lparr>ls_fs := fs\<rparr>)))"

definition alloc_appender :: "appender \<Rightarrow> 'fs logsys \<Rightarrow> nat \<times> 'fs logsys" where
  "alloc_appender a s = (ls_next_appender s, (set_appender (ls_next_appender s) a s)\<lparr>ls_next_appender := ls_next_appender s + 1\<rparr>)"

definition StdoutLogAppender_new :: "string \<Rightarrow> 'fs logsys \<Rightarrow> nat \<times> 'fs logsys" where
  "StdoutLogAppender_new name s = alloc_appender (new_appender (StdoutLogAppender name)) s"

definition FileLogAppender_new :: "'fs os \<Rightarrow> string \<Rightarrow> string \<Rightarrow> 'fs logsys \<Rightarrow> fault + nat \<times> 'fs logsys" where
  "FileLogAppender_new os filename name s =
     (let (i, s) = alloc_appender (new_appender (FileLogAppender filename name)) s
      in case reopen os i s of Inl x \<Rightarrow> Inl x | Inr s \<Rightarrow> Inr (i, s))"

text \<open>\<open>m_formatter->format(...)\<close> through the pointer.\<close>

definition ap_text :: "strftime \<Rightarrow> string \<Rightarrow> Level \<Rightarrow> LogEvent \<Rightarrow> appender \<Rightarrow> fault + string" where
  "ap_text tf name level e a =
     (case ap_formatter a of None \<Rightarrow> Inl NullDeref | Some f \<Rightarrow> LogFormatter_format tf name level e f)"

definition FileLogAppender_log :: "'fs os \<Rightarrow> strftime \<Rightarrow> string \<Rightarrow> Level \<Rightarrow> LogEvent \<Rightarrow> nat \<Rightarrow> string \<Rightarrow> 'fs logsys \<Rightarrow> fault + 'fs logsys" where
  "FileLogAppender_log os tf name level e i filename s =
     (if \<not> level \<ge> ap_level (ls_appenders s i) then Inr s
      else
        let now = ucast (getTime e) :: u64 in
        case (if now \<ge> ap_lastTime (ls_appenders s i) + 3
              then (case reopen os i s of
                      Inl x \<Rightarrow> Inl x
                    | Inr s \<Rightarrow> Inr (set_appender i ((ls_appenders s i)\<lparr>ap_lastTime := now\<rparr>) s))
              else Inr s) of
          Inl x \<Rightarrow> Inl x
        | Inr s \<Rightarrow> (case ap_text tf name level e (ls_appenders s i) of
            Inl x \<Rightarrow> Inl x
          | Inr t \<Rightarrow>
              if ap_stream (ls_appenders s i) then Inr (emit (File filename) t s)
              else Inr (emit Stdout (''FileLogAppender format error '' @ [CHR 0x0A]) s)))"

definition StdoutLogAppender_log :: "strftime \<Rightarrow> string \<Rightarrow> Level \<Rightarrow> LogEvent \<Rightarrow> nat \<Rightarrow> 'fs logsys \<Rightarrow> fault + 'fs logsys" where
  "StdoutLogAppender_log tf name level e i s =
     (if \<not> level \<ge> ap_level (ls_appenders s i) then Inr s
      else case ap_text tf name level e (ls_appenders s i) of Inl x \<Rightarrow> Inl x | Inr t \<Rightarrow> Inr (emit Stdout t s))"

definition appender_log :: "'fs os \<Rightarrow> strftime \<Rightarrow> string \<Rightarrow> Level \<Rightarrow> LogEvent \<Rightarrow> nat \<Rightarrow> 'fs logsys \<Rightarrow> fault + 'fs logsys" where
  "appender_log os tf name level e i s = (case ap_class (ls_appenders s i) of
     StdoutLogAppender _ \<Rightarrow> StdoutLogAppender_log tf name level e i s
   | FileLogAppender filename _ \<Rightarrow> FileLogAppender_log os tf name level e i filename s)"

subsection \<open>Loggers\<close>

definition default_pattern :: string where
  "default_pattern = ''%d{%Y-%m-%d %H:%M:%S}%T%t%T%N%T%F%T[%p]%T[%c]%T%f:%l%T%m%T%N%n''"

definition Logger_ctor :: "string \<Rightarrow> Logger" where
  "Logger_ctor name = \<lparr>lg_name = name, lg_level = DEBUG, lg_appenders = [], lg_formatter = Some (LogFormatter_new default_pattern), lg_root = None\<rparr>"

definition initFormatter :: "nat \<Rightarrow> 'fs logsys \<Rightarrow> 'fs logsys" where
  "initFormatter g s = set_logger g ((ls_loggers s g)\<lparr>lg_formatter :=
     Some (LogFormatter_new ''%d{%Y-%m-%d %H:%M:%S}%T%t%T%F%T[%p]%T[%c]%T%f:%l%T%m%T%N%n'')\<rparr>) s"

definition logger_setFormatter :: "nat \<Rightarrow> LogFormatter option \<Rightarrow> 'fs logsys \<Rightarrow> 'fs logsys" where
  "logger_setFormatter g var s =
     fold (\<lambda>i s. if ap_hasFormatter (ls_appenders s i) then s
                 else set_appender i ((ls_appenders s i)\<lparr>ap_formatter := var\<rparr>) s)
       (lg_appenders (ls_loggers s g))
       (set_logger g ((ls_loggers s g)\<lparr>lg_formatter := var\<rparr>) s)"

text \<open>The overload for a pattern: an invalid one is reported and ignored.\<close>

definition logger_setPattern :: "nat \<Rightarrow> string \<Rightarrow> 'fs logsys \<Rightarrow> 'fs logsys" where
  "logger_setPattern g var s =
     (let new_var = LogFormatter_new var in
      if m_error new_var then
        emit Stdout (''Logger setFormatter name='' @ lg_name (ls_loggers s g) @ '' value='' @ var @ '' invalid formatter'' @ [CHR 0x0A]) s
      else logger_setFormatter g (Some new_var) s)"

definition addAppender :: "nat \<Rightarrow> nat \<Rightarrow> 'fs logsys \<Rightarrow> 'fs logsys" where
  "addAppender g i s =
     (let l = ls_loggers s g; a = ls_appenders s i in
      if \<exists>j\<in>set (lg_appenders l). appender_eq (ls_appenders s j) a then s
      else
        let s = (if ap_formatter a = None then set_appender i (a\<lparr>ap_formatter := lg_formatter l\<rparr>) s else s)
        in set_logger g (l\<lparr>lg_appenders := lg_appenders l @ [i]\<rparr>) s)"

definition delAppender :: "nat \<Rightarrow> nat \<Rightarrow> 'fs logsys \<Rightarrow> 'fs logsys" where
  "delAppender g i s = set_logger g ((ls_loggers s g)\<lparr>lg_appenders := remove1 i (lg_appenders (ls_loggers s g))\<rparr>) s"

definition clearAppenders :: "nat \<Rightarrow> 'fs logsys \<Rightarrow> 'fs logsys" where
  "clearAppenders g s = set_logger g ((ls_loggers s g)\<lparr>lg_appenders := []\<rparr>) s"

definition logger_setLevel :: "nat \<Rightarrow> Level \<Rightarrow> 'fs logsys \<Rightarrow> 'fs logsys" where
  "logger_setLevel g val s = set_logger g ((ls_loggers s g)\<lparr>lg_level := val\<rparr>) s"

fun appenders_log :: "'fs os \<Rightarrow> strftime \<Rightarrow> string \<Rightarrow> Level \<Rightarrow> LogEvent \<Rightarrow> nat list \<Rightarrow> 'fs logsys \<Rightarrow> fault + 'fs logsys" where
  "appenders_log os tf name level e [] s = Inr s"
| "appenders_log os tf name level e (i # is) s = (case appender_log os tf name level e i s of
     Inl x \<Rightarrow> Inl x
   | Inr s \<Rightarrow> appenders_log os tf name level e is s)"

text \<open>\<open>Logger::log\<close>; the fuel bounds the chain of \<open>m_root\<close> pointers.\<close>

fun logger_log :: "nat \<Rightarrow> 'fs os \<Rightarrow> strftime \<Rightarrow> nat \<Rightarrow> Level \<Rightarrow> LogEvent \<Rightarrow> 'fs logsys \<Rightarrow> fault + 'fs logsys" where
  "logger_log 0 os tf g level e s = Inl (AssertFail ''fuel'')"
| "logger_log (Suc n) os tf g level e s =
     (let l = ls_loggers s g in
      if level \<ge> lg_level l then
        (if lg_appenders l \<noteq> [] then appenders_log os tf (lg_name l) level e (lg_appenders l) s
         else case lg_root l of None \<Rightarrow> Inr s | Some r \<Rightarrow> logger_log n os tf r level e s)
      else Inr s)"

text \<open>The destructor of \<open>LogEventWrap\<close>, and \<open>SYLAR_LOG_LEVEL\<close> with the text streamed into the event.\<close>

definition LogEventWrap_dtor :: "'fs os \<Rightarrow> strftime \<Rightarrow> nat \<Rightarrow> LogEvent \<Rightarrow> 'fs logsys \<Rightarrow> fault + 'fs logsys" where
  "LogEventWrap_dtor os tf g e s = logger_log 2 os tf g (ev_level e) e s"

definition SYLAR_LOG_LEVEL :: "'fs os \<Rightarrow> strftime \<Rightarrow> nat \<Rightarrow> Level \<Rightarrow> LogEvent \<Rightarrow> string \<Rightarrow> 'fs logsys \<Rightarrow> fault + 'fs logsys" where
  "SYLAR_LOG_LEVEL os tf g level e t s =
     (if lg_level (ls_loggers s g) \<le> level
      then LogEventWrap_dtor os tf g (e\<lparr>ev_level := level, ev_content := t\<rparr>) s
      else Inr s)"

subsection \<open>The manager\<close>

definition alloc_logger :: "Logger \<Rightarrow> 'fs logsys \<Rightarrow> nat \<times> 'fs logsys" where
  "alloc_logger l s = (ls_next_logger s, (set_logger (ls_next_logger s) l s)\<lparr>ls_next_logger := ls_next_logger s + 1\<rparr>)"

definition getLogger :: "string \<Rightarrow> 'fs logsys \<Rightarrow> nat \<times> 'fs logsys" where
  "getLogger name s = (case map_find string_less name (ls_names s) of
     Some g \<Rightarrow> (g, s)
   | None \<Rightarrow>
       let (g, s) = alloc_logger ((Logger_ctor name)\<lparr>lg_root := Some (ls_root s)\<rparr>) s
       in (g, s\<lparr>ls_names := map_assign string_less name g (ls_names s)\<rparr>))"

definition LoggerManager_ctor :: "'fs \<Rightarrow> 'fs logsys" where
  "LoggerManager_ctor fs =
     (let s = \<lparr>ls_appenders = \<lambda>_. new_appender (StdoutLogAppender []), ls_loggers = \<lambda>_. Logger_ctor [],
               ls_next_appender = 0, ls_next_logger = 0, ls_names = [], ls_root = 0, ls_out = [], ls_fs = fs\<rparr>;
          (r, s) = alloc_logger (Logger_ctor ''root'') s;
          (i, s) = StdoutLogAppender_new ''StdoutLogAppender'' s;
          s = addAppender r i s
      in s\<lparr>ls_root := r, ls_names := map_assign string_less ''root'' r (ls_names s)\<rparr>)"

subsection \<open>Histories\<close>

text \<open>What the members of a logging system can do, other than installing a null formatter.\<close>

inductive log_step :: "'fs os \<Rightarrow> strftime \<Rightarrow> 'fs logsys \<Rightarrow> 'fs logsys \<Rightarrow> bool" for os tf where
  get: "getLogger name s = (g, s') \<Longrightarrow> log_step os tf s s'"
| new_stdout: "StdoutLogAppender_new name s = (i, s') \<Longrightarrow> log_step os tf s s'"
| new_file: "FileLogAppender_new os filename name s = Inr (i, s') \<Longrightarrow> log_step os tf s s'"
| ap_formatter: "log_step os tf s (set_appender i (appender_setFormatter (Some f) (ls_appenders s i)) s)"
| ap_level: "log_step os tf s (set_appender i (appender_setLevel l (ls_appenders s i)) s)"
| lg_formatter: "log_step os tf s (logger_setFormatter g (Some f) s)"
| lg_pattern: "log_step os tf s (logger_setPattern g p s)"
| lg_init: "log_step os tf s (initFormatter g s)"
| add: "i < ls_next_appender s \<Longrightarrow> log_step os tf s (addAppender g i s)"
| del: "log_step os tf s (delAppender g i s)"
| clear: "log_step os tf s (clearAppenders g s)"
| level: "log_step os tf s (logger_setLevel g l s)"
| log: "SYLAR_LOG_LEVEL os tf g l e t s = Inr s' \<Longrightarrow> log_step os tf s s'"

inductive log_reach :: "'fs os \<Rightarrow> strftime \<Rightarrow> 'fs logsys \<Rightarrow> bool" for os tf where
  start: "log_reach os tf (LoggerManager_ctor fs)"
| step: "log_reach os tf s \<Longrightarrow> log_step os tf s s' \<Longrightarrow> log_reach os tf s'"

text \<open>Every logger has a formatter and so has every appender a logger uses; only the root logger is anybody's root, and
  it has none itself; the manager finds each logger under its own name.\<close>

definition log_inv :: "'fs logsys \<Rightarrow> bool" where
  "log_inv s \<longleftrightarrow>
     (\<forall>g. lg_formatter (ls_loggers s g) \<noteq> None) \<and>
     (\<forall>g. \<forall>i\<in>set (lg_appenders (ls_loggers s g)). ap_formatter (ls_appenders s i) \<noteq> None \<and> i < ls_next_appender s) \<and>
     (\<forall>g. lg_root (ls_loggers s g) = None \<or> lg_root (ls_loggers s g) = Some (ls_root s)) \<and>
     lg_root (ls_loggers s (ls_root s)) = None \<and> ls_root s < ls_next_logger s \<and>
     (\<forall>n g. (n, g) \<in> set (ls_names s) \<longrightarrow> g < ls_next_logger s \<and> lg_name (ls_loggers s g) = n)"

lemmas log_basic = set_appender_def set_logger_def emit_def alloc_appender_def alloc_logger_def

lemma log_invI_appender:
  "log_inv s \<Longrightarrow> ap_formatter a \<noteq> None \<or> ap_formatter (ls_appenders s i) = ap_formatter a \<Longrightarrow> log_inv (set_appender i a s)"
  unfolding log_inv_def set_appender_def by (auto, metis)

lemma log_invI_logger:
  "log_inv s \<Longrightarrow> lg_formatter l \<noteq> None \<Longrightarrow> set (lg_appenders l) \<subseteq> set (lg_appenders (ls_loggers s g)) \<Longrightarrow>
   lg_root l = lg_root (ls_loggers s g) \<Longrightarrow> lg_name l = lg_name (ls_loggers s g) \<Longrightarrow> log_inv (set_logger g l s)"
  unfolding log_inv_def set_logger_def by (auto simp: subset_iff)

lemma log_invI_emit: "log_inv s \<Longrightarrow> log_inv (emit k t s)"
  by (simp add: log_inv_def emit_def)

lemma log_invI_fs: "log_inv s \<Longrightarrow> log_inv (s\<lparr>ls_fs := fs\<rparr>)"
  by (simp add: log_inv_def)

lemmas log_invI = log_invI_appender log_invI_logger log_invI_emit log_invI_fs

lemma log_inv_alloc_appender: "log_inv s \<Longrightarrow> log_inv (snd (alloc_appender a s))"
  unfolding log_inv_def log_basic by (auto simp: less_Suc_eq)

lemma string_assign_mem: "x \<in> set (map_assign string_less k v m) \<Longrightarrow> x = (k, v) \<or> x \<in> set m"
proof (induction m)
  case (Cons p m)
  obtain a b where "p = (a, b)" by (cases p)
  moreover have "string_less k a \<or> k = a \<or> string_less a k" by (rule string_less_total)
  ultimately show ?case using Cons by (auto split: if_splits)
qed simp

lemma log_inv_getLogger: "log_inv s \<Longrightarrow> log_inv (snd (getLogger name s))"
  unfolding getLogger_def log_inv_def log_basic
  by (auto simp: Logger_ctor_def less_Suc_eq split: option.splits dest!: string_assign_mem)

lemma log_inv_reopen: "reopen os i s = Inr s' \<Longrightarrow> log_inv s \<Longrightarrow> log_inv s'"
  by (auto simp: reopen_def split: ap_class.splits sum.splits prod.splits intro!: log_invI)

lemma fold_setFormatter:
  fixes var
  defines "F \<equiv> \<lambda>i s. if ap_hasFormatter (ls_appenders s i) then s else set_appender i ((ls_appenders s i)\<lparr>ap_formatter := Some var\<rparr>) s"
  shows "log_inv s \<Longrightarrow> log_inv (fold F is s)"
proof (induction "is" arbitrary: s)
  case (Cons i "is")
  have "log_inv (F i s)" using Cons.prems by (auto simp: F_def intro!: log_invI_appender)
  then show ?case by (simp add: Cons.IH)
qed simp

lemma log_inv_setFormatter: "log_inv s \<Longrightarrow> log_inv (logger_setFormatter g (Some f) s)"
  unfolding logger_setFormatter_def by (intro fold_setFormatter log_invI_logger) simp_all

lemma log_inv_addAppender:
  assumes "log_inv s" and "i < ls_next_appender s"
  shows "log_inv (addAppender g i s)"
proof -
  let ?s = "if ap_formatter (ls_appenders s i) = None
    then set_appender i ((ls_appenders s i)\<lparr>ap_formatter := lg_formatter (ls_loggers s g)\<rparr>) s else s"
  have fm: "lg_formatter (ls_loggers s g) \<noteq> None" using assms(1) by (simp add: log_inv_def)
  then have "log_inv ?s" using assms(1) by (auto intro!: log_invI_appender)
  moreover have "ap_formatter (ls_appenders ?s i) \<noteq> None" using fm by (auto simp: set_appender_def)
  moreover have "ls_loggers ?s = ls_loggers s" "ls_next_appender ?s = ls_next_appender s" by (auto simp: set_appender_def)
  ultimately have "log_inv (set_logger g ((ls_loggers s g)\<lparr>lg_appenders := lg_appenders (ls_loggers s g) @ [i]\<rparr>) ?s)"
    using assms(2) fm unfolding log_inv_def set_logger_def by auto
  then show ?thesis using assms(1) by (simp add: addAppender_def Let_def)
qed

lemma log_inv_appender_log: "appender_log os tf name level e i s = Inr s' \<Longrightarrow> log_inv s \<Longrightarrow> log_inv s'"
  by (auto simp: appender_log_def StdoutLogAppender_log_def FileLogAppender_log_def Let_def
      split: ap_class.splits if_splits sum.splits intro!: log_invI dest: log_inv_reopen)

lemma log_inv_appenders_log: "appenders_log os tf name level e is s = Inr s' \<Longrightarrow> log_inv s \<Longrightarrow> log_inv s'"
  by (induction "is" arbitrary: s) (auto split: sum.splits dest: log_inv_appender_log)

lemma log_inv_logger_log: "logger_log n os tf g level e s = Inr s' \<Longrightarrow> log_inv s \<Longrightarrow> log_inv s'"
  by (induction n os tf g level e s rule: logger_log.induct)
     (auto simp: Let_def split: if_splits option.splits dest: log_inv_appenders_log)

lemma log_step_inv: "log_step os tf s s' \<Longrightarrow> log_inv s \<Longrightarrow> log_inv s'"
proof (induction rule: log_step.induct)
  case (get name s g s')
  then show ?case using log_inv_getLogger [of s name] by simp
next
  case (new_stdout name s i s')
  then show ?case using log_inv_alloc_appender by (metis StdoutLogAppender_new_def snd_conv)
next
  case (new_file filename name s i s')
  then show ?case using log_inv_alloc_appender [of s "new_appender (FileLogAppender filename name)"]
    by (auto simp: FileLogAppender_new_def split: prod.splits sum.splits dest: log_inv_reopen)
next
  case (lg_pattern s g p)
  then show ?case by (simp add: logger_setPattern_def Let_def log_inv_setFormatter log_invI_emit)
next
  case (log g l e t s s')
  then show ?case by (auto simp: SYLAR_LOG_LEVEL_def LogEventWrap_dtor_def split: if_splits dest: log_inv_logger_log)
next
  case (level s g l)
  moreover have "lg_formatter (ls_loggers s g) \<noteq> None" using level by (simp add: log_inv_def)
  ultimately show ?case by (auto simp: logger_setLevel_def intro!: log_invI_logger)
next
  case (del s g i)
  moreover have "lg_formatter (ls_loggers s g) \<noteq> None" using del by (simp add: log_inv_def)
  ultimately show ?case by (auto simp: delAppender_def intro!: log_invI_logger dest: set_remove1_subset [THEN subsetD])
next
  case (clear s g)
  moreover have "lg_formatter (ls_loggers s g) \<noteq> None" using clear by (simp add: log_inv_def)
  ultimately show ?case by (auto simp: clearAppenders_def intro!: log_invI_logger)
qed (auto simp: appender_setFormatter_def appender_setLevel_def initFormatter_def
    intro!: log_invI log_inv_setFormatter log_inv_addAppender)

lemma log_reach_inv: "log_reach os tf s \<Longrightarrow> log_inv s"
proof (induction rule: log_reach.induct)
  case (start fs)
  show ?case
    by (auto simp: LoggerManager_ctor_def Let_def log_basic StdoutLogAppender_new_def addAppender_def log_inv_def
        Logger_ctor_def new_appender_def)
qed (rule log_step_inv)

subsection \<open>Delivery\<close>

lemma items_format_fault: "items_format tf name level e is = Inl x \<Longrightarrow> x = Uninitialised"
proof (induction "is")
  case (Cons i "is")
  then show ?case by (cases i) (auto split: sum.splits option.splits)
qed simp

lemma OpenForWrite_fault: "OpenForWrite os f fs = Inl x \<Longrightarrow> x \<in> {UseAfterFree, OutOfBounds}"
  by (auto simp: OpenForWrite_def MKDir_def Let_def split: prod.splits bool.splits sum.splits if_splits)

lemma reopen_keeps:
  "reopen os i s = Inr s' \<Longrightarrow> ls_loggers s' = ls_loggers s \<and> ls_out s' = ls_out s \<and>
     (\<forall>j. ap_formatter (ls_appenders s' j) = ap_formatter (ls_appenders s j) \<and> ap_level (ls_appenders s' j) = ap_level (ls_appenders s j) \<and>
       ap_class (ls_appenders s' j) = ap_class (ls_appenders s j))"
  by (auto simp: reopen_def set_appender_def split: ap_class.splits sum.splits prod.splits)

lemma appender_log_keeps:
  "appender_log os tf name level e i s = Inr s' \<Longrightarrow> ls_loggers s' = ls_loggers s \<and>
     (\<forall>j. ap_formatter (ls_appenders s' j) = ap_formatter (ls_appenders s j) \<and> ap_level (ls_appenders s' j) = ap_level (ls_appenders s j) \<and>
       ap_class (ls_appenders s' j) = ap_class (ls_appenders s j))"
  by (auto simp: appender_log_def StdoutLogAppender_log_def FileLogAppender_log_def Let_def emit_def set_appender_def
      split: ap_class.splits if_splits sum.splits dest!: reopen_keeps)

lemma appender_log_fault:
  assumes "appender_log os tf name level e i s = Inl x" and "ap_formatter (ls_appenders s i) \<noteq> None"
  shows "x \<in> {UseAfterFree, OutOfBounds, Uninitialised}"
proof -
  have "reopen os i s = Inl y \<Longrightarrow> y \<in> {UseAfterFree, OutOfBounds}" for y
    by (auto simp: reopen_def split: ap_class.splits sum.splits prod.splits dest: OpenForWrite_fault)
  moreover have "ap_text tf name level e a = Inl y \<Longrightarrow> ap_formatter a \<noteq> None \<Longrightarrow> y = Uninitialised" for a y
    by (auto simp: ap_text_def LogFormatter_format_def dest: items_format_fault)
  moreover have "reopen os i s = Inr s' \<Longrightarrow> ap_formatter (ls_appenders s' i) \<noteq> None" for s'
    using reopen_keeps [of os i s s'] assms(2) by simp
  ultimately show ?thesis using assms
    by (auto simp: appender_log_def StdoutLogAppender_log_def FileLogAppender_log_def Let_def set_appender_def
        split: ap_class.splits if_splits sum.splits)
qed

lemma appenders_log_fault:
  "appenders_log os tf name level e is s = Inl x \<Longrightarrow> \<forall>i\<in>set is. ap_formatter (ls_appenders s i) \<noteq> None \<Longrightarrow>
   x \<in> {UseAfterFree, OutOfBounds, Uninitialised}"
proof (induction "is" arbitrary: s)
  case (Cons i "is")
  show ?case
  proof (cases "appender_log os tf name level e i s")
    case (Inl y)
    then show ?thesis using Cons.prems appender_log_fault [OF Inl] by simp
  next
    case (Inr s')
    then show ?thesis using Cons.IH [of s'] Cons.prems appender_log_keeps [OF Inr] by simp
  qed
qed simp



text \<open>What an appender contributes to the output for an event.\<close>

definition sink_of :: "appender \<Rightarrow> sink" where
  "sink_of a = (case ap_class a of StdoutLogAppender _ \<Rightarrow> Stdout | FileLogAppender f _ \<Rightarrow> File f)"

definition lines_of :: "strftime \<Rightarrow> string \<Rightarrow> Level \<Rightarrow> LogEvent \<Rightarrow> appender \<Rightarrow> (sink \<times> string) list" where
  "lines_of tf name level e a = (if level \<ge> ap_level a then [(sink_of a, projr (ap_text tf name level e a))] else [])"

definition appender_ready :: "strftime \<Rightarrow> string \<Rightarrow> Level \<Rightarrow> LogEvent \<Rightarrow> appender \<Rightarrow> bool" where
  "appender_ready tf name level e a \<longleftrightarrow> ap_stream a \<and> (\<exists>t. ap_text tf name level e a = Inr t)"

lemma reopen_ok:
  assumes "\<And>f fs. fst (os_open os f fs)"
  shows "\<exists>fs. reopen os i s = Inr (if \<exists>f n. ap_class (ls_appenders s i) = FileLogAppender f n
    then (set_appender i ((ls_appenders s i)\<lparr>ap_stream := True\<rparr>) s)\<lparr>ls_fs := fs\<rparr> else s)"
proof (cases "ap_class (ls_appenders s i)")
  case (FileLogAppender f n)
  obtain fs where "OpenForWrite os f (ls_fs s) = Inr (True, fs)"
    using assms [of "c_str f" "ls_fs s"] by (cases "os_open os (c_str f) (ls_fs s)") (simp add: OpenForWrite_def)
  then show ?thesis using FileLogAppender by (auto simp: reopen_def)
qed (auto simp: reopen_def)

lemma appender_log_ok:
  assumes "\<And>f fs. fst (os_open os f fs)" and "appender_ready tf name level e (ls_appenders s i)"
  shows "\<exists>s'. appender_log os tf name level e i s = Inr s' \<and>
    ls_out s' = ls_out s @ lines_of tf name level e (ls_appenders s i) \<and> ls_loggers s' = ls_loggers s \<and>
    (\<forall>j. (ap_stream (ls_appenders s j) \<longrightarrow> ap_stream (ls_appenders s' j)) \<and> (\<exists>t b. ls_appenders s' j = (ls_appenders s j)\<lparr>ap_stream := b, ap_lastTime := t\<rparr>))"
proof (cases "ap_class (ls_appenders s i)")
  case (StdoutLogAppender n)
  have "\<exists>t b. ls_appenders s j = (ls_appenders s j)\<lparr>ap_stream := b, ap_lastTime := t\<rparr>" for j
    by (rule exI [of _ "ap_lastTime (ls_appenders s j)"], rule exI [of _ "ap_stream (ls_appenders s j)"]) simp
  then show ?thesis using assms(2) StdoutLogAppender
    by (auto simp: appender_log_def StdoutLogAppender_log_def appender_ready_def lines_of_def sink_of_def emit_def)
next
  case (FileLogAppender f n)
  have refl: "\<exists>t b. ls_appenders s j = (ls_appenders s j)\<lparr>ap_stream := b, ap_lastTime := t\<rparr>" for j
    by (rule exI [of _ "ap_lastTime (ls_appenders s j)"], rule exI [of _ "ap_stream (ls_appenders s j)"]) simp
  have textf: "ap_text tf name level e (a\<lparr>ap_stream := b, ap_lastTime := t\<rparr>) = ap_text tf name level e a" for a b t
    by (simp add: ap_text_def)
  have upd: "\<exists>t' b. (ls_appenders s i)\<lparr>ap_stream := True, ap_lastTime := t\<rparr> = (ls_appenders s i)\<lparr>ap_stream := b, ap_lastTime := t'\<rparr>" for t
    by blast
  show ?thesis using reopen_ok [OF assms(1), of i s] assms(2) FileLogAppender refl upd
    by (auto simp: appender_log_def FileLogAppender_log_def Let_def appender_ready_def lines_of_def sink_of_def emit_def
        set_appender_def textf)
qed

lemma lines_of_cong: "lines_of tf name level e (a\<lparr>ap_stream := b, ap_lastTime := t\<rparr>) = lines_of tf name level e a"
  by (simp add: lines_of_def sink_of_def ap_text_def)

lemma appenders_log_ok:
  assumes "\<And>f fs. fst (os_open os f fs)" and "\<And>i. i \<in> set is \<Longrightarrow> appender_ready tf name level e (ls_appenders s i)"
  shows "\<exists>s'. appenders_log os tf name level e is s = Inr s' \<and>
    ls_out s' = ls_out s @ concat (map (\<lambda>i. lines_of tf name level e (ls_appenders s i)) is)"
  using assms(2)
proof (induction "is" arbitrary: s)
  case (Cons i "is")
  obtain s' where s': "appender_log os tf name level e i s = Inr s'" "ls_out s' = ls_out s @ lines_of tf name level e (ls_appenders s i)"
      "\<And>j. ap_stream (ls_appenders s j) \<Longrightarrow> ap_stream (ls_appenders s' j)"
      "\<And>j. \<exists>t b. ls_appenders s' j = (ls_appenders s j)\<lparr>ap_stream := b, ap_lastTime := t\<rparr>"
    using appender_log_ok [OF assms(1) Cons.prems [OF list.set_intros(1)]] by blast
  have same: "lines_of tf name level e (ls_appenders s' j) = lines_of tf name level e (ls_appenders s j)"
    "ap_text tf name level e (ls_appenders s' j) = ap_text tf name level e (ls_appenders s j)" for j
    using s'(4) [of j] by (auto simp: lines_of_cong ap_text_def)
  have "appender_ready tf name level e (ls_appenders s' j)" if "j \<in> set is" for j
    using Cons.prems [of j] that s'(3) [of j] same(2) [of j] by (simp add: appender_ready_def)
  from Cons.IH [OF this] show ?case using s'(1,2) same(1) by auto
qed simp

text \<open>The logger whose appenders an event of a logger reaches: the logger itself, or the root when it has none.\<close>

definition log_target :: "nat \<Rightarrow> 'fs logsys \<Rightarrow> nat" where
  "log_target g s = (if lg_appenders (ls_loggers s g) = [] \<and> lg_root (ls_loggers s g) \<noteq> None then ls_root s else g)"

text \<open>C29. Where the files can be opened and the times rendered, an event that passes the level of its logger, and of the root
  logger if it is forwarded there, is written once by each appender that admits its level, in their order, under the
  name of the logger the appenders belong to; nothing else is written. An event below the level changes nothing.\<close>

theorem log_delivery:
  assumes "log_reach os tf s" and "\<And>f fs. fst (os_open os f fs)"
    and "h = log_target g s" and "name = lg_name (ls_loggers s h)" and "ids = lg_appenders (ls_loggers s h)"
    and "\<And>i. i \<in> set ids \<Longrightarrow> appender_ready tf name level e (ls_appenders s i)"
  shows "(level \<ge> lg_level (ls_loggers s g) \<and> level \<ge> lg_level (ls_loggers s h) \<longrightarrow>
      (\<exists>s'. logger_log 2 os tf g level e s = Inr s' \<and>
        ls_out s' = ls_out s @ concat (map (\<lambda>i. lines_of tf name level e (ls_appenders s i)) ids))) \<and>
    (level < lg_level (ls_loggers s g) \<or> level < lg_level (ls_loggers s h) \<longrightarrow> logger_log 2 os tf g level e s = Inr s)"
proof -
  have inv: "log_inv s" using assms(1) by (rule log_reach_inv)
  obtain s' where s': "appenders_log os tf name level e ids s = Inr s'"
      "ls_out s' = ls_out s @ concat (map (\<lambda>i. lines_of tf name level e (ls_appenders s i)) ids)"
    using appenders_log_ok [OF assms(2,6)] by blast
  have root: "lg_root (ls_loggers s g) = None \<or> lg_root (ls_loggers s g) = Some (ls_root s)" "lg_root (ls_loggers s (ls_root s)) = None"
    using inv by (auto simp: log_inv_def)
  have two: "2 = Suc (Suc 0)" by simp
  show ?thesis
  proof (cases "lg_appenders (ls_loggers s g) = [] \<and> lg_root (ls_loggers s g) \<noteq> None")
    case True
    then have "h = ls_root s" "lg_root (ls_loggers s g) = Some (ls_root s)" using assms(3) root(1) by (auto simp: log_target_def)
    then show ?thesis using True s' root(2) assms(4,5) unfolding two by (cases ids) (auto simp: Let_def)
  next
    case False
    then have "h = g" using assms(3) by (auto simp: log_target_def)
    then show ?thesis using False s' assms(4,5) root unfolding two by (cases ids) (auto simp: Let_def)
  qed
qed

theorem log_delivery_witness:
  "\<exists>s'. logger_log 2 \<lparr>os_access = \<lambda>_ _. True, os_lstat = \<lambda>_ _. True, os_mkdir = \<lambda>_ fs. (True, fs), os_open = \<lambda>_ fs. (True, fs)\<rparr>
      (\<lambda>_ _. Some ''now'') 0 WARN (LogEvent_new WARN ''a.cc'' 7 0 1 0 0 ''main'') (LoggerManager_ctor ()) = Inr s' \<and> length (ls_out s') = 1"
proof -
  let ?os = "\<lparr>os_access = \<lambda>_ _. True, os_lstat = \<lambda>_ _. True, os_mkdir = \<lambda>_ fs. (True, fs), os_open = \<lambda>_ fs. (True, fs)\<rparr>"
  let ?tf = "\<lambda>_ _. Some ''now''" and ?e = "LogEvent_new WARN ''a.cc'' 7 0 1 0 0 ''main''" and ?s = "LoggerManager_ctor ()"
  have lg: "ls_loggers ?s 0 = \<lparr>lg_name = ''root'', lg_level = DEBUG, lg_appenders = [0],
      lg_formatter = Some (LogFormatter_new default_pattern), lg_root = None\<rparr>" and out: "ls_out ?s = []"
    and ap: "ls_appenders ?s 0 = \<lparr>ap_class = StdoutLogAppender ''StdoutLogAppender'', ap_level = DEBUG, ap_hasFormatter = False,
      ap_formatter = Some (LogFormatter_new default_pattern), ap_lastTime = 0, ap_stream = True\<rparr>"
    by (simp_all add: LoggerManager_ctor_def Let_def log_basic StdoutLogAppender_new_def addAppender_def Logger_ctor_def new_appender_def)
  have "\<not> isl (LogFormatter_format ?tf ''root'' WARN ?e (LogFormatter_new default_pattern))" by code_simp
  then have "\<exists>t. LogFormatter_format ?tf ''root'' WARN ?e (LogFormatter_new default_pattern) = Inr t"
    by (cases "LogFormatter_format ?tf ''root'' WARN ?e (LogFormatter_new default_pattern)") simp_all
  then have ready: "appender_ready ?tf ''root'' WARN ?e (ls_appenders ?s 0)" by (simp add: ap appender_ready_def ap_text_def)
  have h: "0 = log_target 0 ?s" and name: "''root'' = lg_name (ls_loggers ?s 0)" and ids: "[0] = lg_appenders (ls_loggers ?s 0)"
    by (simp_all add: log_target_def lg)
  have "\<And>i. i \<in> set [0] \<Longrightarrow> appender_ready ?tf ''root'' WARN ?e (ls_appenders ?s i)" using ready by simp
  from log_delivery [OF log_reach.start [of ?os ?tf "()"] _ h name ids this]
  obtain s' where "logger_log 2 ?os ?tf 0 WARN ?e ?s = Inr s'"
      "ls_out s' = ls_out ?s @ concat (map (\<lambda>i. lines_of ?tf ''root'' WARN ?e (ls_appenders ?s i)) [0])"
    by (auto simp: lg less_eq_Level_def)
  moreover have "length (lines_of ?tf ''root'' WARN ?e (ls_appenders ?s 0)) = 1" by (simp add: lines_of_def ap less_eq_Level_def)
  ultimately show ?thesis by (simp add: out)
qed

text \<open>A logger that has a file appender does not take a second one for another file: the two compare equal.\<close>

lemma second_file_dropped:
  assumes "i \<in> set (lg_appenders (ls_loggers s g))" and "ap_class (ls_appenders s i) = FileLogAppender f n"
    and "ap_class (ls_appenders s j) = FileLogAppender f' n" and "ap_level (ls_appenders s i) = ap_level (ls_appenders s j)"
  shows "addAppender g j s = s"
proof -
  have "\<exists>k\<in>set (lg_appenders (ls_loggers s g)). appender_eq (ls_appenders s k) (ls_appenders s j)"
    using assms by (intro bexI [of _ i]) (simp_all add: appender_eq_def)
  then show ?thesis by (simp add: addAppender_def Let_def)
qed

end
