(* ===== verification/LogConfig.thy ===== *)
theory LogConfig
  imports Log Yaml
begin

text \<open>
  The configuration of the logging system, the end of \<open>src/log.cc\<close>: the definitions of loggers and appenders, their
  conversion from and to YAML, and the listener that applies a change of the variable \<open>logs\<close>.

  A \<open>std::set<LogDefine>\<close> is the list of its elements in the order of their names.
\<close>

record LogAppenderDefine =
  lad_type :: nat
  lad_level :: Level
  lad_formatter :: string
  lad_file :: string

record LogDefine =
  ld_name :: string
  ld_level :: Level
  ld_formatter :: string
  ld_appenders :: "LogAppenderDefine list"

definition LogDefine_less :: "LogDefine \<Rightarrow> LogDefine \<Rightarrow> bool" where
  "LogDefine_less a b = string_less (ld_name a) (ld_name b)"

subsection \<open>From YAML\<close>

text \<open>\<open>node["key"]\<close>: a scalar cannot be subscripted.\<close>

definition node_key :: "string \<Rightarrow> node \<Rightarrow> exn + node option" where
  "node_key k n = (if is_scalar n then Inl (YamlError ''bad subscript'') else Inr (node_get k n))"

text \<open>\<open>None\<close> where the loop continues with the next element.\<close>

definition parse_appender :: "node \<Rightarrow> exn + LogAppenderDefine option" where
  "parse_appender a =
     bindE (node_key ''type'' a) (\<lambda>t. case t of
       None \<Rightarrow> Inr None
     | Some t \<Rightarrow> bindE (as_string t) (\<lambda>type.
         if type = ''FileLogAppender'' then
           bindE (node_key ''file'' a) (\<lambda>f. case f of
             None \<Rightarrow> Inr None
           | Some f \<Rightarrow> bindE (as_string f) (\<lambda>file.
               bindE (node_key ''formatter'' a) (\<lambda>m. case m of
                 None \<Rightarrow> Inr (Some \<lparr>lad_type = 1, lad_level = UNKNOW, lad_formatter = [], lad_file = file\<rparr>)
               | Some m \<Rightarrow> bindE (as_string m) (\<lambda>fmt.
                   Inr (Some \<lparr>lad_type = 1, lad_level = UNKNOW, lad_formatter = fmt, lad_file = file\<rparr>)))))
         else if type = ''StdoutLogAppender'' then
           Inr (Some \<lparr>lad_type = 2, lad_level = UNKNOW, lad_formatter = [], lad_file = []\<rparr>)
         else Inr None))"

definition parse_appenders :: "yaml \<Rightarrow> node \<Rightarrow> exn + LogAppenderDefine list" where
  "parse_appenders y n =
     bindE (mapE (\<lambda>i. bindE (node_at y n i) parse_appender) [0..<node_size n]) (\<lambda>as. Inr (List.map_filter id as))"

definition opt_string :: "node option \<Rightarrow> exn + string" where
  "opt_string n = (case n of None \<Rightarrow> Inr [] | Some m \<Rightarrow> as_string m)"

definition parse_define :: "yaml \<Rightarrow> node \<Rightarrow> exn + LogDefine option" where
  "parse_define y n =
     bindE (node_key ''name'' n) (\<lambda>nm. case nm of
       None \<Rightarrow> Inr None
     | Some nm \<Rightarrow> bindE (as_string nm) (\<lambda>name.
         bindE (bindE (node_key ''level'' n) opt_string) (\<lambda>level.
         bindE (bindE (node_key ''formatter'' n) opt_string) (\<lambda>formatter.
         bindE (node_key ''appenders'' n) (\<lambda>as.
         bindE (case as of None \<Rightarrow> Inr [] | Some a \<Rightarrow> parse_appenders y a) (\<lambda>appenders.
           Inr (Some \<lparr>ld_name = name, ld_level = LogLevel_FromString level, ld_formatter = formatter, ld_appenders = appenders\<rparr>)))))))"

definition string2LogDefines :: "yaml \<Rightarrow> string \<Rightarrow> exn + LogDefine list" where
  "string2LogDefines y v =
     bindE (y_load y v) (\<lambda>root.
     bindE (mapE (\<lambda>i. bindE (node_at y root i) (parse_define y)) [0..<node_size root]) (\<lambda>ds.
       Inr (fold (set_insert LogDefine_less) (List.map_filter id ds) [])))"

subsection \<open>To YAML\<close>

definition appender_node :: "LogAppenderDefine \<Rightarrow> node" where
  "appender_node a = map_node
     ((if lad_type a = 1 then [(''type'', YScalar ''FileLogAppender''), (''file'', YScalar (lad_file a))]
       else if lad_type a = 2 then [(''type'', YScalar ''StdoutLogAppender'')] else []) @
      (if lad_level a \<noteq> UNKNOW then [(''level'', YScalar (LogLevel_ToString (lad_level a)))] else []) @
      (if lad_formatter a \<noteq> [] then [(''formatter'', YScalar (lad_formatter a))] else []))"

definition define_node :: "LogDefine \<Rightarrow> node" where
  "define_node d = map_node
     ([(''name'', YScalar (ld_name d))] @
      (if ld_level d \<noteq> UNKNOW then [(''level'', YScalar (LogLevel_ToString (ld_level d)))] else []) @
      (if ld_formatter d = [] then [(''formatter'', YScalar (ld_formatter d))] else []) @
      (if ld_appenders d \<noteq> [] then [(''appenders'', YSeq (map appender_node (ld_appenders d)))] else []))"

definition LogDefines2string :: "yaml \<Rightarrow> LogDefine list \<Rightarrow> string" where
  "LogDefines2string y v = y_dump y (seq_node (map define_node v))"

subsection \<open>Applying a change\<close>

text \<open>The pointer \<open>ap\<close> of the inner loop: \<open>None\<close> where the loop continues.\<close>

definition make_appender :: "'fs os \<Rightarrow> bool \<Rightarrow> LogAppenderDefine \<Rightarrow> 'fs logsys \<Rightarrow> fault + (nat \<times> 'fs logsys) option" where
  "make_appender os daemon a s =
     (if lad_type a = 1 then map_sum id Some (FileLogAppender_new os (lad_file a) ''FileLogAppender'' s)
      else if lad_type a = 2 then Inr (if \<not> daemon then Some (StdoutLogAppender_new ''StdoutLogAppender'' s) else None)
      else Inl NullDeref)"

definition set_defined :: "string \<Rightarrow> LogAppenderDefine \<Rightarrow> nat \<Rightarrow> 'fs logsys \<Rightarrow> 'fs logsys" where
  "set_defined name a i s =
     (let s = set_appender i (appender_setLevel (lad_level a) (ls_appenders s i)) s;
          fmt = LogFormatter_new (lad_formatter a)
      in if lad_formatter a = [] then s
         else if \<not> m_error fmt then set_appender i (appender_setFormatter (Some fmt) (ls_appenders s i)) s
         else emit Stdout (''log.name = '' @ name @ '' appendeer type'' @ dec (lad_type a) @ '' formatter='' @ lad_formatter a @
           '' is invaild'' @ [CHR 0x0A]) s)"

fun add_defined :: "'fs os \<Rightarrow> bool \<Rightarrow> string \<Rightarrow> nat \<Rightarrow> LogAppenderDefine list \<Rightarrow> 'fs logsys \<Rightarrow> fault + 'fs logsys" where
  "add_defined os daemon name g [] s = Inr s"
| "add_defined os daemon name g (a # as) s =
     bindE (make_appender os daemon a s) (\<lambda>r. case r of
       None \<Rightarrow> add_defined os daemon name g as s
     | Some (i, s) \<Rightarrow> add_defined os daemon name g as (addAppender g i (set_defined name a i s)))"

definition configure_logger :: "'fs os \<Rightarrow> bool \<Rightarrow> LogDefine \<Rightarrow> 'fs logsys \<Rightarrow> fault + 'fs logsys" where
  "configure_logger os daemon d s =
     (let (g, s) = getLogger (ld_name d) s;
          s = logger_setLevel g (ld_level d) s;
          s = (if ld_formatter d \<noteq> [] then logger_setPattern g (ld_formatter d) s else s);
          s = clearAppenders g s
      in add_defined os daemon (ld_name d) g (ld_appenders d) s)"

definition find_define :: "LogDefine \<Rightarrow> LogDefine list \<Rightarrow> LogDefine option" where
  "find_define d ds = set_find LogDefine_less d ds"

fun apply_new :: "'fs os \<Rightarrow> bool \<Rightarrow> LogDefine list \<Rightarrow> LogDefine list \<Rightarrow> 'fs logsys \<Rightarrow> fault + 'fs logsys" where
  "apply_new os daemon old [] s = Inr s"
| "apply_new os daemon old (d # ds) s =
     (if find_define d old = Some d then apply_new os daemon old ds s
      else bindE (configure_logger os daemon d s) (apply_new os daemon old ds))"

definition reset_logger :: "LogDefine \<Rightarrow> 'fs logsys \<Rightarrow> 'fs logsys" where
  "reset_logger d s = (let (g, s) = getLogger (ld_name d) s in clearAppenders g (logger_setLevel g UNKNOW s))"

definition remove_old :: "LogDefine list \<Rightarrow> LogDefine list \<Rightarrow> 'fs logsys \<Rightarrow> 'fs logsys" where
  "remove_old old new s = fold (\<lambda>d s. if find_define d new = None then reset_logger d s else s) old s"

text \<open>The listener of \<open>LogIniter\<close>; \<open>daemon\<close> is \<open>EnvMgr::GetInstance()->has("d")\<close>.\<close>

definition on_logs_change :: "'fs os \<Rightarrow> bool \<Rightarrow> LogDefine list \<Rightarrow> LogDefine list \<Rightarrow> 'fs logsys \<Rightarrow> fault + 'fs logsys" where
  "on_logs_change os daemon old_value new_value s =
     bindE (apply_new os daemon old_value new_value s) (\<lambda>s. Inr (remove_old old_value new_value s))"

subsection \<open>What a printed configuration keeps\<close>

text \<open>The printed text of a definition leaves out a pattern that is not empty, and reading it drops the levels of the
  appenders and the patterns of console appenders.\<close>

definition kept_appender :: "LogAppenderDefine \<Rightarrow> LogAppenderDefine" where
  "kept_appender a = (if lad_type a = 1 then a\<lparr>lad_level := UNKNOW\<rparr> else a\<lparr>lad_level := UNKNOW, lad_formatter := [], lad_file := []\<rparr>)"

definition kept :: "LogDefine \<Rightarrow> LogDefine" where
  "kept d = d\<lparr>ld_formatter := [], ld_appenders := map kept_appender (ld_appenders d)\<rparr>"

lemma node_key_map_node [simp]: "node_key k (map_node ps) = Inr (map_of ps k)"
proof -
  have "map_option snd (find (\<lambda>(n, _). n = YScalar k) (map (\<lambda>(k, n). (YScalar k, n)) ps)) = map_of ps k"
    by (induction ps) auto
  then show ?thesis by (simp add: node_key_def map_node_def)
qed

lemma parse_appender_node:
  "lad_type a \<in> {1, 2} \<Longrightarrow> parse_appender (appender_node a) = Inr (Some (kept_appender a))"
  by (auto simp: parse_appender_def appender_node_def kept_appender_def)

lemma map_filter_Some: "List.map_filter id (map (\<lambda>x. Some (f x)) xs) = map f xs"
  by (induction xs) (simp_all add: map_filter_simps)

lemma parse_appenders_node:
  assumes "\<forall>a\<in>set as. lad_type a \<in> {1, 2}"
  shows "parse_appenders y (YSeq (map appender_node as)) = Inr (map kept_appender as)"
proof -
  have "mapE (\<lambda>i. bindE (node_at y (YSeq (map appender_node as)) i) parse_appender) [0..<length as] =
      Inr (map (\<lambda>i. Some (kept_appender (as ! i))) [0..<length as])"
    using assms by (intro mapE_Inr) (simp add: parse_appender_node)
  also have "map (\<lambda>i. Some (kept_appender (as ! i))) [0..<length as] = map (\<lambda>a. Some (kept_appender a)) as"
    by (simp add: map_equality_iff)
  finally show ?thesis by (simp add: parse_appenders_def map_filter_Some)
qed

lemma parse_define_node:
  assumes "\<forall>a\<in>set (ld_appenders d). lad_type a \<in> {1, 2}"
  shows "parse_define y (define_node d) = Inr (Some (kept d))"
  using parse_appenders_node [OF assms, of y] level_names [of "ld_level d"] level_names [of UNKNOW]
  by (auto simp: parse_define_def define_node_def kept_def opt_string_def LogLevel_FromString_def split: if_splits)

interpretation log_define: strict_weak_order LogDefine_less
  by unfold_locales (auto simp: LogDefine_less_def string_less_irrefl equivalent_def intro: string_less_trans, (metis string_less_total string_less_irrefl)+)

text \<open>Reading back a printed configuration of loggers gives the same loggers, levels and appenders, but no logger keeps a
  pattern of its own: \<open>LexicalCast\<close> prints the pattern just when it is empty. The levels of appenders are never
  read.\<close>

theorem log_config_roundtrip:
  assumes "\<And>n. y_load y (y_dump y n) = Inr n" and "sorted_wrt LogDefine_less ds"
    and "\<forall>d\<in>set ds. \<forall>a\<in>set (ld_appenders d). lad_type a \<in> {1, 2}"
  shows "string2LogDefines y (LogDefines2string y ds) = Inr (map kept ds)"
proof -
  have parse: "mapE (\<lambda>i. bindE (node_at y (seq_node (map define_node ds)) i) (parse_define y)) [0..<node_size (seq_node (map define_node ds))] =
      Inr (map (\<lambda>d. Some (kept d)) ds)"
  proof (cases "ds = []")
    case False
    have "mapE (\<lambda>i. bindE (node_at y (YSeq (map define_node ds)) i) (parse_define y)) [0..<length ds] =
        Inr (map (\<lambda>i. Some (kept (ds ! i))) [0..<length ds])"
    proof (intro mapE_Inr)
      fix i assume "i \<in> set [0..<length ds]"
      then have "ds ! i \<in> set ds" by simp
      then have "parse_define y (define_node (ds ! i)) = Inr (Some (kept (ds ! i)))" by (rule parse_define_node [OF bspec [OF assms(3)]])
      then show "bindE (node_at y (YSeq (map define_node ds)) i) (parse_define y) = Inr (Some (kept (ds ! i)))"
        using \<open>i \<in> set [0..<length ds]\<close> by simp
    qed
    then show ?thesis using False by (simp add: seq_node_def map_equality_iff)
  qed (simp add: seq_node_def)
  have "sorted_wrt LogDefine_less (map kept ds)"
    using assms(2) by (simp add: sorted_wrt_map LogDefine_less_def [abs_def] kept_def)
  then have "fold (set_insert LogDefine_less) (map kept ds) [] = map kept ds"
    using log_define.set_rebuild [of "[]" "map kept ds"] by simp
  then show ?thesis using assms(1) parse by (simp add: string2LogDefines_def LogDefines2string_def map_filter_Some)
qed

theorem log_config_roundtrip_witness:
  "string2LogDefines enum_yaml (LogDefines2string enum_yaml
     [\<lparr>ld_name = ''system'', ld_level = INFO, ld_formatter = ''%m%n'', ld_appenders = [\<lparr>lad_type = 2, lad_level = WARN, lad_formatter = [], lad_file = []\<rparr>]\<rparr>]) =
   Inr [\<lparr>ld_name = ''system'', ld_level = INFO, ld_formatter = [], ld_appenders = [\<lparr>lad_type = 2, lad_level = UNKNOW, lad_formatter = [], lad_file = []\<rparr>]\<rparr>]"
  using log_config_roundtrip [of enum_yaml
      "[\<lparr>ld_name = ''system'', ld_level = INFO, ld_formatter = ''%m%n'', ld_appenders = [\<lparr>lad_type = 2, lad_level = WARN, lad_formatter = [], lad_file = []\<rparr>]\<rparr>]"]
  by (simp add: enum_yaml_def kept_def kept_appender_def)

subsection \<open>Changes keep the system consistent\<close>

lemma lg_formatter_ok: "log_inv s \<Longrightarrow> lg_formatter (ls_loggers s g) \<noteq> None"
  by (simp add: log_inv_def)

lemma log_inv_setLevel: "log_inv s \<Longrightarrow> log_inv (logger_setLevel g l s)"
  by (rule log_step_inv [OF log_step.level])

lemma log_inv_clear: "log_inv s \<Longrightarrow> log_inv (clearAppenders g s)"
  by (rule log_step_inv [OF log_step.clear])

lemma log_inv_pattern: "log_inv s \<Longrightarrow> log_inv (logger_setPattern g p s)"
  by (rule log_step_inv [OF log_step.lg_pattern])

lemma log_inv_set_defined: "log_inv s \<Longrightarrow> log_inv (set_defined name a i s)"
  by (auto simp: set_defined_def Let_def appender_setLevel_def appender_setFormatter_def intro!: log_invI)

lemma FileLogAppender_new_alloc:
  assumes "FileLogAppender_new os f n s = Inr (i, s')"
  shows "i = ls_next_appender s \<and> ls_next_appender s' = i + 1 \<and> ls_loggers s' = ls_loggers s \<and> ls_names s' = ls_names s \<and>
    (\<forall>j. j \<noteq> i \<longrightarrow> ls_appenders s' j = ls_appenders s j) \<and> ap_class (ls_appenders s' i) = FileLogAppender f n \<and>
    ap_formatter (ls_appenders s' i) = None"
  using assms
  by (auto simp: FileLogAppender_new_def alloc_appender_def reopen_def set_appender_def new_appender_def
      split: sum.splits prod.splits ap_class.splits)

lemma make_appender_inv:
  assumes "make_appender os daemon a s = Inr (Some (i, s'))" and "log_inv s"
  shows "log_inv s' \<and> i < ls_next_appender s'"
proof (cases "lad_type a = 1")
  case True
  then have new: "FileLogAppender_new os (lad_file a) ''FileLogAppender'' s = Inr (i, s')"
    using assms(1) by (cases "FileLogAppender_new os (lad_file a) ''FileLogAppender'' s") (simp_all add: make_appender_def)
  then show ?thesis
    using log_step_inv [OF log_step.new_file [OF new] assms(2)] FileLogAppender_new_alloc [OF new] by simp
next
  case False
  then have new: "StdoutLogAppender_new ''StdoutLogAppender'' s = (i, s')"
    using assms(1) by (auto simp: make_appender_def split: if_splits)
  then show ?thesis
    using log_step_inv [OF log_step.new_stdout [OF new] assms(2)] by (auto simp: StdoutLogAppender_new_def alloc_appender_def)
qed

lemma add_defined_inv: "add_defined os daemon name g as s = Inr s' \<Longrightarrow> log_inv s \<Longrightarrow> log_inv s'"
proof (induction "as" arbitrary: s)
  case (Cons a "as")
  show ?case
  proof (cases "make_appender os daemon a s")
    case (Inr r)
    show ?thesis
    proof (cases r)
      case None
      then show ?thesis using Cons Inr by simp
    next
      case (Some p)
      obtain i t where p: "p = (i, t)" by (cases p)
      have t: "log_inv t" "i < ls_next_appender t" using make_appender_inv [of os daemon a s i t] Cons.prems(2) Inr Some p by simp_all
      moreover have "ls_next_appender (set_defined name a i t) = ls_next_appender t"
        by (simp add: set_defined_def Let_def set_appender_def emit_def)
      ultimately have "log_inv (addAppender g i (set_defined name a i t))"
        by (intro log_inv_addAppender log_inv_set_defined) simp_all
      then show ?thesis using Cons Inr Some p by simp
    qed
  qed (use Cons.prems in simp)
qed simp

lemma configure_logger_inv: "configure_logger os daemon d s = Inr s' \<Longrightarrow> log_inv s \<Longrightarrow> log_inv s'"
  using log_inv_getLogger [of s "ld_name d"]
  by (auto simp: configure_logger_def Let_def split: prod.splits
      intro!: add_defined_inv [of os daemon _ _ _ _ s'] log_inv_clear log_inv_pattern log_inv_setLevel)

lemma reset_logger_inv: "log_inv s \<Longrightarrow> log_inv (reset_logger d s)"
  using log_inv_getLogger [of s "ld_name d"]
  by (auto simp: reset_logger_def split: prod.splits intro!: log_inv_clear log_inv_setLevel)

lemma apply_new_inv: "apply_new os daemon old ds s = Inr s' \<Longrightarrow> log_inv s \<Longrightarrow> log_inv s'"
proof (induction ds arbitrary: s)
  case (Cons d ds)
  then show ?case by (cases "configure_logger os daemon d s") (auto split: if_splits dest: configure_logger_inv)
qed simp

lemma remove_old_inv: "log_inv s \<Longrightarrow> log_inv (remove_old old new s)"
  unfolding remove_old_def by (induction old arbitrary: s) (auto intro: reset_logger_inv)

lemma on_logs_change_inv: "on_logs_change os daemon old new s = Inr s' \<Longrightarrow> log_inv s \<Longrightarrow> log_inv s'"
  by (cases "apply_new os daemon old new s") (auto simp: on_logs_change_def intro: remove_old_inv apply_new_inv)

text \<open>Where every file opens, a file appender can be made.\<close>

lemma FileLogAppender_new_ok:
  assumes "\<And>f fs. fst (os_open os f fs)"
  shows "\<exists>i s'. FileLogAppender_new os f n s = Inr (i, s')"
  using reopen_ok [where os = os, OF assms] by (auto simp: FileLogAppender_new_def alloc_appender_def split: sum.splits) (metis Inr_not_Inl)

lemma set_defined_keeps:
  "ls_loggers (set_defined name a i s) = ls_loggers s" "ls_names (set_defined name a i s) = ls_names s"
  "j \<noteq> i \<Longrightarrow> ls_appenders (set_defined name a i s) j = ls_appenders s j"
  "ap_class (ls_appenders (set_defined name a i s) i) = ap_class (ls_appenders s i)"
  "ap_level (ls_appenders (set_defined name a i s) i) = lad_level a"
  by (auto simp: set_defined_def Let_def set_appender_def emit_def appender_setLevel_def appender_setFormatter_def)

lemma addAppender_first:
  assumes "lg_appenders (ls_loggers s g) = []"
  shows "lg_appenders (ls_loggers (addAppender g i s) g) = [i]" "ls_names (addAppender g i s) = ls_names s"
    "ap_class (ls_appenders (addAppender g i s) j) = ap_class (ls_appenders s j)"
    "ap_level (ls_appenders (addAppender g i s) j) = ap_level (ls_appenders s j)"
  using assms by (auto simp: addAppender_def Let_def set_appender_def set_logger_def)

lemma add_two_files:
  assumes "\<And>f fs. fst (os_open os f fs)" and "lad_type a = 1" and "lad_type b = 1" and "lad_level a = lad_level b"
    and "lg_appenders (ls_loggers s g) = []"
  shows "\<exists>s' i. add_defined os daemon name g [a, b] s = Inr s' \<and> lg_appenders (ls_loggers s' g) = [i] \<and>
    ap_class (ls_appenders s' i) = FileLogAppender (lad_file a) ''FileLogAppender'' \<and> ls_names s' = ls_names s"
proof -
  obtain i s1 where n1: "FileLogAppender_new os (lad_file a) ''FileLogAppender'' s = Inr (i, s1)"
    using FileLogAppender_new_ok [where os = os, OF assms(1)] by blast
  note k1 = FileLogAppender_new_alloc [OF n1]
  let ?s2 = "addAppender g i (set_defined name a i s1)"
  have e: "lg_appenders (ls_loggers (set_defined name a i s1) g) = []" using k1 assms(5) by (simp add: set_defined_keeps)
  have s2: "lg_appenders (ls_loggers ?s2 g) = [i]" "ls_names ?s2 = ls_names s"
    "ap_class (ls_appenders ?s2 i) = FileLogAppender (lad_file a) ''FileLogAppender''" "ap_level (ls_appenders ?s2 i) = lad_level a"
    unfolding addAppender_first [OF e] using k1 by (auto simp: set_defined_keeps)
  obtain j s3 where n2: "FileLogAppender_new os (lad_file b) ''FileLogAppender'' ?s2 = Inr (j, s3)"
    using FileLogAppender_new_ok [where os = os, OF assms(1)] by blast
  note k2 = FileLogAppender_new_alloc [OF n2]
  have "i < ls_next_appender ?s2"
    using k1 by (auto simp: addAppender_def Let_def set_defined_def set_appender_def set_logger_def emit_def)
  then have ne: "i \<noteq> j" using k2 by simp
  have "addAppender g j (set_defined name b j s3) = set_defined name b j s3"
    by (rule second_file_dropped [of i _ _ "lad_file a" "''FileLogAppender''" _ "lad_file b"]) (use k2 s2 ne assms(4) in \<open>auto simp: set_defined_keeps\<close>)
  then have "add_defined os daemon name g [a, b] s = Inr (set_defined name b j s3)"
    using n1 n2 assms(2,3) by (simp add: make_appender_def)
  moreover have "lg_appenders (ls_loggers (set_defined name b j s3) g) = [i]" "ls_names (set_defined name b j s3) = ls_names s"
    "ap_class (ls_appenders (set_defined name b j s3) i) = FileLogAppender (lad_file a) ''FileLogAppender''"
    using k2 s2 ne by (simp_all add: set_defined_keeps)
  ultimately show ?thesis by blast
qed

text \<open>Applying a configuration keeps the logging system consistent. A logger configured with two log files gets one
  appender, for the first file: the second file never receives a line.\<close>

theorem log_config_second_file_lost:
  assumes "log_inv s" and "\<And>f fs. fst (os_open os f fs)" and "ld_appenders d = [a, b]"
    and "lad_type a = 1" and "lad_type b = 1" and "lad_level a = lad_level b" and "lad_file a \<noteq> lad_file b"
  shows "\<exists>s' g i. on_logs_change os daemon [] [d] s = Inr s' \<and> log_inv s' \<and> map_find string_less (ld_name d) (ls_names s') = Some g \<and>
    lg_appenders (ls_loggers s' g) = [i] \<and> ap_class (ls_appenders s' i) = FileLogAppender (lad_file a) ''FileLogAppender''"
proof -
  obtain g s1 where g: "getLogger (ld_name d) s = (g, s1)" by fastforce
  have names: "map_find string_less (ld_name d) (ls_names s1) = Some g"
    using g by (auto simp: getLogger_def alloc_logger_def str.map_find_assign split: option.splits)
  let ?s2 = "logger_setLevel g (ld_level d) s1"
  let ?s3 = "if ld_formatter d \<noteq> [] then logger_setPattern g (ld_formatter d) ?s2 else ?s2"
  let ?s4 = "clearAppenders g ?s3"
  have fold: "ls_names (fold (\<lambda>i s. if ap_hasFormatter (ls_appenders s i) then s else set_appender i ((ls_appenders s i)\<lparr>ap_formatter := v\<rparr>) s) is t) = ls_names t" for v "is" and t :: "'a logsys"
    by (induction "is" arbitrary: t) (simp_all add: set_appender_def)
  have "ls_names ?s4 = ls_names s1"
    by (auto simp: clearAppenders_def logger_setLevel_def logger_setPattern_def logger_setFormatter_def set_logger_def emit_def Let_def fold)
  moreover have "lg_appenders (ls_loggers ?s4 g) = []" by (simp add: clearAppenders_def set_logger_def)
  then obtain s' i where s': "add_defined os daemon (ld_name d) g [a, b] ?s4 = Inr s'" "lg_appenders (ls_loggers s' g) = [i]"
      "ap_class (ls_appenders s' i) = FileLogAppender (lad_file a) ''FileLogAppender''" "ls_names s' = ls_names ?s4"
    using add_two_files [where os = os, OF assms(2,4,5,6), of ?s4 g daemon "ld_name d"] by blast
  have "configure_logger os daemon d s = Inr s'" using s'(1) g assms(3) by (simp add: configure_logger_def Let_def)
  then have ch: "on_logs_change os daemon [] [d] s = Inr s'" by (simp add: on_logs_change_def remove_old_def find_define_def set_find_def)
  ultimately show ?thesis using s' names on_logs_change_inv [OF ch assms(1)] by metis
qed

theorem log_config_second_file_lost_witness:
  "\<exists>s' g i. on_logs_change \<lparr>os_access = \<lambda>_ _. True, os_lstat = \<lambda>_ _. True, os_mkdir = \<lambda>_ fs. (True, fs), os_open = \<lambda>_ fs. (True, fs)\<rparr> False []
      [\<lparr>ld_name = ''system'', ld_level = INFO, ld_formatter = [], ld_appenders =
        [\<lparr>lad_type = 1, lad_level = UNKNOW, lad_formatter = [], lad_file = ''a.log''\<rparr>, \<lparr>lad_type = 1, lad_level = UNKNOW, lad_formatter = [], lad_file = ''b.log''\<rparr>]\<rparr>]
      (LoggerManager_ctor ()) = Inr s' \<and> lg_appenders (ls_loggers s' g) = [i] \<and>
    ap_class (ls_appenders s' i) = FileLogAppender ''a.log'' ''FileLogAppender''"
proof -
  let ?os = "\<lparr>os_access = \<lambda>_ _. True, os_lstat = \<lambda>_ _. True, os_mkdir = \<lambda>_ fs. (True, fs), os_open = \<lambda>_ fs. (True, fs)\<rparr>"
  let ?a = "\<lparr>lad_type = 1, lad_level = UNKNOW, lad_formatter = [], lad_file = ''a.log''\<rparr>"
  let ?b = "\<lparr>lad_type = 1, lad_level = UNKNOW, lad_formatter = [], lad_file = ''b.log''\<rparr>"
  let ?d = "\<lparr>ld_name = ''system'', ld_level = INFO, ld_formatter = [], ld_appenders = [?a, ?b]\<rparr>"
  have "log_inv (LoggerManager_ctor ())" by (rule log_reach_inv [OF log_reach.start])
  from log_config_second_file_lost [of "LoggerManager_ctor ()" ?os ?d ?a ?b False, OF this] show ?thesis by auto
qed

end
