(* ===== verification/HttpParser.thy ===== *)
theory HttpParser
  imports HttpMessage Config Util
begin

text \<open>
  \<open>src/http_parser.cc\<close>, \<open>include/http/http_parser.hh\<close>: the parsers of requests and responses.

  The automata \<open>http_parser\<close> and \<open>httpclient_parser\<close> are generated by ragel from \<open>src/rl\<close>: a record of functions stands
  for each. Executing one on a block of memory gives its new state, the number of bytes it consumed and the callbacks
  it made, in order. A callback gets a pointer into the block and a length; the pointer is the memory from there to the
  end of the block, since some callbacks read beyond the length.
\<close>

subsection \<open>Sizes from the configuration\<close>

record http_sizes =
  s_request_buffer_size :: u64
  s_request_max_body_size :: u64
  s_response_buffer_size :: u64
  s_response_max_body_size :: u64

text \<open>\<open>_RequestSizeIniter\<close>: the static copies start as the values of the variables, and the listener of each variable keeps
  its copy up to date.\<close>

definition RequestSizeIniter :: "u64 \<Rightarrow> u64 \<Rightarrow> u64 \<Rightarrow> u64 \<Rightarrow> http_sizes" where
  "RequestSizeIniter rqb rqm rsb rsm =
     \<lparr>s_request_buffer_size = rqb, s_request_max_body_size = rqm, s_response_buffer_size = rsb, s_response_max_body_size = rsm\<rparr>"

definition on_request_buffer_size :: "(u64, http_sizes) listener" where
  "on_request_buffer_size ov nv w = Ok () (w\<lparr>s_request_buffer_size := nv\<rparr>)"

definition on_request_max_body_size :: "(u64, http_sizes) listener" where
  "on_request_max_body_size ov nv w = Ok () (w\<lparr>s_request_max_body_size := nv\<rparr>)"

definition on_response_buffer_size :: "(u64, http_sizes) listener" where
  "on_response_buffer_size ov nv w = Ok () (w\<lparr>s_response_buffer_size := nv\<rparr>)"

definition on_response_max_body_size :: "(u64, http_sizes) listener" where
  "on_response_max_body_size ov nv w = Ok () (w\<lparr>s_response_max_body_size := nv\<rparr>)"

definition g_http_request_buffer_size :: "(string \<Rightarrow> exn + u64) \<Rightarrow> (u64 \<Rightarrow> exn + string) \<Rightarrow> (u64, http_sizes) ConfigVar" where
  "g_http_request_buffer_size fromS toS =
     snd (snd (addListener on_request_buffer_size 0
       (ConfigVar_new ''http.request.buffer_size'' (4 * 1024) ''http.request.buffer_size'' ''uint64_t'' fromS toS)))"

subsection \<open>Requests\<close>

record ('p, 'e) automaton =
  au_init :: 'p
  au_execute :: "'p \<Rightarrow> string \<Rightarrow> 'p \<times> nat \<times> 'e list"
  au_has_error :: "'p \<Rightarrow> bool"
  au_is_finished :: "'p \<Rightarrow> bool"

datatype rq_event =
    Ev_method string nat
  | Ev_uri string nat
  | Ev_fragment string nat
  | Ev_path string nat
  | Ev_query string nat
  | Ev_version string nat
  | Ev_header_done string nat
  | Ev_field string nat string nat

record 'p HttpRequestParser =
  rp_parser :: 'p
  rp_data :: HttpRequest
  rp_error :: int

text \<open>\<open>strncmp(a, b, n) == 0\<close>.\<close>

definition strncmp_eq :: "string \<Rightarrow> string \<Rightarrow> nat \<Rightarrow> bool" where
  "strncmp_eq a b n \<longleftrightarrow> take n (c_str a @ [CHR 0x00]) = take n (c_str b @ [CHR 0x00])"

definition on_request_method :: "string \<Rightarrow> nat \<Rightarrow> 'p HttpRequestParser \<Rightarrow> 'p HttpRequestParser" where
  "on_request_method at len parser =
     (let m = CharsToHttpMethod at in
      if m = INVAILD_METHOD then parser\<lparr>rp_error := 1000\<rparr>
      else parser\<lparr>rp_data := setMethod m (rp_data parser)\<rparr>)"

definition on_request_fragment :: "string \<Rightarrow> nat \<Rightarrow> 'p HttpRequestParser \<Rightarrow> 'p HttpRequestParser" where
  "on_request_fragment at len parser = parser\<lparr>rp_data := setFragment (take len at) (rp_data parser)\<rparr>"

definition on_request_path :: "string \<Rightarrow> nat \<Rightarrow> 'p HttpRequestParser \<Rightarrow> 'p HttpRequestParser" where
  "on_request_path at len parser = parser\<lparr>rp_data := setPath (take len at) (rp_data parser)\<rparr>"

definition on_request_query :: "string \<Rightarrow> nat \<Rightarrow> 'p HttpRequestParser \<Rightarrow> 'p HttpRequestParser" where
  "on_request_query at len parser = parser\<lparr>rp_data := setQuery (take len at) (rp_data parser)\<rparr>"

definition version_code :: "string \<Rightarrow> nat \<Rightarrow> u8 option" where
  "version_code at len =
     (if strncmp_eq at ''HTTP/1.1'' len then Some 0x11
      else if strncmp_eq at ''HTTP/1.0'' len then Some 0x10
      else None)"

definition on_request_version :: "string \<Rightarrow> nat \<Rightarrow> 'p HttpRequestParser \<Rightarrow> 'p HttpRequestParser" where
  "on_request_version at len parser =
     (case version_code at len of
        None \<Rightarrow> parser\<lparr>rp_error := 1001\<rparr>
      | Some v \<Rightarrow> parser\<lparr>rp_data := setVersion v (rp_data parser)\<rparr>)"

definition on_request_header_done :: "string \<Rightarrow> nat \<Rightarrow> 'p HttpRequestParser \<Rightarrow> 'p HttpRequestParser" where
  "on_request_header_done at len parser =
     (let version = rq_version (rp_data parser);
          conn = getHeader ''Connection'' [] (rp_data parser)
      in
      if version = 0x10 then
        (if strcasecmp (c_str conn) ''keep-alive'' \<noteq> 0 then parser\<lparr>rp_data := setClose True (rp_data parser)\<rparr> else parser)
      else if strcasecmp (c_str conn) ''close'' = 0 then parser\<lparr>rp_data := setClose True (rp_data parser)\<rparr>
      else parser\<lparr>rp_data := setClose False (rp_data parser)\<rparr>)"

definition on_request_http_field :: "string \<Rightarrow> nat \<Rightarrow> string \<Rightarrow> nat \<Rightarrow> 'p HttpRequestParser \<Rightarrow> 'p HttpRequestParser" where
  "on_request_http_field field flen value vlen parser =
     (if flen = 0 then parser
      else parser\<lparr>rp_data := setHeader (take flen field) (take vlen value) (rp_data parser)\<rparr>)"

fun on_request :: "rq_event \<Rightarrow> 'p HttpRequestParser \<Rightarrow> 'p HttpRequestParser" where
  "on_request (Ev_method at n) p = on_request_method at n p"
| "on_request (Ev_uri at n) p = p"
| "on_request (Ev_fragment at n) p = on_request_fragment at n p"
| "on_request (Ev_path at n) p = on_request_path at n p"
| "on_request (Ev_query at n) p = on_request_query at n p"
| "on_request (Ev_version at n) p = on_request_version at n p"
| "on_request (Ev_header_done at n) p = on_request_header_done at n p"
| "on_request (Ev_field f fl v vl) p = on_request_http_field f fl v vl p"

definition HttpRequestParser_new :: "('p, rq_event) automaton \<Rightarrow> 'p HttpRequestParser" where
  "HttpRequestParser_new m = \<lparr>rp_parser = au_init m, rp_data = HttpRequest_new 0x11 False, rp_error = 0\<rparr>"

text \<open>\<open>execute\<close>: the first \<open>len\<close> bytes of the buffer are parsed, and what was not consumed is moved to its front.\<close>

definition execute_request :: "('p, rq_event) automaton \<Rightarrow> nat \<Rightarrow> string \<times> 'p HttpRequestParser \<Rightarrow>
    (nat, string \<times> 'p HttpRequestParser) outcome" where
  "execute_request m len st =
     (case st of (data, parser) \<Rightarrow>
        let (p, offset, evs) = au_execute m (rp_parser parser) (take len data);
            parser = fold on_request evs (parser\<lparr>rp_parser := p\<rparr>)
        in if len < offset then Crash OutOfBounds
           else Ok offset (overwrite data 0 (drop offset (take len data)), parser))"

definition rq_isFinished :: "('p, rq_event) automaton \<Rightarrow> 'p HttpRequestParser \<Rightarrow> int" where
  "rq_isFinished m parser =
     (if au_has_error m (rp_parser parser) then -1 else if au_is_finished m (rp_parser parser) then 1 else 0)"

definition rq_hasError :: "('p, rq_event) automaton \<Rightarrow> 'p HttpRequestParser \<Rightarrow> bool" where
  "rq_hasError m parser \<longleftrightarrow> rp_error parser \<noteq> 0 \<or> au_has_error m (rp_parser parser)"

definition rq_getContentLength :: "(string \<Rightarrow> u64 option) \<Rightarrow> 'p HttpRequestParser \<Rightarrow> u64" where
  "rq_getContentLength cast parser = getHeaderAs cast ''content-length'' 0 (rp_data parser)"

subsection \<open>Responses\<close>

text \<open>The state of \<open>httpclient_parser\<close> has fields the connection reads; \<open>httpclient_parser_execute\<close> returns an \<open>int\<close>, -1 for an
  error of its own. \<open>Es_header_done\<close> also carries the field \<open>close\<close> at that moment.\<close>

record ('q, 'e) client_automaton =
  ca_init :: "'q \<Rightarrow> 'q"
  ca_execute :: "'q \<Rightarrow> string \<Rightarrow> 'q \<times> int \<times> 'e list"
  ca_has_error :: "'q \<Rightarrow> bool"
  ca_is_finished :: "'q \<Rightarrow> bool"
  ca_content_len :: "'q \<Rightarrow> int"
  ca_chunked :: "'q \<Rightarrow> bool"
  ca_chunks_done :: "'q \<Rightarrow> bool"

datatype rs_event =
    Es_reason string nat
  | Es_status string nat
  | Es_chunk string nat
  | Es_version string nat
  | Es_header_done string nat bool
  | Es_last_chunk string nat
  | Es_field string nat string nat

record 'q HttpResponseParser =
  sp_parser :: 'q
  sp_data :: HttpResponse
  sp_error :: int

definition on_response_reason :: "string \<Rightarrow> nat \<Rightarrow> 'q HttpResponseParser \<Rightarrow> 'q HttpResponseParser" where
  "on_response_reason at len parser = parser\<lparr>sp_data := rs_setReason (take len at) (sp_data parser)\<rparr>"

definition on_response_status :: "string \<Rightarrow> nat \<Rightarrow> 'q HttpResponseParser \<Rightarrow> 'q HttpResponseParser" where
  "on_response_status at len parser = parser\<lparr>sp_data := rs_setStatus (word_of_int (atoi at)) (sp_data parser)\<rparr>"

definition on_response_version :: "string \<Rightarrow> nat \<Rightarrow> 'q HttpResponseParser \<Rightarrow> 'q HttpResponseParser" where
  "on_response_version at len parser =
     (case version_code at len of
        None \<Rightarrow> parser\<lparr>sp_error := 1001\<rparr>
      | Some v \<Rightarrow> parser\<lparr>sp_data := rs_setVersion v (sp_data parser)\<rparr>)"

definition on_response_header_done :: "string \<Rightarrow> nat \<Rightarrow> bool \<Rightarrow> 'q HttpResponseParser \<Rightarrow> 'q HttpResponseParser" where
  "on_response_header_done at len close parser = parser\<lparr>sp_data := rs_setClose close (sp_data parser)\<rparr>"

definition on_response_http_field :: "string \<Rightarrow> nat \<Rightarrow> string \<Rightarrow> nat \<Rightarrow> 'q HttpResponseParser \<Rightarrow> 'q HttpResponseParser" where
  "on_response_http_field field flen value vlen parser =
     (if flen = 0 then parser
      else parser\<lparr>sp_data := rs_setHeader (take flen field) (take vlen value) (sp_data parser)\<rparr>)"

fun on_response :: "rs_event \<Rightarrow> 'q HttpResponseParser \<Rightarrow> 'q HttpResponseParser" where
  "on_response (Es_reason at n) p = on_response_reason at n p"
| "on_response (Es_status at n) p = on_response_status at n p"
| "on_response (Es_chunk at n) p = p"
| "on_response (Es_version at n) p = on_response_version at n p"
| "on_response (Es_header_done at n close) p = on_response_header_done at n close p"
| "on_response (Es_last_chunk at n) p = p"
| "on_response (Es_field f fl v vl) p = on_response_http_field f fl v vl p"

text \<open>\<open>q0\<close> is the memory of a new \<open>httpclient_parser\<close>, which \<open>httpclient_parser_init\<close> fills.\<close>

definition HttpResponseParser_new :: "('q, rs_event) client_automaton \<Rightarrow> 'q \<Rightarrow> 'q HttpResponseParser" where
  "HttpResponseParser_new m q0 = \<lparr>sp_parser = ca_init m q0, sp_data = HttpResponse_new 0x11 False, sp_error = 0\<rparr>"

definition execute_response :: "('q, rs_event) client_automaton \<Rightarrow> bool \<Rightarrow> nat \<Rightarrow> string \<times> 'q HttpResponseParser \<Rightarrow>
    (nat, string \<times> 'q HttpResponseParser) outcome" where
  "execute_response m chunck len st =
     (case st of (data, parser) \<Rightarrow>
        let parser = (if chunck then parser\<lparr>sp_parser := ca_init m (sp_parser parser)\<rparr> else parser);
            (q, n, evs) = ca_execute m (sp_parser parser) (take len data);
            parser = fold on_response evs (parser\<lparr>sp_parser := q\<rparr>);
            offset = unat (word_of_int n :: u64)
        in if len < offset then Crash OutOfBounds
           else Ok offset (overwrite data 0 (drop offset (take len data)), parser))"

definition rs_isFinished :: "('q, rs_event) client_automaton \<Rightarrow> 'q HttpResponseParser \<Rightarrow> int" where
  "rs_isFinished m parser =
     (if ca_has_error m (sp_parser parser) then -1 else if ca_is_finished m (sp_parser parser) then 1 else 0)"

definition rs_hasError :: "('q, rs_event) client_automaton \<Rightarrow> 'q HttpResponseParser \<Rightarrow> bool" where
  "rs_hasError m parser \<longleftrightarrow> sp_error parser \<noteq> 0 \<or> ca_has_error m (sp_parser parser)"

definition rs_getContentLength :: "(string \<Rightarrow> u64 option) \<Rightarrow> 'q HttpResponseParser \<Rightarrow> u64" where
  "rs_getContentLength cast parser = rs_getHeaderAs cast ''content-length'' 0 (sp_data parser)"

subsection \<open>What the callbacks build\<close>

lemma on_request_keeps:
  "rq_body (rp_data (on_request e p)) = rq_body (rp_data p)" "rp_parser (on_request e p) = rp_parser p"
  by (cases e; simp add: on_request_method_def on_request_fragment_def on_request_path_def on_request_query_def
      on_request_version_def on_request_header_done_def on_request_http_field_def setMethod_def setFragment_def setPath_def
      setQuery_def setVersion_def setClose_def setHeader_def Let_def split: option.splits)+

lemma fold_on_request_keeps:
  "rq_body (rp_data (fold on_request evs p)) = rq_body (rp_data p)" "rp_parser (fold on_request evs p) = rp_parser p"
  by (induction evs arbitrary: p) (simp_all add: on_request_keeps)

lemma on_response_keeps:
  "rs_body (sp_data (on_response e p)) = rs_body (sp_data p)" "sp_parser (on_response e p) = sp_parser p"
  by (cases e; simp add: on_response_reason_def on_response_status_def on_response_version_def on_response_header_done_def
      on_response_http_field_def rs_setReason_def rs_setStatus_def rs_setVersion_def rs_setClose_def rs_setHeader_def
      split: option.splits)+

lemma fold_on_response_keeps:
  "rs_body (sp_data (fold on_response evs p)) = rs_body (sp_data p)" "sp_parser (fold on_response evs p) = sp_parser p"
  by (induction evs arbitrary: p) (simp_all add: on_response_keeps)

subsection \<open>A request on the wire\<close>

text \<open>The callbacks the grammar of \<open>http11_parser.rl\<close> prescribes for a serialised request: one per part of the request line
  and one per field, each with the memory from its start on. \<open>mem\<close> is the block, \<open>pre\<close> what precedes.\<close>

fun field_events :: "string \<Rightarrow> string \<Rightarrow> MapType \<Rightarrow> rq_event list" where
  "field_events mem pre [] = []"
| "field_events mem pre ((k, v) # kvs) =
     Ev_field (drop (length pre) mem) (length k) (drop (length (pre @ k @ '': '')) mem) (length v)
     # field_events mem (pre @ field_line (k, v) @ CRLF) kvs"

definition line_events :: "string \<Rightarrow> HttpRequest \<Rightarrow> rq_event list" where
  "line_events mem r =
     (let p1 = HttpMethodToString (rq_method r) @ '' '';
          p2 = p1 @ rq_path r;
          p3 = p2 @ (if rq_query r = [] then [] else ''?'') @ rq_query r;
          p4 = p3 @ (if rq_fragment r = [] then [] else ''#'') @ rq_fragment r @ '' ''
      in [Ev_method mem (length (HttpMethodToString (rq_method r))), Ev_path (drop (length p1) mem) (length (rq_path r))]
         @ (if rq_query r = [] then [] else [Ev_query (drop (Suc (length p2)) mem) (length (rq_query r))])
         @ [Ev_uri (drop (length p1) mem) (length p3 - length p1)]
         @ (if rq_fragment r = [] then [] else [Ev_fragment (drop (Suc (length p3)) mem) (length (rq_fragment r))])
         @ [Ev_version (drop (length p4) mem) (length (version_text (rq_version r)))])"

definition request_events :: "string \<Rightarrow> HttpRequest \<Rightarrow> rq_event list" where
  "request_events mem r =
     line_events mem r
     @ field_events mem (request_line r @ CRLF) (connection_field (rq_close r) # other_fields (rq_headers r) @ length_field (rq_body r))
     @ (let n = length (dump_request r) - length (rq_body r) in [Ev_header_done (drop n mem) (length mem - n)])"

lemma fold_field_events:
  assumes "list_all (\<lambda>(k, v). k \<noteq> []) kvs"
  shows "mem = pre @ concat (map (\<lambda>l. l @ CRLF) (map field_line kvs)) @ post \<Longrightarrow>
   fold on_request (field_events mem pre kvs) p = p\<lparr>rp_data := fold (\<lambda>(k, v). setHeader k v) kvs (rp_data p)\<rparr>"
  using assms
proof (induction kvs arbitrary: pre p)
  case Nil
  then show ?case by simp
next
  case (Cons kv kvs)
  obtain k v where kv: "kv = (k, v)" by (cases kv)
  have t: "mem = (pre @ field_line (k, v) @ CRLF) @ concat (map (\<lambda>l. l @ CRLF) (map field_line kvs)) @ post"
    using Cons.prems(1) kv by simp
  have f: "drop (length pre) mem = k @ '': '' @ v @ CRLF @ concat (map (\<lambda>l. l @ CRLF) (map field_line kvs)) @ post"
    using Cons.prems(1) kv by (simp add: field_line_def)
  have v: "drop (length (pre @ k @ '': '')) mem = v @ CRLF @ concat (map (\<lambda>l. l @ CRLF) (map field_line kvs)) @ post"
    using Cons.prems(1) kv by (simp add: field_line_def)
  have k: "k \<noteq> []" "list_all (\<lambda>(k, v). k \<noteq> []) kvs" using Cons.prems(2) kv by simp_all
  have e: "fold on_request (field_events mem pre ((k, v) # kvs)) p =
    fold on_request (field_events mem (pre @ field_line (k, v) @ CRLF) kvs)
      (on_request (Ev_field (drop (length pre) mem) (length k) (drop (length (pre @ k @ '': '')) mem) (length v)) p)"
    by (simp del: on_request.simps)
  show ?case
    using Cons.IH [OF t k(2)] k(1) unfolding kv e f v by (simp add: on_request_http_field_def)
qed

lemma strncmp_eq_version:
  "strncmp_eq (''HTTP/1.1'' @ rest) ''HTTP/1.1'' 8" "strncmp_eq (''HTTP/1.0'' @ rest) ''HTTP/1.0'' 8"
  "\<not> strncmp_eq (''HTTP/1.0'' @ rest) ''HTTP/1.1'' 8"
  by (simp_all add: strncmp_eq_def c_str_def)

lemma version_code_text:
  assumes "v = 0x11 \<or> v = 0x10"
  shows "version_code (version_text v @ rest) (length (version_text v)) = Some v"
proof -
  have v1: "version_text 0x11 = ''HTTP/1.1''" "version_text 0x10 = ''HTTP/1.0''" by code_simp+
  have l: "length ''HTTP/1.1'' = 8" "length ''HTTP/1.0'' = 8" by simp_all
  show ?thesis
    using assms strncmp_eq_version [of rest] unfolding version_code_def by (elim disjE) (simp_all only: v1 l if_True if_False)
qed

lemma fold_line_events:
  assumes mem: "mem = request_line r @ post" and "rq_method r \<noteq> INVAILD_METHOD" and "rq_version r = 0x11 \<or> rq_version r = 0x10"
    and "rq_query (rp_data p) = []" and "rq_fragment (rp_data p) = []"
  shows "fold on_request (line_events mem r) p =
    p\<lparr>rp_data := (rp_data p)\<lparr>rq_method := rq_method r, rq_path := rq_path r, rq_query := rq_query r,
       rq_fragment := rq_fragment r, rq_version := rq_version r\<rparr>\<rparr>"
proof -
  let ?m = "HttpMethodToString (rq_method r)" and ?v = "version_text (rq_version r)"
  let ?q = "(if rq_query r = [] then [] else ''?'') @ rq_query r"
  let ?f = "(if rq_fragment r = [] then [] else ''#'') @ rq_fragment r @ '' ''"
  have m: "CharsToHttpMethod mem = rq_method r"
    using CharsToHttpMethod_name [OF assms(2)] by (simp add: mem request_line_def)
  have d1: "drop (length (?m @ '' '')) mem = rq_path r @ ?q @ ?f @ ?v @ post" by (simp add: mem request_line_def)
  have d2: "drop (length (?m @ '' '' @ rq_path r)) mem = ?q @ ?f @ ?v @ post" by (simp add: mem request_line_def)
  have d3: "drop (length (?m @ '' '' @ rq_path r @ ?q)) mem = ?f @ ?v @ post" by (simp add: mem request_line_def)
  have d4: "drop (length (?m @ '' '' @ rq_path r @ ?q @ ?f)) mem = ?v @ post" by (simp add: mem request_line_def)
  have tl: "drop (Suc n) mem = tl (drop n mem)" for n by (simp add: drop_Suc tl_drop)
  have q: "rq_query r \<noteq> [] \<Longrightarrow> take (length (rq_query r)) (drop (Suc (length (?m @ '' '' @ rq_path r))) mem) = rq_query r"
    unfolding tl d2 by simp
  have f: "rq_fragment r \<noteq> [] \<Longrightarrow> take (length (rq_fragment r)) (drop (Suc (length (?m @ '' '' @ rq_path r @ ?q))) mem) = rq_fragment r"
    unfolding tl d3 by simp
  have vers: "version_code (drop (length (?m @ '' '' @ rq_path r @ ?q @ ?f)) mem) (length ?v) = Some (rq_version r)"
    unfolding d4 by (rule version_code_text [OF assms(3)])
  have path: "take (length (rq_path r)) (drop (length (?m @ '' '')) mem) = rq_path r" unfolding d1 by simp
  note cb = on_request_method_def on_request_path_def on_request_query_def on_request_fragment_def on_request_version_def
    setMethod_def setPath_def setQuery_def setFragment_def setVersion_def
  show ?thesis
    using m assms(2,4,5) path q f vers
    by (cases "rq_query r = []"; cases "rq_fragment r = []")
       (simp_all add: line_events_def Let_def cb del: length_append drop_append take_append)
qed

lemma fold_setHeader:
  "fold (\<lambda>(k, v). setHeader k v) kvs d =
   d\<lparr>rq_headers := fold (\<lambda>(k, v). map_assign CaseInsensitiveLess k v) kvs (rq_headers d)\<rparr>"
  by (induction kvs arbitrary: d) (auto simp: setHeader_def)

lemma ci_find_Cons: "ci_find k ((a, b) # m) = (if ci_eq k a then Some b else ci_find k m)"
  by (simp add: map_find_def)

lemma ci_find_fold_assign:
  "map_sorted CaseInsensitiveLess kvs \<Longrightarrow>
   ci_find k (fold (\<lambda>(k, v). map_assign CaseInsensitiveLess k v) kvs m) =
     (case ci_find k kvs of Some v \<Rightarrow> Some v | None \<Rightarrow> ci_find k m)"
proof (induction kvs arbitrary: m)
  case Nil
  then show ?case by (simp add: map_find_def)
next
  case (Cons kv kvs)
  obtain a b where kv: "kv = (a, b)" by (cases kv)
  have s: "map_sorted CaseInsensitiveLess kvs" "\<forall>x\<in>fst ` set kvs. CaseInsensitiveLess a x"
    using Cons.prems kv by (simp_all add: map_sorted_def)
  have "ci_eq k a \<Longrightarrow> ci_find k kvs = None"
  proof -
    assume e: "ci_eq k a"
    have "\<not> ci_eq k x" if "x \<in> fst ` set kvs" for x
    proof
      assume "ci_eq k x"
      then have "ci_eq a x" using e by (simp add: ci_eq_def)
      then show False using s(2) that ci_equivalent [of a x] by (auto simp: equivalent_def)
    qed
    then show "ci_find k kvs = None" by (force simp: map_find_def find_None_iff)
  qed
  then show ?case using Cons.IH [OF s(1)] kv
    by (auto simp: ci_find_Cons ci.map_find_assign ci_eq_def split: option.split)
qed

lemma ci_eq_sym: "ci_eq a b \<longleftrightarrow> ci_eq b a"
  by (auto simp: ci_eq_def)

lemma is_connection_Connection: "is_connection k \<longleftrightarrow> ci_eq k ''Connection''"
proof -
  have "c_str ''connection'' = ''connection''" "ci_eq ''connection'' ''Connection''" by code_simp+
  then show ?thesis using strcasecmp_c_str [of k "''connection''"] unfolding is_connection_def ci_eq_def by metis
qed

lemma ci_find_other_fields: "ci_find k (other_fields hs) = (if ci_eq k ''Connection'' then None else ci_find k hs)"
proof (induction hs)
  case (Cons h hs)
  obtain a b where "h = (a, b)" by (cases h)
  then show ?case using Cons by (auto simp: other_fields_def is_connection_Connection ci_find_Cons ci_eq_def)
qed (simp add: other_fields_def map_find_def)

lemma other_fields_sorted: "map_sorted CaseInsensitiveLess hs \<Longrightarrow> map_sorted CaseInsensitiveLess (other_fields hs)"
  by (induction hs) (auto simp: map_sorted_def other_fields_def)

text \<open>The headers the parser collects from the fields of a serialised request.\<close>

lemma collected_headers:
  assumes "map_sorted CaseInsensitiveLess hs"
  shows "ci_find k (fold (\<lambda>(k, v). map_assign CaseInsensitiveLess k v)
      (connection_field c # other_fields hs @ length_field body) []) =
    (if body \<noteq> [] \<and> ci_eq k ''Content-Length'' then Some (dec (length body))
     else if ci_eq k ''Connection'' then Some (if c then ''Close'' else ''Keep-Alive'')
     else ci_find k hs)"
proof -
  let ?m = "fold (\<lambda>(k, v). map_assign CaseInsensitiveLess k v) (connection_field c # other_fields hs) []"
  have m: "ci_find k ?m = (if ci_eq k ''Connection'' then Some (if c then ''Close'' else ''Keep-Alive'') else ci_find k hs)"
  proof -
    have e: "?m = fold (\<lambda>(k, v). map_assign CaseInsensitiveLess k v) (other_fields hs) [connection_field c]"
      by (simp add: connection_field_def)
    show ?thesis
      unfolding e ci_find_fold_assign [OF other_fields_sorted [OF assms]] ci_find_other_fields
      by (simp add: connection_field_def ci_find_Cons map_find_def [of _ _ "[]"] split: option.split)
  qed
  show ?thesis
  proof (cases "body = []")
    case True
    then show ?thesis using m by (simp add: length_field_def)
  next
    case False
    then have "fold (\<lambda>(k, v). map_assign CaseInsensitiveLess k v) (connection_field c # other_fields hs @ length_field body) [] =
      map_assign CaseInsensitiveLess ''Content-Length'' (dec (length body)) ?m" by (simp add: length_field_def)
    then show ?thesis using m False ci_eq_sym [of k] by (simp add: ci.map_find_assign del: fold.simps)
  qed
qed

lemma header_done_connection:
  assumes "ci_find ''Connection'' (rq_headers (rp_data p)) = Some (if c then ''Close'' else ''Keep-Alive'')"
    and "rq_version (rp_data p) = 0x11 \<or> rq_version (rp_data p) = 0x10" and "\<not> rq_close (rp_data p)"
  shows "on_request_header_done at n p = p\<lparr>rp_data := (rp_data p)\<lparr>rq_close := c\<rparr>\<rparr>"
proof -
  have s: "strcasecmp (c_str ''Close'') ''keep-alive'' \<noteq> 0" "strcasecmp (c_str ''Keep-Alive'') ''keep-alive'' = 0"
    "strcasecmp (c_str ''Close'') ''close'' = 0" "strcasecmp (c_str ''Keep-Alive'') ''close'' \<noteq> 0" by code_simp+
  have h: "getHeader ''Connection'' [] (rp_data p) = (if c then ''Close'' else ''Keep-Alive'')"
    using assms(1) by (simp add: getHeader_def)
  have id: "p\<lparr>rp_data := (rp_data p)\<lparr>rq_close := False\<rparr>\<rparr> = p" using assms(3) by (cases p; cases "rp_data p") simp
  show ?thesis
    using assms(2) s id unfolding on_request_header_done_def h Let_def setClose_def by (cases c) (auto simp del: c_str_id)
qed

definition request_header :: "HttpRequest \<Rightarrow> string" where
  "request_header r = take (length (dump_request r) - length (rq_body r)) (dump_request r)"

lemma dump_request_fields:
  "dump_request r = (request_line r @ CRLF) @ concat (map (\<lambda>l. l @ CRLF) (map field_line
     (connection_field (rq_close r) # other_fields (rq_headers r) @ length_field (rq_body r)))) @ CRLF @ rq_body r"
  by (simp add: dump_request_def connection_line_field dump_headers_lines dump_body_lines)

lemma dump_request_split: "dump_request r = request_header r @ rq_body r"
proof -
  obtain h where "dump_request r = h @ rq_body r" using dump_request_fields [of r] by simp
  then show ?thesis by (simp add: request_header_def)
qed

text \<open>What the callbacks make of a request sent by \<open>dump\<close>.\<close>

lemma request_events_result:
  assumes "rq_method r \<noteq> INVAILD_METHOD" and "rq_version r = 0x11 \<or> rq_version r = 0x10"
    and "map_sorted CaseInsensitiveLess (rq_headers r)" and "list_all (\<lambda>(k, v). k \<noteq> []) (rq_headers r)"
    and "mem = dump_request r @ tail"
  shows "\<exists>hs. fold on_request (request_events mem r) \<lparr>rp_parser = q, rp_data = HttpRequest_new 0x11 False, rp_error = 0\<rparr> =
      \<lparr>rp_parser = q, rp_data = (HttpRequest_new (rq_version r) (rq_close r))\<lparr>rq_method := rq_method r, rq_path := rq_path r,
        rq_query := rq_query r, rq_fragment := rq_fragment r, rq_headers := hs\<rparr>, rp_error = 0\<rparr> \<and>
    (\<forall>k. ci_find k hs = (if rq_body r \<noteq> [] \<and> ci_eq k ''Content-Length'' then Some (dec (length (rq_body r)))
      else if ci_eq k ''Connection'' then Some (if rq_close r then ''Close'' else ''Keep-Alive'') else ci_find k (rq_headers r)))"
proof -
  let ?p = "\<lparr>rp_parser = q, rp_data = HttpRequest_new 0x11 False, rp_error = 0\<rparr>"
  define kvs where "kvs = connection_field (rq_close r) # other_fields (rq_headers r) @ length_field (rq_body r)"
  define hs where "hs = fold (\<lambda>(k, v). map_assign CaseInsensitiveLess k v) kvs []"
  let ?d = "(HttpRequest_new (rq_version r) False)\<lparr>rq_method := rq_method r, rq_path := rq_path r, rq_query := rq_query r, rq_fragment := rq_fragment r\<rparr>"
  have mem: "mem = request_line r @ CRLF @ concat (map (\<lambda>l. l @ CRLF) (map field_line kvs)) @ CRLF @ rq_body r @ tail"
    using dump_request_fields [of r] by (simp add: assms(5) kvs_def)
  have line: "fold on_request (line_events mem r) ?p = ?p\<lparr>rp_data := ?d\<rparr>"
    using fold_line_events [OF mem assms(1,2), of ?p] by (simp add: HttpRequest_new_def)
  have ne: "list_all (\<lambda>(k, v). k \<noteq> []) kvs"
    using assms(4) by (auto simp: list_all_iff kvs_def connection_field_def other_fields_def length_field_def)
  have fields: "fold on_request (field_events mem (request_line r @ CRLF) kvs) (?p\<lparr>rp_data := ?d\<rparr>) = ?p\<lparr>rp_data := ?d\<lparr>rq_headers := hs\<rparr>\<rparr>"
    using fold_field_events [OF ne, of mem "request_line r @ CRLF" "CRLF @ rq_body r @ tail" "?p\<lparr>rp_data := ?d\<rparr>"] mem
    unfolding fold_setHeader by (simp add: HttpRequest_new_def hs_def)
  have H: "ci_find k hs = (if rq_body r \<noteq> [] \<and> ci_eq k ''Content-Length'' then Some (dec (length (rq_body r)))
      else if ci_eq k ''Connection'' then Some (if rq_close r then ''Close'' else ''Keep-Alive'') else ci_find k (rq_headers r))" for k
    unfolding hs_def kvs_def by (rule collected_headers [OF assms(3)])
  have "\<not> ci_eq ''Connection'' ''Content-Length''" "ci_eq ''Connection'' ''Connection''" by code_simp+
  then have "ci_find ''Connection'' hs = Some (if rq_close r then ''Close'' else ''Keep-Alive'')" unfolding H by simp
  then have header_done: "on_request_header_done at n (?p\<lparr>rp_data := ?d\<lparr>rq_headers := hs\<rparr>\<rparr>) =
      ?p\<lparr>rp_data := ?d\<lparr>rq_headers := hs, rq_close := rq_close r\<rparr>\<rparr>" for at n
    using header_done_connection [of "?p\<lparr>rp_data := ?d\<lparr>rq_headers := hs\<rparr>\<rparr>" "rq_close r" at n] assms(2)
    by (simp add: HttpRequest_new_def)
  have "fold on_request (request_events mem r) ?p = ?p\<lparr>rp_data := ?d\<lparr>rq_headers := hs, rq_close := rq_close r\<rparr>\<rparr>"
    unfolding request_events_def kvs_def [symmetric] Let_def fold_append comp_apply line fields
    using header_done [of "drop (length (dump_request r) - length (rq_body r)) mem"] by simp
  then show ?thesis using H by (intro exI [of _ hs]) (simp add: HttpRequest_new_def)
qed

text \<open>C10. A request that is serialised by \<open>dump\<close> and parsed again arrives: provided the automaton makes the callbacks its
  grammar prescribes, the parser reports no error, consumes exactly the header, leaves the body at the front of the buffer,
  and its request has the method, path, query, fragment, version and close flag of the original, the same headers up to case,
  the \<open>Connection\<close> field of the close flag and, with a body, its length.\<close>

theorem http_request_transport:
  assumes "rq_method r \<noteq> INVAILD_METHOD" and "rq_version r = 0x11 \<or> rq_version r = 0x10"
    and "map_sorted CaseInsensitiveLess (rq_headers r)" and "list_all (\<lambda>(k, v). k \<noteq> []) (rq_headers r)"
    and "au_execute m (au_init m) (dump_request r) = (q, length (request_header r), request_events (dump_request r) r)"
    and "\<not> au_has_error m q"
  shows "\<exists>parser. execute_request m (length (dump_request r)) (dump_request r, HttpRequestParser_new m) =
      Ok (length (request_header r)) (overwrite (dump_request r) 0 (rq_body r), parser) \<and>
    \<not> rq_hasError m parser \<and>
    rq_method (rp_data parser) = rq_method r \<and> rq_path (rp_data parser) = rq_path r \<and> rq_query (rp_data parser) = rq_query r \<and>
    rq_fragment (rp_data parser) = rq_fragment r \<and> rq_version (rp_data parser) = rq_version r \<and> rq_close (rp_data parser) = rq_close r \<and>
    (\<forall>k. ci_find k (rq_headers (rp_data parser)) =
      (if rq_body r \<noteq> [] \<and> ci_eq k ''Content-Length'' then Some (dec (length (rq_body r)))
       else if ci_eq k ''Connection'' then Some (if rq_close r then ''Close'' else ''Keep-Alive'')
       else ci_find k (rq_headers r)))"
proof -
  obtain hs where h: "fold on_request (request_events (dump_request r) r) \<lparr>rp_parser = q, rp_data = HttpRequest_new 0x11 False, rp_error = 0\<rparr> =
      \<lparr>rp_parser = q, rp_data = (HttpRequest_new (rq_version r) (rq_close r))\<lparr>rq_method := rq_method r, rq_path := rq_path r,
        rq_query := rq_query r, rq_fragment := rq_fragment r, rq_headers := hs\<rparr>, rp_error = 0\<rparr>"
    and H: "\<forall>k. ci_find k hs = (if rq_body r \<noteq> [] \<and> ci_eq k ''Content-Length'' then Some (dec (length (rq_body r)))
      else if ci_eq k ''Connection'' then Some (if rq_close r then ''Close'' else ''Keep-Alive'') else ci_find k (rq_headers r))"
    using request_events_result [OF assms(1-4), of "dump_request r" "[]" q] by auto
  have d: "drop (length (request_header r)) (dump_request r) = rq_body r" using dump_request_split [of r] by (metis append_eq_conv_conj)
  have "length (request_header r) \<le> length (dump_request r)" using dump_request_split [of r] by (metis le_add1 length_append)
  then show ?thesis
    using h H assms(5,6) d
    by (simp add: execute_request_def HttpRequestParser_new_def rq_hasError_def HttpRequest_new_def)
qed

definition demo_request :: HttpRequest where
  "demo_request = setBody ''hi'' (setHeader ''Host'' ''a'' (setQuery ''q=1'' (setPath ''/x'' (HttpRequest_new 0x11 False))))"

definition demo_automaton :: "(bool, rq_event) automaton" where
  "demo_automaton = \<lparr>au_init = False, au_execute = (\<lambda>_ mem. (True, length (request_header demo_request), request_events mem demo_request)),
     au_has_error = (\<lambda>_. False), au_is_finished = (\<lambda>b. b)\<rparr>"

theorem http_request_transport_witness:
  "\<exists>parser. execute_request demo_automaton (length (dump_request demo_request)) (dump_request demo_request, HttpRequestParser_new demo_automaton) =
      Ok (length (request_header demo_request)) (overwrite (dump_request demo_request) 0 ''hi'', parser) \<and>
     rq_path (rp_data parser) = ''/x'' \<and> rq_query (rp_data parser) = ''q=1'' \<and> ci_find ''content-length'' (rq_headers (rp_data parser)) = Some ''2''"
proof -
  have p: "rq_method demo_request \<noteq> INVAILD_METHOD" "rq_version demo_request = 0x11 \<or> rq_version demo_request = 0x10"
    "map_sorted CaseInsensitiveLess (rq_headers demo_request)" "list_all (\<lambda>(k, v). k \<noteq> []) (rq_headers demo_request)"
    "rq_body demo_request = ''hi''" "rq_path demo_request = ''/x''" "rq_query demo_request = ''q=1''" "ci_eq ''content-length'' ''Content-Length''"
    "dec (length (rq_body demo_request)) = ''2''"
    by code_simp+
  have a: "au_execute demo_automaton (au_init demo_automaton) (dump_request demo_request) =
      (True, length (request_header demo_request), request_events (dump_request demo_request) demo_request)" "\<not> au_has_error demo_automaton True"
    by (simp_all add: demo_automaton_def)
  show ?thesis using http_request_transport [OF p(1-4) a] p(5-9) by auto
qed

end
