(* ===== verification/IpAddress.thy ===== *)
theory IpAddress
  imports Endian CStrings
begin

text \<open>
  The IP part of \<open>src/address.cc\<close>: network masks, IPv4 and IPv6 addresses, their subnets and their text.

  The address structures of the C library hold ports and addresses in network order; a field that the code
  reads as an integer is the word the host loads from memory, so \<open>host\<close>, the byte order of the machine, is an
  argument as in \<open>Endian\<close>. \<open>CreateMask\<close> computes with \<open>int\<close>: a shift that does not fit is the fault
  \<open>IntOverflow\<close>.
\<close>

unbundle bit_operations_syntax

definition AF_UNSPEC :: u16 where "AF_UNSPEC = 0"
definition AF_UNIX :: u16 where "AF_UNIX = 1"
definition AF_INET :: u16 where "AF_INET = 2"
definition AF_INET6 :: u16 where "AF_INET6 = 10"

record sockaddr_in =
  sin_family :: u16
  sin_port :: u16
  sin_addr :: u32
  sin_zero :: "u8 list"

record sockaddr_in6 =
  sin6_family :: u16
  sin6_port :: u16
  sin6_flowinfo :: u32
  sin6_addr :: "u8 list"
  sin6_scope_id :: u32

subsection \<open>Masks\<close>

text \<open>\<open>(1 << (sizeof(T) * 8 - net_bits)) - 1\<close>: the shift count is a \<open>size_t\<close>; \<open>1 << 31\<close> minus 1 already overflows.\<close>

definition CreateMask :: "u32 \<Rightarrow> fault + 'a::len word" where
  "CreateMask net_bits =
     (let shift = of_nat LENGTH('a) - ucast net_bits :: u64 in
      if shift \<ge> 31 then Inl IntOverflow else Inr (push_bit (unat shift) 1 - 1))"

function CountBytes :: "'a::len word \<Rightarrow> u32" where
  "CountBytes v = (if v = 0 then 0 else 1 + CountBytes (v AND (v - 1)))"
  by pat_completeness auto
termination
proof (relation "measure unat")
  fix v :: "'a word" assume "v \<noteq> 0"
  have "unat (v AND (v - 1)) \<le> unat (v - 1)"
    using word_and_le1 [of v "v - 1"] by (simp add: word_le_nat_alt)
  also have "\<dots> < unat v" using \<open>v \<noteq> 0\<close> by (simp add: unat_minus_one unat_gt_0)
  finally show "(v AND (v - 1), v) \<in> measure unat" by simp
qed simp

declare CountBytes.simps [simp del]

subsection \<open>IPv4\<close>

definition IPv4Address_new :: "endian \<Rightarrow> u32 \<Rightarrow> u16 \<Rightarrow> sockaddr_in" where
  "IPv4Address_new host address port =
     \<lparr>sin_family = AF_INET, sin_port = byteswapOnLittleEndian16 host port,
      sin_addr = byteswapOnLittleEndian32 host address, sin_zero = replicate 8 0\<rparr>"

text \<open>\<open>IPv4Address::Create\<close>; \<open>pton\<close> is the result of \<open>inet_pton\<close> and the address it stores.\<close>

definition IPv4Address_Create :: "endian \<Rightarrow> (string \<Rightarrow> int \<times> u32) \<Rightarrow> string \<Rightarrow> u16 \<Rightarrow> sockaddr_in option" where
  "IPv4Address_Create host pton address port =
     (let rt = (IPv4Address_new host 0 0)\<lparr>sin_port := byteswapOnLittleEndian16 host port\<rparr>;
          (result, a) = pton address
      in if result \<le> 0 then None else Some (rt\<lparr>sin_addr := a\<rparr>))"

definition ip4_insert :: "endian \<Rightarrow> sockaddr_in \<Rightarrow> string" where
  "ip4_insert host a =
     (let addr = byteswapOnLittleEndian32 host (sin_addr a) in
      dec (unat (drop_bit 24 addr AND 0xff)) @ ''.'' @
      dec (unat (drop_bit 16 addr AND 0xff)) @ ''.'' @
      dec (unat (drop_bit 8 addr AND 0xff)) @ ''.'' @
      dec (unat (addr AND 0xff)) @
      '':'' @ dec (unat (byteswapOnLittleEndian16 host (sin_port a))))"

definition ip4_broadcastAddress :: "endian \<Rightarrow> u32 \<Rightarrow> sockaddr_in \<Rightarrow> fault + sockaddr_in option" where
  "ip4_broadcastAddress host prefix_len a =
     (if prefix_len > 32 then Inr None
      else case CreateMask prefix_len of
        Inl x \<Rightarrow> Inl x
      | Inr m \<Rightarrow> Inr (Some (a\<lparr>sin_addr := sin_addr a OR byteswapOnLittleEndian32 host m\<rparr>)))"

definition ip4_networkAddress :: "endian \<Rightarrow> u32 \<Rightarrow> sockaddr_in \<Rightarrow> fault + sockaddr_in option" where
  "ip4_networkAddress host prefix_len a =
     (if prefix_len > 32 then Inr None
      else case CreateMask prefix_len of
        Inl x \<Rightarrow> Inl x
      | Inr m \<Rightarrow> Inr (Some (a\<lparr>sin_addr := sin_addr a AND byteswapOnLittleEndian32 host (NOT m)\<rparr>)))"

definition ip4_subnetMask :: "endian \<Rightarrow> u32 \<Rightarrow> fault + sockaddr_in option" where
  "ip4_subnetMask host perfix_len =
     (case CreateMask perfix_len of
        Inl x \<Rightarrow> Inl x
      | Inr m \<Rightarrow> Inr (Some \<lparr>sin_family = AF_INET, sin_port = 0, sin_addr = byteswapOnLittleEndian32 host (NOT m), sin_zero = replicate 8 0\<rparr>))"

definition ip4_getPort :: "endian \<Rightarrow> sockaddr_in \<Rightarrow> u32" where
  "ip4_getPort host a = ucast (byteswapOnLittleEndian16 host (sin_port a))"

definition ip4_setPort :: "endian \<Rightarrow> u16 \<Rightarrow> sockaddr_in \<Rightarrow> sockaddr_in" where
  "ip4_setPort host port a = a\<lparr>sin_port := byteswapOnLittleEndian16 host port\<rparr>"

subsection \<open>IPv6\<close>

definition IPv6Address_default :: sockaddr_in6 where
  "IPv6Address_default = \<lparr>sin6_family = AF_INET6, sin6_port = 0, sin6_flowinfo = 0, sin6_addr = replicate 16 0, sin6_scope_id = 0\<rparr>"

definition IPv6Address_new :: "endian \<Rightarrow> u8 list \<Rightarrow> u16 \<Rightarrow> sockaddr_in6" where
  "IPv6Address_new host address port =
     IPv6Address_default\<lparr>sin6_port := byteswapOnLittleEndian16 host port, sin6_addr := take 16 address\<rparr>"

definition IPv6Address_Create :: "endian \<Rightarrow> (string \<Rightarrow> int \<times> u8 list) \<Rightarrow> string \<Rightarrow> u16 \<Rightarrow> sockaddr_in6 option" where
  "IPv6Address_Create host pton address port =
     (let rt = IPv6Address_default\<lparr>sin6_port := byteswapOnLittleEndian16 host port\<rparr>;
          (result, a) = pton address
      in if result \<le> 0 then None else Some (rt\<lparr>sin6_addr := a\<rparr>))"

text \<open>\<open>(uint16_t *)m_addr.sin6_addr.s6_addr\<close>.\<close>

definition groups :: "endian \<Rightarrow> u8 list \<Rightarrow> u16 list" where
  "groups host bs = map (\<lambda>i. of_mem_bytes host (take 2 (drop (2 * i) bs))) [0..<8]"

text \<open>The loop of \<open>insert\<close>: what it prints and the final \<open>used_zeros\<close>; \<open>prev\<close> is \<open>addr[i - 1]\<close>.\<close>

fun ip6_loop :: "endian \<Rightarrow> nat \<Rightarrow> u16 \<Rightarrow> bool \<Rightarrow> u16 list \<Rightarrow> string \<times> bool" where
  "ip6_loop host i prev used_zeros [] = ([], used_zeros)"
| "ip6_loop host i prev used_zeros (g # gs) =
     (if g = 0 \<and> \<not> used_zeros then ip6_loop host (i + 1) g used_zeros gs
      else
        let gap = (i \<noteq> 0 \<and> prev = 0 \<and> \<not> used_zeros);
            (rest, u) = ip6_loop host (i + 1) g (used_zeros \<or> gap) gs
        in ((if gap then '':'' else []) @ (if i \<noteq> 0 then '':'' else []) @
            hex (unat (byteswapOnLittleEndian16 host g)) @ rest, u))"

definition ip6_insert :: "endian \<Rightarrow> sockaddr_in6 \<Rightarrow> string" where
  "ip6_insert host a =
     (let gs = groups host (sin6_addr a);
          (body, used_zeros) = ip6_loop host 0 0 False gs
      in ''['' @ body @ (if \<not> used_zeros \<and> gs ! 7 = 0 then ''::'' else []) @
         '']:'' @ dec (unat (byteswapOnLittleEndian16 host (sin6_port a))))"

text \<open>The writes to \<open>s6_addr[prefix_len / 8]\<close> and behind; an index past the array is \<open>OutOfBounds\<close>.\<close>

definition ip6_broadcastAddress :: "u32 \<Rightarrow> sockaddr_in6 \<Rightarrow> fault + sockaddr_in6 option" where
  "ip6_broadcastAddress prefix_len a =
     (let q = unat prefix_len div 8; bs = sin6_addr a in
      if q \<ge> length bs then Inl OutOfBounds
      else case CreateMask (prefix_len mod 8) of
        Inl x \<Rightarrow> Inl x
      | Inr m \<Rightarrow> Inr (Some (a\<lparr>sin6_addr := take q bs @ [bs ! q OR m] @ replicate (length bs - q - 1) 0xff\<rparr>)))"

definition ip6_networkAddress :: "u32 \<Rightarrow> sockaddr_in6 \<Rightarrow> fault + sockaddr_in6 option" where
  "ip6_networkAddress prefix_len a =
     (let q = unat prefix_len div 8; bs = sin6_addr a in
      if q \<ge> length bs then Inl OutOfBounds
      else case CreateMask (prefix_len mod 8) of
        Inl x \<Rightarrow> Inl x
      | Inr m \<Rightarrow> Inr (Some (a\<lparr>sin6_addr := take q bs @ [bs ! q AND NOT m] @ replicate (length bs - q - 1) 0x00\<rparr>)))"

definition ip6_subnetMask :: "u32 \<Rightarrow> fault + sockaddr_in6 option" where
  "ip6_subnetMask prefix_len =
     (let q = unat prefix_len div 8 in
      if q \<ge> 16 then Inl OutOfBounds
      else case CreateMask (prefix_len mod 8) of
        Inl x \<Rightarrow> Inl x
      | Inr m \<Rightarrow> Inr (Some (IPv6Address_default\<lparr>sin6_addr := replicate q 0xff @ [NOT m] @ replicate (15 - q) 0\<rparr>)))"

definition ip6_getPort :: "endian \<Rightarrow> sockaddr_in6 \<Rightarrow> u32" where
  "ip6_getPort host a = ucast (byteswapOnLittleEndian16 host (sin6_port a))"

definition ip6_setPort :: "endian \<Rightarrow> u16 \<Rightarrow> sockaddr_in6 \<Rightarrow> sockaddr_in6" where
  "ip6_setPort host port a = a\<lparr>sin6_port := byteswapOnLittleEndian16 host port\<rparr>"

subsection \<open>Byte order and bits\<close>

lemma bit_byteswap32: "bit (byteswap32 v) k \<longleftrightarrow> k < 32 \<and> bit v (8 * (3 - k div 8) + k mod 8)"
proof (cases "k < 32")
  case True
  then have q: "k div 8 < 4" by simp
  have "bit (byteswap32 v) k \<longleftrightarrow> bit (rev (bytes_le 4 v) ! (k div 8)) (k mod 8)"
    using True q by (simp add: byteswap32_def bit_of_bytes_le)
  also have "rev (bytes_le 4 v) ! (k div 8) = ucast (drop_bit (8 * (3 - k div 8)) v)"
    using q nth_upt [of 0 "3 - k div 8" 4] by (simp add: rev_nth bytes_le_def)
  finally show ?thesis using True by (simp add: bit_simps)
next
  case False
  then show ?thesis by (simp add: byteswap32_def bit_of_bytes_le)
qed

lemma byteswap32_logic:
  "byteswap32 (a OR b) = byteswap32 a OR byteswap32 b"
  "byteswap32 (a AND b) = byteswap32 a AND byteswap32 b"
  by (rule bit_word_eqI, simp add: bit_byteswap32 bit_simps, blast?)+

lemma swap32_logic:
  "byteswapOnLittleEndian32 host (a OR b) = byteswapOnLittleEndian32 host a OR byteswapOnLittleEndian32 host b"
  "byteswapOnLittleEndian32 host (a AND b) = byteswapOnLittleEndian32 host a AND byteswapOnLittleEndian32 host b"
  by (simp_all add: byteswapOnLittleEndian32_def byteswap32_logic)

lemma shift_count:
  assumes "b \<le> n" and "n \<le> 32"
  shows "unat (of_nat n - ucast (of_nat b :: u32) :: u64) = n - b"
proof -
  have "b < 2 ^ 32" using assms by simp
  then have "uint (of_nat b :: u32) = int b" by (simp add: unsigned_of_nat take_bit_nat_eq_self)
  then have "(ucast (of_nat b :: u32) :: u64) = of_nat b" by (metis of_int_of_nat_eq ucast_eq)
  moreover have "of_nat n - of_nat b = (of_nat (n - b) :: u64)" using assms(1) by (simp add: of_nat_diff)
  moreover have "n - b < 2 ^ 64" using assms by simp
  then have "unat (of_nat (n - b) :: u64) = n - b" by (simp add: unsigned_of_nat take_bit_nat_eq_self del: of_nat_diff)
  ultimately show ?thesis by (simp only:)
qed

lemma CreateMask_ok:
  assumes "b \<le> LENGTH('a)" and "LENGTH('a) \<le> 32" and "LENGTH('a) - b < 31"
  shows "(CreateMask (of_nat b) :: fault + 'a::len word) = Inr (mask (LENGTH('a) - b))"
proof -
  have u: "unat (of_nat LENGTH('a) - ucast (of_nat b :: u32) :: u64) = LENGTH('a) - b"
    by (rule shift_count [OF assms(1,2)])
  then have "\<not> (31 \<le> (of_nat LENGTH('a) - ucast (of_nat b :: u32) :: u64))"
    using assms(3) by (simp add: word_le_nat_alt)
  then show ?thesis by (simp add: CreateMask_def Let_def u mask_eq_exp_minus_1 push_bit_eq_mult)
qed

lemma CreateMask_overflow:
  "(CreateMask 0 :: fault + u32) = Inl IntOverflow" "(CreateMask 1 :: fault + u32) = Inl IntOverflow"
  by (simp_all add: CreateMask_def)

subsection \<open>IPv4 subnets\<close>

text \<open>The address as a number, most significant octet first.\<close>

definition ip4_num :: "endian \<Rightarrow> sockaddr_in \<Rightarrow> u32" where
  "ip4_num host a = byteswapOnLittleEndian32 host (sin_addr a)"

lemma ip4_subnet_nums:
  assumes "2 \<le> p" and "p \<le> 32"
  shows "\<exists>b. ip4_broadcastAddress host (of_nat p) a = Inr (Some b) \<and> ip4_num host b = ip4_num host a OR mask (32 - p) \<and> sin_port b = sin_port a"
    and "\<exists>n. ip4_networkAddress host (of_nat p) a = Inr (Some n) \<and> ip4_num host n = ip4_num host a AND NOT (mask (32 - p)) \<and> sin_port n = sin_port a"
    and "\<exists>m. ip4_subnetMask host (of_nat p) = Inr (Some m) \<and> ip4_num host m = NOT (mask (32 - p))"
proof -
  have c: "(CreateMask (of_nat p) :: fault + u32) = Inr (mask (32 - p))"
    using CreateMask_ok [where 'a = 32, of p] assms by simp
  have le: "\<not> (32 :: u32) < of_nat p" using assms(2) by (simp add: word_less_nat_alt unsigned_of_nat take_bit_nat_eq_self)
  show "\<exists>b. ip4_broadcastAddress host (of_nat p) a = Inr (Some b) \<and> ip4_num host b = ip4_num host a OR mask (32 - p) \<and> sin_port b = sin_port a"
    using c le by (simp add: ip4_broadcastAddress_def ip4_num_def swap32_logic)
  show "\<exists>n. ip4_networkAddress host (of_nat p) a = Inr (Some n) \<and> ip4_num host n = ip4_num host a AND NOT (mask (32 - p)) \<and> sin_port n = sin_port a"
    using c le by (simp add: ip4_networkAddress_def ip4_num_def swap32_logic)
  show "\<exists>m. ip4_subnetMask host (of_nat p) = Inr (Some m) \<and> ip4_num host m = NOT (mask (32 - p))"
    using c by (simp add: ip4_subnetMask_def ip4_num_def)
qed

text \<open>Clearing and setting the low \<open>n\<close> bits, as numbers.\<close>

lemma unat_clear_low: "unat (w AND NOT (mask n)) = 2 ^ n * (unat w div 2 ^ n)" for w :: "'a::len word"
proof -
  have "w AND NOT (mask n) = push_bit n (drop_bit n w)" by (rule bit_word_eqI) (auto simp: bit_simps)
  moreover have "unat (push_bit n (drop_bit n w)) = take_bit LENGTH('a) (push_bit n (drop_bit n (unat w)))"
    by (simp only: unsigned_push_bit_eq unsigned_drop_bit_eq) (simp add: take_bit_nat_eq_self)
  moreover have "push_bit n (drop_bit n (unat w)) = 2 ^ n * (unat w div 2 ^ n)"
    by (simp only: push_bit_eq_mult drop_bit_eq_div mult.commute)
  moreover have "2 ^ n * (unat w div 2 ^ n) < 2 ^ LENGTH('a)"
    by (metis div_times_less_eq_dividend le_less_trans mult.commute unsigned_less)
  ultimately show ?thesis by (simp add: take_bit_nat_eq_self)
qed

lemma unat_set_low:
  fixes w :: "'a::len word"
  assumes "n < LENGTH('a)"
  shows "unat (w OR mask n) = 2 ^ n * (unat w div 2 ^ n) + (2 ^ n - 1)"
proof -
  have "w OR mask n = (w AND NOT (mask n)) OR mask n" by (rule bit_word_eqI) (auto simp: bit_simps)
  also have "\<dots> = (w AND NOT (mask n)) + mask n"
    by (rule disjunctive_add [symmetric]) (auto simp: bit_simps)
  finally have eq: "w OR mask n = (w AND NOT (mask n)) + mask n" .
  have m: "unat (mask n :: 'a word) = 2 ^ n - 1"
  proof -
    have "mask n = (of_nat (2 ^ n - 1) :: 'a word)" by (simp add: mask_eq_exp_minus_1 of_nat_diff)
    moreover have "(2 :: nat) ^ n - 1 < 2 ^ LENGTH('a)"
      using power_strict_increasing [OF assms, of "2 :: nat"] by linarith
    ultimately show ?thesis by (simp only: unsigned_of_nat take_bit_nat_eq_self of_nat_id)
  qed
  have "unat w div 2 ^ n < 2 ^ (LENGTH('a) - n)"
    using assms unsigned_less [of w, where 'a = nat] by (simp add: less_mult_imp_div_less flip: power_add)
  then have "2 ^ n * (unat w div 2 ^ n) + 2 ^ n \<le> 2 ^ n * 2 ^ (LENGTH('a) - n)"
    by (metis Suc_leI mult_Suc_right mult_le_mono2 add.commute)
  then have "2 ^ n * (unat w div 2 ^ n) + 2 ^ n \<le> 2 ^ LENGTH('a)" using assms by (simp flip: power_add)
  then have "2 ^ n * (unat w div 2 ^ n) + (2 ^ n - 1) < 2 ^ LENGTH('a)"
    using zero_less_power [of "2 :: nat" n] by linarith
  then show ?thesis unfolding eq by (subst unat_add_lem [THEN iffD1]) (simp_all add: unat_clear_low m)
qed

lemma same_prefix_interval:
  fixes x w :: "'a::len word"
  assumes "n < LENGTH('a)"
  shows "w AND NOT (mask n) \<le> x \<and> x \<le> w OR mask n \<longleftrightarrow> x AND NOT (mask n) = w AND NOT (mask n)"
proof -
  let ?q = "\<lambda>y :: 'a word. unat y div 2 ^ n"
  have eq: "x AND NOT (mask n) = w AND NOT (mask n) \<longleftrightarrow> ?q x = ?q w"
    using unat_clear_low [of x n] unat_clear_low [of w n] by (metis nonzero_mult_div_cancel_left power_not_zero unsigned_word_eqI zero_neq_numeral)
  have "w AND NOT (mask n) \<le> x \<and> x \<le> w OR mask n \<longleftrightarrow>
    2 ^ n * ?q w \<le> unat x \<and> unat x \<le> 2 ^ n * ?q w + (2 ^ n - 1)"
    using assms by (simp add: word_le_nat_alt unat_clear_low unat_set_low)
  also have "\<dots> \<longleftrightarrow> ?q x = ?q w"
  proof
    assume a: "2 ^ n * ?q w \<le> unat x \<and> unat x \<le> 2 ^ n * ?q w + (2 ^ n - 1)"
    have "unat x < 2 ^ n * ?q w + 2 ^ n" using a zero_less_power [of "2 :: nat" n] by linarith
    with a show "?q x = ?q w" by (intro div_nat_eqI) (simp_all add: mult.commute)
  next
    assume "?q x = ?q w"
    then have "unat x = 2 ^ n * ?q w + unat x mod 2 ^ n" by (metis mult_div_mod_eq)
    moreover have "unat x mod 2 ^ n < 2 ^ n" by simp
    ultimately show "2 ^ n * ?q w \<le> unat x \<and> unat x \<le> 2 ^ n * ?q w + (2 ^ n - 1)" by linarith
  qed
  finally show ?thesis using eq by simp
qed

subsection \<open>IPv6 prefixes\<close>

text \<open>Bit \<open>k\<close> of an address, counted from the front as prefix lengths count.\<close>

definition addr_bit :: "u8 list \<Rightarrow> nat \<Rightarrow> bool" where
  "addr_bit bs k = bit (bs ! (k div 8)) (7 - k mod 8)"

lemma CreateMask8: "p < 128 \<Longrightarrow> (CreateMask (of_nat p mod 8) :: fault + u8) = Inr (mask (8 - p mod 8))"
proof -
  assume p: "p < 128"
  then have "unat (of_nat p :: u32) = p" by (simp add: unsigned_of_nat take_bit_nat_eq_self)
  then have "(of_nat p :: u32) mod 8 = of_nat (p mod 8)" by (simp add: word_arith_nat_mod)
  moreover have "p mod 8 < 8" by simp
  then have "p mod 8 \<le> 8" "8 - p mod 8 < 31" by linarith+
  ultimately show ?thesis using CreateMask_ok [where 'a = 8, of "p mod 8"] by simp
qed

lemma addr_bit_split:
  assumes "q < length bs" and "k < 8 * length bs"
  shows "addr_bit (take q bs @ [y] @ replicate (length bs - q - 1) z) k =
    (if k div 8 < q then addr_bit bs k else if k div 8 = q then bit y (7 - k mod 8) else bit z (7 - k mod 8))"
proof -
  have "k div 8 < length bs" using assms(2) by simp
  moreover consider "k div 8 < q" | "k div 8 = q" | "q < k div 8" by linarith
  ultimately show ?thesis
    using assms(1) by cases (simp_all add: addr_bit_def nth_append nth_Cons')
qed

lemma prefix_position: "k < p \<longleftrightarrow> k div 8 < p div 8 \<or> k div 8 = p div 8 \<and> k mod 8 < p mod 8" for k p :: nat
  proof -
  have "k = 8 * (k div 8) + k mod 8" "p = 8 * (p div 8) + p mod 8" "k mod 8 < 8" "p mod 8 < 8" by simp_all
  then show ?thesis by linarith
qed

lemma ff_bits: "bit (0xff :: u8) i \<longleftrightarrow> i < 8"
proof -
  have "(0xff :: u8) = mask 8" by (simp add: mask_eq_exp_minus_1)
  then show ?thesis by (simp only: bit_mask_iff) auto
qed

lemma ip6_bits:
  assumes "p < 128" and "length (sin6_addr a) = 16"
  shows "\<exists>b. ip6_broadcastAddress (of_nat p) a = Inr (Some b) \<and> length (sin6_addr b) = 16 \<and>
      (\<forall>k<128. addr_bit (sin6_addr b) k = (k < p \<longrightarrow> addr_bit (sin6_addr a) k))"
    and "\<exists>n. ip6_networkAddress (of_nat p) a = Inr (Some n) \<and> length (sin6_addr n) = 16 \<and>
      (\<forall>k<128. addr_bit (sin6_addr n) k = (k < p \<and> addr_bit (sin6_addr a) k))"
    and "\<exists>m. ip6_subnetMask (of_nat p) = Inr (Some m) \<and> length (sin6_addr m) = 16 \<and>
      (\<forall>k<128. addr_bit (sin6_addr m) k = (k < p))"
proof -
  let ?bs = "sin6_addr a" and ?q = "p div 8" and ?m = "mask (8 - p mod 8) :: u8"
  have u: "unat (of_nat p :: u32) = p" using assms(1) by (simp add: unsigned_of_nat take_bit_nat_eq_self)
  have q: "?q < 16" using assms(1) by simp
  have m: "bit ?m (7 - k mod 8) \<longleftrightarrow> \<not> k mod 8 < p mod 8" for k
  proof -
    have "k mod 8 < 8" "p mod 8 < 8" by simp_all
    then show ?thesis by (auto simp: bit_mask_iff)
  qed
  have ff: "bit (0xff :: u8) (7 - k mod 8)" for k by (simp only: ff_bits)
  have bc: "addr_bit (take ?q ?bs @ [?bs ! ?q OR ?m] @ replicate (length ?bs - ?q - 1) 0xff) k = (k < p \<longrightarrow> addr_bit ?bs k)"
    if "k < 128" for k
    using that q assms(2) addr_bit_split [of ?q ?bs k "?bs ! ?q OR ?m" "0xff"] prefix_position [of k p] m [of k] ff [of k]
    by (cases "k div 8 = ?q"; cases "k div 8 < ?q") (auto simp: bit_or_iff addr_bit_def)
  have nw: "addr_bit (take ?q ?bs @ [?bs ! ?q AND NOT ?m] @ replicate (length ?bs - ?q - 1) 0x00) k = (k < p \<and> addr_bit ?bs k)"
    if "k < 128" for k
    using that q assms(2) addr_bit_split [of ?q ?bs k "?bs ! ?q AND NOT ?m" "0x00"] prefix_position [of k p] m [of k] ff [of k]
    by (cases "k div 8 = ?q"; cases "k div 8 < ?q") (auto simp: bit_and_iff bit_not_iff addr_bit_def)
  have mk: "addr_bit (replicate ?q 0xff @ [NOT ?m] @ replicate (15 - ?q) 0) k = (k < p)" if "k < 128" for k
    using that q addr_bit_split [of ?q "replicate 16 0xff" k "NOT ?m" 0] prefix_position [of k p] m [of k] ff [of k]
    by (cases "k div 8 = ?q"; cases "k div 8 < ?q") (auto simp: bit_not_iff addr_bit_def)
  show "\<exists>b. ip6_broadcastAddress (of_nat p) a = Inr (Some b) \<and> length (sin6_addr b) = 16 \<and>
      (\<forall>k<128. addr_bit (sin6_addr b) k = (k < p \<longrightarrow> addr_bit (sin6_addr a) k))"
    using bc q assms(2) CreateMask8 [OF assms(1)] by (simp add: ip6_broadcastAddress_def Let_def u)
  show "\<exists>n. ip6_networkAddress (of_nat p) a = Inr (Some n) \<and> length (sin6_addr n) = 16 \<and>
      (\<forall>k<128. addr_bit (sin6_addr n) k = (k < p \<and> addr_bit (sin6_addr a) k))"
    using nw q assms(2) CreateMask8 [OF assms(1)] by (simp add: ip6_networkAddress_def Let_def u)
  show "\<exists>m. ip6_subnetMask (of_nat p) = Inr (Some m) \<and> length (sin6_addr m) = 16 \<and>
      (\<forall>k<128. addr_bit (sin6_addr m) k = (k < p))"
    using mk q CreateMask8 [OF assms(1)] by (simp add: ip6_subnetMask_def Let_def u)
qed

subsection \<open>Text\<close>

text \<open>What a reader of dotted notation makes of it: the numbers between the separators.\<close>

definition ip4_read :: "string \<Rightarrow> nat list \<times> nat" where
  "ip4_read s = (case split_on (CHR '':'') s of [a, p] \<Rightarrow> (map undec (split_on (CHR ''.'') a), undec p) | _ \<Rightarrow> ([], 0))"

lemma dec_no_sep: "CHR ''.'' \<notin> set (dec n)" "CHR '':'' \<notin> set (dec n)"
  by (rule dec_not, simp add: code_def)+

lemma ip4_read_text:
  "ip4_read (dec a @ ''.'' @ dec b @ ''.'' @ dec c @ ''.'' @ dec d @ '':'' @ dec p) = ([a, b, c, d], p)"
proof -
  let ?q = "dec a @ ''.'' @ dec b @ ''.'' @ dec c @ ''.'' @ dec d"
  have "CHR '':'' \<notin> set ?q" by (simp add: dec_no_sep)
  then have "split_on (CHR '':'') (?q @ CHR '':'' # dec p) = [?q, dec p]"
    by (simp only: split_on_append split_on_none dec_no_sep not_False_eq_True append_Cons append_Nil)
  moreover have "split_on (CHR ''.'') ?q = [dec a, dec b, dec c, dec d]"
    by (simp add: split_on_append split_on_none dec_no_sep)
  ultimately show ?thesis by (simp add: ip4_read_def)
qed

text \<open>The canonical text of eight groups: the first run of zero groups is written as \<open>::\<close>.\<close>

definition group_text :: "endian \<Rightarrow> u16 \<Rightarrow> string" where
  "group_text host g = hex (unat (byteswapOnLittleEndian16 host g))"

definition ip6_text :: "endian \<Rightarrow> u16 list \<Rightarrow> string" where
  "ip6_text host gs =
     (let pre = takeWhile (\<lambda>g. g \<noteq> 0) gs; post = dropWhile (\<lambda>g. g = 0) (dropWhile (\<lambda>g. g \<noteq> 0) gs) in
      if 0 \<notin> set gs then join '':'' (map (group_text host) gs)
      else join '':'' (map (group_text host) pre) @ ''::'' @ join '':'' (map (group_text host) post))"

fun tails :: "endian \<Rightarrow> u16 list \<Rightarrow> string" where
  "tails host [] = []"
| "tails host (g # gs) = '':'' @ group_text host g @ tails host gs"

lemma concat_tails: "concat (map ((@) '':'' \<circ> group_text host) gs) = tails host gs"
  by (induction gs) auto

lemma join_tails: "gs \<noteq> [] \<Longrightarrow> join '':'' (map (group_text host) gs) = tl (tails host gs)"
  by (cases gs) (simp_all add: concat_tails)

lemma tails_join: "gs \<noteq> [] \<Longrightarrow> tails host gs = '':'' @ join '':'' (map (group_text host) gs)"
  by (simp add: join_tails) (cases gs, auto)

lemma join_Cons: "join '':'' (map (group_text host) (g # gs)) = group_text host g @ tails host gs"
  using join_tails [of "g # gs" host] by simp

lemma ip6_loop_used: "i \<noteq> 0 \<Longrightarrow> ip6_loop host i prev True gs = (tails host gs, True)"
  by (induction gs arbitrary: i prev) (simp_all add: group_text_def)

lemma ip6_loop_zeros:
  "i \<noteq> 0 \<Longrightarrow> ip6_loop host i 0 False gs =
     (if dropWhile (\<lambda>g. g = 0) gs = [] then ([], False) else ('':'' @ tails host (dropWhile (\<lambda>g. g = 0) gs), True))"
  by (induction gs arbitrary: i) (simp_all add: ip6_loop_used group_text_def del: dropWhile_eq_Nil_conv)

abbreviation after_zeros :: "u16 list \<Rightarrow> u16 list" where
  "after_zeros gs \<equiv> dropWhile (\<lambda>g. g = 0) (dropWhile (\<lambda>g. g \<noteq> 0) gs)"

lemma ip6_loop_pre:
  "i \<noteq> 0 \<Longrightarrow> prev \<noteq> 0 \<Longrightarrow> ip6_loop host i prev False gs =
     (if after_zeros gs = [] then (tails host (takeWhile (\<lambda>g. g \<noteq> 0) gs), False)
      else (tails host (takeWhile (\<lambda>g. g \<noteq> 0) gs) @ '':'' @ tails host (after_zeros gs), True))"
proof (induction gs arbitrary: i prev)
  case (Cons g gs)
  show ?case
  proof (cases "g = 0")
    case True
    then show ?thesis using ip6_loop_zeros [of "i + 1" host gs] by (simp del: dropWhile_eq_Nil_conv)
  next
    case False
    have "ip6_loop host (i + 1) g False gs =
     (if after_zeros gs = [] then (tails host (takeWhile (\<lambda>g. g \<noteq> 0) gs), False)
      else (tails host (takeWhile (\<lambda>g. g \<noteq> 0) gs) @ '':'' @ tails host (after_zeros gs), True))"
      using False by (intro Cons.IH) simp_all
    then show ?thesis using False Cons.prems
      by (cases "after_zeros gs = []") (simp_all add: group_text_def del: dropWhile_eq_Nil_conv)
  qed
qed simp

lemma ip6_body:
  assumes "gs \<noteq> []"
  shows "(case ip6_loop host 0 0 False gs of (body, used) \<Rightarrow> body @ (if \<not> used \<and> last gs = 0 then ''::'' else [])) =
    ip6_text host gs"
proof -
  obtain g rest where gs: "gs = g # rest" using assms by (cases gs) auto
  show ?thesis
  proof (cases "g = 0")
    case True
    then have loop: "ip6_loop host 0 0 False gs = ip6_loop host 1 0 False rest" using gs by simp
    show ?thesis
    proof (cases "dropWhile (\<lambda>g. g = 0) rest = []")
      case z: True
      then have "last gs = 0" using True gs by (cases rest rule: rev_cases) auto
      then show ?thesis unfolding loop using True gs z
        by (simp add: ip6_loop_zeros ip6_text_def Let_def del: dropWhile_eq_Nil_conv)
    next
      case False
      then show ?thesis unfolding loop using True gs
        by (simp add: ip6_loop_zeros ip6_text_def Let_def tails_join del: dropWhile_eq_Nil_conv)
    qed
  next
    case False
    obtain body used where lp: "ip6_loop host 1 g False rest = (body, used)" by fastforce
    then have loop: "ip6_loop host 0 0 False gs = (group_text host g @ body, used)"
      using False gs by (simp add: group_text_def)
    show ?thesis
    proof (cases "0 \<in> set rest")
      case nz: False
      then have w: "takeWhile (\<lambda>g. g \<noteq> 0) rest = rest" "dropWhile (\<lambda>g. g \<noteq> 0) rest = []"
        by (auto simp: takeWhile_eq_all_conv)
      then have "after_zeros rest = []" by (simp only: w(2) dropWhile.simps)
      then have "body = tails host rest"
        using lp False w by (simp add: ip6_loop_pre del: dropWhile_eq_Nil_conv)
      moreover have "last gs \<noteq> 0" using nz False gs last_in_set [of gs] by auto
      moreover have "ip6_text host gs = group_text host g @ tails host rest"
        using nz False gs join_Cons [of host g rest] by (simp add: ip6_text_def)
      ultimately show ?thesis unfolding loop by simp
    next
      case z: True
      have text6: "ip6_text host gs = group_text host g @ tails host (takeWhile (\<lambda>g. g \<noteq> 0) rest) @ ''::'' @
          join '':'' (map (group_text host) (after_zeros rest))"
        using z False gs join_Cons [of host g "takeWhile (\<lambda>g. g \<noteq> 0) rest"]
        by (simp add: ip6_text_def Let_def)
      have ne: "dropWhile (\<lambda>g. g \<noteq> 0) rest \<noteq> []" using z by auto
      have lastd: "last gs = last (dropWhile (\<lambda>g. g \<noteq> 0) rest)"
      proof -
        have "rest = takeWhile (\<lambda>g. g \<noteq> 0) rest @ dropWhile (\<lambda>g. g \<noteq> 0) rest" by simp
        then have "last rest = last (dropWhile (\<lambda>g. g \<noteq> 0) rest)" using last_appendR [OF ne] by metis
        then show ?thesis using z gs by (cases rest) simp_all
      qed
      show ?thesis
      proof (cases "after_zeros rest = []")
        case True
        then have "\<forall>x\<in>set (dropWhile (\<lambda>g. g \<noteq> 0) rest). x = 0" by (simp only: dropWhile_eq_Nil_conv)
        then have "last gs = 0" unfolding lastd using last_in_set [OF ne] by blast
        moreover have "body = tails host (takeWhile (\<lambda>g. g \<noteq> 0) rest)" "\<not> used"
          using lp False True by (simp_all add: ip6_loop_pre del: dropWhile_eq_Nil_conv)
        ultimately show ?thesis unfolding loop text6 True by simp
      next
        case f: False
        then have "body = tails host (takeWhile (\<lambda>g. g \<noteq> 0) rest) @ '':'' @ tails host (after_zeros rest)" "used"
          using lp False by (auto simp add: ip6_loop_pre simp del: dropWhile_eq_Nil_conv)
        then show ?thesis unfolding loop text6 tails_join [OF f] by simp
      qed
    qed
  qed
qed

lemma unat_group:
  "unat (byteswapOnLittleEndian16 host (of_mem_bytes host [x, y])) = 256 * unat x + unat y"
proof -
  have sw: "byteswap16 (of_bytes_le [x, y]) = of_bytes_le [y, x]"
    using bytes_le_of_bytes_le [of "[x, y]", where 'a = 16]
    by (simp add: byteswap16_def numeral_2_eq_2 del: of_bytes_le.simps)
  have "ucast y + push_bit 8 (ucast x) = (ucast y OR push_bit 8 (ucast x) :: u16)"
    by (rule disjunctive_add) (auto simp: bit_simps dest: bit_imp_le_length)
  then have "(of_bytes_le [y, x] :: u16) = push_bit 8 (ucast x) + ucast y" by (simp add: add.commute)
  also have "\<dots> = of_nat (256 * unat x + unat y)" by (simp add: push_bit_eq_mult mult.commute)
  finally have "unat (of_bytes_le [y, x] :: u16) = 256 * unat x + unat y"
    using unsigned_less [of x, where 'a = nat] unsigned_less [of y, where 'a = nat]
    by (simp only: unsigned_of_nat) (simp add: take_bit_nat_eq_self)
  then show ?thesis
    by (cases host) (simp_all add: byteswapOnLittleEndian16_def of_mem_bytes_def sw del: of_bytes_le.simps)
qed

text \<open>A reader of the text between the brackets: the fields between colons, an empty field standing for as many
  zero groups as are missing.\<close>

definition ip6_read :: "string \<Rightarrow> nat list" where
  "ip6_read s =
     (let fs = split_on (CHR '':'') s;
          pre = takeWhile (\<lambda>f. f \<noteq> []) fs; post = rev (takeWhile (\<lambda>f. f \<noteq> []) (rev fs))
      in if [] \<notin> set fs then map unhex fs
         else map unhex pre @ replicate (8 - length pre - length post) 0 @ map unhex post)"

lemma group_text_no_colon: "x \<in> set (map (group_text host) gs) \<Longrightarrow> CHR '':'' \<notin> set x"
  by (auto simp: group_text_def hex_not code_def)

lemma split_groups:
  "split_on (CHR '':'') (join '':'' (map (group_text host) gs)) =
     (if gs = [] then [[]] else map (group_text host) gs)"
proof (cases "gs = []")
  case False
  then show ?thesis
    using split_on_join [of "map (group_text host) gs" "CHR '':''", OF _ group_text_no_colon] by simp
qed simp

lemma take_2_drop: "Suc j < length bs \<Longrightarrow> take 2 (drop j bs) = [bs ! j, bs ! Suc j]"
  by (simp add: Cons_nth_drop_Suc [symmetric] numeral_2_eq_2)

lemma unat_u16_u32: "unat (ucast (x :: u16) :: u32) = unat x"
  using unsigned_less [of x, where 'a = nat] by (simp add: unsigned_ucast_eq take_bit_nat_eq_self)

lemma group_text_nonempty: "x \<in> set (map (group_text host) gs) \<Longrightarrow> x \<noteq> []"
  by (auto simp: group_text_def)

lemma takeWhile_groups:
  "takeWhile (\<lambda>f. f \<noteq> []) ((if gs = [] then [[]] else map (group_text host) gs) @ [] # ys) = map (group_text host) gs"
  using group_text_nonempty [of _ host gs] by (simp add: takeWhile_append)

lemma takeWhile_rev_groups:
  "rev (takeWhile (\<lambda>f. f \<noteq> []) (rev (xs @ [] # (if gs = [] then [[]] else map (group_text host) gs)))) =
     map (group_text host) gs"
  using group_text_nonempty [of "[]" host gs] by (auto simp: takeWhile_append rev_map [symmetric])

lemma swap16_zero: "byteswapOnLittleEndian16 host 0 = 0"
  by (simp add: byteswapOnLittleEndian16_def byteswap16_def bytes_le_def numeral_2_eq_2)

lemma ip6_read_text:
  assumes "length gs = 8"
  shows "ip6_read (ip6_text host gs) = map (\<lambda>g. unat (byteswapOnLittleEndian16 host g)) gs"
proof (cases "0 \<in> set gs")
  case False
  then have "ip6_text host gs = join '':'' (map (group_text host) gs)" by (simp add: ip6_text_def)
  moreover have "gs \<noteq> []" using assms by auto
  ultimately show ?thesis
    using group_text_nonempty [of "[]" host gs] by (auto simp: ip6_read_def split_groups Let_def group_text_def)
next
  case True
  define pre where "pre = takeWhile (\<lambda>g. g \<noteq> 0) gs"
  define zs where "zs = takeWhile (\<lambda>g. g = 0) (dropWhile (\<lambda>g. g \<noteq> 0) gs)"
  let ?post = "after_zeros gs" and ?f = "\<lambda>ys. if ys = [] then [[]] else map (group_text host) ys"
  have gs: "pre @ zs @ ?post = gs" by (simp add: pre_def zs_def)
  have "\<forall>z\<in>set zs. z = 0" unfolding zs_def by (blast dest: set_takeWhileD)
  then have "zs = replicate (length zs) 0" by (rule replicate_length_same [symmetric])
  moreover have "length zs = 8 - length pre - length ?post"
    using arg_cong [OF gs, of length] assms by (simp only: length_append)
  ultimately have zs: "zs = replicate (8 - length pre - length ?post) 0" by metis
  have "split_on (CHR '':'') (ip6_text host gs) = ?f pre @ [] # ?f ?post"
    using True split_on_append [of "CHR '':''" "join '':'' (map (group_text host) pre)" "CHR '':'' # join '':'' (map (group_text host) ?post)"]
    by (simp add: ip6_text_def Let_def split_groups flip: pre_def)
  then have "ip6_read (ip6_text host gs) =
      map unhex (map (group_text host) pre) @ replicate (8 - length pre - length ?post) 0 @ map unhex (map (group_text host) ?post)"
    unfolding ip6_read_def Let_def by (simp only: takeWhile_groups takeWhile_rev_groups) simp
  also have "\<dots> = map (\<lambda>g. unat (byteswapOnLittleEndian16 host g)) (pre @ zs @ ?post)"
    by (simp add: zs group_text_def swap16_zero comp_def)
  finally show ?thesis by (simp only: gs)
qed

subsection \<open>Properties\<close>

text \<open>For every prefix length from 2 to 32 the IPv4 subnet operations succeed and keep the port, and they agree
  with each other: an address lies between the network and the broadcast address exactly when the mask takes it
  to the network address. For the prefix lengths 0 and 1, which the guard admits, computing the mask overflows
  \<open>int\<close>; a longer prefix than 32 gives no address.\<close>

theorem ip4_subnet:
  assumes "p < 2 ^ 32"
  shows "(2 \<le> p \<and> p \<le> 32 \<longrightarrow>
      (\<exists>n b m. ip4_networkAddress host (of_nat p) a = Inr (Some n) \<and> ip4_broadcastAddress host (of_nat p) a = Inr (Some b) \<and>
        ip4_subnetMask host (of_nat p) = Inr (Some m) \<and> ip4_getPort host n = ip4_getPort host a \<and> ip4_getPort host b = ip4_getPort host a \<and>
        (\<forall>x. ip4_num host n \<le> ip4_num host x \<and> ip4_num host x \<le> ip4_num host b \<longleftrightarrow>
          ip4_num host x AND ip4_num host m = ip4_num host n))) \<and>
    (p < 2 \<longrightarrow> ip4_networkAddress host (of_nat p) a = Inl IntOverflow \<and> ip4_broadcastAddress host (of_nat p) a = Inl IntOverflow) \<and>
    (32 < p \<longrightarrow> ip4_networkAddress host (of_nat p) a = Inr None \<and> ip4_broadcastAddress host (of_nat p) a = Inr None)"
proof (intro conjI impI)
  assume p: "2 \<le> p \<and> p \<le> 32"
  obtain b n m where
    b: "ip4_broadcastAddress host (of_nat p) a = Inr (Some b)" "ip4_num host b = ip4_num host a OR mask (32 - p)" "sin_port b = sin_port a" and
    n: "ip4_networkAddress host (of_nat p) a = Inr (Some n)" "ip4_num host n = ip4_num host a AND NOT (mask (32 - p))" "sin_port n = sin_port a" and
    m: "ip4_subnetMask host (of_nat p) = Inr (Some m)" "ip4_num host m = NOT (mask (32 - p))"
    using ip4_subnet_nums [of p] p by metis
  have "ip4_num host n \<le> ip4_num host x \<and> ip4_num host x \<le> ip4_num host b \<longleftrightarrow>
      ip4_num host x AND ip4_num host m = ip4_num host n" for x
    unfolding b n m using p by (intro same_prefix_interval) simp
  then show "\<exists>n b m. ip4_networkAddress host (of_nat p) a = Inr (Some n) \<and> ip4_broadcastAddress host (of_nat p) a = Inr (Some b) \<and>
        ip4_subnetMask host (of_nat p) = Inr (Some m) \<and> ip4_getPort host n = ip4_getPort host a \<and> ip4_getPort host b = ip4_getPort host a \<and>
        (\<forall>x. ip4_num host n \<le> ip4_num host x \<and> ip4_num host x \<le> ip4_num host b \<longleftrightarrow>
          ip4_num host x AND ip4_num host m = ip4_num host n)"
    using b(1,3) n(1,3) m(1) by (auto simp: ip4_getPort_def)
next
  assume "p < 2"
  then consider "p = 0" | "p = 1" by linarith
  then have "(CreateMask (of_nat p) :: fault + u32) = Inl IntOverflow \<and> of_nat p \<le> (32 :: u32)"
    by cases (simp_all add: CreateMask_overflow)
  then have "(CreateMask (of_nat p) :: fault + u32) = Inl IntOverflow" "\<not> (32 :: u32) < of_nat p" by auto
  then show "ip4_networkAddress host (of_nat p) a = Inl IntOverflow" "ip4_broadcastAddress host (of_nat p) a = Inl IntOverflow"
    by (simp_all add: ip4_networkAddress_def ip4_broadcastAddress_def)
next
  assume "32 < p"
  then have "(32 :: u32) < of_nat p" using assms by (simp add: word_less_nat_alt unsigned_of_nat take_bit_nat_eq_self)
  then show "ip4_networkAddress host (of_nat p) a = Inr None" "ip4_broadcastAddress host (of_nat p) a = Inr None"
    by (simp_all add: ip4_networkAddress_def ip4_broadcastAddress_def)
qed

text \<open>192.168.5.77/24 on a little-endian host: the subnet is the interval from 192.168.5.0 to 192.168.5.255.\<close>

theorem ip4_subnet_witness:
  "\<exists>n b. ip4_networkAddress SYLAR_LITTLE_ENDIAN 24 (IPv4Address_new SYLAR_LITTLE_ENDIAN 0xC0A8054D 80) = Inr (Some n) \<and>
     ip4_broadcastAddress SYLAR_LITTLE_ENDIAN 24 (IPv4Address_new SYLAR_LITTLE_ENDIAN 0xC0A8054D 80) = Inr (Some b)"
  using ip4_subnet [of 24 SYLAR_LITTLE_ENDIAN "IPv4Address_new SYLAR_LITTLE_ENDIAN 0xC0A8054D 80"] by auto

text \<open>For every prefix length below 128 the IPv6 operations succeed: the network address has the first
  \<open>prefix_len\<close> bits of the address and zeros behind them, the broadcast address ones, and the mask ones followed by
  zeros. At 128, a host route, and beyond, they index past the 16 bytes of the address.\<close>

theorem ip6_subnet:
  assumes "length (sin6_addr a) = 16" and "p < 2 ^ 32"
  shows "(p < 128 \<longrightarrow>
      (\<exists>n b m. ip6_networkAddress (of_nat p) a = Inr (Some n) \<and> ip6_broadcastAddress (of_nat p) a = Inr (Some b) \<and>
        ip6_subnetMask (of_nat p) = Inr (Some m) \<and>
        length (sin6_addr n) = 16 \<and> length (sin6_addr b) = 16 \<and> length (sin6_addr m) = 16 \<and>
        (\<forall>k<128. (addr_bit (sin6_addr n) k \<longleftrightarrow> k < p \<and> addr_bit (sin6_addr a) k) \<and>
          (addr_bit (sin6_addr b) k \<longleftrightarrow> (if k < p then addr_bit (sin6_addr a) k else True)) \<and>
          (addr_bit (sin6_addr m) k \<longleftrightarrow> k < p)))) \<and>
    (128 \<le> p \<longrightarrow> ip6_networkAddress (of_nat p) a = Inl OutOfBounds \<and> ip6_broadcastAddress (of_nat p) a = Inl OutOfBounds \<and>
      ip6_subnetMask (of_nat p) = Inl OutOfBounds)"
proof (intro conjI impI)
  assume p: "p < 128"
  show "\<exists>n b m. ip6_networkAddress (of_nat p) a = Inr (Some n) \<and> ip6_broadcastAddress (of_nat p) a = Inr (Some b) \<and>
        ip6_subnetMask (of_nat p) = Inr (Some m) \<and>
        length (sin6_addr n) = 16 \<and> length (sin6_addr b) = 16 \<and> length (sin6_addr m) = 16 \<and>
        (\<forall>k<128. (addr_bit (sin6_addr n) k \<longleftrightarrow> k < p \<and> addr_bit (sin6_addr a) k) \<and>
          (addr_bit (sin6_addr b) k \<longleftrightarrow> (if k < p then addr_bit (sin6_addr a) k else True)) \<and>
          (addr_bit (sin6_addr m) k \<longleftrightarrow> k < p))"
    using ip6_bits [OF p assms(1)] by auto
next
  assume "128 \<le> p"
  then have "16 \<le> unat (of_nat p :: u32) div 8" using assms(2) by (simp add: unsigned_of_nat take_bit_nat_eq_self)
  then show "ip6_networkAddress (of_nat p) a = Inl OutOfBounds" "ip6_broadcastAddress (of_nat p) a = Inl OutOfBounds"
    "ip6_subnetMask (of_nat p) = Inl OutOfBounds"
    using assms(1) by (simp_all add: ip6_networkAddress_def ip6_broadcastAddress_def ip6_subnetMask_def Let_def)
qed

text \<open>2001:db8::1, as a host route.\<close>

theorem ip6_subnet_witness:
  "ip6_networkAddress 128 (IPv6Address_new SYLAR_LITTLE_ENDIAN ([0x20, 1, 0x0d, 0xb8] @ replicate 11 0 @ [1]) 80) = Inl OutOfBounds"
  using ip6_subnet [of "IPv6Address_new SYLAR_LITTLE_ENDIAN ([0x20, 1, 0x0d, 0xb8] @ replicate 11 0 @ [1]) 80" 128]
  by (simp add: IPv6Address_new_def IPv6Address_default_def)

text \<open>C35. The text of an address, read back, is the address: the dotted text of an IPv4 address gives its octets and
  port; the bracketed text of an IPv6 address is the canonical one, at most one run of zero groups abbreviated to
  \<open>::\<close>, and expanding it gives the eight groups of the address in network order, on either kind of host.\<close>

theorem address_text:
  assumes "length (sin6_addr a6) = 16"
  shows "ip4_read (ip4_insert host a4) =
      (map (\<lambda>s. unat (drop_bit s (ip4_num host a4) AND 0xff)) [24, 16, 8, 0], unat (ip4_getPort host a4)) \<and>
    ip6_insert host a6 = ''['' @ ip6_text host (groups host (sin6_addr a6)) @ '']:'' @ dec (unat (ip6_getPort host a6)) \<and>
    ip6_read (ip6_text host (groups host (sin6_addr a6))) =
      map (\<lambda>i. 256 * unat (sin6_addr a6 ! (2 * i)) + unat (sin6_addr a6 ! (2 * i + 1))) [0..<8]"
proof (intro conjI)
  show "ip4_read (ip4_insert host a4) =
      (map (\<lambda>s. unat (drop_bit s (ip4_num host a4) AND 0xff)) [24, 16, 8, 0], unat (ip4_getPort host a4))"
    unfolding ip4_insert_def Let_def ip4_read_text by (simp add: ip4_num_def ip4_getPort_def unat_u16_u32)
next
  let ?gs = "groups host (sin6_addr a6)"
  have len: "length ?gs = 8" by (simp add: groups_def)
  then have "?gs \<noteq> []" by auto
  moreover have "last ?gs = ?gs ! 7" using len last_conv_nth [OF \<open>?gs \<noteq> []\<close>] by simp
  ultimately show "ip6_insert host a6 = ''['' @ ip6_text host ?gs @ '']:'' @ dec (unat (ip6_getPort host a6))"
    using ip6_body [of ?gs host]
    by (cases "ip6_loop host 0 0 False ?gs") (simp add: ip6_insert_def Let_def ip6_getPort_def unat_u16_u32)
  have "map (\<lambda>g. unat (byteswapOnLittleEndian16 host g)) ?gs =
      map (\<lambda>i. 256 * unat (sin6_addr a6 ! (2 * i)) + unat (sin6_addr a6 ! (2 * i + 1))) [0..<8]"
    using assms by (auto simp: groups_def unat_group take_2_drop)
  then show "ip6_read (ip6_text host ?gs) = map (\<lambda>i. 256 * unat (sin6_addr a6 ! (2 * i)) + unat (sin6_addr a6 ! (2 * i + 1))) [0..<8]"
    using ip6_read_text [OF len] by simp
qed

text \<open>The loopback address, port 8080.\<close>

theorem address_text_witness:
  "ip6_read (ip6_text SYLAR_LITTLE_ENDIAN (groups SYLAR_LITTLE_ENDIAN (replicate 15 0 @ [1]))) = [0, 0, 0, 0, 0, 0, 0, 1]"
proof -
  let ?a = "IPv6Address_new SYLAR_LITTLE_ENDIAN (replicate 15 0 @ [1]) 8080"
  have a: "sin6_addr ?a = replicate 15 0 @ [1]" by (simp add: IPv6Address_new_def)
  then have "length (sin6_addr ?a) = 16" by simp
  from address_text [OF this, of SYLAR_LITTLE_ENDIAN "IPv4Address_new SYLAR_LITTLE_ENDIAN 0 0"]
  show ?thesis unfolding a by (simp add: upt_conv_Cons nth_append)
qed

end
