(* ===== verification/Address.thy ===== *)
theory Address
  imports IpAddress
begin

text \<open>
  The rest of \<open>src/address.cc\<close>: the hierarchy \<open>Address\<close>, host names and services in \<open>Lookup\<close>, Unix domain
  addresses, comparison, and the addresses of the network interfaces.

  A pointer to a \<open>sockaddr\<close> is the block of memory it points to, a \<open>u8 list option\<close> (\<open>None\<close> the null pointer);
  \<open>getAddr\<close> gives the memory of an address object, so \<open>Create\<close> and the comparisons work on bytes as the code does.
  \<open>getaddrinfo\<close> and \<open>getifaddrs\<close> are arguments. Reading behind the end of a block is the fault \<open>OutOfBounds\<close>.
\<close>

record sockaddr =
  sa_family :: u16
  sa_data :: "u8 list"

record sockaddr_un =
  sun_family :: u16
  sun_path :: string

datatype Address =
    IPv4Address sockaddr_in
  | IPv6Address sockaddr_in6
  | UnixAddress sockaddr_un u32
  | UnknowAddress sockaddr

subsection \<open>Memory layout\<close>

definition in_bytes :: "endian \<Rightarrow> sockaddr_in \<Rightarrow> u8 list" where
  "in_bytes host a = mem_bytes host 2 (sin_family a) @ mem_bytes host 2 (sin_port a) @ mem_bytes host 4 (sin_addr a) @ sin_zero a"

definition in6_bytes :: "endian \<Rightarrow> sockaddr_in6 \<Rightarrow> u8 list" where
  "in6_bytes host a = mem_bytes host 2 (sin6_family a) @ mem_bytes host 2 (sin6_port a) @ mem_bytes host 4 (sin6_flowinfo a) @
     sin6_addr a @ mem_bytes host 4 (sin6_scope_id a)"

definition un_bytes :: "endian \<Rightarrow> sockaddr_un \<Rightarrow> u8 list" where
  "un_bytes host a = mem_bytes host 2 (sun_family a) @ map of_char (sun_path a)"

definition sa_bytes :: "endian \<Rightarrow> sockaddr \<Rightarrow> u8 list" where
  "sa_bytes host a = mem_bytes host 2 (sa_family a) @ sa_data a"

definition family_at :: "endian \<Rightarrow> u8 list \<Rightarrow> u16" where
  "family_at host bs = of_mem_bytes host (take 2 bs)"

definition in_at :: "endian \<Rightarrow> u8 list \<Rightarrow> sockaddr_in" where
  "in_at host bs = \<lparr>sin_family = family_at host bs, sin_port = of_mem_bytes host (take 2 (drop 2 bs)),
     sin_addr = of_mem_bytes host (take 4 (drop 4 bs)), sin_zero = take 8 (drop 8 bs)\<rparr>"

definition in6_at :: "endian \<Rightarrow> u8 list \<Rightarrow> sockaddr_in6" where
  "in6_at host bs = \<lparr>sin6_family = family_at host bs, sin6_port = of_mem_bytes host (take 2 (drop 2 bs)),
     sin6_flowinfo = of_mem_bytes host (take 4 (drop 4 bs)), sin6_addr = take 16 (drop 8 bs),
     sin6_scope_id = of_mem_bytes host (take 4 (drop 24 bs))\<rparr>"

definition sa_at :: "endian \<Rightarrow> u8 list \<Rightarrow> sockaddr" where
  "sa_at host bs = \<lparr>sa_family = family_at host bs, sa_data = take 14 (drop 2 bs)\<rparr>"

fun getAddr :: "endian \<Rightarrow> Address \<Rightarrow> u8 list" where
  "getAddr host (IPv4Address a) = in_bytes host a"
| "getAddr host (IPv6Address a) = in6_bytes host a"
| "getAddr host (UnixAddress a m_length) = un_bytes host a"
| "getAddr host (UnknowAddress a) = sa_bytes host a"

fun getAddrLen :: "Address \<Rightarrow> u32" where
  "getAddrLen (IPv4Address a) = 16"
| "getAddrLen (IPv6Address a) = 28"
| "getAddrLen (UnixAddress a m_length) = m_length"
| "getAddrLen (UnknowAddress a) = 16"

fun setAddrLen :: "u32 \<Rightarrow> Address \<Rightarrow> Address" where
  "setAddrLen v (UnixAddress a m_length) = UnixAddress a v"
| "setAddrLen v a = a"

subsection \<open>Creation\<close>

definition Address_Create :: "endian \<Rightarrow> u8 list option \<Rightarrow> fault + Address option" where
  "Address_Create host addr = (case addr of
     None \<Rightarrow> Inr None
   | Some bs \<Rightarrow>
       if length bs < 2 then Inl OutOfBounds
       else if family_at host bs = AF_INET then
         (if length bs < 16 then Inl OutOfBounds else Inr (Some (IPv4Address (in_at host bs))))
       else if family_at host bs = AF_INET6 then
         (if length bs < 28 then Inl OutOfBounds else Inr (Some (IPv6Address (in6_at host bs))))
       else if length bs < 16 then Inl OutOfBounds
       else Inr (Some (UnknowAddress (sa_at host bs))))"

text \<open>\<open>std::dynamic_pointer_cast<IPAddress>\<close>.\<close>

fun is_ip :: "Address option \<Rightarrow> bool" where
  "is_ip (Some (IPv4Address a)) = True"
| "is_ip (Some (IPv6Address a)) = True"
| "is_ip _ = False"

fun setPort :: "endian \<Rightarrow> u16 \<Rightarrow> Address \<Rightarrow> Address" where
  "setPort host port (IPv4Address a) = IPv4Address (ip4_setPort host port a)"
| "setPort host port (IPv6Address a) = IPv6Address (ip6_setPort host port a)"
| "setPort host port a = a"

text \<open>\<open>gai\<close> is \<open>getaddrinfo\<close>: the node, the service (\<open>None\<close> a null pointer), family, type and protocol of the
  hints; an error number or the list of results.\<close>

type_synonym getaddrinfo = "string \<Rightarrow> string option \<Rightarrow> int \<Rightarrow> int \<Rightarrow> int \<Rightarrow> int + u8 list option list"

definition IPAddress_Create :: "endian \<Rightarrow> getaddrinfo \<Rightarrow> string \<Rightarrow> u16 \<Rightarrow> fault + Address option" where
  "IPAddress_Create host gai address port = (case gai (c_str address) None 0 0 0 of
     Inl error \<Rightarrow> Inr None
   | Inr [] \<Rightarrow> Inl NullDeref
   | Inr (r # _) \<Rightarrow> (case Address_Create host r of
       Inl x \<Rightarrow> Inl x
     | Inr None \<Rightarrow> Inr None
     | Inr (Some a) \<Rightarrow> Inr (if is_ip (Some a) then Some (setPort host port a) else None)))"

subsection \<open>Lookup\<close>

text \<open>\<open>memchr\<close>: the position of the first occurrence.\<close>

definition memchr :: "char \<Rightarrow> string \<Rightarrow> nat option" where
  "memchr c s = (if c \<in> set s then Some (length (takeWhile (\<lambda>x. x \<noteq> c) s)) else None)"

text \<open>The first half of \<open>Lookup\<close>: \<open>host_ip\<close> and \<open>host_port\<close>, the latter as the text behind the pointer.\<close>

definition split_bracket :: "string \<Rightarrow> string \<times> string option" where
  "split_bracket host =
     (if host \<noteq> [] \<and> hd host = CHR ''['' then
        (case memchr (CHR '']'') (tl host) of
           None \<Rightarrow> ([], None)
         | Some n \<Rightarrow>
             let e = n + 1 in
             (take (e - 1) (drop 1 host),
              if e + 1 < length host \<and> host ! (e + 1) = CHR '':'' then Some (drop (e + 2) host) else None))
      else ([], None))"

definition split_colon :: "string \<Rightarrow> string \<times> string option" where
  "split_colon host = (case memchr (CHR '':'') host of
     None \<Rightarrow> ([], None)
   | Some q \<Rightarrow>
       if memchr (CHR '':'') (drop (q + 1) host) = None then (take q host, Some (drop (q + 1) host))
       else ([], Some (drop q host)))"

definition split_host :: "string \<Rightarrow> string \<times> string option" where
  "split_host host =
     (let (ip, port) = split_bracket host;
          (ip, port) = (if ip = [] then split_colon host else (ip, port))
      in (if ip = [] then host else ip, port))"

fun create_all :: "endian \<Rightarrow> u8 list option list \<Rightarrow> fault + Address option list" where
  "create_all host [] = Inr []"
| "create_all host (r # rs) = (case Address_Create host r of
     Inl x \<Rightarrow> Inl x
   | Inr a \<Rightarrow> (case create_all host rs of Inl x \<Rightarrow> Inl x | Inr as \<Rightarrow> Inr (a # as)))"

definition Lookup :: "endian \<Rightarrow> getaddrinfo \<Rightarrow> Address option list \<Rightarrow> string \<Rightarrow> int \<Rightarrow> int \<Rightarrow> int \<Rightarrow>
    fault + bool \<times> Address option list" where
  "Lookup endian gai result host family type protocol =
     (let (host_ip, host_port) = split_host host in
      case gai (c_str host_ip) (map_option c_str host_port) family type protocol of
        Inl error \<Rightarrow> Inr (False, result)
      | Inr results \<Rightarrow> (case create_all endian results of Inl x \<Rightarrow> Inl x | Inr as \<Rightarrow> Inr (True, result @ as)))"

definition LookupAny :: "endian \<Rightarrow> getaddrinfo \<Rightarrow> string \<Rightarrow> int \<Rightarrow> int \<Rightarrow> int \<Rightarrow> fault + Address option" where
  "LookupAny endian gai host family type protocol =
     (case Lookup endian gai [] host family type protocol of
        Inl x \<Rightarrow> Inl x
      | Inr (False, _) \<Rightarrow> Inr None
      | Inr (True, []) \<Rightarrow> Inl OutOfBounds
      | Inr (True, a # _) \<Rightarrow> Inr a)"

definition LookupAnyIPAddress :: "endian \<Rightarrow> getaddrinfo \<Rightarrow> string \<Rightarrow> int \<Rightarrow> int \<Rightarrow> int \<Rightarrow> fault + Address option" where
  "LookupAnyIPAddress endian gai host family type protocol =
     (case Lookup endian gai [] host family type protocol of
        Inl x \<Rightarrow> Inl x
      | Inr (False, _) \<Rightarrow> Inr None
      | Inr (True, as) \<Rightarrow> Inr (case find is_ip as of None \<Rightarrow> None | Some a \<Rightarrow> a))"

subsection \<open>Unix domain and other addresses\<close>

definition UnixAddress_default :: Address where
  "UnixAddress_default = UnixAddress \<lparr>sun_family = AF_UNIX, sun_path = replicate 108 (CHR 0x00)\<rparr> (2 + 107)"

definition UnixAddress_new :: "string \<Rightarrow> exn + Address" where
  "UnixAddress_new path =
     (let m_length = of_nat (if path \<noteq> [] \<and> hd path = CHR 0x00 then length path else length path + 1) :: u32 in
      if m_length > 108 then Inl (LogicError ''path too long'')
      else Inr (UnixAddress
        \<lparr>sun_family = AF_UNIX, sun_path = overwrite (replicate 108 (CHR 0x00)) 0 (take (unat m_length) (path @ [CHR 0x00]))\<rparr>
        (m_length + 2)))"

definition UnknowAddress_new :: "int \<Rightarrow> Address" where
  "UnknowAddress_new family = UnknowAddress \<lparr>sa_family = of_int family, sa_data = replicate 14 0\<rparr>"

definition unix_insert :: "sockaddr_un \<Rightarrow> u32 \<Rightarrow> fault + string" where
  "unix_insert a m_length =
     (if m_length > 2 \<and> sun_path a ! 0 = CHR 0x00 then
        (let n = unat (m_length - 2 - 1) in
         if n > length (sun_path a) - 1 then Inl OutOfBounds
         else Inr ([CHR 0x5C, CHR ''0''] @ take n (drop 1 (sun_path a))))
      else if CHR 0x00 \<notin> set (sun_path a) then Inl OutOfBounds
      else Inr (c_str (sun_path a)))"

fun Address_insert :: "endian \<Rightarrow> Address \<Rightarrow> fault + string" where
  "Address_insert host (IPv4Address a) = Inr (ip4_insert host a)"
| "Address_insert host (IPv6Address a) = Inr (ip6_insert host a)"
| "Address_insert host (UnixAddress a m_length) = unix_insert a m_length"
| "Address_insert host (UnknowAddress a) = Inr (''[UnknowAddress family = '' @ dec (unat (sa_family a)) @ '']'')"

definition getFamily :: "endian \<Rightarrow> Address \<Rightarrow> int" where
  "getFamily host a = uint (family_at host (getAddr host a))"

definition getFamilyToString :: "endian \<Rightarrow> Address \<Rightarrow> string" where
  "getFamilyToString host a =
     (let family = getFamily host a in
      if family = 2 then ''IPv4'' else if family = 10 then ''IPv6'' else if family = 1 then ''UNIX''
      else ''Unknown('' @ dec (nat family) @ '')'')"

subsection \<open>Comparison\<close>

text \<open>\<open>memcmp\<close>: the sign of the first difference, compared as unsigned bytes.\<close>

fun memcmp :: "u8 list \<Rightarrow> u8 list \<Rightarrow> nat \<Rightarrow> fault + int" where
  "memcmp xs ys 0 = Inr 0"
| "memcmp (x # xs) (y # ys) (Suc n) = (if x < y then Inr (- 1) else if y < x then Inr 1 else memcmp xs ys n)"
| "memcmp _ _ (Suc n) = Inl OutOfBounds"

text \<open>An object is the address \<open>p\<close> of its \<open>m_addr\<close> and its value.\<close>

definition Address_less :: "endian \<Rightarrow> nat \<times> Address \<Rightarrow> nat \<times> Address \<Rightarrow> fault + bool" where
  "Address_less host l r =
     (case memcmp (getAddr host (snd l)) (getAddr host (snd r)) (unat (min (getAddrLen (snd l)) (getAddrLen (snd r)))) of
        Inl x \<Rightarrow> Inl x
      | Inr result \<Rightarrow> Inr (if result < 0 then True else if result > 0 then False else fst l < fst r))"

definition Address_eq :: "endian \<Rightarrow> Address \<Rightarrow> Address \<Rightarrow> fault + bool" where
  "Address_eq host l r =
     (if getAddrLen l = getAddrLen r then
        (case memcmp (getAddr host l) (getAddr host r) (unat (getAddrLen l)) of Inl x \<Rightarrow> Inl x | Inr d \<Rightarrow> Inr (d = 0))
      else Inr False)"

definition Address_neq :: "endian \<Rightarrow> Address \<Rightarrow> Address \<Rightarrow> fault + bool" where
  "Address_neq host l r = map_sum id Not (Address_eq host l r)"

subsection \<open>Network interfaces\<close>

record ifaddr =
  ifa_name :: string
  ifa_addr :: "u8 list option"
  ifa_netmask :: "u8 list option"

type_synonym iface_map = "(string \<times> Address option \<times> u32) list"

text \<open>One round of the loop: the pair to insert, if any. \<open>family\<close> is the argument.\<close>

definition iface_entry :: "endian \<Rightarrow> int \<Rightarrow> ifaddr \<Rightarrow> fault + (Address option \<times> u32) option" where
  "iface_entry host family i = (case ifa_addr i of
     None \<Rightarrow> Inl NullDeref
   | Some bs \<Rightarrow>
       if family \<noteq> 0 \<and> family \<noteq> uint (family_at host bs) then Inr None
       else if family_at host bs = AF_INET then
         (case Address_Create host (Some bs) of
            Inl x \<Rightarrow> Inl x
          | Inr addr \<Rightarrow> (case ifa_netmask i of
              None \<Rightarrow> Inl NullDeref
            | Some nm \<Rightarrow>
                if length nm < 8 then Inl OutOfBounds
                else Inr (if addr = None then None else Some (addr, CountBytes (sin_addr (in_at host nm))))))
       else if family_at host bs = AF_INET6 then
         (case Address_Create host (Some bs) of
            Inl x \<Rightarrow> Inl x
          | Inr addr \<Rightarrow> (case ifa_netmask i of
              None \<Rightarrow> Inl NullDeref
            | Some nm \<Rightarrow>
                if length nm < 24 then Inl OutOfBounds
                else Inr (if addr = None then None else Some (addr, sum_list (map CountBytes (sin6_addr (in6_at host nm)))))))
       else Inr None)"

fun iface_loop :: "endian \<Rightarrow> int \<Rightarrow> ifaddr list \<Rightarrow> iface_map \<Rightarrow> fault + iface_map" where
  "iface_loop host family [] result = Inr result"
| "iface_loop host family (i # is) result = (case iface_entry host family i of
     Inl x \<Rightarrow> Inl x
   | Inr None \<Rightarrow> iface_loop host family is result
   | Inr (Some v) \<Rightarrow> iface_loop host family is (mm_insert string_less (ifa_name i) v result))"

text \<open>\<open>getifaddrs\<close> is the argument \<open>ifs\<close>, \<open>None\<close> when it fails.\<close>

definition GetInterFaceAddresses :: "endian \<Rightarrow> ifaddr list option \<Rightarrow> iface_map \<Rightarrow> int \<Rightarrow> fault + bool \<times> iface_map" where
  "GetInterFaceAddresses host ifs result family = (case ifs of
     None \<Rightarrow> Inr (False, result)
   | Some is \<Rightarrow> (case iface_loop host family is result of Inl x \<Rightarrow> Inl x | Inr m \<Rightarrow> Inr (True, m)))"

definition GetInterFaceAddresses_iface ::
  "endian \<Rightarrow> ifaddr list option \<Rightarrow> (Address option \<times> u32) list \<Rightarrow> string \<Rightarrow> int \<Rightarrow>
     fault + bool \<times> (Address option \<times> u32) list" where
  "GetInterFaceAddresses_iface host ifs result iface family =
     (if iface = [] \<or> iface = ''*'' then
        Inr (True, result @
          (if family = 2 \<or> family = 0 then [(Some (IPv4Address (IPv4Address_new host 0 0)), 0)] else []) @
          (if family = 10 \<or> family = 0 then [(Some (IPv6Address IPv6Address_default), 0)] else []))
      else case GetInterFaceAddresses host ifs [] family of
        Inl x \<Rightarrow> Inl x
      | Inr (False, _) \<Rightarrow> Inr (False, result)
      | Inr (True, results) \<Rightarrow> Inr (True, result @ mm_range string_less iface results))"

subsection \<open>Well-formed addresses\<close>

text \<open>The family tag matches the class, arrays have their declared sizes, and the length a Unix address reports stays
  inside its structure.\<close>

fun wf_address :: "Address \<Rightarrow> bool" where
  "wf_address (IPv4Address a) \<longleftrightarrow> sin_family a = AF_INET \<and> length (sin_zero a) = 8"
| "wf_address (IPv6Address a) \<longleftrightarrow> sin6_family a = AF_INET6 \<and> length (sin6_addr a) = 16"
| "wf_address (UnixAddress a m_length) \<longleftrightarrow> sun_family a = AF_UNIX \<and> length (sun_path a) = 108 \<and> m_length \<le> 110"
| "wf_address (UnknowAddress a) \<longleftrightarrow> length (sa_data a) = 14"

lemma getAddrLen_within: "wf_address a \<Longrightarrow> unat (getAddrLen a) \<le> length (getAddr host a)"
  by (cases a) (simp_all add: in_bytes_def in6_bytes_def un_bytes_def sa_bytes_def word_le_nat_alt)

lemma family_at_getAddr [simp]:
  "family_at host (getAddr host (IPv4Address a4)) = sin_family a4"
  "family_at host (getAddr host (IPv6Address a6)) = sin6_family a6"
  "family_at host (getAddr host (UnixAddress u n)) = sun_family u"
  "family_at host (getAddr host (UnknowAddress s)) = sa_family s"
  by (simp_all add: family_at_def in_bytes_def in6_bytes_def un_bytes_def sa_bytes_def)

lemma in_at_bytes: "length (sin_zero a) = 8 \<Longrightarrow> in_at host (in_bytes host a) = a"
  using family_at_getAddr(1) [of host a] by (simp add: in_at_def in_bytes_def)

lemma in6_at_bytes: "length (sin6_addr a) = 16 \<Longrightarrow> in6_at host (in6_bytes host a) = a"
  using family_at_getAddr(2) [of host a] by (simp add: in6_at_def in6_bytes_def)

lemma sa_at_bytes: "length (sa_data a) = 14 \<Longrightarrow> sa_at host (sa_bytes host a) = a"
  using family_at_getAddr(4) [of host a] by (simp add: sa_at_def sa_bytes_def)

lemma AF_distinct [simp]: "AF_UNIX \<noteq> AF_INET" "AF_UNIX \<noteq> AF_INET6" "AF_INET6 \<noteq> AF_INET" "AF_INET \<noteq> AF_INET6"
  by (simp_all add: AF_UNIX_def AF_INET_def AF_INET6_def)

lemma Address_Create_wf: "Address_Create host addr = Inr (Some a) \<Longrightarrow> wf_address a"
  by (auto simp: Address_Create_def in_at_def in6_at_def sa_at_def split: option.splits if_splits)

lemma setPort_wf: "wf_address a \<Longrightarrow> wf_address (setPort host port a)"
  by (cases a) (simp_all add: ip4_setPort_def ip6_setPort_def)

lemma create_all_wf: "create_all host rs = Inr as \<Longrightarrow> Some a \<in> set as \<Longrightarrow> wf_address a"
  by (induction rs arbitrary: as) (auto split: sum.splits dest: Address_Create_wf)

lemma Lookup_wf:
  "Lookup endian gai [] host family type protocol = Inr (b, as) \<Longrightarrow> Some a \<in> set as \<Longrightarrow> wf_address a"
  by (auto simp: Lookup_def split: prod.splits sum.splits dest: create_all_wf)

text \<open>The addresses a program can get: from the constructors, from the factory functions whatever the resolver answers,
  and from other addresses. \<open>setAddrLen\<close> is what \<open>Socket\<close> calls with the length the kernel reports, at most the size
  of the structure.\<close>

inductive address_made :: "endian \<Rightarrow> Address \<Rightarrow> bool" for host where
  ipv4: "address_made host (IPv4Address (IPv4Address_new host address port))"
| ipv6_default: "address_made host (IPv6Address IPv6Address_default)"
| ipv6: "length address = 16 \<Longrightarrow> address_made host (IPv6Address (IPv6Address_new host address port))"
| unix_default: "address_made host UnixAddress_default"
| unix: "UnixAddress_new path = Inr a \<Longrightarrow> address_made host a"
| unknow: "address_made host (UnknowAddress_new family)"
| create: "Address_Create host addr = Inr (Some a) \<Longrightarrow> address_made host a"
| ip_create: "IPAddress_Create host gai name port = Inr (Some a) \<Longrightarrow> address_made host a"
| lookup: "Lookup host gai [] name family type protocol = Inr (b, as) \<Longrightarrow> Some a \<in> set as \<Longrightarrow> address_made host a"
| port: "address_made host a \<Longrightarrow> address_made host (setPort host port a)"
| addr_len: "address_made host a \<Longrightarrow> v \<le> 110 \<Longrightarrow> address_made host (setAddrLen v a)"
| network4: "address_made host (IPv4Address a) \<Longrightarrow> ip4_networkAddress host p a = Inr (Some n) \<Longrightarrow> address_made host (IPv4Address n)"
| broadcast4: "address_made host (IPv4Address a) \<Longrightarrow> ip4_broadcastAddress host p a = Inr (Some n) \<Longrightarrow> address_made host (IPv4Address n)"
| mask4: "ip4_subnetMask host p = Inr (Some n) \<Longrightarrow> address_made host (IPv4Address n)"
| network6: "address_made host (IPv6Address a) \<Longrightarrow> ip6_networkAddress p a = Inr (Some n) \<Longrightarrow> address_made host (IPv6Address n)"
| broadcast6: "address_made host (IPv6Address a) \<Longrightarrow> ip6_broadcastAddress p a = Inr (Some n) \<Longrightarrow> address_made host (IPv6Address n)"
| mask6: "ip6_subnetMask p = Inr (Some n) \<Longrightarrow> address_made host (IPv6Address n)"

lemma UnixAddress_new_wf:
  assumes "UnixAddress_new path = Inr a"
  shows "wf_address a"
proof -
  define n where "n = (if path \<noteq> [] \<and> hd path = CHR 0x00 then length path else length path + 1)"
  have a: "a = UnixAddress \<lparr>sun_family = AF_UNIX, sun_path = overwrite (replicate 108 (CHR 0x00)) 0
      (take (unat (of_nat n :: u32)) (path @ [CHR 0x00]))\<rparr> (of_nat n + 2)" and le: "\<not> (of_nat n :: u32) > 108"
    using assms by (auto simp: UnixAddress_new_def Let_def n_def split: if_splits)
  have "unat (of_nat n :: u32) \<le> 108" using le by (simp add: word_le_nat_alt not_less)
  then have "length (overwrite (replicate 108 (CHR 0x00)) 0 (take (unat (of_nat n :: u32)) (path @ [CHR 0x00]))) = 108"
    by simp
  moreover have "of_nat n + 2 \<le> (110 :: u32)"
    using \<open>unat (of_nat n :: u32) \<le> 108\<close> by (subst word_le_nat_alt, subst unat_add_lem [THEN iffD1]) simp_all
  ultimately show ?thesis by (simp add: a)
qed

lemma IPAddress_Create_wf: "IPAddress_Create host gai name port = Inr (Some a) \<Longrightarrow> wf_address a"
  by (auto simp: IPAddress_Create_def split: sum.splits list.splits option.splits if_splits
      dest: Address_Create_wf intro: setPort_wf)

lemmas ip4_subnet_defs = ip4_networkAddress_def ip4_broadcastAddress_def ip4_subnetMask_def
lemmas ip6_subnet_defs = ip6_networkAddress_def ip6_broadcastAddress_def ip6_subnetMask_def IPv6Address_default_def

lemma address_made_wf: "address_made host a \<Longrightarrow> wf_address a"
proof (induction rule: address_made.induct)
  case (addr_len a v)
  then show ?case by (cases a) simp_all
qed (auto simp: IPv4Address_new_def IPv6Address_new_def UnixAddress_default_def UnknowAddress_new_def
    ip4_subnet_defs ip6_subnet_defs Let_def split: if_splits sum.splits
    dest: UnixAddress_new_wf Address_Create_wf IPAddress_Create_wf Lookup_wf intro: setPort_wf)



subsection \<open>Copies of addresses\<close>

text \<open>\<open>Create\<close> on the memory of an address gives the address back, for IPv4, IPv6 and unknown families. A Unix
  address is not recovered: it becomes an \<open>UnknowAddress\<close> with the first 14 bytes of the path.\<close>

theorem address_create_copies:
  assumes "wf_address a"
  shows "case a of
      UnixAddress u n \<Rightarrow> Address_Create host (Some (getAddr host a)) =
        Inr (Some (UnknowAddress \<lparr>sa_family = AF_UNIX, sa_data = map of_char (take 14 (sun_path u))\<rparr>))
    | UnknowAddress s \<Rightarrow> sa_family s \<noteq> AF_INET \<and> sa_family s \<noteq> AF_INET6 \<longrightarrow>
        Address_Create host (Some (getAddr host a)) = Inr (Some a)
    | _ \<Rightarrow> Address_Create host (Some (getAddr host a)) = Inr (Some a)"
proof (cases a)
  case (IPv4Address x)
  then show ?thesis using assms family_at_getAddr(1) [of host x] in_at_bytes [of x host]
    by (simp add: Address_Create_def) (simp add: in_bytes_def)
next
  case (IPv6Address x)
  then show ?thesis using assms family_at_getAddr(2) [of host x] in6_at_bytes [of x host]
    by (simp add: Address_Create_def) (simp add: in6_bytes_def)
next
  case (UnixAddress u n)
  then have "family_at host (un_bytes host u) = AF_UNIX" "length (un_bytes host u) = 110"
    using assms family_at_getAddr(3) [of host u n] by (simp_all add: un_bytes_def)
  then show ?thesis using UnixAddress assms
    by (simp add: Address_Create_def sa_at_def) (simp add: un_bytes_def take_map)
next
  case (UnknowAddress s)
  then show ?thesis using assms family_at_getAddr(4) [of host s] sa_at_bytes [of s host]
    by (simp add: Address_Create_def) (simp add: sa_bytes_def)
qed

theorem address_create_copies_witness:
  "Address_Create SYLAR_LITTLE_ENDIAN
     (Some (getAddr SYLAR_LITTLE_ENDIAN (IPv4Address (IPv4Address_new SYLAR_LITTLE_ENDIAN 0x7F000001 80)))) =
   Inr (Some (IPv4Address (IPv4Address_new SYLAR_LITTLE_ENDIAN 0x7F000001 80)))"
proof -
  have "wf_address (IPv4Address (IPv4Address_new SYLAR_LITTLE_ENDIAN 0x7F000001 80))" by (simp add: IPv4Address_new_def)
  from address_create_copies [OF this, of SYLAR_LITTLE_ENDIAN] show ?thesis by simp
qed

subsection \<open>Host and service\<close>

lemma memchr_append: "c \<notin> set xs \<Longrightarrow> memchr c (xs @ c # ys) = Some (length xs)"
  by (induction xs) (auto simp: memchr_def)

lemma memchr_None [simp]: "memchr c xs = None \<longleftrightarrow> c \<notin> set xs"
  by (simp add: memchr_def)

lemma split_host_bracket:
  assumes "CHR '']'' \<notin> set ip" and "ip \<noteq> []"
  shows "split_host (CHR ''['' # ip @ '']'') = (ip, None)"
    and "split_host (CHR ''['' # ip @ '']:'' @ port) = (ip, Some port)"
  using assms by (simp_all add: split_host_def split_bracket_def memchr_append nth_append)

lemma split_bracket_none: "hd host \<noteq> CHR ''['' \<Longrightarrow> split_bracket host = ([], None)"
  by (simp add: split_bracket_def)

lemma split_host_plain: "hd name \<noteq> CHR ''['' \<Longrightarrow> CHR '':'' \<notin> set name \<Longrightarrow> split_host name = (name, None)"
  by (simp add: split_host_def split_bracket_none split_colon_def memchr_def)

lemma split_host_port:
  "name \<noteq> [] \<Longrightarrow> hd name \<noteq> CHR ''['' \<Longrightarrow> CHR '':'' \<notin> set name \<Longrightarrow> CHR '':'' \<notin> set port \<Longrightarrow>
   split_host (name @ '':'' @ port) = (name, Some port)"
  by (simp add: split_host_def split_bracket_none split_colon_def memchr_append)

lemma split_host_bare_ip6:
  "hd (a @ '':'' @ rest) \<noteq> CHR ''['' \<Longrightarrow> CHR '':'' \<notin> set a \<Longrightarrow> CHR '':'' \<in> set rest \<Longrightarrow>
   split_host (a @ '':'' @ rest) = (a @ '':'' @ rest, Some ('':'' @ rest))"
  by (simp add: split_host_def split_bracket_none split_colon_def memchr_append)

text \<open>What \<open>Lookup\<close> passes to the resolver: for \<open>name\<close>, \<open>name:port\<close>, \<open>[v6]\<close> and \<open>[v6]:port\<close> the node and, where
  given, the service. For an IPv6 literal without brackets the node is the whole text, as intended, but the
  service is not left out: it is the rest of the literal from its first colon on.\<close>

theorem lookup_host_and_service:
  assumes "name \<noteq> []" and "hd name \<noteq> CHR ''[''" and "CHR '':'' \<notin> set name" and "CHR '':'' \<notin> set port"
    and "ip6 \<noteq> []" and "CHR '']'' \<notin> set ip6" and "CHR '':'' \<in> set rest"
  shows "split_host name = (name, None) \<and> split_host (name @ '':'' @ port) = (name, Some port) \<and>
    split_host (''['' @ ip6 @ '']'') = (ip6, None) \<and> split_host (''['' @ ip6 @ '']:'' @ port) = (ip6, Some port) \<and>
    split_host (name @ '':'' @ rest) = (name @ '':'' @ rest, Some ('':'' @ rest))"
  using assms split_host_bracket [of ip6] split_host_port [of name port] split_host_bare_ip6 [of name rest]
  by (simp add: split_host_plain)

theorem lookup_host_and_service_witness:
  "split_host ''2001:db8::1'' = (''2001:db8::1'', Some '':db8::1'')"
  using lookup_host_and_service [of "''2001''" "''80''" "''::1''" "''db8::1''"] by simp

lemma LookupAny_some:
  "LookupAny endian gai host family type protocol = Inr (Some a) \<Longrightarrow>
   \<exists>results. gai (c_str (fst (split_host host))) (map_option c_str (snd (split_host host))) family type protocol = Inr results \<and>
     Address_Create endian (hd results) = Inr (Some a) \<and> results \<noteq> []"
  by (auto simp: LookupAny_def Lookup_def neq_Nil_conv elim!: create_all.elims
      split: prod.splits sum.splits bool.splits list.splits)

subsection \<open>Order\<close>

lemma memcmp_returns:
  assumes "n \<le> length xs" and "n \<le> length ys"
  shows "\<exists>d. memcmp xs ys n = Inr d \<and> memcmp ys xs n = Inr (- d) \<and> (d = 0 \<longleftrightarrow> take n xs = take n ys)"
  using assms
proof (induction xs ys n rule: memcmp.induct)
  case (2 x xs y ys n)
  then show ?case by (cases x y rule: linorder_cases) auto
qed auto

lemma addr_cmp:
  assumes "wf_address l" and "wf_address r"
  shows "\<exists>d. memcmp (getAddr host l) (getAddr host r) (unat (min (getAddrLen l) (getAddrLen r))) = Inr d \<and>
    memcmp (getAddr host r) (getAddr host l) (unat (min (getAddrLen r) (getAddrLen l))) = Inr (- d)"
proof -
  let ?n = "unat (min (getAddrLen l) (getAddrLen r))"
  have "?n \<le> unat (getAddrLen l)" "?n \<le> unat (getAddrLen r)" by (simp_all add: min_def word_le_nat_alt)
  then have "?n \<le> length (getAddr host l)" "?n \<le> length (getAddr host r)"
    using getAddrLen_within [OF assms(1), of host] getAddrLen_within [OF assms(2), of host] by auto
  from memcmp_returns [OF this] show ?thesis by (auto simp: min.commute)
qed

definition abstract_socket :: "string \<Rightarrow> Address" where
  "abstract_socket name = (case UnixAddress_new (CHR 0x00 # name) of Inl _ \<Rightarrow> UnixAddress_default | Inr a \<Rightarrow> a)"

lemma less_cycle:
  "Address_less SYLAR_LITTLE_ENDIAN (5, abstract_socket ''p'') (6, abstract_socket ''pq'') = Inr True"
  "Address_less SYLAR_LITTLE_ENDIAN (6, abstract_socket ''pq'') (4, abstract_socket ''pr'') = Inr True"
  "Address_less SYLAR_LITTLE_ENDIAN (4, abstract_socket ''pr'') (5, abstract_socket ''p'') = Inr True"
  by code_simp+

text \<open>\<open>operator==\<close> holds exactly for equal lengths and equal bytes. \<open>operator<\<close> decides between any two objects in
  one direction only, also between two equal addresses: when the common bytes agree it compares where the objects
  lie in memory. It is no strict weak order: three abstract sockets can lie in memory so that each is less than
  the next, round in a circle.\<close>

theorem address_order:
  assumes "wf_address l" and "wf_address r" and "p \<noteq> q"
  shows "Address_eq host l r =
      Inr (getAddrLen l = getAddrLen r \<and> take (unat (getAddrLen l)) (getAddr host l) = take (unat (getAddrLen l)) (getAddr host r)) \<and>
    (\<exists>b. Address_less host (p, l) (q, r) = Inr b \<and> Address_less host (q, r) (p, l) = Inr (\<not> b)) \<and>
    (\<exists>x y z. {x, y, z} \<subseteq> {a. wf_address (snd a)} \<and> Address_less SYLAR_LITTLE_ENDIAN x y = Inr True \<and>
      Address_less SYLAR_LITTLE_ENDIAN y z = Inr True \<and> Address_less SYLAR_LITTLE_ENDIAN z x = Inr True)"
proof (intro conjI)
  show "Address_eq host l r =
      Inr (getAddrLen l = getAddrLen r \<and> take (unat (getAddrLen l)) (getAddr host l) = take (unat (getAddrLen l)) (getAddr host r))"
    using memcmp_returns [of "unat (getAddrLen l)" "getAddr host l" "getAddr host r"]
      getAddrLen_within [OF assms(1), of host] getAddrLen_within [OF assms(2), of host]
    by (auto simp: Address_eq_def)
  show "\<exists>b. Address_less host (p, l) (q, r) = Inr b \<and> Address_less host (q, r) (p, l) = Inr (\<not> b)"
    using addr_cmp [OF assms(1,2), of host] assms(3) by (auto simp: Address_less_def)
  have wf: "wf_address (abstract_socket n)" for n
    using UnixAddress_new_wf [of "CHR 0x00 # n"]
    by (auto simp: abstract_socket_def UnixAddress_default_def split: sum.split)
  show "\<exists>x y z. {x, y, z} \<subseteq> {a. wf_address (snd a)} \<and> Address_less SYLAR_LITTLE_ENDIAN x y = Inr True \<and>
      Address_less SYLAR_LITTLE_ENDIAN y z = Inr True \<and> Address_less SYLAR_LITTLE_ENDIAN z x = Inr True"
    by (rule exI [of _ "(5, abstract_socket ''p'')"], rule exI [of _ "(6, abstract_socket ''pq'')"],
        rule exI [of _ "(4, abstract_socket ''pr'')"]) (simp add: less_cycle wf)
qed

text \<open>The same loopback address twice in memory.\<close>

theorem address_order_witness:
  "Address_eq SYLAR_LITTLE_ENDIAN (IPv6Address IPv6Address_default) (IPv6Address IPv6Address_default) = Inr True"
proof -
  have "wf_address (IPv6Address IPv6Address_default)" by (simp add: IPv6Address_default_def)
  from address_order [OF this this, of 1 2 SYLAR_LITTLE_ENDIAN] show ?thesis by simp
qed

subsection \<open>The text of a Unix address\<close>

lemma UnixAddress_new_fits:
  assumes "n = (if path \<noteq> [] \<and> hd path = CHR 0x00 then length path else length path + 1)" and "n \<le> 108"
  shows "UnixAddress_new path = Inr (UnixAddress
     \<lparr>sun_family = AF_UNIX, sun_path = overwrite (replicate 108 (CHR 0x00)) 0 (take n (path @ [CHR 0x00]))\<rparr> (of_nat n + 2))"
proof -
  have u: "unat (of_nat n :: u32) = n" using assms(2) by (simp add: unsigned_of_nat take_bit_nat_eq_self)
  then have "\<not> (of_nat n :: u32) > 108" using assms(2) by (simp add: word_less_nat_alt)
  then show ?thesis unfolding UnixAddress_new_def Let_def assms(1) [symmetric] by (simp add: u)
qed

lemma UnixAddress_new_too_long:
  assumes "n = (if path \<noteq> [] \<and> hd path = CHR 0x00 then length path else length path + 1)" and "108 < n" and "n < 2 ^ 32"
  shows "UnixAddress_new path = Inl (LogicError ''path too long'')"
proof -
  have "unat (of_nat n :: u32) = n" using assms(3) by (simp add: unsigned_of_nat take_bit_nat_eq_self)
  then have "(of_nat n :: u32) > 108" using assms(2) by (simp add: word_less_nat_alt)
  then show ?thesis unfolding UnixAddress_new_def Let_def assms(1) [symmetric] by simp
qed

text \<open>A Unix address prints as the path it was made from; an abstract one, whose name starts with NUL, as \<open>\0\<close> and
  the name. A path that does not fit the structure with its terminator, or a name that does not fit without one,
  raises "path too long".\<close>

theorem unix_address_text:
  assumes "path \<noteq> []" and "CHR 0x00 \<notin> set path" and "length path < 2 ^ 32 - 1" and "length name < 2 ^ 32 - 1"
  shows "(if length path < 108
      then (\<exists>a n. UnixAddress_new path = Inr (UnixAddress a n) \<and> unix_insert a n = Inr path \<and> n = of_nat (length path) + 3)
      else UnixAddress_new path = Inl (LogicError ''path too long'')) \<and>
    (if length name < 108
      then (\<exists>a n. UnixAddress_new (CHR 0x00 # name) = Inr (UnixAddress a n) \<and>
        unix_insert a n = Inr ([CHR 0x5C, CHR ''0''] @ name) \<and> n = of_nat (length name) + 3)
      else UnixAddress_new (CHR 0x00 # name) = Inl (LogicError ''path too long''))"
proof (intro conjI)
  obtain c cs where path: "path = c # cs" and c: "c \<noteq> CHR 0x00" using assms(1,2) by (cases path) auto
  have n: "Suc (length path) = (if path \<noteq> [] \<and> hd path = CHR 0x00 then length path else length path + 1)" using path c by simp
  show "if length path < 108
      then (\<exists>a n. UnixAddress_new path = Inr (UnixAddress a n) \<and> unix_insert a n = Inr path \<and> n = of_nat (length path) + 3)
      else UnixAddress_new path = Inl (LogicError ''path too long'')"
    using UnixAddress_new_fits [OF n] UnixAddress_new_too_long [OF n] assms(2,3) c
      c_str_append [of cs "CHR 0x00 # replicate (106 - length cs) (CHR 0x00)"]
    by (auto simp: path unix_insert_def overwrite_def c_str_def)
  have m: "Suc (length name) = (if CHR 0x00 # name \<noteq> [] \<and> hd (CHR 0x00 # name) = CHR 0x00 then length (CHR 0x00 # name)
      else length (CHR 0x00 # name) + 1)" by simp
  have u: "unat (of_nat (length name) + 3 - 2 - 1 :: u32) = length name" "(2 :: u32) < of_nat (length name) + 3" if "length name < 108"
  proof -
    have "of_nat (length name) + 3 - 2 - 1 = (of_nat (length name) :: u32)" by simp
    moreover have "unat (of_nat (length name) :: u32) = length name" using that by (simp add: unsigned_of_nat take_bit_nat_eq_self)
    ultimately show "unat (of_nat (length name) + 3 - 2 - 1 :: u32) = length name" by (simp only:)
    have "unat (of_nat (length name + 3) :: u32) = length name + 3" using that by (simp only: unsigned_of_nat) (simp add: take_bit_nat_eq_self)
    then have "unat (of_nat (length name) + 3 :: u32) = length name + 3" by simp
    then show "(2 :: u32) < of_nat (length name) + 3" by (simp add: word_less_nat_alt)
  qed
  show "if length name < 108
      then (\<exists>a n. UnixAddress_new (CHR 0x00 # name) = Inr (UnixAddress a n) \<and>
        unix_insert a n = Inr ([CHR 0x5C, CHR ''0''] @ name) \<and> n = of_nat (length name) + 3)
      else UnixAddress_new (CHR 0x00 # name) = Inl (LogicError ''path too long'')"
    using UnixAddress_new_fits [OF m] UnixAddress_new_too_long [OF m] assms(4) u
    by (auto simp: unix_insert_def overwrite_def add.commute)
qed

theorem unix_address_text_witness:
  "\<exists>a n. UnixAddress_new ''/tmp/sylar.sock'' = Inr (UnixAddress a n) \<and> unix_insert a n = Inr ''/tmp/sylar.sock''"
  using unix_address_text [of "''/tmp/sylar.sock''" "''log''"] by (auto split: if_splits)

subsection \<open>Prefix lengths of the interfaces\<close>

text \<open>\<open>value & (value - 1)\<close> clears the lowest bit that is set.\<close>

lemma bit_clear_lowest_int:
  "0 < (v :: int) \<Longrightarrow> bit (v AND (v - 1)) k \<longleftrightarrow> bit v k \<and> (\<exists>j<k. bit v j)"
proof (induction k arbitrary: v)
  case 0
  then show ?case by (simp add: bit_0 even_and_iff)
next
  case (Suc k)
  have ex: "(\<exists>j<Suc k. bit v j) \<longleftrightarrow> odd v \<or> (\<exists>j<k. bit (v div 2) j)"
    by (auto simp: less_Suc_eq_0_disj bit_0 bit_Suc)
  have step: "bit (v AND (v - 1)) (Suc k) \<longleftrightarrow> bit (v div 2) k \<and> bit ((v - 1) div 2) k"
    by (subst bit_and_iff) (simp add: bit_Suc)
  show ?case
  proof (cases "odd v")
    case True
    then have "(v - 1) div 2 = v div 2" by (auto elim!: oddE)
    then show ?thesis using True ex step by (simp add: bit_Suc)
  next
    case False
    then obtain u where u: "v = 2 * u" by (auto elim: evenE)
    then have "(v - 1) div 2 = u - 1" and "v div 2 = u" by simp_all
    moreover have "0 < u" using Suc.prems u by simp
    ultimately show ?thesis using False ex step Suc.IH [of u] by (simp add: bit_and_iff) (simp add: bit_Suc)
  qed
qed

lemma bit_clear_lowest:
  fixes v :: "'a::len word"
  assumes "v \<noteq> 0"
  shows "bit (v AND (v - 1)) k \<longleftrightarrow> bit v k \<and> (\<exists>j<k. bit v j)"
proof (cases "k < LENGTH('a)")
  case True
  have "uint v \<noteq> 0" using assms by (metis uint_0_iff)
  then have pos: "0 < uint v" using unsigned_greater_eq [of v, where 'a = int] by linarith
  then have "uint (v - 1) = uint v - 1" by (simp add: uint_minus_simple_alt word_le_def uint_sub_if' Suc_leI)
  with pos have "bit (uint (v AND (v - 1))) k \<longleftrightarrow> bit (uint v) k \<and> (\<exists>j<k. bit (uint v) j)"
    using bit_clear_lowest_int [of "uint v" k] by (simp add: uint_and)
  then show ?thesis using True by (auto simp: bit_uint_iff)
qed (auto dest: bit_imp_le_length)

lemma CountBytes_card: "CountBytes v = of_nat (card {k. bit v k})" for v :: "'a::len word"
proof (induction v rule: CountBytes.induct)
  case (1 v)
  show ?case
  proof (cases "v = 0")
    case True
    then show ?thesis by (simp add: CountBytes.simps)
  next
    case False
    have fin: "finite {k. bit v k}" by (rule finite_subset [of _ "{..<LENGTH('a)}"]) (auto dest: bit_imp_le_length)
    have ne: "{k. bit v k} \<noteq> {}" using False bit_word_eqI [of v 0] by auto
    define m where "m = Min {k. bit v k}"
    have "bit v m" and least: "bit v j \<Longrightarrow> m \<le> j" for j
      using Min_in [OF fin ne] Min_le [OF fin] by (auto simp: m_def)
    then have "{k. bit (v AND (v - 1)) k} = {k. bit v k} - {m}"
      by (auto simp: bit_clear_lowest [OF False] not_less [symmetric]) (metis linorder_neqE_nat not_less)
    then have "Suc (card {k. bit (v AND (v - 1)) k}) = card {k. bit v k}"
      using card_Suc_Diff1 [OF fin, of m] \<open>bit v m\<close> by simp
    then show ?thesis using 1 [OF False] False by (simp add: CountBytes.simps [of v] flip: of_nat_Suc)
  qed
qed

lemma card_byteswap32: "card {k. bit (byteswap32 v) k} = card {k. bit v k}"
proof -
  let ?f = "\<lambda>k. 8 * (3 - k div 8) + k mod 8 :: nat"
  have f: "?f (?f k) = k \<and> ?f k < 32" if "k < 32" for k
  proof -
    have "k div 8 < 4" "k mod 8 < 8" using that by simp_all
    then have "?f k div 8 = 3 - k div 8" "?f k mod 8 = k mod 8" "?f k < 32"
      by (simp_all only: div_mult_self4 mod_mult_self4 div_less mod_less)
    then show ?thesis using \<open>k div 8 < 4\<close> by simp
  qed
  have g: "8 * (3 - (3 - k div 8)) + k mod 8 = k" if "k < 32" for k :: nat
  proof -
    have "3 - (3 - k div 8) = k div 8" using that by simp
    then show ?thesis by simp
  qed
  have "k < 32" if "bit v k" for k using bit_imp_le_length [OF that] by simp
  then have "bij_betw ?f {k. bit (byteswap32 v) k} {k. bit v k}"
    by (intro bij_betw_byWitness [where f' = ?f]) (auto simp: bit_byteswap32 f g)
  then show ?thesis by (rule bij_betw_same_card)
qed

lemma CountBytes_swap: "CountBytes (byteswapOnLittleEndian32 host v) = CountBytes v"
  by (simp add: CountBytes_card byteswapOnLittleEndian32_def card_byteswap32)

lemma CountBytes_high: "n \<le> LENGTH('a) \<Longrightarrow> CountBytes (NOT (mask n) :: 'a::len word) = of_nat (LENGTH('a) - n)"
proof -
  assume "n \<le> LENGTH('a)"
  then have "{k. bit (NOT (mask n) :: 'a word) k} = {n..<LENGTH('a)}" by (auto simp: bit_simps)
  then show ?thesis by (simp add: CountBytes_card)
qed

text \<open>The prefix length that \<open>GetInterFaceAddresses\<close> counts from a netmask is the one \<open>subnetMask\<close> made the mask
  for, for every prefix length that \<open>subnetMask\<close> accepts.\<close>

theorem netmask_prefix_length:
  assumes "2 \<le> p4" and "p4 \<le> 32" and "p6 < 128"
  shows "(\<exists>m. ip4_subnetMask host (of_nat p4) = Inr (Some m) \<and> CountBytes (sin_addr m) = of_nat p4) \<and>
    (\<exists>m. ip6_subnetMask (of_nat p6) = Inr (Some m) \<and> sum_list (map CountBytes (sin6_addr m)) = of_nat p6)"
proof
  obtain m where m: "ip4_subnetMask host (of_nat p4) = Inr (Some m)" "ip4_num host m = NOT (mask (32 - p4))"
    using ip4_subnet_nums(3) [OF assms(1,2)] by blast
  have "CountBytes (sin_addr m) = CountBytes (ip4_num host m)" by (simp add: ip4_num_def CountBytes_swap)
  then show "\<exists>m. ip4_subnetMask host (of_nat p4) = Inr (Some m) \<and> CountBytes (sin_addr m) = of_nat p4"
    using m CountBytes_high [of "32 - p4", where 'a = 32] assms by simp
next
  let ?q = "p6 div 8" and ?r = "p6 mod 8"
  have u: "unat (of_nat p6 :: u32) = p6" using assms(3) by (simp add: unsigned_of_nat take_bit_nat_eq_self)
  have q: "?q < 16" and r: "?r < 8" using assms(3) by simp_all
  have ff: "CountBytes (0xff :: u8) = 8"
  proof -
    have "(0xff :: u8) = NOT (mask 0)" by simp
    then show ?thesis using CountBytes_high [of 0, where 'a = 8] by (simp only:) simp
  qed
  have zero: "CountBytes (0 :: u8) = 0" by (simp add: CountBytes.simps)
  have mid: "CountBytes (NOT (mask (8 - ?r)) :: u8) = of_nat ?r"
    using CountBytes_high [of "8 - ?r", where 'a = 8] r by simp
  have "sum_list (map CountBytes (replicate ?q 0xff @ [NOT (mask (8 - ?r)) :: u8] @ replicate (15 - ?q) 0)) =
      of_nat ?q * of_nat 8 + of_nat ?r"
    by (simp add: sum_list_replicate ff zero mid)
  also have "\<dots> = of_nat (8 * ?q + ?r)" by (simp only: of_nat_add of_nat_mult mult.commute)
  also have "8 * ?q + ?r = p6" by simp
  finally show "\<exists>m. ip6_subnetMask (of_nat p6) = Inr (Some m) \<and> sum_list (map CountBytes (sin6_addr m)) = of_nat p6"
    using CreateMask8 [OF assms(3)] q by (simp add: ip6_subnetMask_def Let_def u)
qed

theorem netmask_prefix_length_witness:
  "\<exists>m. ip4_subnetMask SYLAR_LITTLE_ENDIAN 24 = Inr (Some m) \<and> CountBytes (sin_addr m) = 24"
  using netmask_prefix_length [of 24 64 SYLAR_LITTLE_ENDIAN] by simp

subsection \<open>The addresses of an interface\<close>

lemma iface_loop_sorted:
  "iface_loop host family is m = Inr m' \<Longrightarrow> mm_sorted string_less m \<Longrightarrow> mm_sorted string_less m'"
  by (induction "is" arbitrary: m) (auto split: sum.splits option.splits intro: str.mm_insert_sorted)

lemma iface_loop_range:
  assumes "\<And>i. i \<in> set is \<Longrightarrow> iface_entry host family i = Inr (e i)" and "mm_sorted string_less m"
  shows "\<exists>m'. iface_loop host family is m = Inr m' \<and>
    mm_range string_less k m' = mm_range string_less k m @ List.map_filter (\<lambda>i. if ifa_name i = k then e i else None) is"
  using assms
proof (induction "is" arbitrary: m)
  case (Cons i "is")
  have i: "iface_entry host family i = Inr (e i)" using Cons.prems by simp
  show ?case
  proof (cases "e i")
    case None
    then show ?thesis using Cons i by (simp add: map_filter_simps)
  next
    case (Some v)
    let ?m = "mm_insert string_less (ifa_name i) v m"
    obtain m' where "iface_loop host family is ?m = Inr m'"
      "mm_range string_less k m' = mm_range string_less k ?m @ List.map_filter (\<lambda>i. if ifa_name i = k then e i else None) is"
      using Cons.IH [of ?m, OF _ str.mm_insert_sorted [OF Cons.prems(2)]] Cons.prems(1) by fastforce
    then show ?thesis using i Some str.mm_range_insert [OF Cons.prems(2)] by (auto simp: map_filter_simps)
  qed
qed (simp add: map_filter_simps)

lemma iface_loop_null:
  "i \<in> set is \<Longrightarrow> ifa_addr i = None \<Longrightarrow> \<exists>x. iface_loop host family is m = Inl x"
  by (induction "is" arbitrary: m) (auto simp: iface_entry_def split: sum.splits option.splits)

text \<open>Asked for an interface by name, \<open>GetInterFaceAddresses\<close> appends that interface's addresses with their prefix
  lengths in the order the system lists them, and no others; asked for \<open>*\<close> or for no name, the wildcard address of
  every family wanted. An interface without an address, which \<open>getifaddrs\<close> reports with a null pointer, makes it
  dereference that pointer, whichever interface was asked for.\<close>

theorem interface_addresses:
  assumes "\<And>i. i \<in> set is \<Longrightarrow> iface_entry host family i = Inr (e i)" and "iface \<noteq> []" and "iface \<noteq> ''*''"
    and "ifa_addr i0 = None" and "i0 \<in> set is'"
  shows "GetInterFaceAddresses_iface host (Some is) result iface family =
      Inr (True, result @ List.map_filter (\<lambda>i. if ifa_name i = iface then e i else None) is) \<and>
    GetInterFaceAddresses_iface host None result iface family = Inr (False, result) \<and>
    (\<exists>x. GetInterFaceAddresses_iface host (Some is') result iface family = Inl x)"
proof (intro conjI)
  have "mm_sorted string_less ([] :: iface_map)" by (simp add: mm_sorted_def)
  then obtain m where "iface_loop host family is [] = Inr m"
    "mm_range string_less iface m = List.map_filter (\<lambda>i. if ifa_name i = iface then e i else None) is"
    using iface_loop_range [of "is" host family e "[]" iface] assms(1) by (auto simp: mm_range_def)
  then show "GetInterFaceAddresses_iface host (Some is) result iface family =
      Inr (True, result @ List.map_filter (\<lambda>i. if ifa_name i = iface then e i else None) is)"
    using assms(2,3) by (simp add: GetInterFaceAddresses_iface_def GetInterFaceAddresses_def)
  show "GetInterFaceAddresses_iface host None result iface family = Inr (False, result)"
    using assms(2,3) by (simp add: GetInterFaceAddresses_iface_def GetInterFaceAddresses_def)
  show "\<exists>x. GetInterFaceAddresses_iface host (Some is') result iface family = Inl x"
    using iface_loop_null [OF assms(5,4), of host family "[]"] assms(2,3)
    by (auto simp: GetInterFaceAddresses_iface_def GetInterFaceAddresses_def)
qed

text \<open>The loopback interface, 127.0.0.1 with mask 255.0.0.0, and an interface without an address.\<close>

theorem interface_addresses_witness:
  "\<exists>lo tun. GetInterFaceAddresses_iface SYLAR_LITTLE_ENDIAN (Some [lo]) [] ''lo'' 2 =
       Inr (True, [(Some (IPv4Address (IPv4Address_new SYLAR_LITTLE_ENDIAN 0x7F000001 0)), 8)]) \<and>
     (\<exists>x. GetInterFaceAddresses_iface SYLAR_LITTLE_ENDIAN (Some [lo, tun]) [] ''lo'' 2 = Inl x)"
proof -
  let ?lo = "\<lparr>ifa_name = ''lo'', ifa_addr = Some (in_bytes SYLAR_LITTLE_ENDIAN (IPv4Address_new SYLAR_LITTLE_ENDIAN 0x7F000001 0)),
    ifa_netmask = Some (in_bytes SYLAR_LITTLE_ENDIAN (IPv4Address_new SYLAR_LITTLE_ENDIAN 0xFF000000 0))\<rparr>"
  let ?tun = "\<lparr>ifa_name = ''tun0'', ifa_addr = None, ifa_netmask = None\<rparr>"
  let ?v = "Some (Some (IPv4Address (IPv4Address_new SYLAR_LITTLE_ENDIAN 0x7F000001 0)), 8)"
  have lo: "iface_entry SYLAR_LITTLE_ENDIAN 2 ?lo = Inr ?v" by code_simp
  have "i \<in> set [?lo] \<Longrightarrow> iface_entry SYLAR_LITTLE_ENDIAN 2 i = Inr ?v" for i using lo by simp
  from interface_addresses [of "[?lo]" SYLAR_LITTLE_ENDIAN 2 "\<lambda>_. ?v" "''lo''" ?tun "[?lo, ?tun]" "[]", OF this]
  have "GetInterFaceAddresses_iface SYLAR_LITTLE_ENDIAN (Some [?lo]) [] ''lo'' 2 =
       Inr (True, [(Some (IPv4Address (IPv4Address_new SYLAR_LITTLE_ENDIAN 0x7F000001 0)), 8)]) \<and>
     (\<exists>x. GetInterFaceAddresses_iface SYLAR_LITTLE_ENDIAN (Some [?lo, ?tun]) [] ''lo'' 2 = Inl x)"
    by (simp add: map_filter_simps)
  then show ?thesis by blast
qed

end
