(* ===== verification/Socket.thy ===== *)
theory Socket
  imports Hook Address
begin

text \<open>
  \<open>src/socket.cc\<close>, \<open>include/sylar/socket.hh\<close>: sockets over the hooked system calls.

  A \<open>Socket\<close> object is a record; a member function works on the object together with the part of the process it
  touches, \<open>sys\<close>: the descriptor contexts, the \<open>IOManager\<close> of the thread if it has one, and the calls made to the
  kernel so far. What the kernel answers is an argument of each operation: the descriptor of \<open>socket(2)\<close> or -1, the
  \<open>sysret\<close> of other calls, and for \<open>getsockname\<close> and \<open>getpeername\<close> the error or the memory written and the length.
  \<open>en\<close> is \<open>t_hook_enable\<close> and \<open>fstat\<close> what \<open>fstat(2)\<close> says of a descriptor, as in \<open>Hook\<close>. Messages to the log are
  left out.
\<close>

definition SOCK_STREAM :: int where "SOCK_STREAM = 1"
definition SOCK_DGRAM :: int where "SOCK_DGRAM = 2"
definition IPPROTO_TCP :: int where "IPPROTO_TCP = 6"
definition TCP_NODELAY :: int where "TCP_NODELAY = 1"
definition SO_REUSEADDR :: int where "SO_REUSEADDR = 2"

datatype syscall =
    SysSetsockopt int int int optval
  | SysBind int "u8 list"
  | SysListen int int
  | SysConnect int "u8 list"
  | SysShutdown int
  | SysClose int

record 'c sys =
  sy_fdm :: fdm
  sy_iom :: "'c iom option"
  sy_calls :: "syscall list"

record Socket =
  so_sock :: int
  so_family :: int
  so_type :: int
  so_protocol :: int
  so_isConnected :: bool
  so_localAddress :: "Address option"
  so_remoteAddress :: "Address option"

type_synonym name_answer = "int + u8 list \<times> u32"

definition called :: "syscall \<Rightarrow> 'c sys \<Rightarrow> 'c sys" where
  "called c sy = sy\<lparr>sy_calls := sy_calls sy @ [c]\<rparr>"

text \<open>A call that works on the descriptor contexts.\<close>

definition on_fdm :: "(fdm \<Rightarrow> ('a, fdm) outcome) \<Rightarrow> Socket \<times> 'c sys \<Rightarrow> ('a, Socket \<times> 'c sys) outcome" where
  "on_fdm f st = (case f (sy_fdm (snd st)) of
     Ok v m \<Rightarrow> Ok v (fst st, (snd st)\<lparr>sy_fdm := m\<rparr>)
   | Throw e m \<Rightarrow> Throw e (fst st, (snd st)\<lparr>sy_fdm := m\<rparr>)
   | Crash x \<Rightarrow> Crash x)"

subsection \<open>Construction and options\<close>

definition Socket_new :: "int \<Rightarrow> int \<Rightarrow> int \<Rightarrow> Socket" where
  "Socket_new family type protocol =
     \<lparr>so_sock = -1, so_family = family, so_type = type, so_protocol = protocol, so_isConnected = False,
      so_localAddress = None, so_remoteAddress = None\<rparr>"

definition isVaild :: "Socket \<Rightarrow> bool" where
  "isVaild so \<longleftrightarrow> so_sock so \<noteq> -1"

definition getSendTimeout :: "(int \<Rightarrow> bool option) \<Rightarrow> Socket \<times> 'c sys \<Rightarrow> (u64, Socket \<times> 'c sys) outcome" where
  "getSendTimeout fstat st =
     andThen (on_fdm (fdm_get fstat (so_sock (fst st)) False)) (\<lambda>ctx.
       ret (case ctx of Some c \<Rightarrow> getTimeout SO_SNDTIMEO c | None \<Rightarrow> - 1)) st"

definition getRecvTimeout :: "(int \<Rightarrow> bool option) \<Rightarrow> Socket \<times> 'c sys \<Rightarrow> (u64, Socket \<times> 'c sys) outcome" where
  "getRecvTimeout fstat st =
     andThen (on_fdm (fdm_get fstat (so_sock (fst st)) False)) (\<lambda>ctx.
       ret (case ctx of Some c \<Rightarrow> getTimeout SO_RCVTIMEO c | None \<Rightarrow> - 1)) st"

definition setOption :: "bool \<Rightarrow> (int \<Rightarrow> bool option) \<Rightarrow> int \<Rightarrow> int \<Rightarrow> optval \<Rightarrow> sysret \<Rightarrow> Socket \<times> 'c sys \<Rightarrow>
    (bool, Socket \<times> 'c sys) outcome" where
  "setOption en fstat level option v r st =
     andThen (on_fdm (hook_setsockopt en fstat (so_sock (fst st)) level option v r))
       (\<lambda>rt (so, sy). Ok (rt = SRet 0) (so, called (SysSetsockopt (so_sock so) level option v) sy)) st"

text \<open>\<open>getOption\<close> of an \<open>int\<close>: \<open>got\<close> is the error or the value delivered.\<close>

definition getOption :: "int + int \<Rightarrow> int \<Rightarrow> bool \<times> int" where
  "getOption got result = (case got of Inl _ \<Rightarrow> (False, result) | Inr v \<Rightarrow> (True, v))"

definition getError :: "int + int \<Rightarrow> int" where
  "getError got = (case getOption got 0 of (True, error) \<Rightarrow> error | (False, _) \<Rightarrow> (case got of Inl errno \<Rightarrow> errno | Inr v \<Rightarrow> v))"

text \<open>\<open>int(v / 1000)\<close> narrows to 32 bits.\<close>

definition timeval_of :: "int \<Rightarrow> optval" where
  "timeval_of v = OptTime (sint (word_of_int (quot v 1000) :: u32)) ((v - quot v 1000 * 1000) * 1000)"

definition setSendTimeout :: "bool \<Rightarrow> (int \<Rightarrow> bool option) \<Rightarrow> int \<Rightarrow> sysret \<Rightarrow> Socket \<times> 'c sys \<Rightarrow> (unit, Socket \<times> 'c sys) outcome" where
  "setSendTimeout en fstat v r = andThen (setOption en fstat SOL_SOCKET SO_SNDTIMEO (timeval_of v) r) (\<lambda>_. ret ())"

definition setRecvTimeout :: "bool \<Rightarrow> (int \<Rightarrow> bool option) \<Rightarrow> int \<Rightarrow> sysret \<Rightarrow> Socket \<times> 'c sys \<Rightarrow> (unit, Socket \<times> 'c sys) outcome" where
  "setRecvTimeout en fstat v r = andThen (setOption en fstat SOL_SOCKET SO_RCVTIMEO (timeval_of v) r) (\<lambda>_. ret ())"

definition initSock :: "bool \<Rightarrow> (int \<Rightarrow> bool option) \<Rightarrow> sysret \<times> sysret \<Rightarrow> Socket \<times> 'c sys \<Rightarrow> (unit, Socket \<times> 'c sys) outcome" where
  "initSock en fstat rs =
     andThen (setOption en fstat SOL_SOCKET SO_REUSEADDR (OptInt 1) (fst rs)) (\<lambda>_ st.
       let so = fst st in
       if so_type so = SOCK_STREAM \<and> (so_family so = uint AF_INET \<or> so_family so = uint AF_INET6)
       then andThen (setOption en fstat IPPROTO_TCP TCP_NODELAY (OptInt 1) (snd rs)) (\<lambda>_. ret ()) st
       else Ok () st)"

definition newSock :: "bool \<Rightarrow> (int \<Rightarrow> bool option) \<Rightarrow> int \<Rightarrow> sysret \<times> sysret \<Rightarrow> Socket \<times> 'c sys \<Rightarrow> (unit, Socket \<times> 'c sys) outcome" where
  "newSock en fstat fd rs =
     andThen (on_fdm (hook_socket en fstat fd)) (\<lambda>fd (so, sy).
       let so = so\<lparr>so_sock := fd\<rparr> in
       if fd \<noteq> -1 then initSock en fstat rs (so, sy) else Ok () (so, sy))"

definition CreateTCP :: "endian \<Rightarrow> Address \<Rightarrow> Socket" where
  "CreateTCP host address = Socket_new (getFamily host address) SOCK_STREAM 0"

definition CreateUDP :: "bool \<Rightarrow> (int \<Rightarrow> bool option) \<Rightarrow> int \<Rightarrow> sysret \<times> sysret \<Rightarrow> endian \<Rightarrow> Address \<Rightarrow> 'c sys \<Rightarrow>
    (unit, Socket \<times> 'c sys) outcome" where
  "CreateUDP en fstat fd rs host address sy =
     andThen (newSock en fstat fd rs) (\<lambda>_ (so, sy). Ok () (so\<lparr>so_isConnected := True\<rparr>, sy))
       (Socket_new (getFamily host address) SOCK_DGRAM 0, sy)"

definition CreateTCPSocket :: Socket where
  "CreateTCPSocket = Socket_new (uint AF_INET) SOCK_STREAM 0"

definition CreateUDPSocket :: "bool \<Rightarrow> (int \<Rightarrow> bool option) \<Rightarrow> int \<Rightarrow> sysret \<times> sysret \<Rightarrow> 'c sys \<Rightarrow> (unit, Socket \<times> 'c sys) outcome" where
  "CreateUDPSocket en fstat fd rs sy =
     andThen (newSock en fstat fd rs) (\<lambda>_ (so, sy). Ok () (so\<lparr>so_isConnected := True\<rparr>, sy))
       (Socket_new (uint AF_INET) SOCK_DGRAM 0, sy)"

definition CreateTCPSocket6 :: Socket where
  "CreateTCPSocket6 = Socket_new (uint AF_INET6) SOCK_STREAM 0"

definition CreateUDPSocket6 :: "bool \<Rightarrow> (int \<Rightarrow> bool option) \<Rightarrow> int \<Rightarrow> sysret \<times> sysret \<Rightarrow> 'c sys \<Rightarrow> (unit, Socket \<times> 'c sys) outcome" where
  "CreateUDPSocket6 en fstat fd rs sy =
     andThen (newSock en fstat fd rs) (\<lambda>_ (so, sy). Ok () (so\<lparr>so_isConnected := True\<rparr>, sy))
       (Socket_new (uint AF_INET6) SOCK_DGRAM 0, sy)"

definition CreateUnixTCPSocket :: Socket where
  "CreateUnixTCPSocket = Socket_new (uint AF_UNIX) SOCK_STREAM 0"

definition CreateUnixUDPSocket :: Socket where
  "CreateUnixUDPSocket = Socket_new (uint AF_UNIX) SOCK_DGRAM 0"

subsection \<open>Addresses of a socket\<close>

text \<open>The object made for the family; the kernel then writes at most \<open>getAddrLen\<close> bytes into its memory.\<close>

definition family_address :: "endian \<Rightarrow> int \<Rightarrow> Address" where
  "family_address host family =
     (if family = uint AF_INET then IPv4Address (IPv4Address_new host 0 0)
      else if family = uint AF_INET6 then IPv6Address IPv6Address_default
      else if family = uint AF_UNIX then UnixAddress_default
      else UnknowAddress_new family)"

definition un_at :: "endian \<Rightarrow> u8 list \<Rightarrow> sockaddr_un" where
  "un_at host bs = \<lparr>sun_family = family_at host bs, sun_path = map (\<lambda>b. char_of (unat b)) (take 108 (drop 2 bs))\<rparr>"

fun set_memory :: "endian \<Rightarrow> u8 list \<Rightarrow> Address \<Rightarrow> Address" where
  "set_memory host bs (IPv4Address a) = IPv4Address (in_at host (overwrite (in_bytes host a) 0 bs))"
| "set_memory host bs (IPv6Address a) = IPv6Address (in6_at host (overwrite (in6_bytes host a) 0 bs))"
| "set_memory host bs (UnixAddress a n) = UnixAddress (un_at host (overwrite (un_bytes host a) 0 bs)) n"
| "set_memory host bs (UnknowAddress a) = UnknowAddress (sa_at host (overwrite (sa_bytes host a) 0 bs))"

definition named_address :: "endian \<Rightarrow> int \<Rightarrow> u8 list \<Rightarrow> u32 \<Rightarrow> Address" where
  "named_address host family bytes addrlen =
     (let result = family_address host family;
          result = set_memory host (take (unat (getAddrLen result)) bytes) result
      in if family = uint AF_UNIX then setAddrLen addrlen result else result)"

definition getRemoteAddress :: "endian \<Rightarrow> name_answer \<Rightarrow> Socket \<Rightarrow> Address \<times> Socket" where
  "getRemoteAddress host ans so =
     (case so_remoteAddress so of
        Some a \<Rightarrow> (a, so)
      | None \<Rightarrow>
          (case ans of
             Inl errno \<Rightarrow> (UnknowAddress_new (so_family so), so)
           | Inr (bytes, addrlen) \<Rightarrow>
               (let result = named_address host (so_family so) bytes addrlen
                in (result, so\<lparr>so_remoteAddress := Some result\<rparr>))))"

definition getLocalAddress :: "endian \<Rightarrow> name_answer \<Rightarrow> Socket \<Rightarrow> Address \<times> Socket" where
  "getLocalAddress host ans so =
     (case so_localAddress so of
        Some a \<Rightarrow> (a, so)
      | None \<Rightarrow>
          (case ans of
             Inl errno \<Rightarrow> (UnknowAddress_new (so_family so), so)
           | Inr (bytes, addrlen) \<Rightarrow>
               (let result = named_address host (so_family so) bytes addrlen
                in (result, so\<lparr>so_localAddress := Some result\<rparr>))))"

subsection \<open>Connections\<close>

text \<open>\<open>close\<close>: \<open>fail\<close> is whether \<open>epoll_ctl\<close> fails when the hook cancels the events of the descriptor.\<close>

definition Socket_close :: "bool \<Rightarrow> (int \<Rightarrow> bool option) \<Rightarrow> bool \<Rightarrow> Socket \<times> 'c sys \<Rightarrow> (bool, Socket \<times> 'c sys) outcome" where
  "Socket_close en fstat fail st =
     (case st of (so, sy) \<Rightarrow>
        if \<not> so_isConnected so \<and> so_sock so = -1 then Ok True (so, sy)
        else
          let so = so\<lparr>so_isConnected := False\<rparr> in
          if so_sock so \<noteq> -1 then
            let sy = called (SysShutdown (so_sock so)) sy in
            (case hook_close en fstat fail (so_sock so) (sy_fdm sy, sy_iom sy) of
               Crash x \<Rightarrow> Crash x
             | Throw e (m, iom) \<Rightarrow> Throw e (so, sy\<lparr>sy_fdm := m, sy_iom := iom\<rparr>)
             | Ok _ (m, iom) \<Rightarrow>
                 Ok False (so\<lparr>so_sock := -1\<rparr>, called (SysClose (so_sock so)) (sy\<lparr>sy_fdm := m, sy_iom := iom\<rparr>)))
          else Ok False (so, sy))"

definition Socket_listen :: "int \<Rightarrow> sysret \<Rightarrow> Socket \<times> 'c sys \<Rightarrow> bool \<times> (Socket \<times> 'c sys)" where
  "Socket_listen backlog r st =
     (case st of (so, sy) \<Rightarrow>
        if \<not> isVaild so then (False, so, sy)
        else (r = SRet 0, so, called (SysListen (so_sock so) backlog) sy))"

text \<open>What the kernel answers while \<open>bind\<close> or \<open>connect\<close> runs: the descriptor and the options of a new socket, the
  call itself, and the names.\<close>

record answers =
  an_socket :: int
  an_options :: "sysret \<times> sysret"
  an_bind :: sysret
  an_connect :: "sysret \<times> wake \<times> int option \<times> int"
  an_peer :: name_answer
  an_local :: name_answer

definition ensure_sock :: "bool \<Rightarrow> (int \<Rightarrow> bool option) \<Rightarrow> answers \<Rightarrow> Socket \<times> 'c sys \<Rightarrow> (bool, Socket \<times> 'c sys) outcome" where
  "ensure_sock en fstat an st =
     (if \<not> isVaild (fst st) then
        andThen (newSock en fstat (an_socket an) (an_options an)) (\<lambda>_ st. Ok (isVaild (fst st)) st) st
      else Ok True st)"

definition Socket_bind :: "bool \<Rightarrow> (int \<Rightarrow> bool option) \<Rightarrow> endian \<Rightarrow> answers \<Rightarrow> Address \<Rightarrow> Socket \<times> 'c sys \<Rightarrow>
    (bool, Socket \<times> 'c sys) outcome" where
  "Socket_bind en fstat host an addr =
     andThen (ensure_sock en fstat an) (\<lambda>ok (so, sy).
       if \<not> ok then Ok False (so, sy)
       else if getFamily host addr \<noteq> so_family so then Ok False (so, sy)
       else
         let sy = called (SysBind (so_sock so) (take (unat (getAddrLen addr)) (getAddr host addr))) sy in
         if an_bind an \<noteq> SRet 0 then Ok False (so, sy)
         else Ok True (snd (getLocalAddress host (an_local an) so), sy))"

definition Socket_connect :: "bool \<Rightarrow> (int \<Rightarrow> bool option) \<Rightarrow> endian \<Rightarrow> u64 \<Rightarrow> bool \<Rightarrow> answers \<Rightarrow> Address \<Rightarrow> u64 \<Rightarrow>
    Socket \<times> 'c sys \<Rightarrow> (bool option, Socket \<times> 'c sys) outcome" where
  "Socket_connect en fstat host s_connect_timeout fail an addr timeout_ms =
     andThen (ensure_sock en fstat an) (\<lambda>ok (so, sy).
       if \<not> ok then Ok (Some False) (so, sy)
       else if getFamily host addr \<noteq> so_family so then Ok (Some False) (so, sy)
       else
         let sy = called (SysConnect (so_sock so) (take (unat (getAddrLen addr)) (getAddr host addr))) sy;
             timeout = (if timeout_ms = - 1 then s_connect_timeout else timeout_ms);
             (r, w, so_error, e) = an_connect an
         in
         andThen (on_fdm (\<lambda>m. connect_with_timeout en fstat (so_sock so) timeout m r w so_error e)) (\<lambda>rt (so, sy).
           case rt of
             None \<Rightarrow> Ok None (so, sy)
           | Some rt \<Rightarrow>
               if rt \<noteq> SRet 0 then andThen (Socket_close en fstat fail) (\<lambda>_. ret (Some False)) (so, sy)
               else
                 let so = so\<lparr>so_isConnected := True\<rparr>;
                     so = snd (getRemoteAddress host (an_peer an) so);
                     so = snd (getLocalAddress host (an_local an) so)
                 in Ok (Some True) (so, sy)) (so, sy))"

definition Socket_init :: "bool \<Rightarrow> (int \<Rightarrow> bool option) \<Rightarrow> endian \<Rightarrow> answers \<Rightarrow> int \<Rightarrow> Socket \<times> 'c sys \<Rightarrow> (bool, Socket \<times> 'c sys) outcome" where
  "Socket_init en fstat host an sock =
     andThen (on_fdm (fdm_get fstat sock False)) (\<lambda>ctx (so, sy).
       case ctx of
         None \<Rightarrow> Ok False (so, sy)
       | Some c \<Rightarrow>
           if fx_isSocket c \<and> \<not> fx_isClosed c then
             andThen (initSock en fstat (an_options an)) (\<lambda>_ (so, sy).
               let so = snd (getLocalAddress host (an_local an) so);
                   so = snd (getRemoteAddress host (an_peer an) so)
               in Ok True (so, sy)) (so\<lparr>so_sock := sock, so_isConnected := True\<rparr>, sy)
           else Ok False (so, sy))"

text \<open>\<open>accept\<close> on the socket \<open>so\<close>: the new socket if there is one; \<open>rs\<close> and \<open>ws\<close> are the answers for \<open>do_io\<close>. The state
  of \<open>so\<close> itself does not change.\<close>

definition Socket_accept :: "bool \<Rightarrow> (int \<Rightarrow> bool option) \<Rightarrow> endian \<Rightarrow> answers \<Rightarrow> sysret list \<Rightarrow> wake list \<Rightarrow> Socket \<Rightarrow> 'c sys \<Rightarrow>
    (Socket option option, 'c sys) outcome" where
  "Socket_accept en fstat host an rs ws so sy =
     (let sock = Socket_new (so_family so) (so_type so) (so_protocol so) in
      case on_fdm (\<lambda>m. hook_accept en fstat (so_sock so) m rs ws) (sock, sy) of
        Crash x \<Rightarrow> Crash x
      | Throw e (_, sy) \<Rightarrow> Throw e sy
      | Ok None (_, sy) \<Rightarrow> Ok None sy
      | Ok (Some (SErr _)) (_, sy) \<Rightarrow> Ok (Some None) sy
      | Ok (Some (SRet newsock)) (_, sy) \<Rightarrow>
          if newsock = -1 then Ok (Some None) sy
          else
            (case Socket_init en fstat host an newsock (sock, sy) of
               Crash x \<Rightarrow> Crash x
             | Throw e (_, sy) \<Rightarrow> Throw e sy
             | Ok ok (sock, sy) \<Rightarrow> Ok (Some (if ok then Some sock else None)) sy))"

subsection \<open>Transfer of data\<close>

text \<open>The hooked calls are functions of the descriptor on a state of the connection \<open>'k\<close>; a buffer, a vector of buffers
  or a message with an address is what \<open>x\<close> stands for.\<close>

definition Socket_recv :: "(int \<Rightarrow> nat \<Rightarrow> 'k \<Rightarrow> (int \<times> 'b list) \<times> 'k) \<Rightarrow> Socket \<Rightarrow> nat \<Rightarrow> 'k \<Rightarrow> (int \<times> 'b list) \<times> 'k" where
  "Socket_recv recv so n k = (if so_isConnected so then recv (so_sock so) n k else ((-1, []), k))"

definition Socket_send :: "(int \<Rightarrow> nat \<Rightarrow> 'x \<Rightarrow> 'k \<Rightarrow> int \<times> 'k) \<Rightarrow> Socket \<Rightarrow> nat \<Rightarrow> 'x \<Rightarrow> 'k \<Rightarrow> int \<times> 'k" where
  "Socket_send send so n x k = (if so_isConnected so then send (so_sock so) n x k else (-1, k))"

definition Socket_sendTo :: "(int \<Rightarrow> nat \<Rightarrow> 'x \<Rightarrow> u8 list \<Rightarrow> 'k \<Rightarrow> int \<times> 'k) \<Rightarrow> endian \<Rightarrow> Socket \<Rightarrow> nat \<Rightarrow> 'x \<Rightarrow> Address \<Rightarrow> 'k \<Rightarrow> int \<times> 'k" where
  "Socket_sendTo sendto host so n x to k =
     (if so_isConnected so then sendto (so_sock so) n x (take (unat (getAddrLen to)) (getAddr host to)) k else (-1, k))"

definition Socket_recvFrom :: "(int \<Rightarrow> nat \<Rightarrow> nat \<Rightarrow> 'k \<Rightarrow> (int \<times> 'b list \<times> u8 list) \<times> 'k) \<Rightarrow> endian \<Rightarrow> Socket \<Rightarrow> nat \<Rightarrow> Address \<Rightarrow> 'k \<Rightarrow>
    (int \<times> 'b list \<times> Address) \<times> 'k" where
  "Socket_recvFrom recvfrom host so n from k =
     (if so_isConnected so then
        let ((r, bytes, name), k) = recvfrom (so_sock so) n (unat (getAddrLen from)) k
        in ((r, bytes, set_memory host (take (unat (getAddrLen from)) name) from), k)
      else ((-1, [], from), k))"

subsection \<open>Cancelling events and printing\<close>

definition on_iom_this :: "('c iom \<Rightarrow> ('a, 'c iom) outcome) \<Rightarrow> 'c sys \<Rightarrow> ('a, 'c sys) outcome" where
  "on_iom_this f sy =
     (case sy_iom sy of
        None \<Rightarrow> Crash NullDeref
      | Some io \<Rightarrow> (case f io of
            Ok v io \<Rightarrow> Ok v (sy\<lparr>sy_iom := Some io\<rparr>)
          | Throw e io \<Rightarrow> Throw e (sy\<lparr>sy_iom := Some io\<rparr>)
          | Crash x \<Rightarrow> Crash x))"

definition cancelRead :: "bool \<Rightarrow> Socket \<Rightarrow> 'c sys \<Rightarrow> (bool, 'c sys) outcome" where
  "cancelRead fail so = on_iom_this (cancelEvent fail (so_sock so) READ)"

definition cancelWrite :: "bool \<Rightarrow> Socket \<Rightarrow> 'c sys \<Rightarrow> (bool, 'c sys) outcome" where
  "cancelWrite fail so = on_iom_this (cancelEvent fail (so_sock so) WRITE)"

definition cancelAccept :: "bool \<Rightarrow> Socket \<Rightarrow> 'c sys \<Rightarrow> (bool, 'c sys) outcome" where
  "cancelAccept fail so = on_iom_this (cancelEvent fail (so_sock so) READ)"

definition Socket_cancelAll :: "bool \<Rightarrow> Socket \<Rightarrow> 'c sys \<Rightarrow> (bool, 'c sys) outcome" where
  "Socket_cancelAll fail so = on_iom_this (IOManager.cancelAll fail (so_sock so))"

definition int_text :: "int \<Rightarrow> string" where
  "int_text i = (if i < 0 then ''-'' @ dec (nat (- i)) else dec (nat i))"

definition opt_address_text :: "endian \<Rightarrow> string \<Rightarrow> Address option \<Rightarrow> fault + string" where
  "opt_address_text host label a =
     (case a of None \<Rightarrow> Inr [] | Some a \<Rightarrow> bindE (Address_insert host a) (\<lambda>t. Inr (label @ t)))"

definition Socket_dump :: "endian \<Rightarrow> Socket \<Rightarrow> fault + string" where
  "Socket_dump host so =
     bindE (opt_address_text host '' local_Address='' (so_localAddress so)) (\<lambda>loc.
     bindE (opt_address_text host '' remote_Address='' (so_remoteAddress so)) (\<lambda>rem.
     Inr (''[Socket sock='' @ int_text (so_sock so) @ '' is_connected='' @ (if so_isConnected so then ''1'' else ''0'')
       @ '' family='' @ int_text (so_family so) @ '' type='' @ int_text (so_type so)
       @ '' portocol='' @ int_text (so_protocol so) @ loc @ rem @ '']'')))"

subsection \<open>What the operations keep\<close>

lemma on_fdm_Ok: "on_fdm f st = Ok v st' \<longleftrightarrow> (\<exists>m. f (sy_fdm (snd st)) = Ok v m \<and> st' = (fst st, (snd st)\<lparr>sy_fdm := m\<rparr>))"
  by (auto simp: on_fdm_def split: outcome.splits)

lemma setOption_keeps: "setOption en fstat l opt v r st = Ok b st' \<Longrightarrow> fst st' = fst st"
  by (auto simp: setOption_def andThen_eq_Ok on_fdm_Ok)

lemma initSock_keeps: "initSock en fstat rs st = Ok u st' \<Longrightarrow> fst st' = fst st"
  by (auto simp: initSock_def andThen_eq_Ok Let_def split: if_splits dest!: setOption_keeps)

lemma newSock_sock: "newSock en fstat fd rs st = Ok u st' \<Longrightarrow> fst st' = (fst st)\<lparr>so_sock := fd\<rparr>"
  by (auto simp: newSock_def hook_socket_def andThen_eq_Ok on_fdm_Ok Let_def split: if_splits dest!: initSock_keeps)

lemma ensure_sock_sock:
  "ensure_sock en fstat an st = Ok b st' \<Longrightarrow>
   fst st' = (if isVaild (fst st) then fst st else (fst st)\<lparr>so_sock := an_socket an\<rparr>) \<and> b = isVaild (fst st')"
  by (auto simp: ensure_sock_def andThen_eq_Ok split: if_splits dest!: newSock_sock)

lemma Socket_close_sock:
  "Socket_close en fstat fail st = Ok b st' \<Longrightarrow>
   fst st' = (fst st)\<lparr>so_sock := -1, so_isConnected := False\<rparr> \<and> b = (\<not> so_isConnected (fst st) \<and> so_sock (fst st) = -1)"
  by (cases st; cases "fst st") (auto simp: Socket_close_def Let_def split: if_splits outcome.splits prod.splits)

lemma getLocalAddress_sock:
  "snd (getLocalAddress host ans so) = so\<lparr>so_localAddress :=
     (case so_localAddress so of Some a \<Rightarrow> Some a
      | None \<Rightarrow> (case ans of Inl _ \<Rightarrow> None | Inr (bytes, n) \<Rightarrow> Some (named_address host (so_family so) bytes n)))\<rparr>"
  by (cases so) (auto simp: getLocalAddress_def Let_def split: option.splits sum.splits prod.splits)

lemma getRemoteAddress_sock:
  "snd (getRemoteAddress host ans so) = so\<lparr>so_remoteAddress :=
     (case so_remoteAddress so of Some a \<Rightarrow> Some a
      | None \<Rightarrow> (case ans of Inl _ \<Rightarrow> None | Inr (bytes, n) \<Rightarrow> Some (named_address host (so_family so) bytes n)))\<rparr>"
  by (cases so) (auto simp: getRemoteAddress_def Let_def split: option.splits sum.splits prod.splits)

subsection \<open>Invariant\<close>

text \<open>What the kernel promises about a name: it starts with the family of the socket, and its length is at most that of
  the structure.\<close>

definition name_ok :: "endian \<Rightarrow> int \<Rightarrow> name_answer \<Rightarrow> bool" where
  "name_ok host family ans \<longleftrightarrow>
     (case ans of Inl _ \<Rightarrow> True
      | Inr (bytes, n) \<Rightarrow> 2 \<le> length bytes \<and> family_at host bytes = word_of_int family \<and> n \<le> 110)"

definition sock_ok :: "Socket \<Rightarrow> bool" where
  "sock_ok so \<longleftrightarrow> (so_isConnected so \<longrightarrow> so_sock so \<noteq> -1) \<and>
     (\<forall>a. so_localAddress so = Some a \<or> so_remoteAddress so = Some a \<longrightarrow> wf_address a)"

lemma overwrite_at_start: "overwrite xs 0 ys = ys @ drop (length ys) xs"
  by (simp add: overwrite_def)

lemma family_at_overwrite: "2 \<le> length ys \<Longrightarrow> family_at host (overwrite xs 0 ys) = family_at host ys"
  by (simp add: family_at_def overwrite_at_start)

lemma named_address_wf:
  assumes "name_ok host family (Inr (bytes, n))"
  shows "wf_address (named_address host family bytes n)"
proof -
  have b: "2 \<le> length bytes" "family_at host bytes = word_of_int family" "n \<le> 110" using assms by (auto simp: name_ok_def)
  have fam: "family_at host (overwrite xs 0 (take k bytes)) = word_of_int family" if "2 \<le> k" for k xs
    using b(1,2) that by (subst family_at_overwrite) (simp_all add: family_at_def min_def)
  have af: "uint AF_INET \<noteq> uint AF_UNIX" "uint AF_INET6 \<noteq> uint AF_UNIX"
    by (simp_all add: AF_INET_def AF_INET6_def AF_UNIX_def)
  have u: "word_of_int (uint w) = (w :: u16)" for w by simp
  show ?thesis
    using b(3) by (auto simp: named_address_def family_address_def Let_def in_at_def in6_at_def un_at_def sa_at_def
        UnixAddress_default_def UnknowAddress_new_def fam u af in_bytes_def in6_bytes_def un_bytes_def
        sa_bytes_def IPv4Address_new_def IPv6Address_default_def)
qed

lemma sock_ok_addresses:
  assumes "sock_ok so" and "name_ok host (so_family so) peer" and "name_ok host (so_family so) local"
  shows "sock_ok (snd (getLocalAddress host local so))" and "sock_ok (snd (getRemoteAddress host peer so))"
  using assms unfolding getLocalAddress_sock getRemoteAddress_sock sock_ok_def
  by (auto split: option.splits sum.splits intro: named_address_wf)

text \<open>Histories of a socket object: it is made for TCP, or returned by \<open>accept\<close>, and its members are called in any order
  with any answers that keep the kernel's promise.\<close>

definition answers_ok :: "endian \<Rightarrow> int \<Rightarrow> answers \<Rightarrow> bool" where
  "answers_ok host family an \<longleftrightarrow> name_ok host family (an_peer an) \<and> name_ok host family (an_local an)"

inductive sock_hist :: "endian \<Rightarrow> Socket \<times> 'c sys \<Rightarrow> bool" for host where
  new: "sock_hist host (Socket_new family type protocol, sy)"
| accepted: "Socket_accept en fstat host an rs ws so sy = Ok (Some (Some sock)) sy' \<Longrightarrow>
    answers_ok host (so_family so) an \<Longrightarrow> sock_hist host (sock, sy')"
| bound: "sock_hist host st \<Longrightarrow> answers_ok host (so_family (fst st)) an \<Longrightarrow>
    Socket_bind en fstat host an addr st = Ok b st' \<Longrightarrow> sock_hist host st'"
| connected: "sock_hist host st \<Longrightarrow> answers_ok host (so_family (fst st)) an \<Longrightarrow>
    Socket_connect en fstat host ct fail an addr to st = Ok c st' \<Longrightarrow> sock_hist host st'"
| listening: "sock_hist host st \<Longrightarrow> sock_hist host (snd (Socket_listen backlog r st))"
| option_set: "sock_hist host st \<Longrightarrow> setOption en fstat l opt v r st = Ok b st' \<Longrightarrow> sock_hist host st'"
| remote: "sock_hist host st \<Longrightarrow> name_ok host (so_family (fst st)) ans \<Longrightarrow>
    sock_hist host (snd (getRemoteAddress host ans (fst st)), snd st)"
| local: "sock_hist host st \<Longrightarrow> name_ok host (so_family (fst st)) ans \<Longrightarrow>
    sock_hist host (snd (getLocalAddress host ans (fst st)), snd st)"
| closed: "sock_hist host st \<Longrightarrow> Socket_close en fstat fail st = Ok b st' \<Longrightarrow> sock_hist host st'"

lemma ensure_sock_ok: "sock_ok (fst st) \<Longrightarrow> ensure_sock en fstat an st = Ok b st' \<Longrightarrow> sock_ok (fst st')"
  by (drule ensure_sock_sock) (auto simp: sock_ok_def isVaild_def)

lemma ensure_sock_family: "ensure_sock en fstat an st = Ok b st' \<Longrightarrow> so_family (fst st') = so_family (fst st)"
  by (drule ensure_sock_sock) (auto split: if_splits)

lemma Socket_close_ok: "sock_ok (fst st) \<Longrightarrow> Socket_close en fstat fail st = Ok b st' \<Longrightarrow> sock_ok (fst st')"
  by (drule Socket_close_sock) (auto simp: sock_ok_def)

lemma Socket_bind_ok:
  assumes "sock_ok (fst st)" and "answers_ok host (so_family (fst st)) an" and "Socket_bind en fstat host an addr st = Ok b st'"
  shows "sock_ok (fst st')"
proof -
  obtain ok st1 where e: "ensure_sock en fstat an st = Ok ok st1"
    and s: "st' = st1 \<or> fst st' = fst st1 \<or> fst st' = snd (getLocalAddress host (an_local an) (fst st1))"
    using assms(3) by (auto simp: Socket_bind_def andThen_eq_Ok Let_def split: if_splits)
  have "sock_ok (fst st1)" "name_ok host (so_family (fst st1)) (an_local an)"
    using ensure_sock_ok [OF assms(1) e] assms(2) ensure_sock_family [OF e] by (simp_all add: answers_ok_def)
  then show ?thesis using s sock_ok_addresses(1) [of "fst st1" host "Inl 0"] by (auto simp: name_ok_def)
qed

text \<open>What \<open>connect\<close> does to the object.\<close>

lemma Socket_connect_sock:
  assumes "Socket_connect en fstat host ct fail an addr to st = Ok c st'"
  obtains st1 where "ensure_sock en fstat an st = Ok (isVaild (fst st1)) st1"
    and "c \<noteq> Some True \<and> (fst st' = fst st1 \<or> fst st' = (fst st1)\<lparr>so_sock := -1, so_isConnected := False\<rparr>) \<or>
      c = Some True \<and> isVaild (fst st1) \<and>
      fst st' = snd (getLocalAddress host (an_local an) (snd (getRemoteAddress host (an_peer an) ((fst st1)\<lparr>so_isConnected := True\<rparr>))))"
proof -
  obtain ok st1 where e: "ensure_sock en fstat an st = Ok ok st1"
    and s: "c \<noteq> Some True \<and> (fst st' = fst st1 \<or> fst st' = (fst st1)\<lparr>so_sock := -1, so_isConnected := False\<rparr>) \<or>
      c = Some True \<and> ok \<and>
      fst st' = snd (getLocalAddress host (an_local an) (snd (getRemoteAddress host (an_peer an) ((fst st1)\<lparr>so_isConnected := True\<rparr>))))"
    using assms
    by (auto simp: Socket_connect_def andThen_eq_Ok on_fdm_Ok Let_def split: if_splits prod.splits option.splits
        dest!: Socket_close_sock)
  show thesis using that [of st1] e s ensure_sock_sock [OF e] by simp
qed

lemma Socket_connect_ok:
  assumes "sock_ok (fst st)" and "answers_ok host (so_family (fst st)) an"
    and "Socket_connect en fstat host ct fail an addr to st = Ok c st'"
  shows "sock_ok (fst st')"
proof -
  obtain st1 where e: "ensure_sock en fstat an st = Ok (isVaild (fst st1)) st1"
    and s: "c \<noteq> Some True \<and> (fst st' = fst st1 \<or> fst st' = (fst st1)\<lparr>so_sock := -1, so_isConnected := False\<rparr>) \<or>
      c = Some True \<and> isVaild (fst st1) \<and>
      fst st' = snd (getLocalAddress host (an_local an) (snd (getRemoteAddress host (an_peer an) ((fst st1)\<lparr>so_isConnected := True\<rparr>))))"
    by (rule Socket_connect_sock [OF assms(3)])
  have ok: "sock_ok (fst st1)" "answers_ok host (so_family (fst st1)) an"
    using ensure_sock_ok [OF assms(1) e] assms(2) ensure_sock_family [OF e] by simp_all
  then have closed: "sock_ok ((fst st1)\<lparr>so_sock := -1, so_isConnected := False\<rparr>)" by (simp add: sock_ok_def)
  let ?so = "(fst st1)\<lparr>so_isConnected := True\<rparr>"
  have "isVaild (fst st1) \<Longrightarrow> sock_ok ?so" using ok(1) by (simp add: sock_ok_def isVaild_def)
  moreover have "so_family (snd (getRemoteAddress host (an_peer an) ?so)) = so_family (fst st1)"
    by (simp add: getRemoteAddress_sock)
  ultimately have "isVaild (fst st1) \<Longrightarrow> sock_ok (snd (getLocalAddress host (an_local an) (snd (getRemoteAddress host (an_peer an) ?so))))"
    using ok(2) sock_ok_addresses [of ?so host "an_peer an" "an_local an"]
      sock_ok_addresses(1) [of "snd (getRemoteAddress host (an_peer an) ?so)" host "an_peer an" "an_local an"]
    by (simp add: answers_ok_def)
  then show ?thesis using s ok(1) closed by auto
qed

lemma Socket_init_ok:
  assumes "answers_ok host (so_family so) an" and "sock \<noteq> -1" and "so_isConnected so = False"
    and "so_localAddress so = None" and "so_remoteAddress so = None"
    and "Socket_init en fstat host an sock (so, sy) = Ok True (so', sy')"
  shows "sock_ok so' \<and> so_sock so' = sock \<and> so_isConnected so' \<and> so_family so' = so_family so \<and> so_type so' = so_type so"
proof -
  let ?so = "so\<lparr>so_sock := sock, so_isConnected := True\<rparr>"
  have so': "so' = snd (getRemoteAddress host (an_peer an) (snd (getLocalAddress host (an_local an) ?so)))"
    using assms(6)
    by (auto simp: Socket_init_def andThen_eq_Ok on_fdm_Ok Let_def split: option.splits if_splits dest!: initSock_keeps)
  have "sock_ok ?so" using assms(2,4,5) by (simp add: sock_ok_def)
  then have "sock_ok (snd (getLocalAddress host (an_local an) ?so))"
    using sock_ok_addresses(1) [of ?so host "an_peer an" "an_local an"] assms(1) by (simp add: answers_ok_def)
  then have "sock_ok so'"
    using sock_ok_addresses(2) [of "snd (getLocalAddress host (an_local an) ?so)" host "an_peer an" "an_local an"] assms(1) so'
    by (simp add: answers_ok_def getLocalAddress_sock)
  then show ?thesis by (simp add: so' getRemoteAddress_sock getLocalAddress_sock)
qed

lemma Socket_accept_new:
  assumes "Socket_accept en fstat host an rs ws so sy = Ok (Some (Some sock)) sy'"
  obtains newsock sy1 where "newsock \<noteq> -1"
    and "Socket_init en fstat host an newsock (Socket_new (so_family so) (so_type so) (so_protocol so), sy1) = Ok True (sock, sy')"
  using assms
  by (auto simp: Socket_accept_def Let_def split: outcome.splits option.splits sysret.splits if_splits)

lemma Socket_accept_ok:
  assumes "Socket_accept en fstat host an rs ws so sy = Ok (Some (Some sock)) sy'" and "answers_ok host (so_family so) an"
  shows "sock_ok sock \<and> isVaild sock \<and> so_isConnected sock \<and> so_family sock = so_family so \<and> so_type sock = so_type so"
proof -
  obtain newsock sy1 where n: "newsock \<noteq> -1"
    "Socket_init en fstat host an newsock (Socket_new (so_family so) (so_type so) (so_protocol so), sy1) = Ok True (sock, sy')"
    by (rule Socket_accept_new [OF assms(1)])
  show ?thesis
    using Socket_init_ok [OF _ n(1) _ _ _ n(2)] assms(2) n(1) by (auto simp: Socket_new_def isVaild_def)
qed

lemma sock_hist_ok: "sock_hist host st \<Longrightarrow> sock_ok (fst st)"
proof (induction rule: sock_hist.induct)
  case (new family type protocol sy)
  then show ?case by (simp add: sock_ok_def Socket_new_def)
next
  case (accepted en fstat an rs ws so sy sock sy')
  then show ?case using Socket_accept_ok [OF accepted.hyps] by simp
next
  case (bound st an en fstat addr b st')
  then show ?case by (blast intro: Socket_bind_ok)
next
  case (connected st an en fstat ct fail addr to c st')
  then show ?case by (blast intro: Socket_connect_ok)
next
  case (listening st backlog r)
  then show ?case by (cases st) (simp add: Socket_listen_def)
next
  case (option_set st en fstat l opt v r b st')
  then show ?case by (auto dest: setOption_keeps)
next
  case (remote st ans)
  then show ?case using sock_ok_addresses(2) [of "fst st" host ans "Inl 0"] by (simp add: name_ok_def)
next
  case (local st ans)
  then show ?case using sock_ok_addresses(1) [of "fst st" host "Inl 0" ans] by (simp add: name_ok_def)
next
  case (closed st en fstat fail b st')
  then show ?case by (blast intro: Socket_close_ok)
qed

subsection \<open>Properties\<close>


text \<open>The process in which the descriptor 5 is a managed socket, and a kernel that answers every call with success.\<close>

definition demo_sys :: "unit sys" where
  "demo_sys = \<lparr>sy_fdm = demo_fdm, sy_iom = None, sy_calls = []\<rparr>"

definition good_answers :: "u8 list \<Rightarrow> answers" where
  "good_answers peer = \<lparr>an_socket = 5, an_options = (SRet 0, SRet 0), an_bind = SRet 0, an_connect = (SRet 0, Woken, Some 0, 0),
     an_peer = Inr (peer, 16), an_local = Inr (peer, 16)\<rparr>"

definition peer4 :: "u32 \<Rightarrow> u16 \<Rightarrow> Address" where
  "peer4 a p = IPv4Address (IPv4Address_new SYLAR_LITTLE_ENDIAN a p)"

abbreviation demo_host :: endian where
  "demo_host \<equiv> SYLAR_LITTLE_ENDIAN"

abbreviation demo_connect :: "Address \<Rightarrow> Socket \<times> unit sys \<Rightarrow> (bool option, Socket \<times> unit sys) outcome" where
  "demo_connect a \<equiv> Socket_connect True (\<lambda>_. Some True) demo_host (- 1) False (good_answers (getAddr demo_host a)) a (- 1)"

lemma demo_get [simp]: "fdm_get (\<lambda>_. Some True) 5 b demo_fdm = Ok (Some demo_ctx5) demo_fdm"
  using demo_fdm_ok(2) by (auto simp: managed_def fdm_get_def)

lemma demo_fdm_update [simp]: "demo_sys\<lparr>sy_fdm := demo_fdm\<rparr> = demo_sys"
  by (simp add: demo_sys_def)

lemma family_at_in_bytes [simp]: "family_at host (in_bytes host a) = sin_family a"
  using family_at_getAddr(1) [of host a] by simp

lemma peer4_simps [simp]: "getFamily demo_host (peer4 a p) = 2"
  by (simp add: peer4_def getFamily_def IPv4Address_new_def AF_INET_def)

lemma good_answers_ok: "answers_ok demo_host 2 (good_answers (getAddr demo_host (peer4 a p)))"
proof -
  have "2 \<le> length (getAddr demo_host (peer4 a p))" by (simp add: peer4_def in_bytes_def)
  then show ?thesis
    by (simp add: answers_ok_def good_answers_def name_ok_def peer4_def IPv4Address_new_def AF_INET_def)
qed

lemma demo_connect_eq:
  assumes "so_family so = 2" and "\<not> isVaild so" and "sy_fdm sy = demo_fdm" and "so_type so = SOCK_STREAM"
  shows "\<exists>sy'. demo_connect (peer4 a p) (so, sy) = Ok (Some True)
    (snd (getLocalAddress demo_host (Inr (getAddr demo_host (peer4 a p), 16))
      (snd (getRemoteAddress demo_host (Inr (getAddr demo_host (peer4 a p), 16)) (so\<lparr>so_sock := 5, so_isConnected := True\<rparr>)))), sy') \<and>
    sy_fdm sy' = demo_fdm \<and> sy_iom sy' = sy_iom sy"
  using assms
  by (simp add: Socket_connect_def ensure_sock_def newSock_def hook_socket_def initSock_def setOption_def hook_setsockopt_def
      andThen_def on_fdm_def good_answers_def called_def isVaild_def Let_def connect_with_timeout_def demo_ctx5_def
      SO_REUSEADDR_def SO_RCVTIMEO_def SO_SNDTIMEO_def IPPROTO_TCP_def SOL_SOCKET_def AF_INET_def)


text \<open>\<open>close\<close> forgets the descriptor but not the addresses: when a socket that knows its peer is closed and connected
  again, to whatever address, \<open>getRemoteAddress\<close> still reports the old peer.\<close>

theorem socket_stale_peer:
  assumes "so_remoteAddress (fst st) = Some old" and "Socket_close en fstat fail st = Ok b st1"
    and "Socket_connect en fstat host ct fail' an addr to st1 = Ok (Some True) st2"
  shows "so_isConnected (fst st2) \<and> so_sock (fst st2) = an_socket an \<and> fst (getRemoteAddress host ans (fst st2)) = old"
proof -
  have c: "fst st1 = (fst st)\<lparr>so_sock := -1, so_isConnected := False\<rparr>" using Socket_close_sock [OF assms(2)] by blast
  obtain st1' where e: "ensure_sock en fstat an st1 = Ok (isVaild (fst st1')) st1'"
    and s: "fst st2 = snd (getLocalAddress host (an_local an) (snd (getRemoteAddress host (an_peer an) ((fst st1')\<lparr>so_isConnected := True\<rparr>))))"
    using Socket_connect_sock [OF assms(3)] by blast
  have "fst st1' = (fst st1)\<lparr>so_sock := an_socket an\<rparr>" using ensure_sock_sock [OF e] c by (simp add: isVaild_def)
  then have "so_remoteAddress (fst st2) = Some old \<and> so_isConnected (fst st2) \<and> so_sock (fst st2) = an_socket an"
    using s c assms(1) by (simp add: getLocalAddress_sock getRemoteAddress_sock)
  then show ?thesis by (simp add: getRemoteAddress_def)
qed

theorem socket_stale_peer_witness:
  "\<exists>st1 st2 :: Socket \<times> unit sys.
     Socket_close False (\<lambda>_. Some True) False (CreateTCPSocket\<lparr>so_sock := 5, so_isConnected := True, so_remoteAddress := Some (peer4 0x7F000001 80)\<rparr>, demo_sys) = Ok False st1 \<and>
     Socket_connect False (\<lambda>_. Some True) demo_host (- 1) False (good_answers (getAddr demo_host (peer4 0x08080808 443))) (peer4 0x08080808 443) (- 1) st1 = Ok (Some True) st2 \<and>
     fst (getRemoteAddress demo_host (Inl 0) (fst st2)) = peer4 0x7F000001 80"
proof -
  let ?st = "(CreateTCPSocket\<lparr>so_sock := 5, so_isConnected := True, so_remoteAddress := Some (peer4 0x7F000001 80)\<rparr>, demo_sys)"
  let ?an = "good_answers (getAddr demo_host (peer4 0x08080808 443))"
  obtain st1 where c: "Socket_close False (\<lambda>_. Some True) False ?st = Ok False st1"
    and f: "fst st1 = CreateTCPSocket\<lparr>so_sock := -1, so_isConnected := False, so_remoteAddress := Some (peer4 0x7F000001 80)\<rparr>"
    by (auto simp: Socket_close_def hook_close_def Let_def called_def)
  obtain st2 where "Socket_connect False (\<lambda>_. Some True) demo_host (- 1) False ?an (peer4 0x08080808 443) (- 1) st1 = Ok (Some True) st2"
    using f by (cases st1) (simp add: Socket_connect_def ensure_sock_def newSock_def hook_socket_def initSock_def setOption_def
      hook_setsockopt_def andThen_def on_fdm_def good_answers_def called_def isVaild_def Let_def connect_with_timeout_def
      CreateTCPSocket_def Socket_new_def AF_INET_def)
  moreover from socket_stale_peer [OF _ c this, of "peer4 0x7F000001 80" "Inl 0"]
  have "fst (getRemoteAddress demo_host (Inl 0) (fst st2)) = peer4 0x7F000001 80" by simp
  ultimately show ?thesis using c by blast
qed

lemma timeout_of_timeval:
  assumes "0 \<le> v" and "v < 1000 * 2 ^ 31"
  shows "timeout_of (timeval_of v) = word_of_int v"
proof -
  have q: "quot v 1000 = v div 1000" and q': "quot ((v - v div 1000 * 1000) * 1000) 1000 = v - v div 1000 * 1000"
    using assms(1) by (simp_all add: quot_def sgn_if minus_div_mult_eq_mod)
  have "sint (word_of_int (v div 1000) :: u32) = v div 1000"
    using assms by (simp add: signed_of_int signed_take_bit_int_eq_self div_le_dividend)
  then show ?thesis unfolding timeval_of_def timeout_of.simps q q' by simp
qed

lemma timeouts_managed:
  assumes "managed (so_sock so) c (sy_fdm sy)"
  shows "getRecvTimeout fstat (so, sy) = Ok (fx_recvTimeout c) (so, sy)" "getSendTimeout fstat (so, sy) = Ok (fx_sendTimeout c) (so, sy)"
  using managed_get [OF assms, of fstat]
  by (simp_all add: getRecvTimeout_def getSendTimeout_def andThen_def on_fdm_def getTimeout_def SO_RCVTIMEO_def SO_SNDTIMEO_def)

lemma fdm_put_managed: "managed fd c m \<Longrightarrow> fx_isSocket c' \<Longrightarrow> managed fd c' (fdm_put fd c' m)"
  by (simp add: managed_def fdm_put_def)

lemma managed_sock_valid: "managed fd c m \<Longrightarrow> fd \<noteq> -1"
  by (auto simp: managed_def)

lemma setOption_timeout:
  assumes "managed (so_sock so) c (sy_fdm sy)" and "opt = SO_RCVTIMEO \<or> opt = SO_SNDTIMEO"
  shows "setOption True fstat SOL_SOCKET opt v r (so, sy) =
    Ok (r = SRet 0) (so, called (SysSetsockopt (so_sock so) SOL_SOCKET opt v)
      (sy\<lparr>sy_fdm := fdm_put (so_sock so) (setTimeout opt (timeout_of v) c) (sy_fdm sy)\<rparr>))"
  using managed_get [OF assms(1), of fstat] assms(2)
  by (auto simp: setOption_def hook_setsockopt_def andThen_def on_fdm_def)

text \<open>A receive or send timeout set in milliseconds (below 2 ^ 31 seconds) on a managed socket is read back
  unchanged, as the timeout the hooked calls use, and leaves the other timeout alone.\<close>

theorem socket_timeouts:
  assumes "managed (so_sock so) c (sy_fdm sy)" and "0 \<le> v" and "v < 1000 * 2 ^ 31"
  shows "(\<exists>st. setRecvTimeout True fstat v r (so, sy) = Ok () st \<and> getRecvTimeout fstat st = Ok (word_of_int v) st \<and>
      getSendTimeout fstat st = Ok (fx_sendTimeout c) st) \<and>
    (\<exists>st. setSendTimeout True fstat v r (so, sy) = Ok () st \<and> getSendTimeout fstat st = Ok (word_of_int v) st \<and>
      getRecvTimeout fstat st = Ok (fx_recvTimeout c) st)"
proof -
  note t = timeout_of_timeval [OF assms(2,3)]
  have m: "managed (so_sock so) (setTimeout opt w c) (fdm_put (so_sock so) (setTimeout opt w c) (sy_fdm sy))" for opt w
    using fdm_put_managed [OF assms(1)] assms(1) by (simp add: setTimeout_def managed_def)
  let ?sy = "\<lambda>opt. called (SysSetsockopt (so_sock so) SOL_SOCKET opt (timeval_of v))
      (sy\<lparr>sy_fdm := fdm_put (so_sock so) (setTimeout opt (word_of_int v) c) (sy_fdm sy)\<rparr>)"
  have get: "getRecvTimeout fstat (so, ?sy opt) = Ok (fx_recvTimeout (setTimeout opt (word_of_int v) c)) (so, ?sy opt)"
    "getSendTimeout fstat (so, ?sy opt) = Ok (fx_sendTimeout (setTimeout opt (word_of_int v) c)) (so, ?sy opt)" for opt
    by (rule timeouts_managed; simp add: called_def m)+
  have set: "setRecvTimeout True fstat v r (so, sy) = Ok () (so, ?sy SO_RCVTIMEO)"
    "setSendTimeout True fstat v r (so, sy) = Ok () (so, ?sy SO_SNDTIMEO)"
    using setOption_timeout [OF assms(1), of SO_RCVTIMEO fstat "timeval_of v" r]
      setOption_timeout [OF assms(1), of SO_SNDTIMEO fstat "timeval_of v" r] t
    by (simp_all add: setRecvTimeout_def setSendTimeout_def)
  show ?thesis
    using set get [of SO_RCVTIMEO] get [of SO_SNDTIMEO]
    by (simp add: setTimeout_def SO_RCVTIMEO_def SO_SNDTIMEO_def)
qed

theorem socket_timeouts_witness:
  "\<exists>st. setRecvTimeout True (\<lambda>_. Some True) 1500 (SRet 0) (CreateTCPSocket\<lparr>so_sock := 5\<rparr>, demo_sys) = Ok () st \<and>
     getRecvTimeout (\<lambda>_. Some True) st = Ok 1500 st"
  using socket_timeouts [of "CreateTCPSocket\<lparr>so_sock := 5\<rparr>" demo_ctx5 demo_sys 1500 "\<lambda>_. Some True" "SRet 0"] demo_fdm_ok(2)
  by (auto simp: demo_sys_def)

text \<open>The constructors for UDP mark the socket as connected also when \<open>socket(2)\<close> failed: the object then claims a
  connection without a descriptor, and its transfers go to the kernel with descriptor -1.\<close>

theorem udp_socket_without_descriptor:
  "\<exists>so. CreateUDPSocket en fstat (-1) rs sy = Ok () (so, sy) \<and> so_isConnected so \<and> \<not> isVaild so \<and> \<not> sock_ok so \<and>
     Socket_send send so n x k = send (-1) n x k"
  by (cases sy) (simp add: CreateUDPSocket_def newSock_def hook_socket_def andThen_def on_fdm_def Socket_new_def isVaild_def
      sock_ok_def Socket_send_def)

end
