(* ===== verification/ByteStream.thy ===== *)
theory ByteStream
  imports Prelude
begin

text \<open>
  \<open>src/stream.cc\<close>, \<open>include/http/stream.hh\<close>: the loops of \<open>Stream\<close> that transfer a fixed number of bytes.

  The pure virtual members are arguments. \<open>read(buffer, length)\<close> is a function \<open>rd\<close> of the length and the state
  of the stream, which gives the \<open>int\<close> it returns and the bytes it stores at \<open>buffer\<close>; \<open>write(buffer, length)\<close>
  is a function \<open>wr\<close> of the length, the memory from \<open>buffer\<close> to the end of its object and the state. The members
  on a \<open>ByteArray\<close> have the array in the state. \<open>size_t\<close> is \<open>u64\<close> here, since the code stores the negative result
  of a failed call in a \<open>size_t\<close>. A loop that never ends is \<open>None\<close>.
\<close>

type_synonym ('b, 's) reader = "nat \<Rightarrow> 's \<Rightarrow> (int \<times> 'b list) \<times> 's"
type_synonym ('b, 's) writer = "nat \<Rightarrow> 'b list \<Rightarrow> 's \<Rightarrow> int \<times> 's"

text \<open>The conversion of a \<open>size_t\<close> to the \<open>int\<close> that is returned.\<close>

definition size_to_int :: "u64 \<Rightarrow> int" where
  "size_to_int n = sint (ucast n :: u32)"

subsection \<open>Reading and writing a fixed number of bytes\<close>

partial_function (option) readFix_loop ::
  "('b, 's) reader \<Rightarrow> u64 \<Rightarrow> 'b list \<Rightarrow> u64 \<Rightarrow> u64 \<Rightarrow> 's \<Rightarrow> (int \<times> 'b list, 's) outcome option" where
  "readFix_loop rd len buffer offset left s =
     (if left = 0 then Some (Ok (size_to_int len, buffer) s)
      else
        let ((r, bytes), s) = rd (unat len) s;
            read_size = word_of_int r :: u64
        in
        if bytes \<noteq> [] \<and> length buffer < unat offset + length bytes then Some (Crash OutOfBounds)
        else
          let buffer = overwrite buffer (unat offset) bytes in
          if read_size \<le> 0 then Some (Ok (size_to_int read_size, buffer) s)
          else readFix_loop rd len buffer (offset + read_size) (left - read_size) s)"

definition readFixSize :: "('b, 's) reader \<Rightarrow> 'b list \<Rightarrow> u64 \<Rightarrow> 's \<Rightarrow> (int \<times> 'b list, 's) outcome option" where
  "readFixSize rd buffer len s = readFix_loop rd len buffer 0 len s"

partial_function (option) readFix_ba_loop :: "(nat \<Rightarrow> 's \<Rightarrow> int \<times> 's) \<Rightarrow> u64 \<Rightarrow> u64 \<Rightarrow> 's \<Rightarrow> (int \<times> 's) option" where
  "readFix_ba_loop rd len left s =
     (if left = 0 then Some (size_to_int len, s)
      else
        let (r, s) = rd (unat len) s;
            read_size = word_of_int r :: u64
        in if read_size \<le> 0 then Some (size_to_int read_size, s)
           else readFix_ba_loop rd len (left - read_size) s)"

definition readFixSize_ba :: "(nat \<Rightarrow> 's \<Rightarrow> int \<times> 's) \<Rightarrow> u64 \<Rightarrow> 's \<Rightarrow> (int \<times> 's) option" where
  "readFixSize_ba rd len s = readFix_ba_loop rd len len s"

partial_function (option) writeFix_loop ::
  "('b, 's) writer \<Rightarrow> u64 \<Rightarrow> 'b list \<Rightarrow> u64 \<Rightarrow> u64 \<Rightarrow> 's \<Rightarrow> (int, 's) outcome option" where
  "writeFix_loop wr len buffer offset left s =
     (if left = 0 then Some (Ok (size_to_int len) s)
      else
        let memory = drop (unat offset) buffer;
            (r, s) = wr (unat len) memory s;
            write_size = word_of_int r :: u64
        in
        if int (length memory) < r then Some (Crash OutOfBounds)
        else if write_size \<le> 0 then Some (Ok (size_to_int write_size) s)
        else writeFix_loop wr len buffer (offset + write_size) (left - write_size) s)"

definition writeFixSize :: "('b, 's) writer \<Rightarrow> 'b list \<Rightarrow> u64 \<Rightarrow> 's \<Rightarrow> (int, 's) outcome option" where
  "writeFixSize wr buffer len s = writeFix_loop wr len buffer 0 len s"

partial_function (option) writeFix_ba_loop :: "(nat \<Rightarrow> 's \<Rightarrow> int \<times> 's) \<Rightarrow> u64 \<Rightarrow> u64 \<Rightarrow> 's \<Rightarrow> (int \<times> 's) option" where
  "writeFix_ba_loop wr len left s =
     (if left = 0 then Some (size_to_int len, s)
      else
        let (r, s) = wr (unat len) s;
            write_size = word_of_int r :: u64
        in if write_size \<le> 0 then Some (size_to_int write_size, s)
           else writeFix_ba_loop wr len (left - write_size) s)"

definition writeFixSize_ba :: "(nat \<Rightarrow> 's \<Rightarrow> int \<times> 's) \<Rightarrow> u64 \<Rightarrow> 's \<Rightarrow> (int \<times> 's) option" where
  "writeFixSize_ba wr len s = writeFix_ba_loop wr len len s"

declare readFix_loop.simps [code] readFix_ba_loop.simps [code] writeFix_loop.simps [code] writeFix_ba_loop.simps [code]

subsection \<open>Streams of segments\<close>

text \<open>What the loops need of a stream: \<open>segs s\<close> are the segments that have arrived or will arrive, none empty,
  and a read delivers the first one, or as much of it as was asked for (\<open>recv(2)\<close>).\<close>

definition delivers :: "('b, 's) reader \<Rightarrow> ('s \<Rightarrow> 'b list list) \<Rightarrow> bool" where
  "delivers rd segs \<longleftrightarrow> (\<forall>s n c cs. segs s = c # cs \<longrightarrow> 0 < n \<longrightarrow> n < 2 ^ 31 \<longrightarrow>
     c \<noteq> [] \<and> fst (rd n s) = (int (min n (length c)), take n c) \<and>
     segs (snd (rd n s)) = (if n < length c then drop n c # cs else cs))"

text \<open>A writer takes \<open>caps s\<close> bytes on its next calls, or what it is given if that is less (\<open>send(2)\<close>); \<open>sent\<close> is
  what it has taken.\<close>

definition accepts :: "('b, 's) writer \<Rightarrow> ('s \<Rightarrow> nat list) \<Rightarrow> ('s \<Rightarrow> 'b list) \<Rightarrow> bool" where
  "accepts wr caps sent \<longleftrightarrow> (\<forall>s n mem c cs. caps s = c # cs \<longrightarrow> 0 < n \<longrightarrow> n < 2 ^ 31 \<longrightarrow>
     0 < c \<and> fst (wr n mem s) = int (min n c) \<and> caps (snd (wr n mem s)) = cs \<and>
     sent (snd (wr n mem s)) = sent s @ take (min n c) mem)"

lemma size_to_int_small [simp]:
  assumes "n < 2 ^ 31"
  shows "size_to_int (word_of_nat n) = int n"
proof -
  have "sint (word_of_nat n :: u32) = int n"
    using assms by (simp add: signed_of_nat signed_take_bit_int_eq_self)
  moreover have "(ucast (word_of_nat n :: u64) :: u32) = word_of_nat n"
    using assms by (simp add: unsigned_of_nat take_bit_nat_eq_self)
  ultimately show ?thesis by (simp add: size_to_int_def)
qed

lemma size_to_int_0 [simp]: "size_to_int 0 = 0"
  by (simp add: size_to_int_def)

lemma of_nat_size_eq_0 [simp]: "n < 2 ^ 31 \<Longrightarrow> (word_of_nat n :: u64) = 0 \<longleftrightarrow> n = 0"
  using word_of_nat_eq_0_iff [of n] by (auto dest: dvd_imp_le)

lemma unat_of_nat_size [simp]: "n < 2 ^ 31 \<Longrightarrow> unat (word_of_nat n :: u64) = n"
  by (simp add: unsigned_of_nat take_bit_nat_eq_self)

lemma deliversD:
  assumes "delivers rd segs" and "segs s = c # cs" and "0 < n" and "n < 2 ^ 31"
  shows "c \<noteq> []" and "fst (rd n s) = (int (min n (length c)), take n c)"
    and "segs (snd (rd n s)) = (if n < length c then drop n c # cs else cs)"
  using assms unfolding delivers_def by blast+

lemma size_word_simps:
  assumes "0 < m" and "m < 2 ^ 31" and "k < n" and "n < 2 ^ 31" and "k + m \<le> n"
  shows "(word_of_int (int m) :: u64) \<noteq> 0" and "(word_of_nat (n - k) :: u64) \<noteq> 0"
    and "word_of_nat (n - k) - word_of_int (int m) = (word_of_nat (n - (k + m)) :: u64)"
    and "word_of_nat k + word_of_int (int m) = (word_of_nat (k + m) :: u64)"
    and "unat (word_of_nat k :: u64) = k" and "unat (word_of_nat n :: u64) = n"
proof -
  show "(word_of_int (int m) :: u64) \<noteq> 0" using of_nat_size_eq_0 [OF assms(2)] assms(1) by simp
  show "(word_of_nat (n - k) :: u64) \<noteq> 0" using of_nat_size_eq_0 [of "n - k"] assms(3,4) by simp
  show "word_of_nat (n - k) - word_of_int (int m) = (word_of_nat (n - (k + m)) :: u64)"
    using assms(5) by (simp add: of_nat_diff)
qed (use assms in simp_all)

lemma readFix_step:
  assumes d: "delivers rd segs" and s: "segs s = c # cs" and k: "k < n" and n: "n < 2 ^ 31"
    and "k + min n (length c) \<le> n" and "length buffer = n"
  shows "readFix_loop rd (word_of_nat n) buffer (word_of_nat k) (word_of_nat (n - k)) s =
    readFix_loop rd (word_of_nat n) (overwrite buffer k (take n c))
      (word_of_nat (k + min n (length c))) (word_of_nat (n - (k + min n (length c)))) (snd (rd n s))"
proof -
  let ?m = "min n (length c)"
  have n0: "0 < n" using k by simp
  note rd = deliversD [OF d s n0 n]
  have m: "0 < ?m" "?m < 2 ^ 31" using rd(1) k n by auto
  note w = size_word_simps [OF m k n assms(5)]
  have "\<not> length buffer < k + length (take n c)" using assms by (simp add: min.commute)
  then show ?thesis
    by (subst readFix_loop.simps) (simp add: w rd(2) split_beta Let_def del: of_nat_min of_nat_diff of_int_of_nat_eq)
qed

lemma readFix_overflow:
  assumes d: "delivers rd segs" and s: "segs s = c # cs" and k: "k < n" and n: "n < 2 ^ 31"
    and "n < k + min n (length c)" and "length buffer = n"
  shows "readFix_loop rd (word_of_nat n) buffer (word_of_nat k) (word_of_nat (n - k)) s = Some (Crash OutOfBounds)"
proof -
  have n0: "0 < n" using k by simp
  note rd = deliversD [OF d s n0 n]
  have nz: "(word_of_nat (n - k) :: u64) \<noteq> 0" using of_nat_size_eq_0 [of "n - k"] k n by simp
  have "length buffer < k + length (take n c)" "take n c \<noteq> []" using assms(5,6) rd(1) n0 by (auto simp: min.commute)
  then show ?thesis using k n
    by (subst readFix_loop.simps) (simp add: nz rd(2) split_beta Let_def del: of_nat_diff)
qed

lemma readFix_loop_0: "readFix_loop rd len buffer offset 0 s = Some (Ok (size_to_int len, buffer) s)"
  by (subst readFix_loop.simps) simp

text \<open>From the offset \<open>k\<close> on, as long as the segments fit.\<close>

lemma readFix_segments:
  assumes "delivers rd segs" and "n < 2 ^ 31"
  shows "segs s = cs @ rest \<Longrightarrow> k + length (concat cs) \<le> n \<Longrightarrow> length buffer = n \<Longrightarrow>
    \<exists>s'. segs s' = rest \<and>
      readFix_loop rd (word_of_nat n) buffer (word_of_nat k) (word_of_nat (n - k)) s =
      readFix_loop rd (word_of_nat n) (overwrite buffer k (concat cs))
        (word_of_nat (k + length (concat cs))) (word_of_nat (n - (k + length (concat cs)))) s'"
proof (induction cs arbitrary: s k buffer)
  case Nil
  then show ?case by auto
next
  case (Cons c cs)
  have s: "segs s = c # (cs @ rest)" using Cons.prems(1) by simp
  show ?case
  proof (cases "k < n")
    case False
    then have "length (concat (c # cs)) = 0" using Cons.prems(2) by linarith
    then have "c = []" by simp
    moreover have "c \<noteq> []" using deliversD(1) [OF assms(1) s, of 1] by simp
    ultimately show ?thesis by simp
  next
    case True
    have n0: "0 < n" using True by simp
    have le: "length c \<le> n" using Cons.prems(2) by simp
    then have m: "min n (length c) = length c" "take n c = c" by simp_all
    note step = readFix_step [OF assms(1) s True assms(2) _ Cons.prems(3), unfolded m]
    have "segs (snd (rd n s)) = cs @ rest" using deliversD(3) [OF assms(1) s n0 assms(2)] le by simp
    from Cons.IH [OF this, of "k + length c" "overwrite buffer k c"] step Cons.prems(2,3)
    show ?thesis by (simp add: overwrite_append add.assoc)
  qed
qed

lemma readFixSize_exact:
  assumes "delivers rd segs" and "segs s = cs @ rest" and "length (concat cs) = n" and "n < 2 ^ 31" and "length buffer = n"
  shows "\<exists>s'. readFixSize rd buffer (word_of_nat n) s = Some (Ok (int n, concat cs) s') \<and> segs s' = rest"
  using readFix_segments [OF assms(1,4,2), of 0 buffer] assms(3-5)
  by (auto simp: readFixSize_def readFix_loop_0 overwrite_def)

lemma delivers_nonempty: "delivers rd segs \<Longrightarrow> segs s = c # cs \<Longrightarrow> c \<noteq> []"
  using deliversD(1) [of rd segs s c cs 1] by simp

subsection \<open>Writing\<close>

lemma acceptsD:
  assumes "accepts wr caps sent" and "caps s = c # cs" and "0 < n" and "n < 2 ^ 31"
  shows "0 < c" and "fst (wr n mem s) = int (min n c)" and "caps (snd (wr n mem s)) = cs"
    and "sent (snd (wr n mem s)) = sent s @ take (min n c) mem"
  using assms unfolding accepts_def by blast+

lemma writeFix_step:
  assumes a: "accepts wr caps sent" and s: "caps s = c # cs" and k: "k < n" and n: "n < 2 ^ 31"
    and "k + min n c \<le> n" and "length buffer = n"
  shows "writeFix_loop wr (word_of_nat n) buffer (word_of_nat k) (word_of_nat (n - k)) s =
    writeFix_loop wr (word_of_nat n) buffer
      (word_of_nat (k + min n c)) (word_of_nat (n - (k + min n c))) (snd (wr n (drop k buffer) s))"
proof -
  have n0: "0 < n" using k by simp
  note wr = acceptsD [OF a s n0 n]
  have m: "0 < min n c" "min n c < 2 ^ 31" using wr(1) k n by auto
  note w = size_word_simps [OF m k n assms(5)]
  have "\<not> (length buffer - k < n \<and> length buffer - k < c)" using assms(5,6) by auto
  then show ?thesis
    by (subst writeFix_loop.simps) (auto simp add: w wr(2) split_beta Let_def simp del: of_nat_min of_nat_diff of_int_of_nat_eq)
qed

lemma writeFix_overrun:
  assumes a: "accepts wr caps sent" and s: "caps s = c # cs" and k: "k < n" and n: "n < 2 ^ 31"
    and "n < k + min n c" and "length buffer = n"
  shows "writeFix_loop wr (word_of_nat n) buffer (word_of_nat k) (word_of_nat (n - k)) s = Some (Crash OutOfBounds)"
proof -
  have n0: "0 < n" using k by simp
  note wr = acceptsD [OF a s n0 n]
  have nz: "(word_of_nat (n - k) :: u64) \<noteq> 0" using of_nat_size_eq_0 [of "n - k"] k n by simp
  have "int (length (drop k buffer)) < int (min n c)" using assms(3,5,6) by auto
  then show ?thesis using k n
    by (subst writeFix_loop.simps) (simp add: nz wr(2) split_beta Let_def del: of_nat_diff of_nat_min)
qed

lemma writeFix_loop_0: "writeFix_loop wr len buffer offset 0 s = Some (Ok (size_to_int len) s)"
  by (subst writeFix_loop.simps) simp

lemma writeFix_calls:
  assumes a: "accepts wr caps sent" and n: "n < 2 ^ 31" and b: "length buffer = n"
  shows "caps s = cs @ rest \<Longrightarrow> k + sum_list cs \<le> n \<Longrightarrow>
    \<exists>s'. caps s' = rest \<and> sent s' = sent s @ take (sum_list cs) (drop k buffer) \<and>
      writeFix_loop wr (word_of_nat n) buffer (word_of_nat k) (word_of_nat (n - k)) s =
      writeFix_loop wr (word_of_nat n) buffer
        (word_of_nat (k + sum_list cs)) (word_of_nat (n - (k + sum_list cs))) s'"
proof (induction cs arbitrary: s k)
  case Nil
  then show ?case by auto
next
  case (Cons c cs)
  have s: "caps s = c # (cs @ rest)" using Cons.prems(1) by simp
  have c: "0 < c" using acceptsD(1) [OF a s, of 1] by simp
  have k: "k < n" and m: "min n c = c" using c Cons.prems(2) by auto
  have n0: "0 < n" using k by simp
  note wr = acceptsD(2-4) [where mem = "drop k buffer", OF a s n0 n, unfolded m]
  note step = writeFix_step [OF a s k n _ b, unfolded m]
  have tk: "take c (drop k buffer) @ take (sum_list cs) (drop (k + c) buffer) = take (c + sum_list cs) (drop k buffer)"
    by (rule take_take_drop_append)
  have "k + c + sum_list cs \<le> n" using Cons.prems(2) by simp
  from Cons.IH [OF wr(2) this] obtain s' where s': "caps s' = rest"
      "sent s' = sent (snd (wr n (drop k buffer) s)) @ take (sum_list cs) (drop (k + c) buffer)"
      "writeFix_loop wr (word_of_nat n) buffer (word_of_nat (k + c)) (word_of_nat (n - (k + c))) (snd (wr n (drop k buffer) s)) =
       writeFix_loop wr (word_of_nat n) buffer (word_of_nat (k + c + sum_list cs)) (word_of_nat (n - (k + c + sum_list cs))) s'"
    by blast
  have "k + c \<le> n" using Cons.prems(2) by simp
  note step = step [OF this]
  show ?case using s' step wr(3) tk by (intro exI [of _ s']) (simp add: add.assoc)
qed

subsection \<open>Streams that fail\<close>

text \<open>A reader that counts how often it is called.\<close>

definition counted :: "('b, 's) reader \<Rightarrow> ('b, 's \<times> nat) reader" where
  "counted rd n s = (let (x, s') = rd n (fst s) in (x, s', Suc (snd s)))"

lemma failing_step:
  assumes "\<forall>s. fst (rd (unat len) s) = (-1, [])" and "left \<noteq> 0"
  shows "readFix_loop (counted rd) len buffer offset left (s, i) =
    readFix_loop (counted rd) len buffer (offset - 1) (left + 1) (snd (rd (unat len) s), Suc i)"
  using assms by (subst readFix_loop.simps) (simp add: counted_def split_beta Let_def)

lemma failing_loop:
  assumes "\<forall>s. fst (rd (unat len) s) = (-1, [])"
  shows "i + 2 ^ 64 - unat left = j \<Longrightarrow> left \<noteq> 0 \<Longrightarrow>
    \<exists>s'. readFix_loop (counted rd) len buffer offset left (s, i) = Some (Ok (size_to_int len, buffer) (s', j))"
proof (induction "2 ^ 64 - unat left" arbitrary: left offset s i rule: less_induct)
  case less
  note step = failing_step [where rd = rd and len = len and buffer = buffer and offset = offset and s = s and i = i, OF assms less.prems(2)]
  have lt: "unat left < 2 ^ 64" using unsigned_less [of left, where 'a = nat] by simp
  show ?case
  proof (cases "left + 1 = 0")
    case True
    then have "left = - 1" by (simp add: eq_neg_iff_add_eq_0)
    moreover have "unat (- 1 :: u64) = 2 ^ 64 - 1"
      by (simp only: unsigned_minus_1_eq_mask mask_eq_exp_minus_1) simp
    ultimately have "unat left = 2 ^ 64 - 1" by simp
    then have "j = Suc i" using less.prems(1) by simp
    then show ?thesis using step \<open>left = - 1\<close> by (simp add: readFix_loop_0)
  next
    case False
    then have u: "unat (left + 1) = Suc (unat left)" by (simp add: unatSuc add.commute)
    have "2 ^ 64 - unat (left + 1) < 2 ^ 64 - unat left" using u lt by simp
    moreover have "Suc i + 2 ^ 64 - unat (left + 1) = j" using u less.prems(1) by simp
    ultimately show ?thesis using less.hyps [of "left + 1" "Suc i"] False step by simp
  qed
qed

subsection \<open>What the loops guarantee\<close>

text \<open>C38. \<open>readFixSize\<close> fills the buffer with the next bytes of the stream when a segment ends exactly where the
  buffer does, or when the first segment alone fills it. When the first segments are too short and the next one
  reaches past the end of the buffer, the loop, which asks for \<open>length\<close> bytes every time and not for what is left,
  writes past the end of the buffer.\<close>

theorem read_fixed_size:
  assumes "delivers rd segs" and "n < 2 ^ 31" and "length buffer = n"
    and "segs s = cs @ c # rest" and "length (concat cs) < n"
  shows "(length (concat cs) + length c = n \<longrightarrow>
      (\<exists>s'. readFixSize rd buffer (word_of_nat n) s = Some (Ok (int n, concat cs @ c) s') \<and> segs s' = rest))
    \<and> (cs = [] \<and> n < length c \<longrightarrow>
      (\<exists>s'. readFixSize rd buffer (word_of_nat n) s = Some (Ok (int n, take n c) s') \<and> segs s' = drop n c # rest))
    \<and> (cs \<noteq> [] \<and> n < length (concat cs) + length c \<longrightarrow>
      readFixSize rd buffer (word_of_nat n) s = Some (Crash OutOfBounds))"
proof (intro conjI impI; (elim conjE)?)
  assume "length (concat cs) + length c = n"
  then show "\<exists>s'. readFixSize rd buffer (word_of_nat n) s = Some (Ok (int n, concat cs @ c) s') \<and> segs s' = rest"
    using readFixSize_exact [OF assms(1), of s "cs @ [c]" rest n buffer] assms(2-4) by simp
next
  assume "cs = []" and c: "n < length c"
  have n: "0 < n" using assms(5) by simp
  have s: "segs s = c # rest" using assms(4) \<open>cs = []\<close> by simp
  have "min n (length c) = n" using c by simp
  then show "\<exists>s'. readFixSize rd buffer (word_of_nat n) s = Some (Ok (int n, take n c) s') \<and> segs s' = drop n c # rest"
    using readFix_step [OF assms(1) s n assms(2) _ assms(3)] deliversD(3) [OF assms(1) s n assms(2)] c assms(2,3)
    by (auto simp: readFixSize_def readFix_loop_0 overwrite_def)
next
  assume "cs \<noteq> []" and gt: "n < length (concat cs) + length c"
  obtain s' where s': "segs s' = c # rest"
    "readFixSize rd buffer (word_of_nat n) s = readFix_loop rd (word_of_nat n) (overwrite buffer 0 (concat cs))
       (word_of_nat (length (concat cs))) (word_of_nat (n - length (concat cs))) s'"
    using readFix_segments [OF assms(1,2), of s cs "c # rest" 0 buffer] assms(3-5) by (auto simp: readFixSize_def)
  have "hd cs \<noteq> []"
    using deliversD(1) [OF assms(1), of s "hd cs" "tl cs @ c # rest" 1] assms(4) \<open>cs \<noteq> []\<close> by (cases cs) auto
  then have "0 < length (concat cs)" using \<open>cs \<noteq> []\<close> by (cases cs) auto
  then have "n < length (concat cs) + min n (length c)" using gt by linarith
  then show "readFixSize rd buffer (word_of_nat n) s = Some (Crash OutOfBounds)"
    using readFix_overflow [OF assms(1) s'(1) assms(5,2), of "overwrite buffer 0 (concat cs)"] s'(2) assms(3,5)
    by simp
qed

text \<open>A stream whose state is the list of segments, and a sink whose state is its capacities and what it took.\<close>

fun seg_read :: "('b, 'b list list) reader" where
  "seg_read n [] = ((0, []), [])"
| "seg_read n (c # cs) =
     ((int (min n (length c)), take n c), if n < length c then drop n c # cs else cs)"

fun cap_write :: "('b, nat list \<times> 'b list) writer" where
  "cap_write n mem ([], out) = (-1, [], out)"
| "cap_write n mem (c # cs, out) = (int (min n c), cs, out @ take (min n c) mem)"

text \<open>Segments of a network are never empty, and what remains of one is not.\<close>

definition nonempty_segs :: "'b list list \<Rightarrow> 'b list list" where
  "nonempty_segs = takeWhile (\<lambda>c. c \<noteq> [])"

lemma seg_read_delivers: "delivers seg_read nonempty_segs"
  unfolding delivers_def nonempty_segs_def
proof (intro allI impI)
  fix s :: "'b list list" and n :: nat and c cs
  assume "takeWhile (\<lambda>c. c \<noteq> []) s = c # cs" and "0 < n" and "n < 2 ^ 31"
  then show "c \<noteq> [] \<and> fst (seg_read n s) = (int (min n (length c)), take n c) \<and>
    takeWhile (\<lambda>c. c \<noteq> []) (snd (seg_read n s)) = (if n < length c then drop n c # cs else cs)"
    by (cases s) (auto split: if_splits)
qed

definition pos_caps :: "nat list \<times> 'b list \<Rightarrow> nat list" where
  "pos_caps s = takeWhile (\<lambda>c. 0 < c) (fst s)"

lemma cap_write_accepts: "accepts cap_write pos_caps snd"
  unfolding accepts_def pos_caps_def
proof (intro allI impI)
  fix s :: "nat list \<times> 'b list" and n :: nat and mem :: "'b list" and c cs
  assume "takeWhile (\<lambda>c. 0 < c) (fst s) = c # cs" and "0 < n" and "n < (2::nat) ^ 31"
  then show "0 < c \<and> fst (cap_write n mem s) = int (min n c) \<and>
    takeWhile (\<lambda>c. 0 < c) (fst (snd (cap_write n mem s))) = cs \<and>
    snd (snd (cap_write n mem s)) = snd s @ take (min n c) mem"
    by (cases "(n, mem, s)" rule: cap_write.cases) (auto split: if_splits)
qed

theorem read_fixed_size_witness:
  "readFixSize seg_read [0, 0, 0, 0] 4 [[1], [2, 3, 4], [5 :: int]] = Some (Ok (4, [1, 2, 3, 4]) [[5]])
   \<and> readFixSize seg_read [0, 0, 0, 0] 4 [[1], [2, 3, 4, 5 :: int]] = Some (Crash OutOfBounds)"
proof -
  have "delivers seg_read nonempty_segs" by (rule seg_read_delivers)
  note r = read_fixed_size [OF this, of 4 "[0, 0, 0, 0 :: int]"]
  have "\<exists>s'. readFixSize seg_read [0, 0, 0, 0] 4 [[1], [2, 3, 4], [5 :: int]] = Some (Ok (4, [1, 2, 3, 4]) s')"
    using r [of "[[1], [2, 3, 4], [5]]" "[[1]]" "[2, 3, 4]" "[[5]]"] by (auto simp add: nonempty_segs_def)
  moreover have "readFixSize seg_read [0, 0, 0, 0] 4 [[1], [2, 3, 4, 5 :: int]] = Some (Crash OutOfBounds)"
    using r [of "[[1], [2, 3, 4, 5]]" "[[1]]" "[2, 3, 4, 5]" "[]"] by (simp add: nonempty_segs_def)
  moreover have "readFixSize seg_read [0, 0, 0, 0] 4 [[1], [2, 3, 4], [5 :: int]] = Some (Ok (4, [1, 2, 3, 4]) [[5]])"
    by code_simp
  ultimately show ?thesis by simp
qed

text \<open>\<open>writeFixSize\<close> sends exactly the buffer when the calls of \<open>write\<close> take it in pieces that end exactly
  at its end. As every call is asked to write \<open>length\<close> bytes, also after a short one, a later call that takes more
  than what is left reads past the end of the buffer.\<close>

theorem write_fixed_size:
  assumes "accepts wr caps sent" and "n < 2 ^ 31" and "length buffer = n"
    and "caps s = cs @ c # rest" and "sum_list cs < n"
  shows "(sum_list cs + min n c = n \<longrightarrow>
      (\<exists>s'. writeFixSize wr buffer (word_of_nat n) s = Some (Ok (int n) s') \<and> sent s' = sent s @ buffer))
    \<and> (n < sum_list cs + min n c \<longrightarrow> writeFixSize wr buffer (word_of_nat n) s = Some (Crash OutOfBounds))"
proof -
  obtain s' where s': "caps s' = c # rest" "sent s' = sent s @ take (sum_list cs) buffer"
    "writeFixSize wr buffer (word_of_nat n) s = writeFix_loop wr (word_of_nat n) buffer
       (word_of_nat (sum_list cs)) (word_of_nat (n - sum_list cs)) s'"
    using writeFix_calls [OF assms(1-3), of s cs "c # rest" 0] assms(4,5) by (auto simp: writeFixSize_def)
  have n: "0 < n" using assms(5) by simp
  show ?thesis
  proof (intro conjI impI)
    assume eq: "sum_list cs + min n c = n"
    have "take (sum_list cs) buffer @ take (min n c) (drop (sum_list cs) buffer) = buffer"
      using eq assms(3) by (simp add: take_add [symmetric])
    then show "\<exists>s'. writeFixSize wr buffer (word_of_nat n) s = Some (Ok (int n) s') \<and> sent s' = sent s @ buffer"
      using writeFix_step [OF assms(1) s'(1) assms(5,2) _ assms(3)] s'(2,3) eq assms(2)
        acceptsD(4) [OF assms(1) s'(1) n assms(2)] by (simp add: writeFix_loop_0)
  next
    assume "n < sum_list cs + min n c"
    then show "writeFixSize wr buffer (word_of_nat n) s = Some (Crash OutOfBounds)"
      using writeFix_overrun [OF assms(1) s'(1) assms(5,2) _ assms(3)] s'(3) by simp
  qed
qed

theorem write_fixed_size_witness:
  "(\<exists>s'. writeFixSize cap_write [1, 2, 3] 3 ([1, 2], []) = Some (Ok 3 s') \<and> snd s' = [1, 2, 3 :: int])
   \<and> writeFixSize cap_write [1, 2, 3 :: int] 3 ([1, 3], []) = Some (Crash OutOfBounds)"
  using write_fixed_size [OF cap_write_accepts, of 3 "[1, 2, 3 :: int]" "([1, 2], [])" "[1]" 2 "[]"]
    write_fixed_size [OF cap_write_accepts, of 3 "[1, 2, 3 :: int]" "([1, 3], [])" "[1]" 3 "[]"]
  by (simp add: pos_caps_def)

text \<open>The result of a failed call is stored in a \<open>size_t\<close>, where the test \<open><= 0\<close> does not see it: on a stream whose
  reads all fail, \<open>readFixSize\<close> calls \<open>read\<close> 2 ^ 64 - \<open>length\<close> times and then reports that all bytes were read, leaving
  the buffer as it was.\<close>

theorem read_failure_spins:
  assumes "\<forall>s. fst (rd (unat len) s) = (-1, [])" and "len \<noteq> 0"
  shows "\<exists>s'. readFixSize (counted rd) buffer len (s, 0) =
    Some (Ok (size_to_int len, buffer) (s', 2 ^ 64 - unat len))"
  using failing_loop [where i = 0 and left = len and rd = rd and len = len, OF assms(1) _ assms(2)] by (simp add: readFixSize_def)

theorem read_failure_spins_witness:
  "\<exists>s'. readFixSize (counted (\<lambda>n s. ((-1, []), s))) [0, 0 :: u8] 2 ((), 0) =
    Some (Ok (2, [0, 0]) (s', 2 ^ 64 - 2))"
proof -
  have "size_to_int 2 = 2" using size_to_int_small [of 2] by simp
  then show ?thesis
    using read_failure_spins [where rd = "\<lambda>n s. ((-1, []), s)" and len = 2 and buffer = "[0, 0 :: u8]" and s = "()"]
    by simp
qed

subsection \<open>The loops over byte arrays\<close>

text \<open>A loop over a memory buffer that returns does what the loop over a byte array does with the same calls: it
  returns the same value in the same state of the stream.\<close>

definition without_bytes :: "('b, 's) reader \<Rightarrow> nat \<Rightarrow> 's \<Rightarrow> int \<times> 's" where
  "without_bytes rd n s = (fst (fst (rd n s)), snd (rd n s))"

lemma readFix_loops_agree:
  "readFix_loop rd len buffer offset left s = Some y \<Longrightarrow>
   \<forall>r b s'. y = Ok (r, b) s' \<longrightarrow> readFix_ba_loop (without_bytes rd) len left s = Some (r, s')"
proof (rule readFix_loop.raw_induct [where P = "\<lambda>rd len buffer offset left s y.
    \<forall>r b s'. y = Ok (r, b) s' \<longrightarrow> readFix_ba_loop (without_bytes rd) len left s = Some (r, s')"], goal_cases)
  case (1 f rd len buffer offset left s y)
  show ?case
    using 1(3) by (subst readFix_ba_loop.simps) (auto simp: without_bytes_def Let_def split_beta split: if_splits dest: 1(2))
qed

end
