(* ===== verification/SocketStream.thy ===== *)
theory SocketStream
  imports Socket ByteStream ByteArray
begin

text \<open>
  \<open>src/sockstream.cc\<close>, \<open>include/http/socketstream.hh\<close>: a \<open>Stream\<close> over a \<open>Socket\<close>.

  The hooked \<open>recv\<close> and \<open>send\<close> are arguments, functions of the descriptor and the room or the bytes offered, on a
  state \<open>'k\<close> of the network. The members that transfer to and from a \<open>ByteArray\<close> hand the regions of its chain to
  \<open>recvmsg\<close> and \<open>sendmsg\<close>; \<open>scatter\<close> is how \<open>recvmsg\<close> fills the regions, in order (\<open>recvmsg(2)\<close>, \<open>readv(2)\<close>).
\<close>

record SocketStream =
  ss_socket :: "Socket option"
  ss_owner :: bool

definition SocketStream_new :: "Socket option \<Rightarrow> bool \<Rightarrow> SocketStream" where
  "SocketStream_new sock owner = \<lparr>ss_socket = sock, ss_owner = owner\<rparr>"

definition ss_isConnected :: "SocketStream \<Rightarrow> bool" where
  "ss_isConnected ss \<longleftrightarrow> (case ss_socket ss of None \<Rightarrow> False | Some so \<Rightarrow> so_isConnected so)"

definition SocketStream_read :: "(int \<Rightarrow> nat \<Rightarrow> 'k \<Rightarrow> (int \<times> 'b list) \<times> 'k) \<Rightarrow> SocketStream \<Rightarrow> ('b, 'k) reader" where
  "SocketStream_read recv ss n k =
     (if \<not> ss_isConnected ss then ((-1, []), k) else Socket_recv recv (the (ss_socket ss)) n k)"

definition SocketStream_write :: "(int \<Rightarrow> nat \<Rightarrow> 'b list \<Rightarrow> 'k \<Rightarrow> int \<times> 'k) \<Rightarrow> SocketStream \<Rightarrow> ('b, 'k) writer" where
  "SocketStream_write send ss n mem k =
     (if \<not> ss_isConnected ss then (-1, k) else Socket_send send (the (ss_socket ss)) n mem k)"

definition SocketStream_close :: "bool \<Rightarrow> (int \<Rightarrow> bool option) \<Rightarrow> bool \<Rightarrow> SocketStream \<times> 'c sys \<Rightarrow> (unit, SocketStream \<times> 'c sys) outcome" where
  "SocketStream_close en fstat fail st =
     (case st of (ss, sy) \<Rightarrow>
        (case ss_socket ss of
           None \<Rightarrow> Ok () (ss, sy)
         | Some so \<Rightarrow>
             (case Socket_close en fstat fail (so, sy) of
                Ok _ (so, sy) \<Rightarrow> Ok () (ss\<lparr>ss_socket := Some so\<rparr>, sy)
              | Throw e (so, sy) \<Rightarrow> Throw e (ss\<lparr>ss_socket := Some so\<rparr>, sy)
              | Crash x \<Rightarrow> Crash x)))"

definition SocketStream_dtor :: "bool \<Rightarrow> (int \<Rightarrow> bool option) \<Rightarrow> bool \<Rightarrow> SocketStream \<times> 'c sys \<Rightarrow> (unit, SocketStream \<times> 'c sys) outcome" where
  "SocketStream_dtor en fstat fail st =
     (if ss_owner (fst st) \<and> ss_socket (fst st) \<noteq> None then SocketStream_close en fstat fail st else Ok () st)"

subsection \<open>Byte arrays\<close>

fun scatter :: "u8 list list \<Rightarrow> iovec list \<Rightarrow> u8 list \<Rightarrow> u8 list list" where
  "scatter nodes [] bytes = nodes"
| "scatter nodes ((c, off, l) # iovs) bytes =
     scatter (nodes[c := overwrite (nodes ! c) off (take l bytes)]) iovs (drop l bytes)"

definition iov_total :: "iovec list \<Rightarrow> nat" where
  "iov_total iovs = sum_list (map (\<lambda>(c, off, l). l) iovs)"

definition SocketStream_read_ba :: "(int \<Rightarrow> nat \<Rightarrow> 'k \<Rightarrow> (int \<times> u8 list) \<times> 'k) \<Rightarrow> junk \<Rightarrow> SocketStream \<Rightarrow> nat \<Rightarrow>
    ByteArray \<times> 'k \<Rightarrow> (int, ByteArray \<times> 'k) outcome" where
  "SocketStream_read_ba recvmsg junk ss len st =
     (case st of (ba, k) \<Rightarrow>
        if \<not> ss_isConnected ss then Ok (-1) (ba, k)
        else case getWriteBuffers junk [] len ba of
          Crash x \<Rightarrow> Crash x
        | Throw e ba \<Rightarrow> Throw e (ba, k)
        | Ok (iovs, _) ba \<Rightarrow>
            if iovs = [] then Crash OutOfBounds
            else
              let ((read_size, bytes), k) = Socket_recv recvmsg (the (ss_socket ss)) (iov_total iovs) k;
                  ba = ba\<lparr>m_nodes := scatter (m_nodes ba) iovs bytes\<rparr>
              in if read_size > 0 then
                   (case setPosition (getPosition ba + nat read_size) ba of
                      Crash x \<Rightarrow> Crash x
                    | Throw e ba \<Rightarrow> Throw e (ba, k)
                    | Ok _ ba \<Rightarrow> Ok read_size (ba, k))
                 else Ok read_size (ba, k))"

definition SocketStream_write_ba :: "(int \<Rightarrow> nat \<Rightarrow> u8 list \<Rightarrow> 'k \<Rightarrow> int \<times> 'k) \<Rightarrow> SocketStream \<Rightarrow> nat \<Rightarrow>
    ByteArray \<times> 'k \<Rightarrow> (int, ByteArray \<times> 'k) outcome" where
  "SocketStream_write_ba sendmsg ss len st =
     (case st of (ba, k) \<Rightarrow>
        if \<not> ss_isConnected ss then Ok (-1) (ba, k)
        else case getReadBuffers [] len ba of
          Crash x \<Rightarrow> Crash x
        | Throw e ba \<Rightarrow> Throw e (ba, k)
        | Ok (iovs, _) ba \<Rightarrow>
            if iovs = [] then Crash OutOfBounds
            else
              let (write_size, k) = Socket_send sendmsg (the (ss_socket ss)) (iov_total iovs) (iov_bytes (m_nodes ba) iovs) k
              in if write_size > 0 then
                   (case setPosition (getPosition ba + nat write_size) ba of
                      Crash x \<Rightarrow> Crash x
                    | Throw e ba \<Rightarrow> Throw e (ba, k)
                    | Ok _ ba \<Rightarrow> Ok write_size (ba, k))
                 else Ok write_size (ba, k))"

subsection \<open>The stream as a source and a sink\<close>

lemma SocketStream_read_connected:
  assumes "ss_isConnected ss" and "ss_socket ss = Some so"
  shows "SocketStream_read recv ss n k = recv (so_sock so) n k"
  using assms by (simp add: SocketStream_read_def Socket_recv_def ss_isConnected_def)

lemma SocketStream_read_closed: "\<not> ss_isConnected ss \<Longrightarrow> SocketStream_read recv ss n k = ((-1, []), k)"
  by (simp add: SocketStream_read_def)

lemma SocketStream_delivers:
  assumes "ss_isConnected ss" and "ss_socket ss = Some so" and "delivers (recv (so_sock so)) segs"
  shows "delivers (SocketStream_read recv ss) segs"
  using assms(3) by (simp add: delivers_def SocketStream_read_connected [OF assms(1,2)])

lemma SocketStream_accepts:
  assumes "ss_isConnected ss" and "ss_socket ss = Some so" and "accepts (send (so_sock so)) caps sent"
  shows "accepts (SocketStream_write send ss) caps sent"
proof -
  have "SocketStream_write send ss n mem k = send (so_sock so) n mem k" for n mem k
    using assms(1,2) by (simp add: SocketStream_write_def Socket_send_def ss_isConnected_def)
  then show ?thesis using assms(3) by (simp add: accepts_def)
qed

subsection \<open>Filling the regions\<close>

lemma scatter_uniform:
  "uniform w nodes \<Longrightarrow> list_all (iov_in_chain nodes) iovs \<Longrightarrow> uniform w (scatter nodes iovs bytes)"
proof (induction nodes iovs bytes rule: scatter.induct)
  case (2 nodes c off l iovs bytes)
  let ?n = "nodes[c := overwrite (nodes ! c) off (take l bytes)]"
  have c: "c < length nodes" "off + l \<le> length (nodes ! c)" using 2(3) by (simp_all add: iov_in_chain_def)
  have len: "length (overwrite (nodes ! c) off (take l bytes)) = length (nodes ! c)" using c by simp
  then have "uniform w ?n" using 2(2) c(1)
    by (auto simp: uniform_def dest!: set_update_subset_insert [THEN subsetD])
  moreover have "list_all (iov_in_chain ?n) iovs"
    using 2(3) len by (auto simp: list_all_iff iov_in_chain_def nth_list_update split: prod.splits)
  ultimately show ?case using 2(1) by simp
qed simp

lemma length_scatter [simp]: "length (scatter nodes iovs bytes) = length nodes"
  by (induction nodes iovs bytes rule: scatter.induct) simp_all

lemma scatter_Nil [simp]: "scatter nodes iovs [] = nodes"
  by (induction nodes iovs "[] :: u8 list" rule: scatter.induct) simp_all

text \<open>When the regions are the addresses from \<open>p\<close> on, filling them overwrites the flat memory at \<open>p\<close>.\<close>

lemma concat_scatter:
  "uniform w nodes \<Longrightarrow> list_all (iov_in_chain nodes) iovs \<Longrightarrow> iov_addrs w iovs = [p..<p + len] \<Longrightarrow> length bytes \<le> len \<Longrightarrow>
   concat (scatter nodes iovs bytes) = overwrite (concat nodes) p bytes"
proof (induction nodes iovs bytes arbitrary: p len rule: scatter.induct)
  case (1 nodes bytes)
  then have "[p..<p + len] = []" by (simp add: iov_addrs_def)
  then have "len = 0" by auto
  then show ?case using 1 by simp
next
  case (2 nodes c off l iovs bytes)
  let ?n = "nodes[c := overwrite (nodes ! c) off (take l bytes)]"
  have c: "c < length nodes" "0 < l" "off + l \<le> length (nodes ! c)" using 2(3) by (simp_all add: iov_in_chain_def)
  have w: "length (nodes ! c) = w" using uniform_nth [OF 2(2) c(1)] .
  have a: "[w * c + off..<w * c + off + l] @ iov_addrs w iovs = [p..<p + len]" using 2(4) by (simp add: iov_addrs_def)
  then have p: "p = w * c + off" using c(2) by (metis append_Cons list.inject upt_rec add_eq_0_iff_both_eq_0
        less_add_same_cancel1 list.distinct(1) upt_conv_Cons)
  have "length ([w * c + off..<w * c + off + l] @ iov_addrs w iovs) = len" using a by simp
  then have l: "l \<le> len" by simp
  have rest: "iov_addrs w iovs = [p + l..<p + l + (len - l)]"
  proof -
    have "[p..<p + len] = [p..<p + l] @ [p + l..<p + len]" using l upt_split [of p "p + l" "p + len"] by simp
    then show ?thesis using a p l by (simp add: add.assoc)
  qed
  have len': "length (overwrite (nodes ! c) off (take l bytes)) = w" using c w by simp
  have u: "uniform w ?n" using 2(2) len'
    by (auto simp: uniform_def dest!: set_update_subset_insert [THEN subsetD])
  have ch: "list_all (iov_in_chain ?n) iovs"
    using 2(3) len' w by (auto simp: list_all_iff iov_in_chain_def nth_list_update split: prod.splits)
  have "concat (scatter ?n iovs (drop l bytes)) = overwrite (concat ?n) (p + l) (drop l bytes)"
    using 2(1) [OF u ch rest] 2(5) by simp
  also have "concat ?n = overwrite (concat nodes) p (take l bytes)"
    using concat_update_uniform [of nodes w c off "take l bytes"] 2(2) c w p by (simp add: uniform_def)
  also have "overwrite (overwrite (concat nodes) p (take l bytes)) (p + l) (drop l bytes) = overwrite (concat nodes) p bytes"
  proof (cases "l \<le> length bytes")
    case True
    have "p \<le> length (concat nodes)"
      using p c w 2(2) length_concat_uniform [of nodes w] mult_le_mono2 [of "Suc c" "length nodes" w] by (simp add: uniform_def)
    then show ?thesis using overwrite_append [of p "concat nodes" "take l bytes" "drop l bytes"] True by simp
  qed simp
  finally show ?case by simp
qed

lemma iov_total_addrs: "iov_total iovs = length (iov_addrs w iovs)"
  by (induction iovs) (auto simp: iov_total_def iov_addrs_def)

lemma iov_total_bytes:
  "list_all (iov_in_chain nodes) iovs \<Longrightarrow> iov_total iovs = length (iov_bytes nodes iovs)"
  by (induction iovs) (auto simp: iov_total_def iov_bytes_def iov_in_chain_def)

lemma scatter_array:
  assumes inv: "ba_inv s" and fit: "m_position s + len \<le> m_capacity s" and "list_all (iov_in_chain (m_nodes s)) iovs"
    and "iov_addrs (m_baseSize s) iovs = [m_position s..<m_position s + len]" and "length bytes \<le> len"
  defines "s' \<equiv> s\<lparr>m_nodes := scatter (m_nodes s) iovs bytes\<rparr>"
  shows "ba_inv s'" and "concat (m_nodes s') = overwrite (concat (m_nodes s)) (m_position s) bytes"
proof -
  have u: "uniform (m_baseSize s) (m_nodes s)" using ba_invD [OF inv] by (simp add: uniform_def)
  then have "uniform (m_baseSize s) (m_nodes s')" using scatter_uniform [OF u assms(3)] by (simp add: s'_def)
  moreover have "length (m_nodes s') = length (m_nodes s)" by (simp add: s'_def)
  moreover from this have "m_nodes s' \<noteq> []" using ba_invD(2) [OF inv] by auto
  ultimately show "ba_inv s'" using inv by (simp add: ba_inv_def s'_def uniform_def)
  show "concat (m_nodes s') = overwrite (concat (m_nodes s)) (m_position s) bytes"
    using concat_scatter [OF u assms(3-5)] by (simp add: s'_def)
qed

subsection \<open>Properties\<close>

text \<open>C26. Reading from the socket into a byte array: the regions offered to \<open>recvmsg\<close> have room for exactly the
  requested length, and the bytes received end up in the array as a \<open>write\<close> at the position would put them, whatever the
  node size; a failed or closed connection leaves data and position alone.\<close>

theorem socket_read_bytearray:
  assumes "ss_isConnected ss" and "ss_socket ss = Some so" and "ba_inv s" and "0 < len"
    and "recvmsg (so_sock so) len k = ((r, bytes), k')"
    and "r = int (length bytes) \<and> length bytes \<le> len \<or> r < 0 \<and> bytes = []"
  shows "\<exists>s'. SocketStream_read_ba recvmsg junk ss len (s, k) = Ok r (s', k') \<and> ba_inv s' \<and>
    m_position s' = m_position s + length bytes \<and> ba_data s' = overwrite (ba_data s) (m_position s) bytes"
proof -
  obtain iovs s1 where g: "getWriteBuffers junk [] len s = Ok (iovs, len) s1" "grown s s1 len"
    "list_all (iov_in_chain (m_nodes s1)) iovs" "iov_addrs (m_baseSize s1) iovs = [m_position s..<m_position s + len]"
    using getWriteBuffers_correct [OF assms(3,4), of junk "[]"] by auto
  have s1: "ba_inv s1" "m_position s1 = m_position s" "ba_data s1 = ba_data s" "m_position s + len \<le> m_capacity s1" "m_size s1 = m_size s"
    using g(2) by (simp_all add: grown_def)
  have tot: "iov_total iovs = len" using iov_total_addrs [of iovs "m_baseSize s1"] g(4) by simp
  then have ne: "iovs \<noteq> []" using assms(4) by (auto simp: iov_total_def)
  have b: "length bytes \<le> len" using assms(6) by auto
  define s2 where "s2 = s1\<lparr>m_nodes := scatter (m_nodes s1) iovs bytes\<rparr>"
  have s2: "ba_inv s2" "concat (m_nodes s2) = overwrite (concat (m_nodes s1)) (m_position s) bytes"
    using scatter_array [of s1 len iovs bytes] s1 g(3,4) b by (simp_all add: s2_def)
  have f: "m_position s2 = m_position s" "m_size s2 = m_size s" "m_capacity s2 = m_capacity s1"
    using s1 by (simp_all add: s2_def)
  have recv: "Socket_recv recvmsg so len k = ((r, bytes), k')"
    using assms(1,2,5) by (simp add: Socket_recv_def ss_isConnected_def)
  have run: "SocketStream_read_ba recvmsg junk ss len (s, k) =
    (if r > 0 then (case setPosition (m_position s + nat r) s2 of
        Crash x \<Rightarrow> Crash x | Throw e ba \<Rightarrow> Throw e (ba, k') | Ok _ ba \<Rightarrow> Ok r (ba, k')) else Ok r (s2, k'))"
    using assms(1,2) g(1) ne tot recv f(1)
    by (simp add: SocketStream_read_ba_def Let_def s2_def [symmetric] getPosition_def)
  have le: "m_position s \<le> m_size s" using ba_invD(5) [OF assms(3)] .
  show ?thesis
  proof (cases "r > 0")
    case False
    then have "bytes = []" using assms(6) by auto
    then show ?thesis using run False s2 f s1 by (intro exI [of _ s2]) (simp add: ba_data_def)
  next
    case True
    let ?p = "m_position s + length bytes"
    have cap: "?p \<le> m_capacity s2" using b s1(4) f by simp
    let ?s3 = "s2\<lparr>m_position := ?p, m_size := max (m_size s2) ?p,
            m_cur := cur_at (m_baseSize s2) (length (m_nodes s2)) ?p\<rparr>"
    have n: "nat r = length bytes" using assms(6) True by auto
    have "ba_data ?s3 = take (max (m_size s) ?p) (overwrite (concat (m_nodes s1)) (m_position s) bytes)"
      using s2(2) f by (simp add: ba_data_def)
    also have "\<dots> = overwrite (take (m_size s) (concat (m_nodes s1))) (m_position s) bytes"
      using take_overwrite [of "m_position s" "m_size s" "concat (m_nodes s1)" bytes] le length_flat [OF s1(1)] ba_invD(6) [OF s1(1)] cap s1(5) f(3)
      by simp
    also have "take (m_size s) (concat (m_nodes s1)) = ba_data s" using s1(3,5) by (simp add: ba_data_def)
    finally have "ba_data ?s3 = overwrite (ba_data s) (m_position s) bytes" .
    then show ?thesis
      using run True n setPosition_correct [OF s2(1) cap] setPosition_inv [OF s2(1) cap]
      by (intro exI [of _ ?s3]) simp
  qed
qed

text \<open>Writing a byte array to the socket offers exactly the next \<open>len\<close> bytes of data, or what is left of them, and
  advances the position by what the socket took; with nothing left to send the code takes the address of the
  first element of an empty vector.\<close>

theorem socket_write_bytearray:
  assumes "ss_isConnected ss" and "ss_socket ss = Some so" and "ba_inv s"
    and "sendmsg (so_sock so) (min len (m_size s - m_position s)) (take len (ba_rest s)) k = (r, k')"
    and "r \<le> int (min len (m_size s - m_position s))"
  shows "(take len (ba_rest s) \<noteq> [] \<longrightarrow>
      (\<exists>s'. SocketStream_write_ba sendmsg ss len (s, k) = Ok r (s', k') \<and> ba_inv s' \<and>
        m_position s' = m_position s + nat r \<and> ba_data s' = ba_data s)) \<and>
    (take len (ba_rest s) = [] \<longrightarrow> SocketStream_write_ba sendmsg ss len (s, k) = Crash OutOfBounds)"
proof -
  obtain iovs where g: "getReadBuffers [] len s = Ok (iovs, min len (m_size s - m_position s)) s"
    "list_all (iov_in_chain (m_nodes s)) iovs" "iov_bytes (m_nodes s) iovs = take len (ba_rest s)"
    using getReadBuffers_correct [OF assms(3), of "[]" len] by auto
  have tot: "iov_total iovs = min len (m_size s - m_position s)"
    using iov_total_bytes [OF g(2)] g(3) by (simp add: length_ba_data [OF assms(3)] min.commute)
  have ne: "iovs = [] \<longleftrightarrow> take len (ba_rest s) = []"
  proof -
    have "iov_bytes (m_nodes s) iovs = [] \<longleftrightarrow> iovs = []"
      using g(2) by (cases iovs) (auto simp: iov_bytes_def iov_in_chain_def)
    then show ?thesis using g(3) by simp
  qed
  show ?thesis
  proof (intro conjI impI)
    assume "take len (ba_rest s) = []"
    then show "SocketStream_write_ba sendmsg ss len (s, k) = Crash OutOfBounds"
      using g(1) ne assms(1) by (simp add: SocketStream_write_ba_def)
  next
    assume nz: "take len (ba_rest s) \<noteq> []"
    have run: "SocketStream_write_ba sendmsg ss len (s, k) =
      (if r > 0 then (case setPosition (m_position s + nat r) s of
          Crash x \<Rightarrow> Crash x | Throw e ba \<Rightarrow> Throw e (ba, k') | Ok _ ba \<Rightarrow> Ok r (ba, k')) else Ok r (s, k'))"
      using assms(1,2,4) g(1,3) ne nz tot
      by (simp add: SocketStream_write_ba_def Socket_send_def ss_isConnected_def getPosition_def Let_def)
    let ?p = "m_position s + nat r"
    have sz: "?p \<le> m_size s" using assms(5) ba_invD(5) [OF assms(3)] by linarith
    then have cap: "?p \<le> m_capacity s" using ba_invD(6) [OF assms(3)] by simp
    show "\<exists>s'. SocketStream_write_ba sendmsg ss len (s, k) = Ok r (s', k') \<and> ba_inv s' \<and>
        m_position s' = m_position s + nat r \<and> ba_data s' = ba_data s"
      using run setPosition_correct [OF assms(3) cap] setPosition_inv [OF assms(3) cap] sz assms(3)
      by (cases "r > 0") (auto simp: ba_data_def max_def)
  qed
qed

text \<open>A connected stream on the descriptor 5, and calls that receive three bytes and send two.\<close>

definition demo_stream :: SocketStream where
  "demo_stream = SocketStream_new (Some (CreateTCPSocket\<lparr>so_sock := 5, so_isConnected := True\<rparr>)) True"

definition demo_array :: ByteArray where
  "demo_array = ByteArray_new (\<lambda>_ _. 0) 2"

lemma demo_stream_simps [simp]:
  "ss_isConnected demo_stream" "ss_socket demo_stream = Some (CreateTCPSocket\<lparr>so_sock := 5, so_isConnected := True\<rparr>)"
  by (simp_all add: demo_stream_def SocketStream_new_def ss_isConnected_def)

lemma demo_array_inv: "ba_inv demo_array"
  using ByteArray_new_inv [of 2 "\<lambda>_ _. 0"] by (simp add: demo_array_def)

theorem socket_read_bytearray_witness:
  "\<exists>s'. SocketStream_read_ba (\<lambda>fd n k. ((3, [7, 8, 9]), k)) (\<lambda>_ _. 0) demo_stream 5 (demo_array, ()) = Ok 3 (s', ()) \<and>
     m_position s' = 3 \<and> ba_data s' = [7, 8, 9]"
  using socket_read_bytearray [OF demo_stream_simps demo_array_inv, of 5 "\<lambda>fd n k. ((3, [7, 8, 9]), k)" "()" 3 "[7, 8, 9]" "()" "\<lambda>_ _. 0"]
  by (auto simp: demo_array_def ByteArray_new_def ba_data_def overwrite_def)

theorem socket_write_bytearray_witness:
  "SocketStream_write_ba (\<lambda>fd n mem k. (2, mem)) demo_stream 5 (demo_array, []) = Crash OutOfBounds \<and>
   (\<exists>s'. SocketStream_write_ba (\<lambda>fd n mem k. (2, mem)) demo_stream 5
      (demo_array\<lparr>m_nodes := [[4, 5]], m_size := 2\<rparr>, []) = Ok 2 (s', [4, 5]) \<and> m_position s' = 2)"
proof -
  have inv: "ba_inv (demo_array\<lparr>m_nodes := [[4, 5]], m_size := 2\<rparr>)"
    using demo_array_inv by (simp add: ba_inv_def demo_array_def ByteArray_new_def cur_at_def)
  show ?thesis
    using socket_write_bytearray [OF demo_stream_simps demo_array_inv, of "\<lambda>fd n mem k. (0, mem)" 5 "[]" 0 "[]"]
      socket_write_bytearray [OF demo_stream_simps inv, of "\<lambda>fd n mem k. (2, mem)" 5 "[]" 2 "[4, 5]"]
    by (auto simp: demo_array_def ByteArray_new_def ba_data_def SocketStream_write_ba_def getReadBuffers_def getSizeForRead_def)
qed

end
