(* ===== verification/HttpSession.thy ===== *)
theory HttpSession
  imports HttpParser SocketStream
begin

text \<open>
  \<open>src/http_session.cc\<close>, \<open>include/http/http_session.hh\<close>: receiving requests and sending responses.

  The members inherited from \<open>SocketStream\<close> are arguments on a state \<open>'s\<close> of the stream: \<open>rd\<close> and \<open>wr\<close> are its \<open>read\<close> and \<open>write\<close>,
  \<open>cl\<close> its \<open>close\<close>; \<open>sock_read\<close>, \<open>sock_write\<close> and \<open>sock_close\<close> are those of \<open>SocketStream\<close>. Characters are bytes. \<open>junk\<close> is the memory
  \<open>new char[buffer_size]\<close> returns, so its length is the buffer size. Sizes are natural numbers; the theorems assume
  that they fit an \<open>int\<close>, in which the code keeps them. \<open>None\<close> is a call that never returns.
\<close>

subsection \<open>The stream of a session\<close>

type_synonym ('c, 'k) sock_state = "SocketStream \<times> 'c sys \<times> 'k"

definition sock_read :: "(int \<Rightarrow> nat \<Rightarrow> 'k \<Rightarrow> (int \<times> 'b list) \<times> 'k) \<Rightarrow> ('b, ('c, 'k) sock_state) reader" where
  "sock_read recv n s = (case s of (ss, sy, k) \<Rightarrow> (case SocketStream_read recv ss n k of (r, k) \<Rightarrow> (r, ss, sy, k)))"

definition sock_write :: "(int \<Rightarrow> nat \<Rightarrow> 'b list \<Rightarrow> 'k \<Rightarrow> int \<times> 'k) \<Rightarrow> ('b, ('c, 'k) sock_state) writer" where
  "sock_write send n mem s = (case s of (ss, sy, k) \<Rightarrow> (case SocketStream_write send ss n mem k of (r, k) \<Rightarrow> (r, ss, sy, k)))"

definition sock_close :: "bool \<Rightarrow> (int \<Rightarrow> bool option) \<Rightarrow> bool \<Rightarrow> ('c, 'k) sock_state \<Rightarrow> (unit, ('c, 'k) sock_state) outcome" where
  "sock_close en fstat fail s = (case s of (ss, sy, k) \<Rightarrow>
     (case SocketStream_close en fstat fail (ss, sy) of
        Ok _ (ss, sy) \<Rightarrow> Ok () (ss, sy, k)
      | Throw e (ss, sy) \<Rightarrow> Throw e (ss, sy, k)
      | Crash x \<Rightarrow> Crash x))"

subsection \<open>Receiving a request\<close>

text \<open>\<open>close(); return nullptr;\<close>\<close>

definition close_null :: "('s \<Rightarrow> (unit, 's) outcome) \<Rightarrow> 's \<Rightarrow> ('a option, 's) outcome" where
  "close_null cl s = andThen cl (\<lambda>_. ret None) s"

text \<open>The loop that reads until the header is parsed; it returns the parser, the buffer and how much of it is not parsed.\<close>

partial_function (option) header_loop :: "(char, 's) reader \<Rightarrow> ('s \<Rightarrow> (unit, 's) outcome) \<Rightarrow> ('p, rq_event) automaton \<Rightarrow>
    string \<Rightarrow> nat \<Rightarrow> 'p HttpRequestParser \<Rightarrow> 's \<Rightarrow> (('p HttpRequestParser \<times> string \<times> nat) option, 's) outcome option" where
  "header_loop rd cl m data unparsed parser s =
     (let ((r, bytes), s) = rd (length data - unparsed) s in
      if bytes \<noteq> [] \<and> length data < unparsed + length bytes then Some (Crash OutOfBounds)
      else
        let data = overwrite data unparsed bytes in
        if r \<le> 0 then Some (close_null cl s)
        else
          let read_size = nat r + unparsed in
          case execute_request m read_size (data, parser) of
            Crash x \<Rightarrow> Some (Crash x)
          | Throw e _ \<Rightarrow> Some (Throw e s)
          | Ok nparser (data, parser) \<Rightarrow>
              if rq_hasError m parser then Some (close_null cl s)
              else
                let unparsed = read_size - nparser in
                if int unparsed = size_to_int (word_of_nat (length data)) then Some (close_null cl s)
                else if rq_isFinished m parser \<noteq> 0 then Some (Ok (Some (parser, data, unparsed)) s)
                else header_loop rd cl m data unparsed parser s)"

declare header_loop.simps [code]

definition recv_body :: "(char, 's) reader \<Rightarrow> ('s \<Rightarrow> (unit, 's) outcome) \<Rightarrow> int \<Rightarrow> string \<Rightarrow> nat \<Rightarrow> HttpRequest \<Rightarrow> 's \<Rightarrow>
    (HttpRequest option, 's) outcome option" where
  "recv_body rd cl content_size data unparsed req s =
     (if content_size > 0 then
        let took = min unparsed (nat content_size);
            body = take took data;
            need = nat content_size - took
        in if need > 0 then
             (case readFixSize rd (replicate need (CHR 0x00)) (word_of_nat need) s of
                None \<Rightarrow> None
              | Some (Crash x) \<Rightarrow> Some (Crash x)
              | Some (Throw e s) \<Rightarrow> Some (Throw e s)
              | Some (Ok (r, bytes) s) \<Rightarrow>
                  if r \<le> 0 then Some (close_null cl s)
                  else Some (Ok (Some (setBody (body @ bytes) req)) s))
           else Some (Ok (Some (setBody body req)) s)
      else Some (Ok (Some req) s))"

definition recvRequest :: "(char, 's) reader \<Rightarrow> ('s \<Rightarrow> (unit, 's) outcome) \<Rightarrow> ('p, rq_event) automaton \<Rightarrow> (string \<Rightarrow> u64 option) \<Rightarrow>
    string \<Rightarrow> 's \<Rightarrow> (HttpRequest option, 's) outcome option" where
  "recvRequest rd cl m cast junk s =
     (case header_loop rd cl m junk 0 (HttpRequestParser_new m) s of
        None \<Rightarrow> None
      | Some (Crash x) \<Rightarrow> Some (Crash x)
      | Some (Throw e s) \<Rightarrow> Some (Throw e s)
      | Some (Ok None s) \<Rightarrow> Some (Ok None s)
      | Some (Ok (Some (parser, data, unparsed)) s) \<Rightarrow>
          recv_body rd cl (sint (rq_getContentLength cast parser)) data unparsed (rp_data parser) s)"

definition sendResponse :: "(char, 's) writer \<Rightarrow> HttpResponse \<Rightarrow> 's \<Rightarrow> (int, 's) outcome option" where
  "sendResponse wr rsp s = (let data = dump_response rsp in writeFixSize wr data (word_of_nat (length data)) s)"

subsection \<open>Closed streams\<close>

text \<open>What a session relies on after \<open>close\<close>: the stream only fails.\<close>

locale closing_stream =
  fixes rd :: "(char, 's) reader" and cl :: "'s \<Rightarrow> (unit, 's) outcome"
  assumes closed_read: "cl s = Ok u s' \<Longrightarrow> rd n s' = ((-1, []), s')"
    and close_again: "cl s = Ok u s' \<Longrightarrow> cl s' = Ok () s'"

interpretation sock: closing_stream "sock_read recv" "sock_close en fstat fail :: ('c, 'k) sock_state \<Rightarrow> _"
  for recv :: "int \<Rightarrow> nat \<Rightarrow> 'k \<Rightarrow> (int \<times> string) \<times> 'k" and en fstat fail
proof unfold_locales
  fix s s' :: "('c, 'k) sock_state" and u n
  assume c: "sock_close en fstat fail s = Ok u s'"
  obtain ss sy k where s: "s = (ss, sy, k)" by (cases s)
  obtain ss' sy' where cl: "SocketStream_close en fstat fail (ss, sy) = Ok () (ss', sy')" "s' = (ss', sy', k)"
    using c by (auto simp: sock_close_def s split: outcome.splits)
  have d: "\<not> ss_isConnected ss'" and again: "SocketStream_close en fstat fail (ss', sy') = Ok () (ss', sy')"
  proof -
    consider "ss_socket ss = None" "ss' = ss" "sy' = sy"
      | so so' b where "ss_socket ss = Some so" "Socket_close en fstat fail (so, sy) = Ok b (so', sy')" "ss' = ss\<lparr>ss_socket := Some so'\<rparr>"
      using cl(1) by (auto simp: SocketStream_close_def split: option.splits outcome.splits)
    then have "\<not> ss_isConnected ss' \<and> SocketStream_close en fstat fail (ss', sy') = Ok () (ss', sy')"
    proof cases
      case 1
      then show ?thesis by (simp add: ss_isConnected_def SocketStream_close_def)
    next
      case 2
      have f: "so' = so\<lparr>so_sock := -1, so_isConnected := False\<rparr>" using Socket_close_sock [OF 2(2)] by simp
      then show ?thesis using 2(3) by (simp add: ss_isConnected_def SocketStream_close_def Socket_close_def)
    qed
    then show "\<not> ss_isConnected ss'" "SocketStream_close en fstat fail (ss', sy') = Ok () (ss', sy')" by simp_all
  qed
  show "sock_read recv n s' = ((-1, []), s')" using cl(2) d by (simp add: sock_read_def SocketStream_read_closed)
  show "sock_close en fstat fail s' = Ok () s'" using cl(2) again by (simp add: sock_close_def)
qed

context closing_stream begin

text \<open>On a closed stream the session returns null without changing anything.\<close>

lemma header_loop_closed: "cl s = Ok u s' \<Longrightarrow> header_loop rd cl m data unparsed parser s' = Some (Ok None s')"
  by (subst header_loop.simps) (simp add: closed_read close_again close_null_def)

end

subsection \<open>Requests that arrive\<close>

lemma recvRequest_header:
  assumes "delivers rd segs" and "segs s = c # cs" and "0 < length junk" and "length junk < 2 ^ 31" and "length c \<le> length junk"
    and "au_execute m (au_init m) c = (q, n, evs)" and "n \<le> length c" and "0 < n"
    and parser: "parser = fold on_request evs ((HttpRequestParser_new m)\<lparr>rp_parser := q\<rparr>)"
    and "\<not> rq_hasError m parser" and "au_is_finished m q"
  shows "header_loop rd cl m junk 0 (HttpRequestParser_new m) s =
    Some (Ok (Some (parser, overwrite (overwrite junk 0 c) 0 (drop n c), length c - n)) (snd (rd (length junk) s)))"
proof -
  note rd = deliversD [OF assms(1-4)]
  have c: "take (length junk) c = c" "min (length junk) (length c) = length c" "c \<noteq> []" using assms(5) rd(1) by simp_all
  have r: "fst (rd (length junk) s) = (int (length c), c)" using rd(2) c by simp
  have t: "take (length c) (overwrite junk 0 c) = c" by (simp add: overwrite_def)
  have ex: "execute_request m (length c) (overwrite junk 0 c, HttpRequestParser_new m) =
      Ok n (overwrite (overwrite junk 0 c) 0 (drop n c), parser)"
    using assms(6,7) parser t by (simp add: execute_request_def HttpRequestParser_new_def)
  have p: "rp_parser parser = q" unfolding parser fold_on_request_keeps(2) by simp
  have fin: "rq_isFinished m parser \<noteq> 0" using p assms(11) by (simp add: rq_isFinished_def)
  have len: "length (overwrite (overwrite junk 0 c) 0 (drop n c)) = length junk" using assms(5) by simp
  have ne: "int (length c - n) \<noteq> size_to_int (word_of_nat (length junk))"
    using assms(4,5,7,8) by simp
  show ?thesis
    using c r ex fin len ne assms(5,10) by (subst header_loop.simps) (simp add: split_beta Let_def)
qed

text \<open>The header \<open>h\<close> arrives in one segment together with the part \<open>b\<close> of the body and maybe more, \<open>x\<close>, of what the
  client sends next; the rest of the body follows in the segments \<open>bs\<close>.\<close>

lemma recvRequest_arrives:
  assumes "delivers rd segs" and "segs s = (h @ b @ x) # bs @ rest" and "x \<noteq> [] \<longrightarrow> bs = []"
    and "0 < length h" and "length (h @ b @ x) \<le> length junk" and "length junk < 2 ^ 31" and "length (b @ concat bs) < 2 ^ 31"
    and "au_execute m (au_init m) (h @ b @ x) = (q, length h, evs)"
    and parser: "parser = fold on_request evs ((HttpRequestParser_new m)\<lparr>rp_parser := q\<rparr>)"
    and "\<not> rq_hasError m parser" and "au_is_finished m q"
    and "rq_getContentLength cast parser = word_of_nat (length (b @ concat bs))"
  shows "\<exists>s'. recvRequest rd cl m cast junk s = Some (Ok (Some (setBody (b @ concat bs) (rp_data parser))) s') \<and> segs s' = rest"
proof -
  let ?c = "h @ b @ x" and ?data = "overwrite (overwrite junk 0 (h @ b @ x)) 0 (b @ x)" and ?s = "snd (rd (length junk) s)"
  have j: "0 < length junk" using assms(4,5) by (cases junk) auto
  have hl: "header_loop rd cl m junk 0 (HttpRequestParser_new m) s = Some (Ok (Some (parser, ?data, length (b @ x))) ?s)"
    using recvRequest_header [OF assms(1,2) j assms(6,5,8) _ assms(4) parser assms(10,11)] by simp
  have segs: "segs ?s = bs @ rest" using deliversD(3) [OF assms(1,2) j assms(6)] assms(5) by simp
  let ?n = "length (b @ concat bs)"
  have sz: "sint (rq_getContentLength cast parser) = int ?n"
    unfolding assms(12) using assms(7) by (simp add: signed_of_nat signed_take_bit_int_eq_self del: length_append)
  have body0: "rq_body (rp_data parser) = []"
    unfolding parser fold_on_request_keeps(1) by (simp add: HttpRequestParser_new_def HttpRequest_new_def)
  have tk: "take (length b) ?data = b" by (simp add: overwrite_def)
  have mn: "min (length (b @ x)) ?n = length b" using assms(3) by (cases x) auto
  show ?thesis
  proof (cases "?n = 0")
    case True
    then have "b = []" "concat bs = []" by auto
    moreover have "bs = []"
      using \<open>concat bs = []\<close> delivers_nonempty [OF assms(1), of ?s] segs by (cases bs) auto
    moreover have "setBody [] (rp_data parser) = rp_data parser" using body0 by (cases "rp_data parser") (simp add: setBody_def)
    ultimately show ?thesis using hl sz segs by (simp add: recvRequest_def recv_body_def)
  next
    case False
    show ?thesis
    proof (cases "bs = []")
      case True
      then show ?thesis using False hl sz segs mn tk by (auto simp: recvRequest_def recv_body_def Let_def)
    next
      case bs: False
      let ?need = "length (concat bs)"
      have x: "x = []" using assms(3) bs by auto
      have n: "0 < ?need" using bs delivers_nonempty [OF assms(1), of ?s] segs by (cases bs) auto
      obtain s' where s': "readFixSize rd (replicate ?need (CHR 0x00)) (word_of_nat ?need) ?s = Some (Ok (int ?need, concat bs) s')" "segs s' = rest"
        using readFixSize_exact [OF assms(1) segs refl, of "replicate ?need (CHR 0x00)"] assms(7) by auto
      have need: "?n - length b = ?need" and pos: "0 < int ?n" "0 < int ?need"
        using n by (simp_all only: length_append add_diff_cancel_left' of_nat_0_less_iff add_pos_pos trans_less_add2)
      have "recv_body rd cl (int ?n) ?data (length (b @ x)) (rp_data parser) ?s = Some (Ok (Some (setBody (b @ concat bs) (rp_data parser))) s')"
        unfolding recv_body_def Let_def nat_int mn tk need s'(1) using n pos by (simp only: if_True option.case outcome.case prod.case not_le [symmetric] if_False not_False_eq_True)
      then show ?thesis using hl sz s'(2) by (simp add: recvRequest_def)
    qed
  qed
qed

subsection \<open>The buffer of the session\<close>

text \<open>A reader that stores no more than it was asked for and returns how much it stored, and an automaton that
  does not claim to have consumed more than it was given: then the header loop stays inside its buffer.\<close>

definition bounded_reader :: "('b, 's) reader \<Rightarrow> bool" where
  "bounded_reader rd \<longleftrightarrow> (\<forall>n s. length (snd (fst (rd n s))) \<le> n \<and> fst (fst (rd n s)) \<le> int (length (snd (fst (rd n s)))))"

definition bounded_automaton :: "('p, 'e) automaton \<Rightarrow> bool" where
  "bounded_automaton m \<longleftrightarrow> (\<forall>p mem. fst (snd (au_execute m p mem)) \<le> length mem)"

definition no_overrun :: "('a, 's) outcome \<Rightarrow> bool" where
  "no_overrun r \<longleftrightarrow> r \<noteq> Crash OutOfBounds"

lemma execute_request_Ok:
  assumes "bounded_automaton m" and "len \<le> length data"
  shows "\<exists>n parser'. execute_request m len (data, parser) = Ok n (overwrite data 0 (drop n (take len data)), parser') \<and> n \<le> len"
proof -
  obtain p n evs where e: "au_execute m (rp_parser parser) (take len data) = (p, n, evs)" by (cases "au_execute m (rp_parser parser) (take len data)") auto
  have "n \<le> len" using assms e unfolding bounded_automaton_def by (metis fst_conv length_take min.absorb2 snd_conv)
  then show ?thesis using e by (simp add: execute_request_def)
qed

lemma close_null_no_overrun: "\<forall>s. no_overrun (cl s) \<Longrightarrow> no_overrun (close_null cl s)"
  by (auto simp: close_null_def no_overrun_def andThen_def split: outcome.splits)

lemma header_loop_bounded:
  assumes "bounded_reader rd" and "bounded_automaton m" and "\<forall>s. no_overrun (cl s)"
  shows "header_loop rd cl m data unparsed parser s = Some y \<Longrightarrow> unparsed \<le> length data \<Longrightarrow> no_overrun y"
proof -
  have "header_loop rd cl m data unparsed parser s = Some y \<Longrightarrow>
      bounded_reader rd \<longrightarrow> bounded_automaton m \<longrightarrow> (\<forall>s. no_overrun (cl s)) \<longrightarrow> unparsed \<le> length data \<longrightarrow> no_overrun y"
  proof (rule header_loop.raw_induct [where P = "\<lambda>rd cl m data unparsed parser s y.
      bounded_reader rd \<longrightarrow> bounded_automaton m \<longrightarrow> (\<forall>s. no_overrun (cl s)) \<longrightarrow> unparsed \<le> length data \<longrightarrow> no_overrun y"], goal_cases)
    case (1 f rd cl m data unparsed parser s y)
    show ?case
    proof (intro impI)
      assume b: "bounded_reader rd" "bounded_automaton m" "\<forall>s. no_overrun (cl s)" "unparsed \<le> length data"
      obtain r bytes s1 where rd: "rd (length data - unparsed) s = ((r, bytes), s1)" by (cases "rd (length data - unparsed) s") auto
      have l: "length bytes \<le> length data - unparsed" "r \<le> int (length bytes)"
        using b(1) rd unfolding bounded_reader_def by (metis fst_conv snd_conv)+
      let ?d = "overwrite data unparsed bytes"
      have len: "length ?d = length data" using b(4) l(1) by simp
      have fit: "\<not> (bytes \<noteq> [] \<and> length data < unparsed + length bytes)" using l(1) b(4) by auto
      show "no_overrun y"
      proof (cases "r \<le> 0")
        case True
        then have "y = close_null cl s1" using 1(3) rd fit by simp
        then show ?thesis using close_null_no_overrun [OF b(3)] by simp
      next
        case False
        have rs: "nat r + unparsed \<le> length ?d" using l b(4) len by linarith
        obtain n parser' where ex: "execute_request m (nat r + unparsed) (?d, parser) =
            Ok n (overwrite ?d 0 (drop n (take (nat r + unparsed) ?d)), parser')" "n \<le> nat r + unparsed"
          using execute_request_Ok [OF b(2) rs] by blast
        let ?d2 = "overwrite ?d 0 (drop n (take (nat r + unparsed) ?d))"
        have len2: "length ?d2 = length data" using rs len by simp
        have y: "(if rq_hasError m parser' then Some (close_null cl s1)
            else if int (nat r + unparsed - n) = size_to_int (word_of_nat (length ?d2)) then Some (close_null cl s1)
            else if rq_isFinished m parser' \<noteq> 0 then Some (Ok (Some (parser', ?d2, nat r + unparsed - n)) s1)
            else f rd cl m ?d2 (nat r + unparsed - n) parser' s1) = Some y"
          using 1(3) fit False unfolding rd Let_def prod.case ex(1) outcome.case by (simp only: if_False)
        have "nat r + unparsed - n \<le> length ?d2" using rs len len2 by linarith
        then have "f rd cl m ?d2 (nat r + unparsed - n) parser' s1 = Some y \<Longrightarrow> no_overrun y" using 1(2) b by blast
        then show ?thesis
          using y close_null_no_overrun [OF b(3), of s1] by (auto simp: no_overrun_def split: if_splits)
      qed
    qed
  qed
  then show "header_loop rd cl m data unparsed parser s = Some y \<Longrightarrow> unparsed \<le> length data \<Longrightarrow> no_overrun y" using assms by blast
qed

subsection \<open>Properties\<close>

text \<open>C17. A request whose header arrives in one read is received completely: if the automaton consumes exactly the header
  and the declared length is that of the body, \<open>recvRequest\<close> returns the parsed request with exactly the body, however the
  body is cut into segments, and leaves the following segments unread. What arrived in the same segment behind the body,
  the start of the next request of a client that does not wait, is dropped with the buffer.\<close>

theorem http_session_receives:
  assumes "delivers rd segs" and "segs s = (h @ b @ x) # bs @ rest" and "x \<noteq> [] \<longrightarrow> bs = []"
    and "0 < length h" and "length (h @ b @ x) \<le> length junk" and "length junk < 2 ^ 31" and "length (b @ concat bs) < 2 ^ 31"
    and "au_execute m (au_init m) (h @ b @ x) = (q, length h, evs)"
    and "parser = fold on_request evs ((HttpRequestParser_new m)\<lparr>rp_parser := q\<rparr>)"
    and "\<not> rq_hasError m parser" and "au_is_finished m q"
    and "rq_getContentLength cast parser = word_of_nat (length (b @ concat bs))"
  shows "\<exists>s'. recvRequest rd cl m cast junk s = Some (Ok (Some (setBody (b @ concat bs) (rp_data parser))) s') \<and> segs s' = rest"
  using assms by (rule recvRequest_arrives)

text \<open>The automaton of a fixed header, and the conversion of a length.\<close>

definition fixed_automaton :: "string \<Rightarrow> rq_event list \<Rightarrow> (bool, rq_event) automaton" where
  "fixed_automaton h evs = \<lparr>au_init = False, au_execute = (\<lambda>_ mem. (True, length h, evs)), au_has_error = (\<lambda>_. False), au_is_finished = (\<lambda>b. b)\<rparr>"

definition cast_dec :: "string \<Rightarrow> u64 option" where
  "cast_dec t = (if t \<noteq> [] \<and> list_all is_digit t then Some (word_of_nat (undec t)) else None)"

abbreviation demo_events :: "rq_event list" where
  "demo_events \<equiv> [Ev_field ''Content-Length: 3'' 14 ''3'' 1]"

abbreviation (input) unit_close :: "'s \<Rightarrow> (unit, 's) outcome" where
  "unit_close s \<equiv> Ok () s"

theorem http_session_receives_witness:
  "\<exists>s'. recvRequest seg_read unit_close (fixed_automaton ''HDR'' demo_events) cast_dec (replicate 64 (CHR 0x00)) [''HDRa'', ''bc'', ''next''] =
      Some (Ok (Some (setBody ''abc'' (setHeader ''Content-Length'' ''3'' (HttpRequest_new 0x11 False)))) s') \<and> nonempty_segs s' = [''next'']"
proof -
  let ?m = "fixed_automaton ''HDR'' demo_events"
  let ?p = "fold on_request demo_events ((HttpRequestParser_new ?m)\<lparr>rp_parser := True\<rparr>)"
  have d: "rp_data ?p = setHeader ''Content-Length'' ''3'' (HttpRequest_new 0x11 False)"
    by (simp add: on_request_http_field_def HttpRequestParser_new_def)
  have e: "\<not> rq_hasError ?m ?p"
    by (simp add: rq_hasError_def on_request_http_field_def HttpRequestParser_new_def fixed_automaton_def)
  have c: "rq_getContentLength cast_dec ?p = word_of_nat (length (''a'' @ concat [''bc'']))" by code_simp
  show ?thesis
    using http_session_receives [where h = "''HDR''" and b = "''a''" and x = "[]" and bs = "[''bc'']" and rest = "[''next'']" and q = True
        and junk = "replicate 64 (CHR 0x00)" and s = "[''HDRa'', ''bc'', ''next'']" and cl = unit_close,
        OF seg_read_delivers _ _ _ _ _ _ _ refl e _ c] d
    by (simp add: nonempty_segs_def fixed_automaton_def)
qed



end
