(* ===== verification/TcpServer.thy ===== *)
theory TcpServer
  imports Socket
begin

text \<open>
  \<open>src/tcp_server.cc\<close>, \<open>include/http/tcp_server.hh\<close>: listening sockets and the tasks of a server.

  Sockets are shared between the server and the tasks it schedules: they live in a heap, and a \<open>Socket::ptr\<close> is an address
  in it. What \<open>m_acceptWorker->schedule\<close> and \<open>m_worker->schedule\<close> get is appended to two lists of tasks. The kernel's answers
  are arguments, as in \<open>Socket\<close>; the flag \<open>m_isStop\<close> the accept loop sees each time round is part of its script,
  since another thread may set it.
\<close>

datatype task = StartAccept nat | HandleClient Socket | CloseAll

record 'c TcpServer =
  ts_heap :: "Socket list"
  ts_sys :: "'c sys"
  ts_socks :: "nat list"
  ts_recvTimeout :: u64
  ts_name :: string
  ts_isStop :: bool
  ts_accept_tasks :: "task list"
  ts_worker_tasks :: "task list"

definition TcpServer_new :: "u64 \<Rightarrow> 'c sys \<Rightarrow> 'c TcpServer" where
  "TcpServer_new read_timeout sy = \<lparr>ts_heap = [], ts_sys = sy, ts_socks = [], ts_recvTimeout = read_timeout, ts_name = ''sylar/1.0.0'',
     ts_isStop = True, ts_accept_tasks = [], ts_worker_tasks = []\<rparr>"

definition setName :: "string \<Rightarrow> 'c TcpServer \<Rightarrow> 'c TcpServer" where
  "setName name ts = ts\<lparr>ts_name := name\<rparr>"

definition ts_setRecvTimeout :: "u64 \<Rightarrow> 'c TcpServer \<Rightarrow> 'c TcpServer" where
  "ts_setRecvTimeout v ts = ts\<lparr>ts_recvTimeout := v\<rparr>"

subsection \<open>Binding\<close>

definition SOMAXCONN :: int where "SOMAXCONN = 4096"

text \<open>One round of the loop: a new socket is bound and put to listen; a failed \<open>bind\<close> is recorded but does not end the round.\<close>

definition bind_one :: "bool \<Rightarrow> (int \<Rightarrow> bool option) \<Rightarrow> endian \<Rightarrow> Address \<times> answers \<times> sysret \<Rightarrow> Address list \<Rightarrow> 'c TcpServer \<Rightarrow>
    (Address list, 'c TcpServer) outcome" where
  "bind_one en fstat host x fails ts =
     (case x of (addr, an, r) \<Rightarrow>
        (case Socket_bind en fstat host an addr (CreateTCP host addr, ts_sys ts) of
           Crash f \<Rightarrow> Crash f
         | Throw e (_, sy) \<Rightarrow> Throw e (ts\<lparr>ts_sys := sy\<rparr>)
         | Ok bound st \<Rightarrow>
             let fails = (if \<not> bound then fails @ [addr] else fails);
                 (listening, so, sy) = Socket_listen SOMAXCONN r st
             in if \<not> listening then Ok (fails @ [addr]) (ts\<lparr>ts_sys := sy\<rparr>)
                else Ok fails (ts\<lparr>ts_sys := sy, ts_heap := ts_heap ts @ [so], ts_socks := ts_socks ts @ [length (ts_heap ts)]\<rparr>)))"

fun bind_loop :: "bool \<Rightarrow> (int \<Rightarrow> bool option) \<Rightarrow> endian \<Rightarrow> (Address \<times> answers \<times> sysret) list \<Rightarrow> Address list \<Rightarrow> 'c TcpServer \<Rightarrow>
    (Address list, 'c TcpServer) outcome" where
  "bind_loop en fstat host [] fails ts = Ok fails ts"
| "bind_loop en fstat host (x # xs) fails ts =
     (case bind_one en fstat host x fails ts of
        Ok fails ts \<Rightarrow> bind_loop en fstat host xs fails ts
      | Throw e ts \<Rightarrow> Throw e ts
      | Crash f \<Rightarrow> Crash f)"

definition ts_bind :: "bool \<Rightarrow> (int \<Rightarrow> bool option) \<Rightarrow> endian \<Rightarrow> (Address \<times> answers \<times> sysret) list \<Rightarrow> Address list \<Rightarrow> 'c TcpServer \<Rightarrow>
    (bool \<times> Address list, 'c TcpServer) outcome" where
  "ts_bind en fstat host xs fails ts =
     (case bind_loop en fstat host xs fails ts of
        Crash f \<Rightarrow> Crash f
      | Throw e ts \<Rightarrow> Throw e ts
      | Ok fails ts \<Rightarrow>
          if fails \<noteq> [] then Ok (False, fails) (ts\<lparr>ts_socks := []\<rparr>)
          else Ok (True, fails) ts)"

definition ts_bind1 :: "bool \<Rightarrow> (int \<Rightarrow> bool option) \<Rightarrow> endian \<Rightarrow> Address \<times> answers \<times> sysret \<Rightarrow> 'c TcpServer \<Rightarrow> (bool, 'c TcpServer) outcome" where
  "ts_bind1 en fstat host x ts =
     (case ts_bind en fstat host [x] [] ts of
        Ok (b, _) ts \<Rightarrow> Ok b ts
      | Throw e ts \<Rightarrow> Throw e ts
      | Crash f \<Rightarrow> Crash f)"

subsection \<open>Starting, accepting, stopping\<close>

definition ts_start :: "'c TcpServer \<Rightarrow> bool \<times> 'c TcpServer" where
  "ts_start ts =
     (if \<not> ts_isStop ts then (True, ts)
      else (True, ts\<lparr>ts_isStop := False, ts_accept_tasks := ts_accept_tasks ts @ map StartAccept (ts_socks ts)\<rparr>))"

text \<open>The accept loop on the listening socket \<open>so\<close>. Each entry of the script: \<open>m_isStop\<close>, the answers for the new socket,
  and those for \<open>do_io\<close>. \<open>None\<close>: the loop is still waiting.\<close>

fun startAccept :: "bool \<Rightarrow> (int \<Rightarrow> bool option) \<Rightarrow> endian \<Rightarrow> Socket \<Rightarrow> (bool \<times> answers \<times> sysret list \<times> wake list) list \<Rightarrow> 'c TcpServer \<Rightarrow>
    (unit, 'c TcpServer) outcome option" where
  "startAccept en fstat host so [] ts = None"
| "startAccept en fstat host so ((stop, an, rs, ws) # script) ts =
     (if stop then Some (Ok () ts)
      else case Socket_accept en fstat host an rs ws so (ts_sys ts) of
        Crash f \<Rightarrow> Some (Crash f)
      | Throw e sy \<Rightarrow> Some (Throw e (ts\<lparr>ts_sys := sy\<rparr>))
      | Ok None sy \<Rightarrow> None
      | Ok (Some None) sy \<Rightarrow> startAccept en fstat host so script (ts\<lparr>ts_sys := sy\<rparr>)
      | Ok (Some (Some client)) sy \<Rightarrow>
          (case setRecvTimeout en fstat (sint (ts_recvTimeout ts)) (fst (an_options an)) (client, sy) of
             Crash f \<Rightarrow> Some (Crash f)
           | Throw e (_, sy) \<Rightarrow> Some (Throw e (ts\<lparr>ts_sys := sy\<rparr>))
           | Ok _ (client, sy) \<Rightarrow>
               startAccept en fstat host so script
                 (ts\<lparr>ts_sys := sy, ts_worker_tasks := ts_worker_tasks ts @ [HandleClient client]\<rparr>)))"

definition ts_stop :: "'c TcpServer \<Rightarrow> 'c TcpServer" where
  "ts_stop ts = ts\<lparr>ts_isStop := True, ts_accept_tasks := ts_accept_tasks ts @ [CloseAll]\<rparr>"

text \<open>The task \<open>stop\<close> schedules, and the destructor: \<open>fail\<close> is whether \<open>epoll_ctl\<close> fails.\<close>

fun close_socks :: "bool \<Rightarrow> (int \<Rightarrow> bool option) \<Rightarrow> bool \<Rightarrow> bool \<Rightarrow> nat list \<Rightarrow> 'c TcpServer \<Rightarrow> (unit, 'c TcpServer) outcome" where
  "close_socks en fstat fail cancels [] ts = Ok () ts"
| "close_socks en fstat fail cancels (a # as) ts =
     (case (if cancels then Socket_cancelAll fail (ts_heap ts ! a) (ts_sys ts) else Ok False (ts_sys ts)) of
        Crash f \<Rightarrow> Crash f
      | Throw e sy \<Rightarrow> Throw e (ts\<lparr>ts_sys := sy\<rparr>)
      | Ok _ sy \<Rightarrow>
          (case Socket_close en fstat fail (ts_heap ts ! a, sy) of
             Crash f \<Rightarrow> Crash f
           | Throw e (so, sy) \<Rightarrow> Throw e (ts\<lparr>ts_heap := (ts_heap ts)[a := so], ts_sys := sy\<rparr>)
           | Ok _ (so, sy) \<Rightarrow> close_socks en fstat fail cancels as (ts\<lparr>ts_heap := (ts_heap ts)[a := so], ts_sys := sy\<rparr>)))"

definition stop_task :: "bool \<Rightarrow> (int \<Rightarrow> bool option) \<Rightarrow> bool \<Rightarrow> 'c TcpServer \<Rightarrow> (unit, 'c TcpServer) outcome" where
  "stop_task en fstat fail ts =
     (case close_socks en fstat fail True (ts_socks ts) ts of
        Ok _ ts \<Rightarrow> Ok () (ts\<lparr>ts_socks := []\<rparr>)
      | Throw e ts \<Rightarrow> Throw e ts
      | Crash f \<Rightarrow> Crash f)"

definition TcpServer_dtor :: "bool \<Rightarrow> (int \<Rightarrow> bool option) \<Rightarrow> bool \<Rightarrow> 'c TcpServer \<Rightarrow> (unit, 'c TcpServer) outcome" where
  "TcpServer_dtor en fstat fail ts =
     (case close_socks en fstat fail False (ts_socks ts) ts of
        Ok _ ts \<Rightarrow> Ok () (ts\<lparr>ts_socks := []\<rparr>)
      | Throw e ts \<Rightarrow> Throw e ts
      | Crash f \<Rightarrow> Crash f)"

subsection \<open>What binding does\<close>

text \<open>The socket \<open>so\<close> was bound to the address of \<open>x\<close> and listens.\<close>

definition bound_to :: "endian \<Rightarrow> Address \<times> answers \<times> sysret \<Rightarrow> Socket \<Rightarrow> bool" where
  "bound_to host x so \<longleftrightarrow> (case x of (addr, an, r) \<Rightarrow>
     isVaild so \<and> so_family so = getFamily host addr \<and> so_type so = SOCK_STREAM \<and> an_bind an = SRet 0 \<and> r = SRet 0)"

lemma Socket_bind_True:
  assumes "Socket_bind en fstat host an addr st = Ok True st'"
  shows "isVaild (fst st') \<and> so_family (fst st') = getFamily host addr \<and> so_type (fst st') = so_type (fst st) \<and> an_bind an = SRet 0"
proof -
  obtain st1 where e: "ensure_sock en fstat an st = Ok True st1"
    and s: "getFamily host addr = so_family (fst st1)" "an_bind an = SRet 0" "fst st' = snd (getLocalAddress host (an_local an) (fst st1))"
    using assms by (auto simp: Socket_bind_def andThen_eq_Ok Let_def split: if_splits)
  show ?thesis using ensure_sock_sock [OF e] s by (auto simp: getLocalAddress_sock isVaild_def split: if_splits)
qed

lemma Socket_listen_True: "Socket_listen backlog r st = (True, so, sy) \<Longrightarrow> so = fst st \<and> r = SRet 0"
  by (cases st) (auto simp: Socket_listen_def split: if_splits)

lemma bind_one_cases:
  assumes "bind_one en fstat host x fails ts = Ok fails' ts'"
  obtains so where "fails' = fails" "ts_heap ts' = ts_heap ts @ [so]" "ts_socks ts' = ts_socks ts @ [length (ts_heap ts)]" "bound_to host x so"
  | k where "fails' = fails @ replicate (Suc k) (fst x)"
proof -
  obtain addr an r where x: "x = (addr, an, r)" by (cases x)
  obtain bound st where b: "Socket_bind en fstat host an addr (CreateTCP host addr, ts_sys ts) = Ok bound st"
    using assms by (auto simp: bind_one_def x split: outcome.splits)
  obtain listening so sy where l: "Socket_listen SOMAXCONN r st = (listening, so, sy)" by (cases "Socket_listen SOMAXCONN r st") auto
  consider (good) bound listening | (both) "\<not> bound" "\<not> listening" | (bindfail) "\<not> bound" listening | (listenfail) bound "\<not> listening" by blast
  then show thesis
  proof cases
    case good
    then have "bound_to host x so"
      using Socket_bind_True [of en fstat host an addr "(CreateTCP host addr, ts_sys ts)" st] Socket_listen_True [of SOMAXCONN r st so sy] b l
      by (auto simp: bound_to_def x CreateTCP_def Socket_new_def)
    moreover have "fails' = fails \<and> ts_heap ts' = ts_heap ts @ [so] \<and> ts_socks ts' = ts_socks ts @ [length (ts_heap ts)]"
      using assms b l good by (auto simp: bind_one_def x)
    ultimately show thesis using that(1) by blast
  next
    case both
    then have "fails' = fails @ replicate (Suc 1) (fst x)" using assms b l by (auto simp: bind_one_def x)
    then show thesis by (rule that(2))
  next
    case bindfail
    then have "fails' = fails @ replicate (Suc 0) (fst x)" using assms b l by (auto simp: bind_one_def x)
    then show thesis by (rule that(2))
  next
    case listenfail
    then have "fails' = fails @ replicate (Suc 0) (fst x)" using assms b l by (auto simp: bind_one_def x)
    then show thesis by (rule that(2))
  qed
qed

lemma bind_loop_fails: "bind_loop en fstat host xs fails ts = Ok fails' ts' \<Longrightarrow> set fails \<subseteq> set fails' \<and> set fails' \<subseteq> set fails \<union> fst ` set xs"
proof (induction xs arbitrary: fails ts)
  case (Cons x xs)
  obtain f1 ts1 where 1: "bind_one en fstat host x fails ts = Ok f1 ts1" "bind_loop en fstat host xs f1 ts1 = Ok fails' ts'"
    using Cons.prems by (auto split: outcome.splits)
  from 1(1) have "set fails \<subseteq> set f1 \<and> set f1 \<subseteq> insert (fst x) (set fails)"
    by (cases rule: bind_one_cases) auto
  then show ?case using Cons.IH [OF 1(2)] by auto
qed simp

lemma bind_loop_all:
  "bind_loop en fstat host xs [] ts = Ok [] ts' \<Longrightarrow>
   \<exists>sos. list_all2 (bound_to host) xs sos \<and> ts_heap ts' = ts_heap ts @ sos \<and>
     ts_socks ts' = ts_socks ts @ [length (ts_heap ts)..<length (ts_heap ts) + length xs]"
proof (induction xs arbitrary: ts)
  case (Cons x xs)
  obtain f1 ts1 where 1: "bind_one en fstat host x [] ts = Ok f1 ts1" "bind_loop en fstat host xs f1 ts1 = Ok [] ts'"
    using Cons.prems by (auto split: outcome.splits)
  have f1: "f1 = []" using bind_loop_fails [OF 1(2)] by simp
  from 1(1) obtain so where so: "ts_heap ts1 = ts_heap ts @ [so]" "ts_socks ts1 = ts_socks ts @ [length (ts_heap ts)]" "bound_to host x so"
    by (cases rule: bind_one_cases) (use f1 in auto)
  obtain sos where "list_all2 (bound_to host) xs sos" "ts_heap ts' = ts_heap ts1 @ sos"
     "ts_socks ts' = ts_socks ts1 @ [length (ts_heap ts1)..<length (ts_heap ts1) + length xs]"
    using Cons.IH 1(2) f1 by blast
  then show ?case using so by (intro exI [of _ "so # sos"]) (simp add: upt_rec)
qed simp

text \<open>\<open>bind\<close> is all or nothing: it returns true exactly when no address failed, and then each address has a socket of
  its family, bound and listening, added in order to those of the server; otherwise the server has no listening socket
  left, not even from an earlier call, and the addresses reported are among those given.\<close>

theorem tcp_bind_all_or_nothing:
  assumes "ts_bind en fstat host xs [] ts = Ok (b, fails) ts'"
  shows "(b \<longleftrightarrow> fails = []) \<and> set fails \<subseteq> fst ` set xs \<and> (\<not> b \<longrightarrow> ts_socks ts' = []) \<and>
    (b \<longrightarrow> (\<exists>sos. list_all2 (bound_to host) xs sos \<and> ts_heap ts' = ts_heap ts @ sos \<and>
      ts_socks ts' = ts_socks ts @ [length (ts_heap ts)..<length (ts_heap ts) + length xs]))"
proof -
  obtain ts1 where l: "bind_loop en fstat host xs [] ts = Ok fails ts1" and r: "b \<longleftrightarrow> fails = []" "ts' = (if b then ts1 else ts1\<lparr>ts_socks := []\<rparr>)"
    using assms by (auto simp: ts_bind_def split: outcome.splits if_splits)
  show ?thesis using bind_loop_fails [OF l] bind_loop_all [of en fstat host xs ts ts1] l r by auto
qed

theorem tcp_bind_all_or_nothing_witness:
  "\<exists>ts'. ts_bind False (\<lambda>_. None) demo_host [(peer4 0 80, good_answers (getAddr demo_host (peer4 0 80)), SErr 98)] [] (TcpServer_new 1000 demo_sys) =
      Ok (False, [peer4 0 80]) ts' \<and> ts_socks ts' = []"
proof -
  let ?x = "(peer4 0 80, good_answers (getAddr demo_host (peer4 0 80)), SErr 98)"
  obtain st where b: "Socket_bind False (\<lambda>_. None) demo_host (fst (snd ?x)) (peer4 0 80) (CreateTCP demo_host (peer4 0 80), demo_sys) = Ok True st"
    by (simp add: Socket_bind_def ensure_sock_def newSock_def hook_socket_def initSock_def setOption_def
        hook_setsockopt_def andThen_def on_fdm_def good_answers_def called_def isVaild_def Let_def CreateTCP_def Socket_new_def AF_INET_def)
  have "isVaild (fst st)" using Socket_bind_True [OF b] by simp
  then obtain sy where l: "Socket_listen SOMAXCONN (SErr 98) st = (False, fst st, sy)" by (cases st) (simp add: Socket_listen_def)
  have "\<exists>ts'. ts_bind False (\<lambda>_. None) demo_host [?x] [] (TcpServer_new 1000 demo_sys) = Ok (False, [peer4 0 80]) ts'"
    using b l by (simp add: ts_bind_def bind_one_def TcpServer_new_def)
  then obtain ts' where t: "ts_bind False (\<lambda>_. None) demo_host [?x] [] (TcpServer_new 1000 demo_sys) = Ok (False, [peer4 0 80]) ts'" by blast
  show ?thesis using tcp_bind_all_or_nothing [OF t] t by auto
qed

subsection \<open>Accepting and stopping\<close>

definition client_ok :: "Socket \<Rightarrow> Socket \<Rightarrow> bool" where
  "client_ok so client \<longleftrightarrow> sock_ok client \<and> isVaild client \<and> so_isConnected client \<and> so_family client = so_family so \<and> so_type client = so_type so"

lemma setRecvTimeout_keeps: "setRecvTimeout en fstat v r st = Ok u st' \<Longrightarrow> fst st' = fst st"
  by (auto simp: setRecvTimeout_def andThen_eq_Ok dest: setOption_keeps)

lemma startAccept_clients:
  assumes "startAccept en fstat host so script ts = Some (Ok () ts')" and "\<forall>(stop, an, rs, ws) \<in> set script. answers_ok host (so_family so) an"
  shows "\<exists>clients. ts_worker_tasks ts' = ts_worker_tasks ts @ map HandleClient clients \<and> list_all (client_ok so) clients \<and>
    length clients \<le> length script \<and> ts_socks ts' = ts_socks ts \<and> ts_accept_tasks ts' = ts_accept_tasks ts"
  using assms
proof (induction en fstat host so script ts rule: startAccept.induct)
  case (1 en fstat host so ts)
  then show ?case by simp
next
  case (2 en fstat host so stop an rs ws script ts)
  have ok: "answers_ok host (so_family so) an" "\<forall>(stop, an, rs, ws) \<in> set script. answers_ok host (so_family so) an" using 2(4) by auto
  show ?case
  proof (cases stop)
    case True
    then show ?thesis using 2(3) by (intro exI [of _ "[]"]) simp
  next
    case False
    then obtain r sy where a: "Socket_accept en fstat host an rs ws so (ts_sys ts) = Ok (Some r) sy"
      using 2(3) by (auto split: outcome.splits option.splits)
    show ?thesis
    proof (cases r)
      case None
      then have run: "startAccept en fstat host so script (ts\<lparr>ts_sys := sy\<rparr>) = Some (Ok () ts')" using 2(3) False a by simp
      from 2(1) [OF False a _ None run ok(2)] show ?thesis by force
    next
      case (Some client)
      obtain u cl sy2 where t: "setRecvTimeout en fstat (sint (ts_recvTimeout ts)) (fst (an_options an)) (client, sy) = Ok u (cl, sy2)"
        and run: "startAccept en fstat host so script (ts\<lparr>ts_sys := sy2, ts_worker_tasks := ts_worker_tasks ts @ [HandleClient cl]\<rparr>) = Some (Ok () ts')"
        using 2(3) False a Some by (auto split: outcome.splits)
      have "cl = client" using setRecvTimeout_keeps [OF t] by simp
      moreover have "client_ok so client" using Socket_accept_ok [OF a [unfolded Some] ok(1)] by (simp add: client_ok_def)
      moreover obtain clients where "ts_worker_tasks ts' = (ts_worker_tasks ts @ [HandleClient cl]) @ map HandleClient clients"
        "list_all (client_ok so) clients" "length clients \<le> length script" "ts_socks ts' = ts_socks ts" "ts_accept_tasks ts' = ts_accept_tasks ts"
        using 2(2) [OF False a refl Some t refl run ok(2)] by auto
      ultimately show ?thesis by (intro exI [of _ "client # clients"]) simp
    qed
  qed
qed

text \<open>The accept loop hands every connection it accepts to the workers exactly once, in the order of acceptance, each
  as a connected socket of the family and type of the listening one; a failed \<open>accept\<close> changes nothing and the loop goes on
  until it sees \<open>m_isStop\<close>.\<close>

theorem tcp_accept_schedules:
  assumes "startAccept en fstat host so script ts = Some (Ok () ts')" and "\<forall>(stop, an, rs, ws) \<in> set script. answers_ok host (so_family so) an"
  shows "\<exists>clients. ts_worker_tasks ts' = ts_worker_tasks ts @ map HandleClient clients \<and> list_all (client_ok so) clients \<and>
    length clients \<le> length script \<and> ts_socks ts' = ts_socks ts \<and> ts_accept_tasks ts' = ts_accept_tasks ts"
  using assms by (rule startAccept_clients)

definition listener4 :: Socket where
  "listener4 = (CreateTCP demo_host (peer4 0 80))\<lparr>so_sock := 3\<rparr>"

lemma demo_accept:
  assumes "sy_fdm sy = demo_fdm"
  shows "\<exists>client sy'. Socket_accept False (\<lambda>_. Some True) demo_host (good_answers (getAddr demo_host (peer4 1 2))) [SRet 5] [] listener4 sy = Ok (Some (Some client)) sy'"
  using assms
  by (simp add: Socket_accept_def listener4_def CreateTCP_def Socket_new_def on_fdm_def hook_accept_def do_io_def andThen_def Let_def
      Socket_init_def demo_ctx5_def initSock_def setOption_def hook_setsockopt_def called_def good_answers_def AF_INET_def)

theorem tcp_accept_schedules_witness:
  "\<exists>ts' client. startAccept False (\<lambda>_. Some True) demo_host listener4
      [(False, good_answers (getAddr demo_host (peer4 1 2)), [SRet 5], []), (True, good_answers (getAddr demo_host (peer4 1 2)), [], [])]
      (TcpServer_new 1000 demo_sys) = Some (Ok () ts') \<and> ts_worker_tasks ts' = [HandleClient client] \<and> so_isConnected client"
proof -
  let ?an = "good_answers (getAddr demo_host (peer4 1 2))"
  let ?script = "[(False, ?an, [SRet 5], []), (True, ?an, [] :: sysret list, [] :: wake list)]"
  obtain client sy' where a: "Socket_accept False (\<lambda>_. Some True) demo_host ?an [SRet 5] [] listener4 demo_sys = Ok (Some (Some client)) sy'"
    using demo_accept [of demo_sys] by (auto simp: demo_sys_def)
  have "\<exists>ts'. startAccept False (\<lambda>_. Some True) demo_host listener4 ?script (TcpServer_new 1000 demo_sys) = Some (Ok () ts') \<and> ts_worker_tasks ts' = [HandleClient client]"
    using a by (simp add: TcpServer_new_def setRecvTimeout_def setOption_def hook_setsockopt_def andThen_def on_fdm_def)
  then obtain ts' where r: "startAccept False (\<lambda>_. Some True) demo_host listener4 ?script (TcpServer_new 1000 demo_sys) = Some (Ok () ts')"
    "ts_worker_tasks ts' = [HandleClient client]" by blast
  have "so_family listener4 = 2" by (simp add: listener4_def CreateTCP_def Socket_new_def)
  then have "\<forall>(stop, an, rs, ws) \<in> set ?script. answers_ok demo_host (so_family listener4) an" using good_answers_ok by simp
  from tcp_accept_schedules [OF r(1) this] r(2)
  have "client_ok listener4 client" by (auto simp: TcpServer_new_def)
  then show ?thesis using r by (auto simp: client_ok_def)
qed

lemma close_socks_closed:
  "close_socks en fstat fail cancels as ts = Ok () ts' \<Longrightarrow> \<forall>a \<in> set as. a < length (ts_heap ts) \<Longrightarrow>
   length (ts_heap ts') = length (ts_heap ts) \<and>
   (\<forall>i < length (ts_heap ts). (i \<in> set as \<or> \<not> isVaild (ts_heap ts ! i) \<and> \<not> so_isConnected (ts_heap ts ! i) \<longrightarrow>
      \<not> isVaild (ts_heap ts' ! i) \<and> \<not> so_isConnected (ts_heap ts' ! i)) \<and> (i \<notin> set as \<longrightarrow> ts_heap ts' ! i = ts_heap ts ! i)) \<and>
   ts_isStop ts' = ts_isStop ts \<and> ts_worker_tasks ts' = ts_worker_tasks ts"
proof (induction en fstat fail cancels as ts rule: close_socks.induct)
  case (2 en fstat fail cancels a as ts)
  obtain b1 sy1 where c: "(if cancels then Socket_cancelAll fail (ts_heap ts ! a) (ts_sys ts) else Ok False (ts_sys ts)) = Ok b1 sy1"
    using 2(2) by (auto split: outcome.splits)
  obtain b2 so sy2 where cl: "Socket_close en fstat fail (ts_heap ts ! a, sy1) = Ok b2 (so, sy2)"
    using 2(2) c by (auto split: outcome.splits)
  let ?ts = "ts\<lparr>ts_heap := (ts_heap ts)[a := so], ts_sys := sy2\<rparr>"
  have run: "close_socks en fstat fail cancels as ?ts = Ok () ts'" using 2(2) c cl by simp
  have so: "\<not> isVaild so" "\<not> so_isConnected so" using Socket_close_sock [OF cl] by (auto simp: isVaild_def)
  have a: "a < length (ts_heap ts)" "\<forall>a \<in> set as. a < length (ts_heap ?ts)" using 2(3) by auto
  show ?case using 2(1) [OF c cl _ run a(2)] so a(1) by (auto simp: nth_list_update)
qed simp

text \<open>The task scheduled by \<open>stop\<close> closes every listening socket, also for the accept loops that still hold it, leaves the server
  without sockets, and closes nothing else; connections already handed to the workers stay scheduled.\<close>

theorem tcp_stop_closes:
  assumes "stop_task en fstat fail (ts_stop ts) = Ok () ts'" and "\<forall>a \<in> set (ts_socks ts). a < length (ts_heap ts)"
  shows "ts_socks ts' = [] \<and> ts_isStop ts' \<and> ts_worker_tasks ts' = ts_worker_tasks ts \<and>
    (\<forall>a \<in> set (ts_socks ts). \<not> isVaild (ts_heap ts' ! a) \<and> \<not> so_isConnected (ts_heap ts' ! a)) \<and>
    (\<forall>i < length (ts_heap ts). i \<notin> set (ts_socks ts) \<longrightarrow> ts_heap ts' ! i = ts_heap ts ! i)"
proof -
  obtain ts1 where c: "close_socks en fstat fail True (ts_socks ts) (ts_stop ts) = Ok () ts1" "ts' = ts1\<lparr>ts_socks := []\<rparr>"
    using assms(1) by (auto simp: stop_task_def ts_stop_def split: outcome.splits)
  show ?thesis using close_socks_closed [OF c(1)] assms(2) c(2) by (auto simp: ts_stop_def)
qed

theorem tcp_stop_closes_witness:
  "\<exists>ts'. stop_task True (\<lambda>_. Some True) False (ts_stop (TcpServer_new 1000 demo_sys)) = Ok () ts' \<and> ts_socks ts' = []"
proof -
  have "\<exists>ts'. stop_task True (\<lambda>_. Some True) False (ts_stop (TcpServer_new 1000 demo_sys)) = Ok () ts'"
    by (simp add: stop_task_def ts_stop_def TcpServer_new_def)
  then obtain ts' where t: "stop_task True (\<lambda>_. Some True) False (ts_stop (TcpServer_new 1000 demo_sys)) = Ok () ts'" by blast
  show ?thesis using tcp_stop_closes [OF t] t by (auto simp: TcpServer_new_def)
qed

end
