(* ===== verification/HttpServer.thy ===== *)
theory HttpServer
  imports HttpSession TcpServer Servlet
begin

text \<open>
  \<open>src/http_server.cc\<close>, \<open>include/http/http_server.hh\<close>: the loop that answers the requests of a connection.

  The session is a stream state \<open>'s\<close> with its operations \<open>rd\<close>, \<open>wr\<close>, \<open>cl\<close>, as in \<open>HttpSession\<close>; servlets work on the same state.
  The constructor makes an empty \<open>ServletDispatcher\<close>; \<open>TcpServer\<close> has the rest of the server.
\<close>

record 's HttpServer =
  hs_isKeepAlive :: bool
  hs_dispatcher :: "'s ServletDispatcher"
  hs_name :: string

definition HttpServer_new :: "bool \<Rightarrow> string \<Rightarrow> 's HttpServer" where
  "HttpServer_new keepalive name = \<lparr>hs_isKeepAlive = keepalive, hs_dispatcher = ServletDispatcher_new, hs_name = name\<rparr>"

text \<open>The response a request gets: \<open>HttpResponse(version, close)\<close>, the name of the server, and what the servlet makes of it.\<close>

definition respond :: "(string \<Rightarrow> string \<Rightarrow> int) \<Rightarrow> 's HttpServer \<Rightarrow> HttpRequest \<Rightarrow> 's \<Rightarrow> HttpResponse \<times> 's" where
  "respond fnmatch srv req s =
     (let rsp = HttpResponse_new (rq_version req) (rq_close req \<or> \<not> hs_isKeepAlive srv);
          rsp = rs_setHeader ''Server'' (hs_name srv) rsp
      in snd (dispatcher_handle fnmatch (hs_dispatcher srv) req rsp s))"

partial_function (option) handle_loop :: "(char, 's) reader \<Rightarrow> (char, 's) writer \<Rightarrow> ('s \<Rightarrow> (unit, 's) outcome) \<Rightarrow> ('p, rq_event) automaton \<Rightarrow>
    (string \<Rightarrow> u64 option) \<Rightarrow> string \<Rightarrow> (string \<Rightarrow> string \<Rightarrow> int) \<Rightarrow> 's HttpServer \<Rightarrow> 's \<Rightarrow> (unit, 's) outcome option" where
  "handle_loop rd wr cl m cast junk fnmatch srv s =
     (case recvRequest rd cl m cast junk s of
        None \<Rightarrow> None
      | Some (Crash x) \<Rightarrow> Some (Crash x)
      | Some (Throw e s) \<Rightarrow> Some (Throw e s)
      | Some (Ok None s) \<Rightarrow> Some (Ok () s)
      | Some (Ok (Some req) s) \<Rightarrow>
          let (rsp, s) = respond fnmatch srv req s in
          (case sendResponse wr rsp s of
             None \<Rightarrow> None
           | Some (Crash x) \<Rightarrow> Some (Crash x)
           | Some (Throw e s) \<Rightarrow> Some (Throw e s)
           | Some (Ok _ s) \<Rightarrow>
               if \<not> hs_isKeepAlive srv \<or> rq_close req then Some (Ok () s)
               else if hs_isKeepAlive srv then handle_loop rd wr cl m cast junk fnmatch srv s
               else Some (Ok () s)))"

definition handleClient :: "(char, 's) reader \<Rightarrow> (char, 's) writer \<Rightarrow> ('s \<Rightarrow> (unit, 's) outcome) \<Rightarrow> ('p, rq_event) automaton \<Rightarrow>
    (string \<Rightarrow> u64 option) \<Rightarrow> string \<Rightarrow> (string \<Rightarrow> string \<Rightarrow> int) \<Rightarrow> 's HttpServer \<Rightarrow> 's \<Rightarrow> (unit, 's) outcome option" where
  "handleClient rd wr cl m cast junk fnmatch srv s =
     (case handle_loop rd wr cl m cast junk fnmatch srv s of
        None \<Rightarrow> None
      | Some (Crash x) \<Rightarrow> Some (Crash x)
      | Some (Throw e s) \<Rightarrow> Some (Throw e s)
      | Some (Ok _ s) \<Rightarrow> Some (cl s))"

subsection \<open>A connection\<close>

text \<open>A connection on which the client has sent the segments \<open>segs\<close> and then closed its side, and which takes every
  response at once; \<open>sent\<close> is what the client has got.\<close>

definition connection :: "(char, 's) reader \<Rightarrow> (char, 's) writer \<Rightarrow> ('s \<Rightarrow> (unit, 's) outcome) \<Rightarrow> ('s \<Rightarrow> string list) \<Rightarrow> ('s \<Rightarrow> string) \<Rightarrow> bool" where
  "connection rd wr cl segs sent \<longleftrightarrow> delivers rd segs \<and>
     (\<forall>n s. segs s = [] \<longrightarrow> fst (rd n s) = (0, [])) \<and>
     (\<forall>n s. sent (snd (rd n s)) = sent s) \<and>
     (\<forall>mem s. 0 < length mem \<longrightarrow> length mem < 2 ^ 31 \<longrightarrow>
        fst (wr (length mem) mem s) = int (length mem) \<and> sent (snd (wr (length mem) mem s)) = sent s @ mem \<and> segs (snd (wr (length mem) mem s)) = segs s) \<and>
     (\<forall>s. \<exists>s'. cl s = Ok () s' \<and> sent s' = sent s)"

text \<open>The bytes of a request, header and body, on which the automaton does its work.\<close>

definition arrives :: "('p, rq_event) automaton \<Rightarrow> (string \<Rightarrow> u64 option) \<Rightarrow> nat \<Rightarrow> string \<times> string \<times> HttpRequest \<Rightarrow> bool" where
  "arrives m cast buffer_size x \<longleftrightarrow> (case x of (h, b, req) \<Rightarrow>
     h \<noteq> [] \<and> length (h @ b) \<le> buffer_size \<and>
     (\<exists>q evs. au_execute m (au_init m) (h @ b) = (q, length h, evs) \<and> au_is_finished m q \<and>
       (let parser = fold on_request evs ((HttpRequestParser_new m)\<lparr>rp_parser := q\<rparr>) in
        \<not> rq_hasError m parser \<and> rq_getContentLength cast parser = word_of_nat (length b) \<and> req = setBody b (rp_data parser))))"

text \<open>The requests that are answered: up to the first that closes.\<close>

fun served :: "bool \<Rightarrow> (string \<times> string \<times> HttpRequest) list \<Rightarrow> HttpRequest list" where
  "served keep [] = []"
| "served keep ((h, b, req) # xs) = req # (if \<not> keep \<or> rq_close req then [] else served keep xs)"

lemma recvRequest_whole:
  assumes "delivers rd segs" and "segs s = (h @ b) # rest" and "length junk < 2 ^ 31" and "arrives m cast (length junk) (h, b, req)"
  shows "recvRequest rd cl m cast junk s = Some (Ok (Some req) (snd (rd (length junk) s))) \<and> segs (snd (rd (length junk) s)) = rest"
proof -
  obtain q evs parser where a: "h \<noteq> []" "length (h @ b) \<le> length junk" "au_execute m (au_init m) (h @ b) = (q, length h, evs)" "au_is_finished m q"
    "parser = fold on_request evs ((HttpRequestParser_new m)\<lparr>rp_parser := q\<rparr>)" "\<not> rq_hasError m parser"
    "rq_getContentLength cast parser = word_of_nat (length b)" "req = setBody b (rp_data parser)"
    using assms(4) by (auto simp: arrives_def Let_def)
  have j: "0 < length junk" using a(1,2) by (cases junk) auto
  have hl: "header_loop rd cl m junk 0 (HttpRequestParser_new m) s =
      Some (Ok (Some (parser, overwrite (overwrite junk 0 (h @ b)) 0 b, length b)) (snd (rd (length junk) s)))"
    using recvRequest_header [OF assms(1,2) j assms(3) a(2,3) _ _ a(5,6,4)] a(1) by simp
  have sz: "sint (rq_getContentLength cast parser) = int (length b)"
    unfolding a(7) using a(2) assms(3) by (simp add: signed_of_nat signed_take_bit_int_eq_self)
  have body0: "rq_body (rp_data parser) = []"
    unfolding a(5) fold_on_request_keeps(1) by (simp add: HttpRequestParser_new_def HttpRequest_new_def)
  have "b = [] \<Longrightarrow> rp_data parser = req" using body0 a(8) by (cases "rp_data parser") (simp add: setBody_def)
  moreover have "take (length b) (overwrite (overwrite junk 0 (h @ b)) 0 b) = b" by (simp add: overwrite_def)
  ultimately have "recvRequest rd cl m cast junk s = Some (Ok (Some req) (snd (rd (length junk) s)))"
    using hl sz a(8) by (cases "b = []") (simp_all add: recvRequest_def recv_body_def Let_def)
  then show ?thesis using deliversD(3) [OF assms(1,2) j assms(3)] a(2) by simp
qed

lemma connection_close: "connection rd wr cl segs sent \<Longrightarrow> \<exists>s'. cl s = Ok () s' \<and> sent s' = sent s"
  unfolding connection_def by blast

lemma recvRequest_peer_closed:
  assumes "connection rd wr cl segs sent" and "segs s = []"
  shows "\<exists>s'. recvRequest rd cl m cast junk s = Some (Ok None s') \<and> sent s' = sent s"
proof -
  have r: "fst (rd (length junk) s) = (0, [])" "sent (snd (rd (length junk) s)) = sent s" using assms by (simp_all add: connection_def)
  obtain s' where "cl (snd (rd (length junk) s)) = Ok () s'" "sent s' = sent (snd (rd (length junk) s))"
    using connection_close [OF assms(1)] by blast
  moreover from this have "header_loop rd cl m junk 0 (HttpRequestParser_new m) s = Some (Ok None s')"
    using r by (subst header_loop.simps) (simp add: split_beta close_null_def)
  ultimately show ?thesis using r by (auto simp: recvRequest_def)
qed

lemma sendResponse_taken:
  assumes "connection rd wr cl segs sent" and "length (dump_response rsp) < 2 ^ 31"
  shows "\<exists>n s'. sendResponse wr rsp s = Some (Ok n s') \<and> sent s' = sent s @ dump_response rsp \<and> segs s' = segs s"
proof -
  let ?d = "dump_response rsp"
  have ne: "0 < length ?d" by (simp add: dump_response_def status_line_def version_text_def)
  have w: "fst (wr (length ?d) ?d s) = int (length ?d)" "sent (snd (wr (length ?d) ?d s)) = sent s @ ?d" "segs (snd (wr (length ?d) ?d s)) = segs s"
    using assms ne unfolding connection_def by blast+
  have n0: "(word_of_nat (length ?d) :: u64) \<noteq> 0" using assms(2) ne by auto
  have "sendResponse wr rsp s = Some (Ok (int (length ?d)) (snd (wr (length ?d) ?d s)))"
    unfolding sendResponse_def writeFixSize_def Let_def
    by (subst writeFix_loop.simps) (use w(1) n0 assms(2) in \<open>simp add: split_beta Let_def writeFix_loop_0\<close>)
  then show ?thesis using w by blast
qed

lemma handle_loop_serves:
  assumes c: "connection rd wr cl segs sent" and j: "length junk < 2 ^ 31"
    and h: "\<forall>req s. respond fnmatch srv req s = (answer req, s)"
  shows "\<forall>(h, b, req) \<in> set xs. length (dump_response (answer req)) < 2 ^ 31 \<Longrightarrow> segs s = map (\<lambda>(h, b, _). h @ b) xs \<Longrightarrow> list_all (arrives m cast (length junk)) xs \<Longrightarrow>
    \<exists>s'. handle_loop rd wr cl m cast junk fnmatch srv s = Some (Ok () s') \<and>
      sent s' = sent s @ concat (map (\<lambda>req. dump_response (answer req)) (served (hs_isKeepAlive srv) xs))"
proof (induction xs arbitrary: s)
  case Nil
  then obtain s' where "recvRequest rd cl m cast junk s = Some (Ok None s')" "sent s' = sent s"
    using recvRequest_peer_closed [OF c, of s m cast junk] by auto
  then show ?case by (subst handle_loop.simps) simp
next
  case (Cons x xs)
  obtain hd b req where x: "x = (hd, b, req)" by (cases x)
  have d: "delivers rd segs" using c by (simp add: connection_def)
  let ?s = "snd (rd (length junk) s)"
  have r: "recvRequest rd cl m cast junk s = Some (Ok (Some req) ?s)" "segs ?s = map (\<lambda>(h, b, _). h @ b) xs"
    using recvRequest_whole [OF d _ j, of s hd b "map (\<lambda>(h, b, _). h @ b) xs" m cast req] Cons.prems x by auto
  have sent: "sent ?s = sent s" using c by (simp add: connection_def)
  obtain n s2 where w: "sendResponse wr (answer req) ?s = Some (Ok n s2)" "sent s2 = sent s @ dump_response (answer req)"
      "segs s2 = map (\<lambda>(h, b, _). h @ b) xs"
    using sendResponse_taken [OF c, of "answer req" ?s] Cons.prems(1) x r(2) sent by auto
  have step: "handle_loop rd wr cl m cast junk fnmatch srv s =
    (if \<not> hs_isKeepAlive srv \<or> rq_close req then Some (Ok () s2) else handle_loop rd wr cl m cast junk fnmatch srv s2)"
    using r(1) w(1) h by (subst handle_loop.simps) simp
  have "list_all (arrives m cast (length junk)) xs" "\<forall>(h, b, req) \<in> set xs. length (dump_response (answer req)) < 2 ^ 31"
    using Cons.prems(1,3) by simp_all
  from Cons.IH [OF this(2) w(3) this(1)] show ?case using step w(2) x by auto
qed

subsection \<open>Properties\<close>

text \<open>C9. A server answers the requests of a connection in order: for a client that sends each request in one piece and then
  closes, \<open>handleClient\<close> ends, having sent exactly the serialised responses of the servlets, one per request, up to the
  first request that asks to close or, without keep-alive, to the first request.\<close>

theorem http_server_answers:
  assumes "connection rd wr cl segs sent" and "length junk < 2 ^ 31"
    and "\<forall>req s. respond fnmatch srv req s = (answer req, s)" and "\<forall>(h, b, req) \<in> set xs. length (dump_response (answer req)) < 2 ^ 31"
    and "segs s = map (\<lambda>(h, b, _). h @ b) xs" and "list_all (arrives m cast (length junk)) xs"
  shows "\<exists>s'. handleClient rd wr cl m cast junk fnmatch srv s = Some (Ok () s') \<and>
    sent s' = sent s @ concat (map (\<lambda>req. dump_response (answer req)) (served (hs_isKeepAlive srv) xs))"
proof -
  obtain s1 where s1: "handle_loop rd wr cl m cast junk fnmatch srv s = Some (Ok () s1)"
    "sent s1 = sent s @ concat (map (\<lambda>req. dump_response (answer req)) (served (hs_isKeepAlive srv) xs))"
    using handle_loop_serves [OF assms] by blast
  obtain s' where "cl s1 = Ok () s'" "sent s' = sent s1" using connection_close [OF assms(1)] by blast
  then show ?thesis using s1 by (simp add: handleClient_def)
qed

text \<open>A server with a fixed page, and a connection made of a list of segments and the bytes sent.\<close>

definition page_server :: "'s HttpServer" where
  "page_server = (HttpServer_new True ''sylar/1.0.0'')\<lparr>hs_dispatcher := setDefault (Some ServletNotFound) ServletDispatcher_new\<rparr>"

definition pair_read :: "(char, string list \<times> string) reader" where
  "pair_read n s = (case seg_read n (fst s) of (r, segs) \<Rightarrow> (r, segs, snd s))"

definition pair_write :: "(char, string list \<times> string) writer" where
  "pair_write n mem s = (int n, fst s, snd s @ take n mem)"

definition pair_segs :: "string list \<times> string \<Rightarrow> string list" where
  "pair_segs s = nonempty_segs (fst s)"

lemma pair_connection: "connection pair_read pair_write unit_close pair_segs snd"
proof -
  have r: "fst (pair_read n s) = fst (seg_read n (fst s))" "fst (snd (pair_read n s)) = snd (seg_read n (fst s))" "snd (snd (pair_read n s)) = snd s" for n s
    by (simp_all add: pair_read_def split_beta)
  have "delivers pair_read pair_segs"
    using seg_read_delivers unfolding delivers_def pair_segs_def r by blast
  moreover have "nonempty_segs (fst s) = [] \<Longrightarrow> fst (seg_read n (fst s)) = (0, [])" for n and s :: "string list \<times> string"
    by (cases "fst s") (auto simp: nonempty_segs_def split: if_splits)
  ultimately show ?thesis by (simp add: connection_def r pair_write_def pair_segs_def)
qed

definition page :: HttpResponse where
  "page = fst (respond star_match (page_server :: unit HttpServer) (HttpRequest_new 0x11 False) ())"

theorem http_server_answers_witness:
  "\<exists>s'. handleClient pair_read pair_write unit_close (fixed_automaton ''HDR'' []) cast_dec (replicate 16 (CHR 0x00)) star_match page_server
      ([''HDR'', ''HDR''], []) = Some (Ok () s') \<and> snd s' = dump_response page @ dump_response page"
proof -
  let ?req = "HttpRequest_new 0x11 False"
  let ?xs = "[(''HDR'', [], ?req), (''HDR'', [], ?req)]"
  let ?answer = "\<lambda>req. fst (respond star_match (page_server :: unit HttpServer) req ())"
  have resp: "respond star_match page_server req s = (?answer req, s)" for req and s :: "string list \<times> string"
    by (simp add: respond_def page_server_def HttpServer_new_def dispatcher_handle_def getMatchedServlet_def ServletDispatcher_new_def
        setDefault_def NotFound_handle_def Let_def)
  have "length (dump_response page) < 1000" by code_simp
  then have len: "length (dump_response page) < 2 ^ 31" by simp
  have sb: "setBody [] ?req = ?req" by (simp add: setBody_def HttpRequest_new_def)
  have arr: "list_all (arrives (fixed_automaton ''HDR'' []) cast_dec (length (replicate 16 (CHR 0x00)))) ?xs"
    by (simp add: arrives_def fixed_automaton_def HttpRequestParser_new_def rq_hasError_def rq_getContentLength_def getHeaderAs_def getAs_def
        map_find_def HttpRequest_new_def setBody_def ex_bool_eq)
  have sv: "served (hs_isKeepAlive page_server) ?xs = [?req, ?req]" by (simp add: page_server_def HttpServer_new_def HttpRequest_new_def)
  have h: "\<forall>req s. respond star_match page_server req s = (?answer req, s :: string list \<times> string)" using resp by blast
  have l: "\<forall>(h, b, req) \<in> set ?xs. length (dump_response (?answer req)) < 2 ^ 31" using len by (simp add: page_def)
  have segs: "pair_segs ([''HDR'', ''HDR''], []) = map (\<lambda>(h, b, _). h @ b) ?xs" by (simp add: pair_segs_def nonempty_segs_def)
  have j: "length (replicate 16 (CHR 0x00)) < 2 ^ 31" by simp
  note answers = http_server_answers [where rd = pair_read and wr = pair_write and cl = unit_close and segs = pair_segs and sent = snd
      and junk = "replicate 16 (CHR 0x00)" and fnmatch = star_match and srv = page_server and answer = ?answer and xs = ?xs
      and s = "([''HDR'', ''HDR''], [])" and m = "fixed_automaton ''HDR'' []" and cast = cast_dec]
  from answers [OF pair_connection j h l segs arr] show ?thesis unfolding sv by (simp add: page_def)
qed

end
