(* ===== verification/HttpConnection.thy ===== *)
theory HttpConnection
  imports HttpSession
begin

text \<open>
  \<open>src/http_connection.cc\<close>, \<open>include/http/http_connection.hh\<close>: sending a request and receiving its response on a connection. \<open>HttpClient\<close> has the
  requests and \<open>HttpConnectionPool\<close> the pool of connections.

  A connection is a stream as in \<open>HttpSession\<close>: \<open>rd\<close>, \<open>wr\<close> and \<open>cl\<close> are its operations. \<open>junk\<close> is the memory \<open>new char[size + 1]\<close>
  returns, so the size of the buffer is one less than its length. The automaton \<open>httpclient_parser\<close> is an
  argument; \<open>q0\<close> is the memory of a new automaton. \<open>None\<close> is a call that never returns. Allocation succeeds.
\<close>

subsection \<open>Results of calls that may not return\<close>

definition thenO :: "('a, 's) outcome option \<Rightarrow> ('a \<Rightarrow> 's \<Rightarrow> ('b, 't) outcome option) \<Rightarrow> ('s \<Rightarrow> 't) \<Rightarrow> ('b, 't) outcome option" where
  "thenO r f g = (case r of
     None \<Rightarrow> None
   | Some (Crash x) \<Rightarrow> Some (Crash x)
   | Some (Throw e s) \<Rightarrow> Some (Throw e (g s))
   | Some (Ok v s) \<Rightarrow> f v s)"

lemma thenO_simps [simp]:
  "thenO None f g = None" "thenO (Some (Crash x)) f g = Some (Crash x)"
  "thenO (Some (Throw e s)) f g = Some (Throw e (g s))" "thenO (Some (Ok v s)) f g = f v s"
  by (simp_all add: thenO_def)

lemma thenO_eq_Ok: "thenO r f g = Some (Ok v t) \<longleftrightarrow> (\<exists>u s. r = Some (Ok u s) \<and> f u s = Some (Ok v t))"
  by (simp add: thenO_def split: option.splits outcome.splits)

subsection \<open>Receiving a response\<close>

text \<open>The loop that reads until the automaton is finished, for the header of the response and for the header of a chunk
  (\<open>chunck\<close>, where each \<open>execute\<close> starts the automaton anew). A zero byte is stored behind the data.\<close>

partial_function (option) response_loop :: "(char, 's) reader \<Rightarrow> ('s \<Rightarrow> (unit, 's) outcome) \<Rightarrow> ('q, rs_event) client_automaton \<Rightarrow> bool \<Rightarrow>
    string \<Rightarrow> nat \<Rightarrow> 'q HttpResponseParser \<Rightarrow> 's \<Rightarrow> (('q HttpResponseParser \<times> string \<times> nat) option, 's) outcome option" where
  "response_loop rd cl m chunck data unparsed parser s =
     (let ((r, bytes), s) = rd (length data - 1 - unparsed) s in
      if bytes \<noteq> [] \<and> length data < unparsed + length bytes then Some (Crash OutOfBounds)
      else
        let data = overwrite data unparsed bytes in
        if r \<le> 0 then Some (close_null cl s)
        else
          let read_size = nat r + unparsed in
          if length data \<le> read_size then Some (Crash OutOfBounds)
          else
            case execute_response m chunck read_size (data[read_size := CHR 0x00], parser) of
              Crash x \<Rightarrow> Some (Crash x)
            | Throw e _ \<Rightarrow> Some (Throw e s)
            | Ok nparser (data, parser) \<Rightarrow>
                if rs_hasError m parser then Some (close_null cl s)
                else
                  let unparsed = read_size - nparser in
                  if int unparsed = size_to_int (word_of_nat (length data - 1)) then Some (close_null cl s)
                  else if rs_isFinished m parser \<noteq> 0 then Some (Ok (Some (parser, data, unparsed)) s)
                  else response_loop rd cl m chunck data unparsed parser s)"

definition response_header :: "(char, 's) reader \<Rightarrow> ('s \<Rightarrow> (unit, 's) outcome) \<Rightarrow> ('q, rs_event) client_automaton \<Rightarrow>
    string \<Rightarrow> nat \<Rightarrow> 'q HttpResponseParser \<Rightarrow> 's \<Rightarrow> (('q HttpResponseParser \<times> string \<times> nat) option, 's) outcome option" where
  "response_header rd cl m = response_loop rd cl m False"

definition chunk_header :: "(char, 's) reader \<Rightarrow> ('s \<Rightarrow> (unit, 's) outcome) \<Rightarrow> ('q, rs_event) client_automaton \<Rightarrow>
    string \<Rightarrow> nat \<Rightarrow> 'q HttpResponseParser \<Rightarrow> 's \<Rightarrow> (('q HttpResponseParser \<times> string \<times> nat) option, 's) outcome option" where
  "chunk_header rd cl m = response_loop rd cl m True"

text \<open>The data of a chunk, from the buffer and then from the stream, and the line end behind it, always from the stream.\<close>

definition chunk_data :: "(char, 's) reader \<Rightarrow> ('s \<Rightarrow> (unit, 's) outcome) \<Rightarrow> int \<Rightarrow> string \<Rightarrow> nat \<Rightarrow> string \<Rightarrow> 's \<Rightarrow>
    ((string \<times> nat \<times> string) option, 's) outcome option" where
  "chunk_data rd cl chunk_size data idx body s =
     (let took = (if idx > 0 then min idx (unat (word_of_int chunk_size :: u64)) else 0);
          body = body @ take took data;
          need = chunk_size - int took;
          idx = idx - took;
          data = (if idx > 0 then overwrite data 0 (take idx (drop took data)) else data)
      in thenO (if need > 0
                then thenO (readFixSize rd (replicate (nat need) (CHR 0x00)) (word_of_int need) s)
                       (\<lambda>(r, bytes) s. Some (if r \<le> 0 then close_null cl s else Ok (Some (body @ bytes)) s)) id
                else Some (Ok (Some body) s))
           (\<lambda>body s. case body of
              None \<Rightarrow> Some (Ok None s)
            | Some body \<Rightarrow>
                thenO (readFixSize rd (replicate 2 (CHR 0x00)) 2 s)
                  (\<lambda>(r, crlf) s. Some (if r \<le> 0 then close_null cl s else Ok (Some (data, idx, body)) s)) id) id)"

text \<open>The loop over the chunks; at the last chunk the line end is also taken out of the buffer, which is not used any more.\<close>

partial_function (option) chunk_loop :: "(char, 's) reader \<Rightarrow> ('s \<Rightarrow> (unit, 's) outcome) \<Rightarrow> ('q, rs_event) client_automaton \<Rightarrow>
    string \<Rightarrow> nat \<Rightarrow> 'q HttpResponseParser \<Rightarrow> string \<Rightarrow> 's \<Rightarrow> (('q HttpResponseParser \<times> string) option, 's) outcome option" where
  "chunk_loop rd cl m data idx parser body s =
     (case chunk_header rd cl m data idx parser s of
        None \<Rightarrow> None
      | Some (Crash x) \<Rightarrow> Some (Crash x)
      | Some (Throw e s) \<Rightarrow> Some (Throw e s)
      | Some (Ok None s) \<Rightarrow> Some (Ok None s)
      | Some (Ok (Some (parser, data, idx)) s) \<Rightarrow>
          let chunk_size = ca_content_len m (sp_parser parser) in
          if chunk_size = 0 then Some (Ok (Some (parser, body)) s)
          else
            (case chunk_data rd cl chunk_size data idx body s of
               None \<Rightarrow> None
             | Some (Crash x) \<Rightarrow> Some (Crash x)
             | Some (Throw e s) \<Rightarrow> Some (Throw e s)
             | Some (Ok None s) \<Rightarrow> Some (Ok None s)
             | Some (Ok (Some (data, idx, body)) s) \<Rightarrow>
                 if ca_chunks_done m (sp_parser parser) then Some (Ok (Some (parser, body)) s)
                 else chunk_loop rd cl m data idx parser body s))"

declare response_loop.simps [code] chunk_loop.simps [code]

text \<open>A body of a declared length, which is narrowed to \<open>int\<close>.\<close>

definition recv_content :: "(char, 's) reader \<Rightarrow> ('s \<Rightarrow> (unit, 's) outcome) \<Rightarrow> int \<Rightarrow> string \<Rightarrow> nat \<Rightarrow> HttpResponse \<Rightarrow> 's \<Rightarrow>
    (HttpResponse option, 's) outcome option" where
  "recv_content rd cl content_size data unparsed rsp s =
     (if content_size > 0 then
        let need = sint (word_of_int content_size :: u32);
            took = min need (int unparsed)
        in if took < 0 then Some (Crash OutOfBounds)
           else
             let body = overwrite (replicate (nat content_size) (CHR 0x00)) 0 (take (nat took) data);
                 need = need - took
             in if need \<noteq> 0 then
                  thenO (readFixSize rd (drop (nat took) body) (word_of_int need) s)
                    (\<lambda>(r, bytes) s. Some (if r \<le> 0 then close_null cl s else Ok (Some (rs_setBody (take (nat took) body @ bytes) rsp)) s)) id
                else Some (Ok (Some (rs_setBody body rsp)) s)
      else if content_size = 0 then Some (Ok (Some (rs_setBody [] rsp)) s)
      else Some (Ok (Some rsp) s))"

definition recvResponse :: "(char, 's) reader \<Rightarrow> ('s \<Rightarrow> (unit, 's) outcome) \<Rightarrow> ('q, rs_event) client_automaton \<Rightarrow> 'q \<Rightarrow> (string \<Rightarrow> u64 option) \<Rightarrow>
    string \<Rightarrow> 's \<Rightarrow> (HttpResponse option, 's) outcome option" where
  "recvResponse rd cl m q0 cast junk s =
     thenO (response_header rd cl m junk 0 (HttpResponseParser_new m q0) s)
       (\<lambda>r s. case r of
          None \<Rightarrow> Some (Ok None s)
        | Some (parser, data, unparsed) \<Rightarrow>
            if ca_chunked m (sp_parser parser) then
              thenO (chunk_loop rd cl m data unparsed parser [] s)
                (\<lambda>r s. Some (Ok (case r of None \<Rightarrow> None | Some (parser, body) \<Rightarrow> Some (rs_setBody body (sp_data parser))) s)) id
            else recv_content rd cl (sint (rs_getContentLength cast parser)) data unparsed (sp_data parser) s) id"

definition sendRequest :: "(char, 's) writer \<Rightarrow> HttpRequest \<Rightarrow> 's \<Rightarrow> (int, 's) outcome option" where
  "sendRequest wr req s = (let data = dump_request req in writeFixSize wr data (word_of_nat (length data)) s)"
subsection \<open>One read\<close>

text \<open>A block that arrives at once and finishes the automaton: the rest of it is left in the buffer.\<close>

lemma response_loop_arrives:
  assumes "delivers rd segs" and "segs s = c # cs" and "length c < length data" and "length data \<le> 2 ^ 31"
    and "ca_execute m (if chunck then ca_init m (sp_parser parser) else sp_parser parser) c = (q, int n, evs)" and "n \<le> length c" and "0 < n"
    and parser': "parser' = fold on_response evs (parser\<lparr>sp_parser := q\<rparr>)"
    and "\<not> rs_hasError m parser'" and "ca_is_finished m q"
  shows "\<exists>data'. response_loop rd cl m chunck data 0 parser s = Some (Ok (Some (parser', data', length c - n)) (snd (rd (length data - 1) s))) \<and>
    take (length c - n) data' = drop n c \<and> length data' = length data"
proof -
  have l: "0 < length data - 1" "length data - 1 < 2 ^ 31" using delivers_nonempty [OF assms(1,2)] assms(3,4) by (cases c; simp)+
  note rd = deliversD [OF assms(1,2) l]
  have c: "take (length data - 1) c = c" "min (length data - 1) (length c) = length c" "c \<noteq> []" using assms(3) rd(1) by simp_all
  have r: "fst (rd (length data - 1) s) = (int (length c), c)" using rd(2) c by simp
  let ?d = "(overwrite data 0 c)[length c := CHR 0x00]"
  let ?d' = "overwrite ?d 0 (drop n c)"
  have t: "take (length c) ?d = c" by (simp add: overwrite_def)
  have un: "unat (word_of_int (int n) :: u64) = n" using assms(3,4,6) by simp
  have ex: "execute_response m chunck (length c) (?d, parser) = Ok n (?d', parser')"
    using assms(5,6) t un by (simp add: execute_response_def parser' Let_def del: of_int_of_nat_eq split: if_splits)
  have p: "sp_parser parser' = q" unfolding parser' fold_on_response_keeps(2) by simp
  have fin: "rs_isFinished m parser' \<noteq> 0" using p assms(10) by (simp add: rs_isFinished_def)
  have len: "length ?d' = length data" using assms(3) by simp
  have ne: "int (length c - n) \<noteq> size_to_int (word_of_nat (length data - 1))"
    unfolding size_to_int_small [OF l(2)] using assms(3,6,7) by linarith
  have "response_loop rd cl m chunck data 0 parser s = Some (Ok (Some (parser', ?d', length c - n)) (snd (rd (length data - 1) s)))"
    using c r ex fin len ne assms(3,9) by (subst response_loop.simps) (simp add: split_beta Let_def del: of_nat_diff)
  moreover have "take (length c - n) ?d' = drop n c" by (simp add: overwrite_def)
  ultimately show ?thesis using len by blast
qed

lemma response_loop_rest: "delivers rd segs \<Longrightarrow> segs s = c # cs \<Longrightarrow> length c < length data \<Longrightarrow> length data \<le> 2 ^ 31 \<Longrightarrow> segs (snd (rd (length data - 1) s)) = cs"
  using deliversD(3) [of rd segs s c cs "length data - 1"] delivers_nonempty [of rd segs s c cs] by (cases c) auto

subsection \<open>Responses that arrive\<close>

lemma sint_small: "n < 2 ^ 31 \<Longrightarrow> sint (word_of_int (int n) :: u32) = int n" "n < 2 ^ 31 \<Longrightarrow> sint (word_of_nat n :: u64) = int n"
  by (simp_all add: signed_of_nat signed_take_bit_int_eq_self)

lemma recv_content_arrives:
  assumes "delivers rd segs" and "segs s = bs @ rest" and "take (length b) data = b" and "length (b @ concat bs) < 2 ^ 31"
    and "min (length (b @ concat bs)) unparsed = length b"
  shows "\<exists>s'. recv_content rd cl (int (length (b @ concat bs))) data unparsed rsp s = Some (Ok (Some (rs_setBody (b @ concat bs) rsp)) s') \<and> segs s' = rest"
proof (cases "b @ concat bs = []")
  case True
  then have "bs = []" using delivers_nonempty [OF assms(1), of s] assms(2) by (cases bs) auto
  then show ?thesis using True assms(2) by (auto simp: recv_content_def)
next
  case False
  let ?n = "length (b @ concat bs)"
  let ?body = "overwrite (replicate ?n (CHR 0x00)) 0 b"
  have need: "sint (word_of_int (int ?n) :: u32) = int ?n" using sint_small(1) [OF assms(4)] .
  have took: "min (int ?n) (int unparsed) = int (length b)" using assms(5) by linarith
  have pos: "0 < int ?n" using False by (simp only: of_nat_0_less_iff length_greater_0_conv not_False_eq_True)
  have body: "take (length b) ?body = b" "length (drop (length b) ?body) = length (concat bs)" by (simp_all add: overwrite_def)
  have unfold: "recv_content rd cl (int ?n) data unparsed rsp s =
      (if int ?n - int (length b) \<noteq> 0 then
         thenO (readFixSize rd (drop (length b) ?body) (word_of_int (int ?n - int (length b))) s)
           (\<lambda>(r, bytes) s. Some (if r \<le> 0 then close_null cl s else Ok (Some (rs_setBody (take (length b) ?body @ bytes) rsp)) s)) id
       else Some (Ok (Some (rs_setBody ?body rsp)) s))"
    unfolding recv_content_def need took Let_def nat_int assms(3) using pos by (simp only: if_True not_less if_not_P of_nat_0_le_iff)
  show ?thesis
  proof (cases "concat bs = []")
    case True
    then have "bs = []" using delivers_nonempty [OF assms(1), of s] assms(2) by (cases bs) auto
    then show ?thesis using unfold assms(2) by (simp add: overwrite_def)
  next
    case ne: False
    have n: "word_of_int (int ?n - int (length b)) = (word_of_nat (length (concat bs)) :: u64)" by simp
    have "length (concat bs) < 2 ^ 31" using assms(4) by simp
    from readFixSize_exact [OF assms(1,2) refl this body(2)] obtain s' where
      s': "readFixSize rd (drop (length b) ?body) (word_of_nat (length (concat bs))) s = Some (Ok (int (length (concat bs)), concat bs) s')" "segs s' = rest"
      by blast
    have d: "int ?n - int (length b) \<noteq> 0" "\<not> int (length (concat bs)) \<le> 0" using ne by simp_all
    have "recv_content rd cl (int ?n) data unparsed rsp s = Some (Ok (Some (rs_setBody (b @ concat bs) rsp)) s')"
      unfolding unfold n s'(1) body(1) using d by (simp only: if_True if_False thenO_simps prod.case not_False_eq_True)
    then show ?thesis using s'(2) by blast
  qed
qed

lemma recvResponse_arrives:
  assumes "delivers rd segs" and "segs s = (h @ b @ x) # bs @ rest" and "x \<noteq> [] \<longrightarrow> bs = []"
    and "0 < length h" and "length (h @ b @ x) < length junk" and "length junk \<le> 2 ^ 31" and "length (b @ concat bs) < 2 ^ 31"
    and "ca_execute m (ca_init m q0) (h @ b @ x) = (q, int (length h), evs)"
    and parser: "parser = fold on_response evs ((HttpResponseParser_new m q0)\<lparr>sp_parser := q\<rparr>)"
    and "\<not> rs_hasError m parser" and "ca_is_finished m q" and "\<not> ca_chunked m q"
    and "rs_getContentLength cast parser = word_of_nat (length (b @ concat bs))"
  shows "\<exists>s'. recvResponse rd cl m q0 cast junk s = Some (Ok (Some (rs_setBody (b @ concat bs) (sp_data parser))) s') \<and> segs s' = rest"
proof -
  let ?s = "snd (rd (length junk - 1) s)"
  have ex: "ca_execute m (if False then ca_init m (sp_parser (HttpResponseParser_new m q0)) else sp_parser (HttpResponseParser_new m q0)) (h @ b @ x) = (q, int (length h), evs)"
    using assms(8) by (simp add: HttpResponseParser_new_def)
  obtain data where hl: "response_header rd cl m junk 0 (HttpResponseParser_new m q0) s = Some (Ok (Some (parser, data, length (b @ x))) ?s)"
      "take (length (b @ x)) data = b @ x"
    using response_loop_arrives [OF assms(1,2,5,6) ex _ assms(4) parser assms(10,11)] by (auto simp: response_header_def)
  have segs: "segs ?s = bs @ rest" using response_loop_rest [OF assms(1,2,5,6)] .
  have p: "sp_parser parser = q" unfolding parser fold_on_response_keeps(2) by simp
  have sz: "sint (rs_getContentLength cast parser) = int (length (b @ concat bs))" unfolding assms(13) using sint_small(2) [OF assms(7)] .
  have tk: "take (length b) data = b" using arg_cong [OF hl(2), of "take (length b)"] by simp
  have mn: "min (length (b @ concat bs)) (length (b @ x)) = length b" using assms(3) by (cases x) auto
  from recv_content_arrives [OF assms(1) segs tk assms(7) mn] show ?thesis
    unfolding recvResponse_def hl(1) using p assms(12) by (simp add: sz del: length_append)
qed

subsection \<open>Chunks that arrive\<close>

text \<open>A chunk on the wire: its size line \<open>h\<close> arrives together with the part \<open>b\<close> of its data, the rest of the data in the segments \<open>bs\<close> and the line
  end behind it in the segments \<open>es\<close>. The automaton, started anew, consumes the size line and has the length.\<close>

type_synonym chunk = "string \<times> string \<times> string list \<times> string list"

definition chunk_segs :: "chunk \<Rightarrow> string list" where
  "chunk_segs c = (case c of (h, b, bs, es) \<Rightarrow> (h @ b) # bs @ es)"

definition chunk_body :: "chunk \<Rightarrow> string" where
  "chunk_body c = (case c of (h, b, bs, es) \<Rightarrow> b @ concat bs)"

definition quiet :: "rs_event \<Rightarrow> bool" where
  "quiet e \<longleftrightarrow> (case e of Es_chunk at n \<Rightarrow> True | Es_last_chunk at n \<Rightarrow> True | _ \<Rightarrow> False)"

definition size_line :: "('q, rs_event) client_automaton \<Rightarrow> string \<Rightarrow> string \<Rightarrow> int \<Rightarrow> bool" where
  "size_line m h x len \<longleftrightarrow> h \<noteq> [] \<and> (\<forall>q. \<exists>q' evs. ca_execute m (ca_init m q) (h @ x) = (q', int (length h), evs) \<and> list_all quiet evs \<and>
     ca_is_finished m q' \<and> \<not> ca_has_error m q' \<and> ca_content_len m q' = len \<and> (len \<noteq> 0 \<longrightarrow> \<not> ca_chunks_done m q'))"

definition chunk_ok :: "('q, rs_event) client_automaton \<Rightarrow> nat \<Rightarrow> chunk \<Rightarrow> bool" where
  "chunk_ok m sz c \<longleftrightarrow> (case c of (h, b, bs, es) \<Rightarrow>
     length (h @ b) \<le> sz \<and> b @ concat bs \<noteq> [] \<and> length (b @ concat bs) < 2 ^ 31 \<and> length (concat es) = 2 \<and>
     size_line m h b (int (length (b @ concat bs))))"

lemma fold_quiet: "list_all quiet evs \<Longrightarrow> fold on_response evs p = p"
  by (induction evs) (auto simp: quiet_def split: rs_event.splits)

lemma chunk_header_arrives:
  assumes "delivers rd segs" and "segs s = (h @ x) # cs" and "length (h @ x) < length data" and "length data \<le> 2 ^ 31"
    and "size_line m h x len" and "sp_error parser = 0"
  shows "\<exists>q data'. chunk_header rd cl m data 0 parser s = Some (Ok (Some (parser\<lparr>sp_parser := q\<rparr>, data', length x)) (snd (rd (length data - 1) s))) \<and>
    take (length x) data' = x \<and> length data' = length data \<and> ca_content_len m q = len \<and> (len \<noteq> 0 \<longrightarrow> \<not> ca_chunks_done m q)"
proof -
  obtain q evs where q: "ca_execute m (ca_init m (sp_parser parser)) (h @ x) = (q, int (length h), evs)" "list_all quiet evs"
      "ca_is_finished m q" "\<not> ca_has_error m q" "ca_content_len m q = len" "len \<noteq> 0 \<longrightarrow> \<not> ca_chunks_done m q" "0 < length h"
    using assms(5) unfolding size_line_def by blast
  have p: "parser\<lparr>sp_parser := q\<rparr> = fold on_response evs (parser\<lparr>sp_parser := q\<rparr>)" by (simp add: fold_quiet [OF q(2)])
  have e: "\<not> rs_hasError m (parser\<lparr>sp_parser := q\<rparr>)" using q(4) assms(6) by (simp add: rs_hasError_def)
  have ex: "ca_execute m (if True then ca_init m (sp_parser parser) else sp_parser parser) (h @ x) = (q, int (length h), evs)" using q(1) by simp
  have n: "length h \<le> length (h @ x)" "length (h @ x) - length h = length x" "drop (length h) (h @ x) = x" by simp_all
  show ?thesis using response_loop_arrives [OF assms(1-4) ex n(1) q(7) p e q(3), of cl] q(5,6) unfolding chunk_header_def n by blast
qed

lemma chunk_data_arrives:
  assumes "delivers rd segs" and "segs s = bs @ es @ rest" and "take (length b) data = b" and "length (b @ concat bs) < 2 ^ 31" and "length (concat es) = 2"
  shows "\<exists>s'. chunk_data rd cl (int (length (b @ concat bs))) data (length b) body s = Some (Ok (Some (data, 0, body @ b @ concat bs)) s') \<and> segs s' = rest"
proof -
  let ?n = "length (b @ concat bs)"
  let ?need = "int ?n - int (length b)"
  have took: "(if length b > 0 then min (length b) (unat (word_of_int (int ?n) :: u64)) else 0) = length b"
  proof -
    have "unat (word_of_int (int ?n) :: u64) = ?n" using unat_of_nat_size [OF assms(4)] by (simp only: of_int_of_nat_eq)
    then show ?thesis by simp
  qed
  obtain s1 where s1: "(if ?need > 0
        then thenO (readFixSize rd (replicate (nat ?need) (CHR 0x00)) (word_of_int ?need) s)
               (\<lambda>(r, bytes) s. Some (if r \<le> 0 then close_null cl s else Ok (Some ((body @ b) @ bytes)) s)) id
        else Some (Ok (Some (body @ b)) s)) = Some (Ok (Some (body @ b @ concat bs)) s1)" "segs s1 = es @ rest"
  proof (cases "concat bs = []")
    case True
    then have "bs = []" using delivers_nonempty [OF assms(1), of s] assms(2) by (cases bs) auto
    then show thesis using that [of s] assms(2) by simp
  next
    case False
    have n: "word_of_int ?need = (word_of_nat (length (concat bs)) :: u64)" "nat ?need = length (concat bs)" by simp_all
    have l: "length (concat bs) < 2 ^ 31" using assms(4) by simp
    obtain s' where s': "readFixSize rd (replicate (length (concat bs)) (CHR 0x00)) (word_of_nat (length (concat bs))) s =
        Some (Ok (int (length (concat bs)), concat bs) s')" "segs s' = es @ rest"
      using readFixSize_exact [OF assms(1,2) refl l, of "replicate (length (concat bs)) (CHR 0x00)"] by auto
    have d: "?need > 0" "\<not> int (length (concat bs)) \<le> 0" using False by simp_all
    show thesis by (rule that [OF _ s'(2)]) (use d in \<open>simp only: n s'(1) if_True if_False thenO_simps prod.case not_False_eq_True append_assoc\<close>)
  qed
  obtain s2 r where s2: "readFixSize rd (replicate 2 (CHR 0x00)) 2 s1 = Some (Ok (int 2, r) s2)" "segs s2 = rest"
    using readFixSize_exact [OF assms(1) s1(2) assms(5), of "replicate 2 (CHR 0x00)"] by auto
  have "chunk_data rd cl (int ?n) data (length b) body s = Some (Ok (Some (data, 0, body @ b @ concat bs)) s2)"
    unfolding chunk_data_def Let_def took assms(3) s1(1) thenO_simps using s2(1) by simp
  then show ?thesis using s2(2) by blast
qed

lemma chunk_loop_arrives:
  assumes "delivers rd segs" and "size_line m h0 x 0" and "length (h0 @ x) \<le> sz" and "sz < 2 ^ 31"
  shows "list_all (chunk_ok m sz) cs \<Longrightarrow> segs s = concat (map chunk_segs cs) @ (h0 @ x) # rest \<Longrightarrow> length data = Suc sz \<Longrightarrow> sp_error parser = 0 \<Longrightarrow>
    \<exists>s' q. chunk_loop rd cl m data 0 parser body s = Some (Ok (Some (parser\<lparr>sp_parser := q\<rparr>, body @ concat (map chunk_body cs))) s') \<and> segs s' = rest"
proof (induction cs arbitrary: s data parser body)
  case Nil
  have l: "length (h0 @ x) < length data" "length data \<le> 2 ^ 31" using Nil.prems(3) assms(3,4) by simp_all
  have s: "segs s = (h0 @ x) # rest" using Nil.prems(2) by simp
  obtain q data' where q: "chunk_header rd cl m data 0 parser s = Some (Ok (Some (parser\<lparr>sp_parser := q\<rparr>, data', length x)) (snd (rd (length data - 1) s)))"
      "ca_content_len m q = 0"
    using chunk_header_arrives [OF assms(1) s l assms(2) Nil.prems(4)] by blast
  have "chunk_loop rd cl m data 0 parser body s = Some (Ok (Some (parser\<lparr>sp_parser := q\<rparr>, body)) (snd (rd (length data - 1) s)))"
    by (subst chunk_loop.simps) (simp add: q)
  then show ?case using response_loop_rest [OF assms(1) s l] by auto
next
  case (Cons c cs)
  obtain h b bs es where c: "c = (h, b, bs, es)" by (cases c)
  let ?n = "int (length (b @ concat bs))"
  let ?rest = "concat (map chunk_segs cs) @ (h0 @ x) # rest"
  have ok: "length (h @ b) \<le> sz" "b @ concat bs \<noteq> []" "length (b @ concat bs) < 2 ^ 31" "length (concat es) = 2" "size_line m h b ?n" "list_all (chunk_ok m sz) cs"
    using Cons.prems(1) unfolding c list.pred_inject chunk_ok_def [of _ _ "(h, b, bs, es)"] prod.case by blast+
  have s: "segs s = (h @ b) # (bs @ es @ ?rest)" using Cons.prems(2) by (simp add: c chunk_segs_def [of "(h, b, bs, es)"])
  have l: "length (h @ b) < length data" "length data \<le> 2 ^ 31" using Cons.prems(3) ok(1) assms(4) by simp_all
  let ?s = "snd (rd (length data - 1) s)"
  have n: "?n \<noteq> 0" using ok(2) by (simp only: of_nat_eq_0_iff length_0_conv not_False_eq_True)
  obtain q data' where q: "chunk_header rd cl m data 0 parser s = Some (Ok (Some (parser\<lparr>sp_parser := q\<rparr>, data', length b)) ?s)"
      "take (length b) data' = b" "length data' = length data" "ca_content_len m q = ?n" "\<not> ca_chunks_done m q"
    using chunk_header_arrives [OF assms(1) s l ok(5) Cons.prems(4)] n by blast
  obtain s1 where s1: "chunk_data rd cl ?n data' (length b) body ?s = Some (Ok (Some (data', 0, body @ b @ concat bs)) s1)" "segs s1 = ?rest"
    using chunk_data_arrives [OF assms(1) response_loop_rest [OF assms(1) s l] q(2) ok(3,4)] by blast
  have step: "chunk_loop rd cl m data 0 parser body s = chunk_loop rd cl m data' 0 (parser\<lparr>sp_parser := q\<rparr>) (body @ chunk_body c) s1"
  proof -
    obtain k where k: "k = ?n" by simp
    have "k \<noteq> 0" "ca_content_len m q = k" "chunk_data rd cl k data' (length b) body ?s = Some (Ok (Some (data', 0, body @ b @ concat bs)) s1)"
      using n q(4) s1(1) unfolding k by blast+
    then show ?thesis by (subst chunk_loop.simps) (simp add: q(1,5) chunk_body_def c)
  qed
  have "length data' = Suc sz" "sp_error (parser\<lparr>sp_parser := q\<rparr>) = 0" using q(3) Cons.prems(3,4) by simp_all
  from Cons.IH [OF ok(6) s1(2) this, of "body @ chunk_body c"] show ?case unfolding step by auto
qed


text \<open>An automaton for headers \<open>HDR\<close> and size lines of one digit, its state the length.\<close>

definition digit_automaton :: "bool \<Rightarrow> (int, rs_event) client_automaton" where
  "digit_automaton chunked = \<lparr>ca_init = (\<lambda>q. 0),
     ca_execute = (\<lambda>q mem. if take 3 mem = ''HDR'' then (-1, 3, [Es_field ''Content-Length: 5'' 14 ''5'' 1]) else (int (digit_val (hd mem)), 3, [Es_chunk mem 1])),
     ca_has_error = (\<lambda>q. False), ca_is_finished = (\<lambda>q. True), ca_content_len = (\<lambda>q. q), ca_chunked = (\<lambda>q. chunked), ca_chunks_done = (\<lambda>q. False)\<rparr>"

definition demo_parser :: "int HttpResponseParser" where
  "demo_parser = fold on_response [Es_field ''Content-Length: 5'' 14 ''5'' 1] ((HttpResponseParser_new (digit_automaton False) 0)\<lparr>sp_parser := -1\<rparr>)"

lemma demo_parser_new: "demo_parser = fold on_response [Es_field ''Content-Length: 5'' 14 ''5'' 1] ((HttpResponseParser_new (digit_automaton c) 0)\<lparr>sp_parser := -1\<rparr>)"
  by (simp add: demo_parser_def HttpResponseParser_new_def)

lemma demo_parser_ok: "\<not> rs_hasError (digit_automaton c) demo_parser"
  by (simp add: rs_hasError_def digit_automaton_def demo_parser_def HttpResponseParser_new_def on_response_http_field_def)

lemma digit_size_line:
  assumes "h = d # CRLF" and "d \<noteq> CHR ''H''" and "digit_val d = n"
  shows "size_line (digit_automaton c) h x (int n)"
  using assms by (auto simp: size_line_def digit_automaton_def CRLF_def quiet_def)


text \<open>A response with a declared length whose header arrives in one read is received with exactly its body, however the body is cut into
  segments; what arrived in the same segment behind the body is dropped with the buffer.\<close>

theorem http_connection_receives:
  assumes "delivers rd segs" and "segs s = (h @ b @ x) # bs @ rest" and "x \<noteq> [] \<longrightarrow> bs = []"
    and "0 < length h" and "length (h @ b @ x) < length junk" and "length junk \<le> 2 ^ 31" and "length (b @ concat bs) < 2 ^ 31"
    and "ca_execute m (ca_init m q0) (h @ b @ x) = (q, int (length h), evs)"
    and "parser = fold on_response evs ((HttpResponseParser_new m q0)\<lparr>sp_parser := q\<rparr>)"
    and "\<not> rs_hasError m parser" and "ca_is_finished m q" and "\<not> ca_chunked m q"
    and "rs_getContentLength cast parser = word_of_nat (length (b @ concat bs))"
  shows "\<exists>s'. recvResponse rd cl m q0 cast junk s = Some (Ok (Some (rs_setBody (b @ concat bs) (sp_data parser))) s') \<and> segs s' = rest"
  using assms by (rule recvResponse_arrives)

theorem http_connection_receives_witness:
  "\<exists>s' r. recvResponse seg_read unit_close (digit_automaton False) 0 cast_dec (replicate 64 (CHR 0x00)) [''HDRab'', ''cde'', ''next''] =
      Some (Ok (Some r) s') \<and> rs_body r = ''abcde'' \<and> nonempty_segs s' = [''next'']"
proof -
  let ?m = "digit_automaton False"
  have len: "rs_getContentLength cast_dec demo_parser = word_of_nat (length (''ab'' @ concat [''cde'']))" by code_simp
  have "\<exists>s'. recvResponse seg_read unit_close ?m 0 cast_dec (replicate 64 (CHR 0x00)) [''HDRab'', ''cde'', ''next''] =
      Some (Ok (Some (rs_setBody (''ab'' @ concat [''cde'']) (sp_data demo_parser))) s') \<and> nonempty_segs s' = [''next'']"
    by (rule http_connection_receives [where h = "''HDR''" and x = "[]" and q = "-1" and cl = unit_close,
          OF seg_read_delivers _ _ _ _ _ _ _ demo_parser_new demo_parser_ok _ _ len]) (simp_all add: nonempty_segs_def digit_automaton_def)
  then show ?thesis by (auto simp: rs_setBody_def)
qed

text \<open>C40. When the line end of a chunk arrives together with its data, the client still takes two bytes from the stream: they are the first
  bytes of what follows, and the line end stays in the buffer in front of the next chunk.\<close>

theorem http_chunk_line_end_lost:
  assumes "delivers rd segs" and "segs s = (c1 # c2 # t) # cs" and "take (length d + 2) data = d @ CRLF" and "length d + 2 \<le> length data"
    and "d \<noteq> []" and "length d < 2 ^ 31"
  shows "\<exists>data' s'. chunk_data rd cl (int (length d)) data (length d + 2) body s = Some (Ok (Some (data', 2, body @ d)) s') \<and>
    take 2 data' = CRLF \<and> segs s' = (if t = [] then cs else t # cs)"
proof -
  have took: "(if length d + 2 > 0 then min (length d + 2) (unat (word_of_int (int (length d)) :: u64)) else 0) = length d"
    using assms(6) by simp
  have dt: "take (length d) data = d" "take 2 (drop (length d) data) = CRLF"
    using arg_cong [OF assms(3), of "take (length d)"] arg_cong [OF assms(3), of "drop (length d)"] by (simp_all add: take_drop)
  note rd = deliversD [OF assms(1,2), of 2]
  let ?s = "snd (rd 2 s)"
  have r: "fst (rd 2 s) = (2, [c1, c2])" "segs ?s = (if t = [] then cs else t # cs)" using rd by simp_all
  have "readFixSize rd (replicate 2 (CHR 0x00)) 2 s = Some (Ok (2, [c1, c2]) ?s)"
    unfolding readFixSize_def using r(1) size_to_int_small [of 2]
    by (subst readFix_loop.simps) (simp add: split_beta Let_def readFix_loop_0 overwrite_def)
  then have "chunk_data rd cl (int (length d)) data (length d + 2) body s = Some (Ok (Some (overwrite data 0 CRLF, 2, body @ d)) ?s)"
    unfolding chunk_data_def Let_def took dt by (simp add: dt)
  moreover have "take 2 (overwrite data 0 CRLF) = CRLF" by (simp add: overwrite_def CRLF_def)
  ultimately show ?thesis using r(2) by blast
qed

theorem http_chunk_line_end_lost_witness:
  "\<exists>data' s'. chunk_data seg_read unit_close 3 (''abc'' @ CRLF @ ''..'') 5 [] [''2'' @ CRLF @ ''de''] = Some (Ok (Some (data', 2, ''abc'')) s') \<and>
    nonempty_segs s' = [CHR 0x0A # ''de'']"
proof -
  have s: "nonempty_segs [''2'' @ CRLF @ ''de''] = [CHR ''2'' # CHR 0x0D # CHR 0x0A # ''de'']" by (simp add: nonempty_segs_def CRLF_def)
  have d: "take (length ''abc'' + 2) (''abc'' @ CRLF @ ''..'') = ''abc'' @ CRLF" "length ''abc'' + 2 \<le> length (''abc'' @ CRLF @ ''..'')" by (simp_all add: CRLF_def)
  have n: "int (length ''abc'') = 3" "length ''abc'' + 2 = 5" by simp_all
  show ?thesis using http_chunk_line_end_lost [OF seg_read_delivers s d, of unit_close "[]", unfolded n] by auto
qed

end
