(* ===== verification/Uri.thy ===== *)
theory Uri
  imports Socket
begin

text \<open>
  \<open>src/rl/uri.rl\<close>, \<open>include/http/uri.hh\<close>: uniform resource identifiers.

  The members of \<open>Uri\<close> written in C++ are modelled. \<open>Uri::Create\<close> runs the automaton that ragel generates from the
  grammar: it is a function \<open>parse\<close> from texts to identifiers wherever it is used. The port is an \<open>int\<close> in the range of \<open>int32_t\<close>.
\<close>

record Uri =
  u_scheme :: string
  u_userInfo :: string
  u_host :: string
  u_path :: string
  u_query :: string
  u_fragment :: string
  u_port :: int

definition Uri_new :: Uri where
  "Uri_new = \<lparr>u_scheme = [], u_userInfo = [], u_host = [], u_path = [], u_query = [], u_fragment = [], u_port = 0\<rparr>"

definition isDefaultPort :: "Uri \<Rightarrow> bool" where
  "isDefaultPort u \<longleftrightarrow>
     (if u_port u = 0 then True
      else if u_scheme u = ''http'' then u_port u = 80
      else if u_scheme u = ''https'' then u_port u = 443
      else False)"

definition uri_getPath :: "Uri \<Rightarrow> string" where
  "uri_getPath u = (if u_path u = [] then ''/'' else u_path u)"

definition uri_getPort :: "Uri \<Rightarrow> int" where
  "uri_getPort u =
     (if u_port u \<noteq> 0 then u_port u
      else if u_scheme u = ''http'' then 80
      else if u_scheme u = ''https'' then 443
      else u_port u)"

definition uri_dump :: "Uri \<Rightarrow> string" where
  "uri_dump u =
     u_scheme u @ ''://'' @ u_userInfo u @ (if u_userInfo u = [] then [] else ''@'') @ u_host u
     @ (if isDefaultPort u then [] else '':'' @ int_text (u_port u)) @ uri_getPath u
     @ (if u_query u = [] then [] else ''?'') @ u_query u
     @ (if u_fragment u = [] then [] else ''#'') @ u_fragment u"

definition uri_toString :: "Uri \<Rightarrow> string" where
  "uri_toString u = uri_dump u"

text \<open>\<open>createAddress\<close>: \<open>setPort\<close> takes a \<open>uint16_t\<close>.\<close>

definition createAddress :: "endian \<Rightarrow> getaddrinfo \<Rightarrow> Uri \<Rightarrow> fault + Address option" where
  "createAddress host gai u =
     (case LookupAnyIPAddress host gai (u_host u) (uint AF_INET) 0 0 of
        Inl x \<Rightarrow> Inl x
      | Inr None \<Rightarrow> Inr None
      | Inr (Some addr) \<Rightarrow> Inr (Some (setPort host (word_of_int (uri_getPort u)) addr)))"

text \<open>What \<open>HttpConnectionPool\<close> makes of an identifier: the path with the query and the fragment.\<close>

definition uri_target :: "Uri \<Rightarrow> string" where
  "uri_target u =
     uri_getPath u @ (if u_query u = [] then [] else ''?'') @ u_query u
     @ (if u_fragment u = [] then [] else ''#'') @ u_fragment u"

subsection \<open>Reading an identifier\<close>

text \<open>A reference reader that cuts a text at the delimiters of RFC 3986, appendix B.\<close>

definition cut :: "char set \<Rightarrow> string \<Rightarrow> string \<times> string" where
  "cut delims t = (takeWhile (\<lambda>c. c \<notin> delims) t, dropWhile (\<lambda>c. c \<notin> delims) t)"

definition after :: "char \<Rightarrow> string \<Rightarrow> string" where
  "after c t = (case t of [] \<Rightarrow> [] | x # xs \<Rightarrow> if x = c then xs else [])"

definition read_authority :: "string \<Rightarrow> string \<times> string \<times> nat" where
  "read_authority t =
     (let (user, hostport) = (if CHR ''@'' \<in> set t then (fst (cut {CHR ''@''} t), after CHR ''@'' (snd (cut {CHR ''@''} t))) else ([], t));
          (host, port) = cut {CHR '':''} hostport
      in (user, host, undec (after CHR '':'' port)))"

definition read_uri :: "string \<Rightarrow> Uri" where
  "read_uri t =
     (let (scheme, t) = cut {CHR '':'', CHR ''/'', CHR ''?'', CHR ''#''} t;
          (authority, t) = cut {CHR ''/'', CHR ''?'', CHR ''#''} (drop 3 t);
          (path, t) = cut {CHR ''?'', CHR ''#''} t;
          (query, t) = (case t of c # t' \<Rightarrow> if c = CHR ''?'' then cut {CHR ''#''} t' else ([], t) | [] \<Rightarrow> ([], []));
          (user, host, port) = read_authority authority
      in \<lparr>u_scheme = scheme, u_userInfo = user, u_host = host, u_path = path, u_query = query, u_fragment = after CHR ''#'' t, u_port = int port\<rparr>)"

lemma cut_append: "set xs \<inter> delims = {} \<Longrightarrow> cut delims (xs @ ys) = (xs @ fst (cut delims ys), snd (cut delims ys))"
  unfolding cut_def by (induction xs) auto

lemma cut_stop [simp]: "cut delims [] = ([], [])" "c \<in> delims \<Longrightarrow> cut delims (c # t) = ([], c # t)"
  by (simp_all add: cut_def)

text \<open>The parts of an identifier have none of the delimiters that end them, and a path starts with a slash.\<close>

definition uri_ok :: "Uri \<Rightarrow> bool" where
  "uri_ok u \<longleftrightarrow>
     set (u_scheme u) \<inter> {CHR '':'', CHR ''/'', CHR ''?'', CHR ''#''} = {} \<and>
     set (u_userInfo u) \<inter> {CHR ''@'', CHR ''/'', CHR ''?'', CHR ''#''} = {} \<and>
     set (u_host u) \<inter> {CHR ''@'', CHR '':'', CHR ''/'', CHR ''?'', CHR ''#''} = {} \<and>
     (u_path u \<noteq> [] \<longrightarrow> hd (u_path u) = CHR ''/'') \<and> set (u_path u) \<inter> {CHR ''?'', CHR ''#''} = {} \<and>
     CHR ''#'' \<notin> set (u_query u) \<and> 0 \<le> u_port u"

lemma dec_no_delim: "c \<in> {CHR '':'', CHR ''/'', CHR ''?'', CHR ''#'', CHR ''@''} \<Longrightarrow> c \<notin> set (dec n)"
  by (rule dec_not) (auto simp: code_def)

lemma read_authority_text:
  assumes "set user \<inter> {CHR ''@''} = {}" and "set host \<inter> {CHR ''@'', CHR '':''} = {}"
  shows "read_authority (user @ (if user = [] then [] else ''@'') @ host @ (if dflt then [] else '':'' @ dec n)) =
    (user, host, if dflt then 0 else n)"
proof -
  let ?hp = "host @ (if dflt then [] else '':'' @ dec n)"
  have hp: "cut {CHR '':''} ?hp = (host, if dflt then [] else '':'' @ dec n)" using assms(2) by (subst cut_append) auto
  have at: "CHR ''@'' \<notin> set ?hp" using assms(2) dec_no_delim by auto
  have "undec (after CHR '':'' (if dflt then [] else '':'' @ dec n)) = (if dflt then 0 else n)"
    by (simp add: after_def undec_def [of "[]"])
  moreover have "cut {CHR ''@''} (user @ CHR ''@'' # ?hp) = (user, CHR ''@'' # ?hp)" using assms(1) by (subst cut_append) auto
  ultimately show ?thesis
    using at by (cases "user = []") (simp_all add: read_authority_def hp after_def)
qed

text \<open>The text of an identifier read back by the delimiters of RFC 3986 gives its scheme, user, host, query and fragment, the path it
  requests and the port it connects to: a default port is left out and supplied again, an empty path becomes a slash.\<close>

theorem uri_text:
  assumes "uri_ok u"
  shows "u_scheme (read_uri (uri_dump u)) = u_scheme u \<and> u_userInfo (read_uri (uri_dump u)) = u_userInfo u \<and>
    u_host (read_uri (uri_dump u)) = u_host u \<and> uri_getPath (read_uri (uri_dump u)) = uri_getPath u \<and>
    u_query (read_uri (uri_dump u)) = u_query u \<and> u_fragment (read_uri (uri_dump u)) = u_fragment u \<and>
    uri_getPort (read_uri (uri_dump u)) = uri_getPort u"
proof -
  let ?port = "if isDefaultPort u then [] else '':'' @ dec (nat (u_port u))"
  let ?auth = "u_userInfo u @ (if u_userInfo u = [] then [] else ''@'') @ u_host u @ ?port"
  let ?frag = "(if u_fragment u = [] then [] else ''#'') @ u_fragment u"
  let ?rest = "(if u_query u = [] then [] else ''?'') @ u_query u @ ?frag"
  note ok = assms [unfolded uri_ok_def]
  have d: "uri_dump u = u_scheme u @ ''://'' @ ?auth @ uri_getPath u @ ?rest"
    using ok by (simp add: uri_dump_def int_text_def)
  have c1: "cut {CHR '':'', CHR ''/'', CHR ''?'', CHR ''#''} (uri_dump u) = (u_scheme u, ''://'' @ ?auth @ uri_getPath u @ ?rest)"
    unfolding d using ok by (subst cut_append) auto
  have p: "uri_getPath u \<noteq> []" "hd (uri_getPath u) = CHR ''/''" "set (uri_getPath u) \<inter> {CHR ''?'', CHR ''#''} = {}"
    using ok by (auto simp: uri_getPath_def)
  have "set ?auth \<inter> {CHR ''/'', CHR ''?'', CHR ''#''} = {}" using ok dec_no_delim by auto
  then have c2: "cut {CHR ''/'', CHR ''?'', CHR ''#''} (?auth @ uri_getPath u @ ?rest) = (?auth, uri_getPath u @ ?rest)"
    using p(1,2) by (subst cut_append) (cases "uri_getPath u"; simp)+
  have c3: "cut {CHR ''?'', CHR ''#''} (uri_getPath u @ ?rest) = (uri_getPath u, ?rest)"
    using p(3) by (subst cut_append) auto
  have c4: "(case ?rest of c # t' \<Rightarrow> if c = CHR ''?'' then cut {CHR ''#''} t' else ([], ?rest) | [] \<Rightarrow> ([], [])) = (u_query u, ?frag)"
  proof -
    have "cut {CHR ''#''} (u_query u @ ?frag) = (u_query u, ?frag)" using ok by (subst cut_append) auto
    then show ?thesis by (cases "u_query u = []") simp_all
  qed
  have c5: "read_authority ?auth = (u_userInfo u, u_host u, if isDefaultPort u then 0 else nat (u_port u))"
    using ok by (intro read_authority_text) auto
  have r: "read_uri (uri_dump u) = \<lparr>u_scheme = u_scheme u, u_userInfo = u_userInfo u, u_host = u_host u, u_path = uri_getPath u,
      u_query = u_query u, u_fragment = after CHR ''#'' ?frag, u_port = int (if isDefaultPort u then 0 else nat (u_port u))\<rparr>"
    unfolding read_uri_def c1 Let_def prod.case using c2 c3 c4 c5 by simp
  have "after CHR ''#'' ?frag = u_fragment u" by (simp add: after_def)
  moreover have "uri_getPort (read_uri (uri_dump u)) = uri_getPort u" using ok unfolding r by (auto simp: uri_getPort_def isDefaultPort_def)
  ultimately show ?thesis unfolding r using p(1) by (simp add: uri_getPath_def)
qed

definition demo_uri :: Uri where
  "demo_uri = \<lparr>u_scheme = ''http'', u_userInfo = ''me'', u_host = ''sylar.top'', u_path = [], u_query = ''q=1'', u_fragment = ''top'', u_port = 81\<rparr>"

theorem uri_text_witness: "u_host (read_uri ''http://me@sylar.top:81/?q=1#top'') = ''sylar.top'' \<and> uri_getPort (read_uri ''http://me@sylar.top:81/?q=1#top'') = 81"
proof -
  have "uri_ok demo_uri" by (simp add: uri_ok_def demo_uri_def)
  moreover have "uri_dump demo_uri = ''http://me@sylar.top:81/?q=1#top''" by code_simp
  ultimately show ?thesis using uri_text [of demo_uri] by (simp add: demo_uri_def uri_getPort_def)
qed

end
