(* ===== verification/HttpClient.thy ===== *)
theory HttpClient
  imports HttpConnection Uri
begin

text \<open>
  \<open>src/http_connection.cc\<close>, \<open>include/http/http_connection.hh\<close>: the static members of \<open>HttpConnection\<close> that make a request to an identifier.

  A request works on the process \<open>sys\<close> of \<open>Socket\<close> and a state \<open>'k\<close> of the network; a record has what else it gets from its
  surroundings. \<open>Uri::Create\<close> is an argument \<open>parse\<close>. Objects die where the code leaves their scope: a connection closes its socket.
\<close>

subsection \<open>Results of a request\<close>

datatype HttpError =
    E_OK | INVAILD_URL | INVAILD_HOST | CONNECT_FAIL | SEND_CLOSE_BY_PEER | SEND_SOCKET_ERROR | TIMEOUT
  | CREATE_SOCKET_ERROR | POOL_GET_CONNECTION | POOL_INVAILD_CONNECTION

definition error_num :: "HttpError \<Rightarrow> int" where
  "error_num e = (case e of E_OK \<Rightarrow> 0 | INVAILD_URL \<Rightarrow> 1 | INVAILD_HOST \<Rightarrow> 2 | CONNECT_FAIL \<Rightarrow> 3 | SEND_CLOSE_BY_PEER \<Rightarrow> 4
     | SEND_SOCKET_ERROR \<Rightarrow> 5 | TIMEOUT \<Rightarrow> 6 | CREATE_SOCKET_ERROR \<Rightarrow> 7 | POOL_GET_CONNECTION \<Rightarrow> 8 | POOL_INVAILD_CONNECTION \<Rightarrow> 9)"

record HttpResult =
  hr_result :: int
  hr_response :: "HttpResponse option"
  hr_error :: string

definition HttpResult_new :: "int \<Rightarrow> HttpResponse option \<Rightarrow> string \<Rightarrow> HttpResult" where
  "HttpResult_new result response error = \<lparr>hr_result = result, hr_response = response, hr_error = error\<rparr>"

definition HttpResult_toString :: "HttpResult \<Rightarrow> string" where
  "HttpResult_toString r =
     ''[HttpResult result='' @ int_text (hr_result r) @ '' error='' @ hr_error r
     @ '' response='' @ (case hr_response r of Some rsp \<Rightarrow> dump_response rsp | None \<Rightarrow> ''nullptr'') @ '']''"

subsection \<open>Requests\<close>

text \<open>What a request gets from its surroundings: the settings and answers \<open>Socket\<close> takes, the resolver, the hooked \<open>recv\<close> and \<open>send\<close>,
  the automaton and the buffer of the response, the answer to \<open>setsockopt\<close> and \<open>errno\<close> with its text.\<close>

record ('k, 'q) client_env =
  ce_hook :: bool
  ce_fstat :: "int \<Rightarrow> bool option"
  ce_host :: endian
  ce_gai :: getaddrinfo
  ce_connect_timeout :: u64
  ce_epoll_fail :: bool
  ce_answers :: answers
  ce_option :: sysret
  ce_recv :: "int \<Rightarrow> nat \<Rightarrow> 'k \<Rightarrow> (int \<times> string) \<times> 'k"
  ce_send :: "int \<Rightarrow> nat \<Rightarrow> string \<Rightarrow> 'k \<Rightarrow> int \<times> 'k"
  ce_automaton :: "('q, rs_event) client_automaton"
  ce_parser :: 'q
  ce_cast :: "string \<Rightarrow> u64 option"
  ce_junk :: string
  ce_errno :: "int \<times> string"

text \<open>Sending a request and receiving its response.\<close>

definition exchange :: "('k, 'q) client_env \<Rightarrow> HttpRequest \<Rightarrow> ('c, 'k) sock_state \<Rightarrow> (HttpError \<times> HttpResponse option, ('c, 'k) sock_state) outcome option" where
  "exchange ev req st =
     thenO (sendRequest (sock_write (ce_send ev)) req st)
       (\<lambda>rt st.
          if rt = 0 then Some (Ok (SEND_CLOSE_BY_PEER, None) st)
          else if rt < 0 then Some (Ok (SEND_SOCKET_ERROR, None) st)
          else
            thenO (recvResponse (sock_read (ce_recv ev)) (sock_close (ce_hook ev) (ce_fstat ev) (ce_epoll_fail ev)) (ce_automaton ev) (ce_parser ev)
                (ce_cast ev) (ce_junk ev) st)
              (\<lambda>rsp st. Some (Ok (case rsp of None \<Rightarrow> (TIMEOUT, None) | Some rsp \<Rightarrow> (E_OK, Some rsp)) st)) id) id"

text \<open>The destructors: of the last reference to a socket, and of a connection with its socket.\<close>

definition drop_sock :: "('k, 'q) client_env \<Rightarrow> Socket \<times> 'c sys \<times> 'k \<Rightarrow> (unit, 'c sys \<times> 'k) outcome" where
  "drop_sock ev st = (case st of (so, sy, k) \<Rightarrow>
     (case Socket_close (ce_hook ev) (ce_fstat ev) (ce_epoll_fail ev) (so, sy) of
        Ok _ (so, sy) \<Rightarrow> Ok () (sy, k)
      | Throw e (so, sy) \<Rightarrow> Throw e (sy, k)
      | Crash x \<Rightarrow> Crash x))"

definition drop_conn :: "('k, 'q) client_env \<Rightarrow> ('c, 'k) sock_state \<Rightarrow> (unit, 'c sys \<times> 'k) outcome" where
  "drop_conn ev st = (case st of (ss, sy, k) \<Rightarrow>
     (case SocketStream_dtor (ce_hook ev) (ce_fstat ev) (ce_epoll_fail ev) (ss, sy) of
        Ok _ (ss, sy) \<Rightarrow> (case ss_socket ss of None \<Rightarrow> Ok () (sy, k) | Some so \<Rightarrow> drop_sock ev (so, sy, k))
      | Throw e (ss, sy) \<Rightarrow> Throw e (sy, k)
      | Crash x \<Rightarrow> Crash x))"

text \<open>The description of a result of \<open>DoRequest\<close> for the address.\<close>

definition result_text :: "('k, 'q) client_env \<Rightarrow> Address \<Rightarrow> HttpError \<Rightarrow> fault + string" where
  "result_text ev addr e =
     (case e of
        E_OK \<Rightarrow> Inr ''ok''
      | SEND_SOCKET_ERROR \<Rightarrow> Inr (''send request socket error errno='' @ int_text (fst (ce_errno ev)) @ '' errstr='' @ snd (ce_errno ev))
      | _ \<Rightarrow> bindE (Address_insert (ce_host ev) addr) (\<lambda>t. Inr
          ((case e of SEND_CLOSE_BY_PEER \<Rightarrow> ''send request closed by peer: '' | TIMEOUT \<Rightarrow> ''recv response timeout'' | _ \<Rightarrow> ''connect fail'') @ t)))"

definition conclude :: "('k, 'q) client_env \<Rightarrow> Address \<Rightarrow> HttpError \<times> HttpResponse option \<Rightarrow> (unit, 'c sys \<times> 'k) outcome \<Rightarrow> (HttpResult, 'c sys \<times> 'k) outcome" where
  "conclude ev addr r dropped =
     (case result_text ev addr (fst r) of
        Inl x \<Rightarrow> Crash x
      | Inr t \<Rightarrow>
          (case dropped of
             Ok _ w \<Rightarrow> Ok (HttpResult_new (error_num (fst r)) (snd r) t) w
           | Throw e w \<Rightarrow> Throw e w
           | Crash x \<Rightarrow> Crash x))"

text \<open>\<open>DoRequest\<close> of a request. \<open>CreateTCP\<close> never returns null, so \<open>CREATE_SOCKET_ERROR\<close> has no branch.\<close>

definition DoRequest :: "('k, 'q) client_env \<Rightarrow> HttpRequest \<Rightarrow> Uri \<Rightarrow> u64 \<Rightarrow> 'c sys \<times> 'k \<Rightarrow> (HttpResult, 'c sys \<times> 'k) outcome option" where
  "DoRequest ev req uri timeout_ms w =
     (case w of (sy, k) \<Rightarrow>
        case createAddress (ce_host ev) (ce_gai ev) uri of
          Inl x \<Rightarrow> Some (Crash x)
        | Inr None \<Rightarrow> Some (Ok (HttpResult_new (error_num INVAILD_HOST) None (''invaild host: '' @ u_host uri)) (sy, k))
        | Inr (Some addr) \<Rightarrow>
            (case Socket_connect (ce_hook ev) (ce_fstat ev) (ce_host ev) (ce_connect_timeout ev) (ce_epoll_fail ev) (ce_answers ev) addr (- 1)
                (CreateTCP (ce_host ev) addr, sy) of
               Crash x \<Rightarrow> Some (Crash x)
             | Throw e (_, sy) \<Rightarrow> Some (Throw e (sy, k))
             | Ok None _ \<Rightarrow> None
             | Ok (Some False) (so, sy) \<Rightarrow> Some (conclude ev addr (CONNECT_FAIL, None) (drop_sock ev (so, sy, k)))
             | Ok (Some True) st \<Rightarrow>
                 (case setRecvTimeout (ce_hook ev) (ce_fstat ev) (sint timeout_ms) (ce_option ev) st of
                    Crash x \<Rightarrow> Some (Crash x)
                  | Throw e (_, sy) \<Rightarrow> Some (Throw e (sy, k))
                  | Ok _ (so, sy) \<Rightarrow>
                      thenO (exchange ev req (SocketStream_new (Some so) True, sy, k))
                        (\<lambda>r st. Some (conclude ev addr r (drop_conn ev st))) snd)))"

text \<open>The loop over the headers the caller gives; the result has the flag \<open>has_host\<close>.\<close>

fun add_headers :: "(string \<times> string) list \<Rightarrow> bool \<Rightarrow> HttpRequest \<Rightarrow> HttpRequest \<times> bool" where
  "add_headers [] has_host req = (req, has_host)"
| "add_headers ((key, v) # headers) has_host req =
     (if is_connection key then
        add_headers headers has_host (if strcasecmp (c_str v) ''keep-alive'' = 0 then setClose False req else req)
      else
        let has_host = (if \<not> has_host \<and> strcasecmp (c_str key) ''host'' = 0 then v \<noteq> [] else has_host)
        in add_headers headers has_host (setHeader key v req))"

definition make_request :: "HttpMethod \<Rightarrow> Uri \<Rightarrow> (string \<times> string) list \<Rightarrow> string \<Rightarrow> HttpRequest" where
  "make_request method uri headers body =
     (let req = setMethod method (setFragment (u_fragment uri) (setQuery (u_query uri) (setPath (uri_getPath uri) (HttpRequest_new 0x11 False))));
          (req, has_host) = add_headers headers False req;
          req = (if \<not> has_host then setHeader ''Host'' (u_host uri) req else req)
      in setBody body req)"

definition DoRequest_uri :: "('k, 'q) client_env \<Rightarrow> HttpMethod \<Rightarrow> Uri \<Rightarrow> u64 \<Rightarrow> (string \<times> string) list \<Rightarrow> string \<Rightarrow> 'c sys \<times> 'k \<Rightarrow>
    (HttpResult, 'c sys \<times> 'k) outcome option" where
  "DoRequest_uri ev method uri timeout_ms headers body = DoRequest ev (make_request method uri headers body) uri timeout_ms"

definition DoRequest_url :: "(string \<Rightarrow> Uri option) \<Rightarrow> ('k, 'q) client_env \<Rightarrow> HttpMethod \<Rightarrow> string \<Rightarrow> u64 \<Rightarrow> (string \<times> string) list \<Rightarrow> string \<Rightarrow> 'c sys \<times> 'k \<Rightarrow>
    (HttpResult, 'c sys \<times> 'k) outcome option" where
  "DoRequest_url parse ev method url timeout_ms headers body w =
     (case parse url of
        None \<Rightarrow> Some (Ok (HttpResult_new (error_num INVAILD_URL) None (''invaild url:'' @ url)) w)
      | Some uri \<Rightarrow> DoRequest_uri ev method uri timeout_ms headers body w)"

definition DoGet_uri :: "('k, 'q) client_env \<Rightarrow> Uri \<Rightarrow> u64 \<Rightarrow> (string \<times> string) list \<Rightarrow> string \<Rightarrow> 'c sys \<times> 'k \<Rightarrow> (HttpResult, 'c sys \<times> 'k) outcome option" where
  "DoGet_uri ev = DoRequest_uri ev GET"

definition DoGet :: "(string \<Rightarrow> Uri option) \<Rightarrow> ('k, 'q) client_env \<Rightarrow> string \<Rightarrow> u64 \<Rightarrow> (string \<times> string) list \<Rightarrow> string \<Rightarrow> 'c sys \<times> 'k \<Rightarrow>
    (HttpResult, 'c sys \<times> 'k) outcome option" where
  "DoGet parse ev url timeout_ms headers body w =
     (case parse url of
        None \<Rightarrow> Some (Ok (HttpResult_new (error_num INVAILD_URL) None (''invaild url:'' @ url)) w)
      | Some uri \<Rightarrow> DoGet_uri ev uri timeout_ms headers body w)"

definition DoPost_uri :: "('k, 'q) client_env \<Rightarrow> Uri \<Rightarrow> u64 \<Rightarrow> (string \<times> string) list \<Rightarrow> string \<Rightarrow> 'c sys \<times> 'k \<Rightarrow> (HttpResult, 'c sys \<times> 'k) outcome option" where
  "DoPost_uri ev = DoRequest_uri ev POST"

definition DoPost :: "(string \<Rightarrow> Uri option) \<Rightarrow> ('k, 'q) client_env \<Rightarrow> string \<Rightarrow> u64 \<Rightarrow> (string \<times> string) list \<Rightarrow> string \<Rightarrow> 'c sys \<times> 'k \<Rightarrow>
    (HttpResult, 'c sys \<times> 'k) outcome option" where
  "DoPost parse ev url timeout_ms headers body w =
     (case parse url of
        None \<Rightarrow> Some (Ok (HttpResult_new (error_num INVAILD_URL) None (''invaild url:'' @ url)) w)
      | Some uri \<Rightarrow> DoPost_uri ev uri timeout_ms headers body w)"

subsection \<open>The request that is sent\<close>

lemma ci_find_append: "ci_find k (xs @ ys) = (case ci_find k xs of Some v \<Rightarrow> Some v | None \<Rightarrow> ci_find k ys)"
  by (induction xs) (auto simp: ci_find_Cons map_find_def)

lemma ci_find_fold_last:
  "ci_find k (fold (\<lambda>(k, v). map_assign CaseInsensitiveLess k v) kvs m) =
   (case ci_find k (rev kvs) of Some v \<Rightarrow> Some v | None \<Rightarrow> ci_find k m)"
proof (induction kvs arbitrary: m)
  case (Cons kv kvs)
  obtain a b where "kv = (a, b)" by (cases kv)
  then show ?case using Cons.IH
    by (auto simp: ci_find_append ci_find_Cons ci.map_find_assign ci_eq_def map_find_def [where m = "[]"] split: option.splits)
qed (simp add: map_find_def)

definition host_given :: "(string \<times> string) list \<Rightarrow> bool" where
  "host_given headers \<longleftrightarrow> list_ex (\<lambda>(k, v). ci_eq k ''Host'' \<and> v \<noteq> []) headers"

lemma host_key: "strcasecmp (c_str k) ''host'' = 0 \<longleftrightarrow> ci_eq k ''Host''" "is_connection k \<Longrightarrow> \<not> ci_eq k ''Host''"
proof -
  have e: "c_str ''host'' = ''host''" "ci_eq ''host'' ''Host''" "\<not> ci_eq ''Connection'' ''Host''" by code_simp+
  then show "strcasecmp (c_str k) ''host'' = 0 \<longleftrightarrow> ci_eq k ''Host''" using strcasecmp_c_str [of k "''host''"] unfolding ci_eq_def by metis
  show "is_connection k \<Longrightarrow> \<not> ci_eq k ''Host''" using e(3) by (auto simp: is_connection_Connection ci_eq_def)
qed

lemma add_headers_result:
  "rq_close req = False \<Longrightarrow> add_headers headers has_host req =
   (req\<lparr>rq_headers := fold (\<lambda>(k, v). map_assign CaseInsensitiveLess k v) (other_fields headers) (rq_headers req)\<rparr>, has_host \<or> host_given headers)"
proof (induction headers arbitrary: has_host req)
  case (Cons kv headers)
  obtain a b where kv: "kv = (a, b)" by (cases kv)
  have "setClose False req = req" using Cons.prems by (simp add: setClose_def)
  then show ?case using Cons.IH [of req] Cons.IH [of "setHeader a b req"] Cons.prems
    by (auto simp: kv other_fields_def host_given_def host_key(1) setHeader_def dest: host_key(2))
qed (simp add: other_fields_def host_given_def)

text \<open>The request \<open>DoRequest\<close> sends has the method, path, query, fragment and body it was given. Of the caller's headers it has all but
  the connection header, the last of several spellings of a key; the host is the one of the identifier unless the caller names
  one. The connection is kept alive whatever the caller's connection header says.\<close>

theorem http_client_request:
  "rq_method (make_request method uri headers body) = method \<and> rq_path (make_request method uri headers body) = uri_getPath uri \<and>
   rq_query (make_request method uri headers body) = u_query uri \<and> rq_fragment (make_request method uri headers body) = u_fragment uri \<and>
   rq_body (make_request method uri headers body) = body \<and> \<not> rq_close (make_request method uri headers body) \<and>
   ci_find k (rq_headers (make_request method uri headers body)) =
     (if ci_eq k ''Host'' \<and> \<not> host_given headers then Some (u_host uri) else ci_find k (rev (other_fields headers)))"
proof -
  have nil: "ci_find k [] = None" by (simp add: map_find_def)
  show ?thesis
    by (simp add: make_request_def add_headers_result Let_def HttpRequest_new_def setMethod_def setFragment_def setQuery_def setPath_def setBody_def
        setHeader_def ci.map_find_assign ci_find_fold_last nil ci_eq_sym [of k "''Host''"] split: option.split)
qed

subsection \<open>What the loops keep of the stream\<close>

definition keeps :: "('s \<Rightarrow> bool) \<Rightarrow> ('a, 's) outcome option \<Rightarrow> bool" where
  "keeps I r \<longleftrightarrow> (case r of Some (Ok v s) \<Rightarrow> I s | Some (Throw e s) \<Rightarrow> I s | _ \<Rightarrow> True)"

lemma keeps_simps [simp]: "keeps I None" "keeps I (Some (Crash x))" "keeps I (Some (Ok v s)) \<longleftrightarrow> I s" "keeps I (Some (Throw e s)) \<longleftrightarrow> I s"
  by (simp_all add: keeps_def)

lemma keeps_thenO: "keeps I r \<Longrightarrow> (\<And>v s. r = Some (Ok v s) \<Longrightarrow> I s \<Longrightarrow> keeps J (f v s)) \<Longrightarrow> (\<And>s. I s \<Longrightarrow> J (g s)) \<Longrightarrow> keeps J (thenO r f g)"
  by (auto simp: thenO_def split: option.splits outcome.splits)

lemma keeps_close_null: "(\<And>s. I s \<Longrightarrow> keeps I (Some (cl s))) \<Longrightarrow> I s \<Longrightarrow> keeps I (Some (close_null cl s))"
  by (auto simp: close_null_def andThen_def keeps_def split: outcome.splits) force+

lemma readFix_keeps:
  assumes "\<And>n s. I s \<Longrightarrow> I (snd (rd n s))" and "I s"
  shows "keeps I (readFixSize rd buffer len s)"
proof -
  have "readFix_loop rd len buffer offset left s = Some y \<Longrightarrow> (\<forall>n s. I s \<longrightarrow> I (snd (rd n s))) \<longrightarrow> I s \<longrightarrow> keeps I (Some y)" for offset left y
  proof (rule readFix_loop.raw_induct [where P = "\<lambda>rd len buffer offset left s y. (\<forall>n s. I s \<longrightarrow> I (snd (rd n s))) \<longrightarrow> I s \<longrightarrow> keeps I (Some y)"], goal_cases)
    case (1 f rd len buffer offset left s y)
    show ?case
    proof (intro impI)
      assume i: "\<forall>n s. I s \<longrightarrow> I (snd (rd n s))" "I s"
      obtain r bytes s1 where rd: "rd (unat len) s = ((r, bytes), s1)" by (cases "rd (unat len) s") auto
      have "I s1" using i rd by (metis snd_conv)
      then show "keeps I (Some y)" using 1(2,3) i rd by (auto simp: Let_def split: if_splits)
    qed
  qed
  then show ?thesis using assms unfolding readFixSize_def
    by (cases "readFix_loop rd len buffer 0 len s") auto
qed

text \<open>A write of less than 2 GB returns its size or 0.\<close>

lemma writeFix_result:
  fixes wr :: "('b, 's) writer"
  assumes "writeFixSize wr buffer (word_of_nat n) s = Some (Ok r s')" and "n < 2 ^ 31"
  shows "r = int n \<or> r = 0"
proof -
  have "writeFix_loop wr len buffer offset left s = Some y \<Longrightarrow> (\<forall>r s'. y = Ok r s' \<longrightarrow> r = size_to_int len \<or> r = 0)" for len offset left y
  proof (rule writeFix_loop.raw_induct [where P = "\<lambda>(wr :: ('b, 's) writer) len buffer offset left s y. \<forall>r s'. y = Ok r s' \<longrightarrow> r = size_to_int len \<or> r = 0"], goal_cases)
    case (1 f wr len buffer offset left s y)
    obtain r s1 where wr: "wr (unat len) (drop (unat offset) buffer) s = (r, s1)" by (cases "wr (unat len) (drop (unat offset) buffer) s")
    show ?case using 1(2,3) wr by (auto simp: Let_def split: if_splits)
  qed
  from this [OF assms(1) [unfolded writeFixSize_def]] show ?thesis using assms(2) by simp
qed

lemma writeFix_keeps:
  assumes "\<And>n mem s. I s \<Longrightarrow> I (snd (wr n mem s))" and "I s"
  shows "keeps I (writeFixSize wr buffer len s)"
proof -
  have "writeFix_loop wr len buffer offset left s = Some y \<Longrightarrow> (\<forall>n mem s. I s \<longrightarrow> I (snd (wr n mem s))) \<longrightarrow> I s \<longrightarrow> keeps I (Some y)" for offset left y
  proof (rule writeFix_loop.raw_induct [where P = "\<lambda>wr len buffer offset left s y. (\<forall>n mem s. I s \<longrightarrow> I (snd (wr n mem s))) \<longrightarrow> I s \<longrightarrow> keeps I (Some y)"], goal_cases)
    case (1 f wr len buffer offset left s y)
    show ?case
    proof (intro impI)
      assume i: "\<forall>n mem s. I s \<longrightarrow> I (snd (wr n mem s))" "I s"
      obtain r s1 where wr: "wr (unat len) (drop (unat offset) buffer) s = (r, s1)" by (cases "wr (unat len) (drop (unat offset) buffer) s")
      have "I s1" using i wr by (metis snd_conv)
      then show "keeps I (Some y)" using 1(2,3) i wr by (auto simp: Let_def split: if_splits)
    qed
  qed
  then show ?thesis using assms unfolding writeFixSize_def
    by (cases "writeFix_loop wr len buffer 0 len s") auto
qed

lemma response_loop_keeps:
  assumes "\<And>n s. I s \<Longrightarrow> I (snd (rd n s))" and "\<And>s. I s \<Longrightarrow> keeps I (Some (cl s))" and "I s"
  shows "keeps I (response_loop rd cl m chunck data unparsed parser s)"
proof -
  let ?P = "\<lambda>rd cl m chunck data unparsed parser s y. (\<forall>n s. I s \<longrightarrow> I (snd (rd n s))) \<longrightarrow> (\<forall>s. I s \<longrightarrow> keeps I (Some (cl s))) \<longrightarrow> I s \<longrightarrow> keeps I (Some y)"
  have "response_loop rd cl m chunck data unparsed parser s = Some y \<Longrightarrow> ?P rd cl m chunck data unparsed parser s y" for y
  proof (rule response_loop.raw_induct [where P = ?P], goal_cases)
    case (1 f rd cl m chunck data unparsed parser s y)
    show ?case
    proof (intro impI)
      assume i: "\<forall>n s. I s \<longrightarrow> I (snd (rd n s))" "\<forall>s. I s \<longrightarrow> keeps I (Some (cl s))" "I s"
      obtain r bytes s1 where rd: "rd (length data - 1 - unparsed) s = ((r, bytes), s1)" by (cases "rd (length data - 1 - unparsed) s") auto
      have s1: "I s1" using i rd by (metis snd_conv)
      have cn: "keeps I (Some (close_null cl s1))" using keeps_close_null [of I cl s1] i(2) s1 by blast
      note step = 1(3) [unfolded rd Let_def prod.case]
      show "keeps I (Some y)"
        using step s1 cn 1(2) i by (auto split: if_splits outcome.splits)
    qed
  qed
  then show ?thesis using assms by (cases "response_loop rd cl m chunck data unparsed parser s") auto
qed

lemma chunk_data_keeps:
  assumes "\<And>n s. I s \<Longrightarrow> I (snd (rd n s))" and "\<And>s. I s \<Longrightarrow> keeps I (Some (cl s))" and "I s"
  shows "keeps I (chunk_data rd cl len data idx body s)"
  unfolding chunk_data_def Let_def
  by (rule keeps_thenO [where I = I])
     (auto intro!: keeps_thenO [where I = I] readFix_keeps keeps_close_null assms split: option.splits)

lemma chunk_loop_keeps:
  assumes "\<And>n s. I s \<Longrightarrow> I (snd (rd n s))" and "\<And>s. I s \<Longrightarrow> keeps I (Some (cl s))" and "I s"
  shows "keeps I (chunk_loop rd cl m data idx parser body s)"
proof -
  let ?P = "\<lambda>rd cl m data idx parser body s y. (\<forall>n s. I s \<longrightarrow> I (snd (rd n s))) \<longrightarrow> (\<forall>s. I s \<longrightarrow> keeps I (Some (cl s))) \<longrightarrow> I s \<longrightarrow> keeps I (Some y)"
  have "chunk_loop rd cl m data idx parser body s = Some y \<Longrightarrow> ?P rd cl m data idx parser body s y" for y
  proof (rule chunk_loop.raw_induct [where P = ?P], goal_cases)
    case (1 f rd cl m data idx parser body s y)
    show ?case
    proof (intro impI)
      assume i: "\<forall>n s. I s \<longrightarrow> I (snd (rd n s))" "\<forall>s. I s \<longrightarrow> keeps I (Some (cl s))" "I s"
      have h: "keeps I (chunk_header rd cl m data idx parser s)"
        unfolding chunk_header_def using i by (intro response_loop_keeps) auto
      have d: "keeps I (chunk_data rd cl len data idx body s)" if "I s" for len data idx body s
        using i(1,2) that by (intro chunk_data_keeps) auto
      have rec: "f rd cl m data idx parser body s = Some y \<Longrightarrow> I s \<Longrightarrow> keeps I (Some y)" for data idx parser body s y using 1(2) i(1,2) by blast
      show "keeps I (Some y)"
      proof (cases "chunk_header rd cl m data idx parser s")
        case None
        then show ?thesis using 1(3) by simp
      next
        case (Some o1)
        show ?thesis
        proof (cases o1)
          case (Ok v s1)
          then have "I s1" using h Some by simp
          have dO: "chunk_data rd cl len data idx body s1 = Some (Ok v s2) \<Longrightarrow> I s2" for len data idx body v s2
            using d [OF \<open>I s1\<close>, of len data idx body] by simp
          have dT: "chunk_data rd cl len data idx body s1 = Some (Throw e s2) \<Longrightarrow> I s2" for len data idx body e s2
            using d [OF \<open>I s1\<close>, of len data idx body] by simp
          show ?thesis using 1(3) Some Ok \<open>I s1\<close>
            by (auto simp: Let_def split: option.splits if_splits outcome.splits)
               ((rule dO, assumption) | (rule rec, assumption, rule dO, assumption) | (rule dT, assumption))+
        qed (use 1(3) Some h in auto)
      qed
    qed
  qed
  then show ?thesis using assms by (cases "chunk_loop rd cl m data idx parser body s") auto
qed

lemma recvResponse_keeps:
  assumes "\<And>n s. I s \<Longrightarrow> I (snd (rd n s))" and "\<And>s. I s \<Longrightarrow> keeps I (Some (cl s))" and "I s"
  shows "keeps I (recvResponse rd cl m q0 cast junk s)"
proof -
  have "keeps I (recv_content rd cl n data unparsed rsp s)" if "I s" for n data unparsed rsp s
    using that unfolding recv_content_def Let_def
    by (auto intro!: keeps_thenO [where I = I] readFix_keeps keeps_close_null assms)
  then show ?thesis
    unfolding recvResponse_def response_header_def
    by (rule_tac keeps_thenO [where I = I])
       (auto intro!: response_loop_keeps keeps_thenO [where I = I] chunk_loop_keeps assms split: option.splits)
qed

subsection \<open>Descriptors of a request\<close>

text \<open>How often the descriptor has been closed, and a socket that has the descriptor or has closed it once more.\<close>

definition closes :: "int \<Rightarrow> 'c sys \<Rightarrow> nat" where
  "closes fd sy = count_list (sy_calls sy) (SysClose fd)"

definition accounted :: "int \<Rightarrow> nat \<Rightarrow> Socket \<Rightarrow> 'c sys \<Rightarrow> bool" where
  "accounted fd n so sy \<longleftrightarrow> so_sock so = fd \<and> closes fd sy = n \<or> so_sock so = -1 \<and> closes fd sy = Suc n"

lemma closes_simps [simp]:
  "closes fd (called (SysSetsockopt s l op v) sy) = closes fd sy" "closes fd (called (SysConnect s bs) sy) = closes fd sy"
  "closes fd (called (SysShutdown s) sy) = closes fd sy" "closes fd (called (SysClose s) sy) = (if s = fd then Suc (closes fd sy) else closes fd sy)"
  "closes fd (sy\<lparr>sy_fdm := m\<rparr>) = closes fd sy" "closes fd (sy\<lparr>sy_iom := i\<rparr>) = closes fd sy"
  by (simp_all add: closes_def called_def)

lemma setOption_closes: "setOption en fstat l op v r st = Ok b st' \<Longrightarrow> fst st' = fst st \<and> closes fd (snd st') = closes fd (snd st)"
  by (auto simp: setOption_def andThen_eq_Ok on_fdm_Ok)

lemma initSock_closes: "initSock en fstat rs st = Ok u st' \<Longrightarrow> fst st' = fst st \<and> closes fd (snd st') = closes fd (snd st)"
  by (auto simp: initSock_def andThen_eq_Ok Let_def split: if_splits dest!: setOption_closes [where fd = fd])

lemma setRecvTimeout_closes: "setRecvTimeout en fstat v r st = Ok u st' \<Longrightarrow> fst st' = fst st \<and> closes fd (snd st') = closes fd (snd st)"
  by (auto simp: setRecvTimeout_def andThen_eq_Ok dest!: setOption_closes [where fd = fd])

lemma ensure_sock_closes:
  assumes "ensure_sock en fstat an st = Ok b st'" and "\<not> isVaild (fst st)"
  shows "so_sock (fst st') = an_socket an \<and> closes fd (snd st') = closes fd (snd st)"
proof -
  obtain v m where "hook_socket en fstat (an_socket an) (sy_fdm (snd st)) = Ok v m" "v = an_socket an"
    using assms by (auto simp: ensure_sock_def newSock_def andThen_eq_Ok on_fdm_Ok hook_socket_def split: if_splits)
  then show ?thesis using assms
    by (auto simp: ensure_sock_def newSock_def andThen_eq_Ok on_fdm_Ok Let_def split: if_splits dest!: initSock_closes [where fd = fd])
qed

lemma Socket_close_accounted:
  assumes "accounted fd n so sy" and "fd \<noteq> -1"
  shows "Socket_close en fstat fail (so, sy) = Ok b (so', sy') \<Longrightarrow> accounted fd n so' sy' \<and> so_sock so' = -1"
    and "Socket_close en fstat fail (so, sy) = Throw e (so', sy') \<Longrightarrow> accounted fd n so' sy'"
  using assms by (auto simp: Socket_close_def accounted_def Let_def split: if_splits outcome.splits)

text \<open>After \<open>ensure_sock\<close> a connection attempt leaves the descriptor as it is or closes the socket.\<close>

lemma Socket_connect_closes:
  assumes "Socket_connect en fstat host ct fail an addr to st = Ok c (so', sy')" and "ensure_sock en fstat an st = Ok ok (so1, sy1)"
    and "ok \<and> getFamily host addr = so_family so1"
  obtains (kept) "so_sock so' = so_sock so1" "closes fd sy' = closes fd sy1"
    | (closed) b sy2 where "closes fd sy2 = closes fd sy1" "Socket_close en fstat fail (so1, sy2) = Ok b (so', sy')"
proof -
  obtain r w so_error errno where an: "an_connect an = (r, w, so_error, errno)" by (cases "an_connect an")
  let ?sy = "called (SysConnect (so_sock so1) (take (unat (getAddrLen addr)) (getAddr host addr))) sy1"
  let ?c = "on_fdm (\<lambda>m. connect_with_timeout en fstat (so_sock so1) (if to = - 1 then ct else to) m r w so_error errno)"
  let ?f = "\<lambda>rt (so, sy). case rt of
             None \<Rightarrow> Ok None (so, sy)
           | Some rt \<Rightarrow>
               if rt \<noteq> SRet 0 then andThen (Socket_close en fstat fail) (\<lambda>_. ret (Some False)) (so, sy)
               else
                 let so = so\<lparr>so_isConnected := True\<rparr>;
                     so = snd (getRemoteAddress host (an_peer an) so);
                     so = snd (getLocalAddress host (an_local an) so)
                 in Ok (Some True) (so, sy)"
  have "andThen ?c ?f (so1, ?sy) = Ok c (so', sy')" using assms an unfolding Socket_connect_def by simp
  then obtain rt m where run: "?f rt (so1, ?sy\<lparr>sy_fdm := m\<rparr>) = Ok c (so', sy')" unfolding andThen_eq_Ok on_fdm_Ok by auto
  have cl: "closes fd (?sy\<lparr>sy_fdm := m\<rparr>) = closes fd sy1" by simp
  have g: "so_sock (snd (getLocalAddress host x (snd (getRemoteAddress host y (so\<lparr>so_isConnected := True\<rparr>))))) = so_sock so" for x y so
    by (simp add: getLocalAddress_sock getRemoteAddress_sock)
  show thesis
  proof (cases "rt = None \<or> rt = Some (SRet 0)")
    case True
    then show thesis using run cl by (intro kept) (auto simp: Let_def g)
  next
    case False
    then obtain b where "Socket_close en fstat fail (so1, ?sy\<lparr>sy_fdm := m\<rparr>) = Ok b (so', sy')"
      using run by (auto simp: andThen_eq_Ok split: if_splits)
    then show thesis by (rule closed [OF cl])
  qed
qed

lemma Socket_connect_accounted:
  assumes "Socket_connect en fstat host ct fail an addr to (CreateTCP host addr, sy) = Ok c (so', sy')" and "an_socket an \<noteq> -1"
  shows "accounted (an_socket an) (closes (an_socket an) sy) so' sy'"
proof -
  obtain ok so1 sy1 where e: "ensure_sock en fstat an (CreateTCP host addr, sy) = Ok ok (so1, sy1)"
    using assms(1) by (auto simp: Socket_connect_def andThen_eq_Ok)
  have a: "so_sock so1 = an_socket an" "closes (an_socket an) sy1 = closes (an_socket an) sy"
    using ensure_sock_closes [OF e] by (simp_all add: CreateTCP_def Socket_new_def isVaild_def)
  show ?thesis
  proof (cases "ok \<and> getFamily host addr = so_family so1")
    case False
    then have "so' = so1" "sy' = sy1" using assms(1) e by (auto simp: Socket_connect_def split: if_splits)
    then show ?thesis using a by (simp add: accounted_def)
  next
    case True
    from assms(1) e True show ?thesis
    proof (cases rule: Socket_connect_closes [where fd = "an_socket an"])
      case kept
      then show ?thesis using a by (simp add: accounted_def)
    next
      case (closed b sy2)
      then have "accounted (an_socket an) (closes (an_socket an) sy) so1 sy2" using a by (simp add: accounted_def)
      from Socket_close_accounted(1) [OF this assms(2) closed(2)] show ?thesis by simp
    qed
  qed
qed

definition held :: "int \<Rightarrow> nat \<Rightarrow> ('c, 'k) sock_state \<Rightarrow> bool" where
  "held fd n st \<longleftrightarrow> (case st of (ss, sy, k) \<Rightarrow> ss_owner ss \<and> (case ss_socket ss of None \<Rightarrow> False | Some so \<Rightarrow> accounted fd n so sy))"

lemma held_stream:
  "held fd n s \<Longrightarrow> held fd n (snd (sock_read recv m s))" "held fd n s \<Longrightarrow> held fd n (snd (sock_write send m mem s))"
  by (auto simp: held_def sock_read_def sock_write_def split: prod.splits)

lemma held_close: "fd \<noteq> -1 \<Longrightarrow> held fd n s \<Longrightarrow> keeps (held fd n) (Some (sock_close en fstat fail s))"
  by (auto simp: keeps_def held_def sock_close_def SocketStream_close_def split: outcome.splits option.splits prod.splits
      dest: Socket_close_accounted(1) Socket_close_accounted(2))

lemma exchange_held: "fd \<noteq> -1 \<Longrightarrow> held fd n st \<Longrightarrow> keeps (held fd n) (exchange ev req st)"
  unfolding exchange_def
  by (rule keeps_thenO [where I = "held fd n"])
     (auto simp: sendRequest_def Let_def intro!: writeFix_keeps keeps_thenO [where I = "held fd n"] recvResponse_keeps held_stream held_close)

lemma drop_sock_closes:
  assumes "fd \<noteq> -1" and "accounted fd n so sy" and "drop_sock ev (so, sy, k) = Ok u (sy', k')"
  shows "closes fd sy' = Suc n"
proof -
  obtain b so1 where "Socket_close (ce_hook ev) (ce_fstat ev) (ce_epoll_fail ev) (so, sy) = Ok b (so1, sy')"
    using assms(3) by (auto simp: drop_sock_def split: outcome.splits)
  from Socket_close_accounted(1) [OF assms(2,1) this] assms(1) show ?thesis by (auto simp: accounted_def)
qed

lemma drop_conn_closes:
  assumes "fd \<noteq> -1" and "held fd n st" and "drop_conn ev st = Ok u (sy', k')"
  shows "closes fd sy' = Suc n"
proof -
  obtain ss sy k so where st: "st = (ss, sy, k)" "ss_socket ss = Some so" "ss_owner ss" "accounted fd n so sy"
    using assms(2) by (auto simp: held_def split: prod.splits option.splits)
  obtain b so1 sy1 where c: "Socket_close (ce_hook ev) (ce_fstat ev) (ce_epoll_fail ev) (so, sy) = Ok b (so1, sy1)" "drop_sock ev (so1, sy1, k) = Ok u (sy', k')"
    using assms(3) st by (auto simp: drop_conn_def SocketStream_dtor_def SocketStream_close_def split: outcome.splits)
  show ?thesis using Socket_close_accounted(1) [OF st(4) assms(1) c(1)] drop_sock_closes [OF assms(1) _ c(2)] by simp
qed

lemma exchange_codes:
  assumes "exchange ev req st = Some (Ok (e, rsp) st')" and "length (dump_request req) < 2 ^ 31"
  shows "(e = E_OK \<longleftrightarrow> rsp \<noteq> None) \<and> e \<in> {E_OK, SEND_CLOSE_BY_PEER, TIMEOUT}"
  using assms writeFix_result [OF _ assms(2), of "sock_write (ce_send ev)" "dump_request req" st]
  by (fastforce simp: exchange_def thenO_eq_Ok sendRequest_def Let_def split: if_splits option.splits)

lemma conclude_Ok: "conclude ev addr (e, rsp) d = Ok r w \<longleftrightarrow> (\<exists>t u. result_text ev addr e = Inr t \<and> d = Ok u w \<and> r = HttpResult_new (error_num e) rsp t)"
  by (auto simp: conclude_def split: sum.splits outcome.splits)

text \<open>C14. A request that returns has one of five results: the response, an unknown host, a failed connection, a peer that closed while the request
  was sent, or a failed response, which is called a timeout. There is a response exactly when the result is OK. The descriptor of
  the connection is closed exactly once in every case. A failing \<open>send\<close> is never reported as one.\<close>

theorem http_client_results:
  assumes "DoRequest ev req uri timeout_ms w = Some (Ok r w')" and "length (dump_request req) < 2 ^ 31" and "an_socket (ce_answers ev) = fd" and "fd \<noteq> -1"
  shows "(hr_response r \<noteq> None \<longleftrightarrow> hr_result r = error_num E_OK) \<and>
    hr_result r \<in> error_num ` {E_OK, INVAILD_HOST, CONNECT_FAIL, SEND_CLOSE_BY_PEER, TIMEOUT} \<and>
    closes fd (fst w') = (if hr_result r = error_num INVAILD_HOST then closes fd (fst w) else Suc (closes fd (fst w)))"
proof -
  obtain sy k where w: "w = (sy, k)" by (cases w)
  show ?thesis
  proof (cases "createAddress (ce_host ev) (ce_gai ev) uri = Inr None")
    case True
    then show ?thesis using assms(1) w by (auto simp: DoRequest_def HttpResult_new_def error_num_def)
  next
    case False
    then obtain addr where addr: "createAddress (ce_host ev) (ce_gai ev) uri = Inr (Some addr)"
      using assms(1) w by (auto simp: DoRequest_def split: sum.splits option.splits)
    obtain c so sy1 where conn: "Socket_connect (ce_hook ev) (ce_fstat ev) (ce_host ev) (ce_connect_timeout ev) (ce_epoll_fail ev) (ce_answers ev) addr (- 1)
        (CreateTCP (ce_host ev) addr, sy) = Ok (Some c) (so, sy1)"
      using assms(1) w addr by (auto simp: DoRequest_def split: outcome.splits option.splits bool.splits)
    have acc: "accounted fd (closes fd sy) so sy1" using Socket_connect_accounted [OF conn] assms(3,4) by simp
    show ?thesis
    proof (cases c)
      case False
      then have "conclude ev addr (CONNECT_FAIL, None) (drop_sock ev (so, sy1, k)) = Ok r w'" using assms(1) w addr conn by (simp add: DoRequest_def)
      then show ?thesis using drop_sock_closes [OF assms(4) acc] w by (cases w') (auto simp: conclude_Ok HttpResult_new_def error_num_def)
    next
      case True
      obtain u so2 sy2 where t: "setRecvTimeout (ce_hook ev) (ce_fstat ev) (sint timeout_ms) (ce_option ev) (so, sy1) = Ok u (so2, sy2)"
        and x: "thenO (exchange ev req (SocketStream_new (Some so2) True, sy2, k)) (\<lambda>r st. Some (conclude ev addr r (drop_conn ev st))) snd = Some (Ok r w')"
        using assms(1) w addr conn True by (auto simp: DoRequest_def split: outcome.splits)
      obtain e rsp st where e: "exchange ev req (SocketStream_new (Some so2) True, sy2, k) = Some (Ok (e, rsp) st)" "conclude ev addr (e, rsp) (drop_conn ev st) = Ok r w'"
        using x by (auto simp: thenO_eq_Ok)
      have "held fd (closes fd sy) (SocketStream_new (Some so2) True, sy2, k)"
        using setRecvTimeout_closes [OF t, of fd] acc by (simp add: held_def SocketStream_new_def accounted_def)
      then have held: "held fd (closes fd sy) st" using exchange_held [OF assms(4)] e(1) by (metis keeps_simps(3))
      obtain t u where d: "drop_conn ev st = Ok u w'" "r = HttpResult_new (error_num e) rsp t" using e(2) by (auto simp: conclude_Ok)
      have "closes fd (fst w') = Suc (closes fd sy)" using drop_conn_closes [OF assms(4) held, of ev u "fst w'" "snd w'"] d(1) by simp
      then show ?thesis using exchange_codes [OF e(1) assms(2)] d(2) w by (auto simp: HttpResult_new_def error_num_def)
    qed
  qed
qed
text \<open>A process in which every call succeeds and the peer answers with a header and five bytes.\<close>

definition demo_env :: "(string list, int) client_env" where
  "demo_env = \<lparr>ce_hook = True, ce_fstat = (\<lambda>_. Some True), ce_host = demo_host,
     ce_gai = (\<lambda>_ _ _ _ _. Inr [Some (getAddr demo_host (peer4 0x7F000001 80))]), ce_connect_timeout = - 1, ce_epoll_fail = False,
     ce_answers = good_answers (getAddr demo_host (peer4 0x7F000001 80)), ce_option = SRet 0, ce_recv = (\<lambda>_. seg_read), ce_send = (\<lambda>_ n mem k. (int n, k)),
     ce_automaton = digit_automaton False, ce_parser = 0, ce_cast = cast_dec, ce_junk = replicate 9 (CHR 0x00), ce_errno = (0, [])\<rparr>"

lemma run_result: "map_option (\<lambda>x. case x of Ok r w \<Rightarrow> hr_result r | _ \<Rightarrow> -1) run = Some 0 \<Longrightarrow> \<exists>r w. run = Some (Ok r w) \<and> hr_result r = 0"
proof (cases run)
  case (Some x)
  then show "map_option (\<lambda>x. case x of Ok r w \<Rightarrow> hr_result r | _ \<Rightarrow> -1) run = Some 0 \<Longrightarrow> ?thesis" by (cases x) auto
qed simp

theorem http_client_results_witness:
  "\<exists>r w'. DoRequest demo_env (HttpRequest_new 0x11 False) demo_uri 1000 (demo_sys, [''HDRab'', ''cde'']) = Some (Ok r w') \<and>
     hr_response r \<noteq> None \<and> closes 5 (fst w') = 1"
proof -
  let ?req = "HttpRequest_new 0x11 False"
  have "map_option (\<lambda>x. case x of Ok r w \<Rightarrow> hr_result r | _ \<Rightarrow> -1) (DoRequest demo_env ?req demo_uri 1000 (demo_sys, [''HDRab'', ''cde''])) = Some 0"
    by code_simp
  then obtain r w' where run: "DoRequest demo_env ?req demo_uri 1000 (demo_sys, [''HDRab'', ''cde'']) = Some (Ok r w')" "hr_result r = 0"
    using run_result by blast
  have "length (dump_request ?req) < 100" by code_simp
  then have len: "length (dump_request ?req) < 2 ^ 31" by simp
  have "an_socket (ce_answers demo_env) = 5" "closes 5 demo_sys = 0" by (simp_all add: demo_env_def good_answers_def demo_sys_def closes_def)
  from http_client_results [OF run(1) len this(1)] this(2) run show ?thesis by (auto simp: error_num_def)
qed


end
