(* ===== verification/HttpConnectionPool.thy ===== *)
theory HttpConnectionPool
  imports HttpClient
begin

text \<open>
  \<open>src/http_connection.cc\<close>, \<open>include/http/http_connection.hh\<close>: the pool of connections to one host.

  A connection belongs to the pool while it is in \<open>m_conns\<close> and to its user while it is lent, so connections are values. The
  operations of the pool are made of the sections that run without interruption: \<open>pool_take\<close> under the mutex, the updates and
  the test of the atomic \<open>m_total\<close>, and the connection attempt, during which other fibers run. The members run them one after the other; the step
  relation \<open>pool_step\<close> interleaves those of several users. The time of the calls of \<open>GetCurrentMS\<close> is an argument.
\<close>

record HttpConnection =
  hc_stream :: SocketStream
  hc_createTime :: u64
  hc_request :: u64

record HttpConnectionPool =
  pl_host :: string
  pl_vhost :: string
  pl_port :: u32
  pl_maxSize :: u32
  pl_maxAliveTime :: u32
  pl_maxRequest :: u32
  pl_conns :: "HttpConnection list"
  pl_total :: u32

definition HttpConnection_new :: "u64 \<Rightarrow> Socket option \<Rightarrow> bool \<Rightarrow> HttpConnection" where
  "HttpConnection_new now sock owner = \<lparr>hc_stream = SocketStream_new sock owner, hc_createTime = now, hc_request = 0\<rparr>"

definition HttpConnectionPool_new :: "string \<Rightarrow> string \<Rightarrow> u32 \<Rightarrow> u32 \<Rightarrow> u32 \<Rightarrow> u32 \<Rightarrow> HttpConnectionPool" where
  "HttpConnectionPool_new host vhost port max_size max_alive_time max_request =
     \<lparr>pl_host = host, pl_vhost = vhost, pl_port = port, pl_maxSize = max_size, pl_maxAliveTime = max_alive_time, pl_maxRequest = max_request,
      pl_conns = [], pl_total = 0\<rparr>"

subsection \<open>Sections\<close>

definition expired :: "u32 \<Rightarrow> u64 \<Rightarrow> HttpConnection \<Rightarrow> bool" where
  "expired max_alive now conn \<longleftrightarrow> hc_createTime conn + ucast max_alive \<le> now"

text \<open>The loop over the idle connections: the connection found, those that are not valid, and the rest of the list.\<close>

fun pool_scan :: "u32 \<Rightarrow> u64 \<Rightarrow> HttpConnection list \<Rightarrow> HttpConnection list \<Rightarrow> HttpConnection option \<times> HttpConnection list \<times> HttpConnection list" where
  "pool_scan max_alive now invaild [] = (None, invaild, [])"
| "pool_scan max_alive now invaild (conn # conns) =
     (if \<not> ss_isConnected (hc_stream conn) then pool_scan max_alive now (invaild @ [conn]) conns
      else if expired max_alive now conn then pool_scan max_alive now (invaild @ [conn]) conns
      else (Some conn, invaild, conns))"

definition pool_take :: "u64 \<Rightarrow> HttpConnectionPool \<Rightarrow> (HttpConnection option \<times> HttpConnection list) \<times> HttpConnectionPool" where
  "pool_take now pool =
     (let (ptr, invaild, rest) = pool_scan (pl_maxAliveTime pool) now [] (pl_conns pool)
      in ((ptr, invaild), pool\<lparr>pl_conns := rest\<rparr>))"

definition pool_forget :: "nat \<Rightarrow> HttpConnectionPool \<Rightarrow> HttpConnectionPool" where
  "pool_forget n pool = pool\<lparr>pl_total := pl_total pool - word_of_nat n\<rparr>"

definition pool_full :: "HttpConnectionPool \<Rightarrow> bool" where
  "pool_full pool \<longleftrightarrow> pl_maxSize pool \<le> pl_total pool"

definition pool_count :: "HttpConnectionPool \<Rightarrow> HttpConnectionPool" where
  "pool_count pool = pool\<lparr>pl_total := pl_total pool + 1\<rparr>"

fun drop_conns :: "('k, 'q) client_env \<Rightarrow> HttpConnection list \<Rightarrow> 'c sys \<times> 'k \<Rightarrow> (unit, 'c sys \<times> 'k) outcome" where
  "drop_conns ev [] w = Ok () w"
| "drop_conns ev (conn # conns) w =
     (case drop_conn ev (hc_stream conn, w) of
        Ok _ w \<Rightarrow> drop_conns ev conns w
      | Throw e w \<Rightarrow> Throw e w
      | Crash x \<Rightarrow> Crash x)"

text \<open>A new connection to the host of the pool; \<open>None\<close> inside the result is a null pointer.\<close>

definition pool_connect :: "('k, 'q) client_env \<Rightarrow> u64 \<Rightarrow> HttpConnectionPool \<Rightarrow> 'c sys \<times> 'k \<Rightarrow> (HttpConnection option, 'c sys \<times> 'k) outcome option" where
  "pool_connect ev now pool w =
     (case w of (sy, k) \<Rightarrow>
        case LookupAnyIPAddress (ce_host ev) (ce_gai ev) (pl_host pool) (uint AF_INET) 0 0 of
          Inl x \<Rightarrow> Some (Crash x)
        | Inr None \<Rightarrow> Some (Ok None (sy, k))
        | Inr (Some addr) \<Rightarrow>
            let addr = setPort (ce_host ev) (ucast (pl_port pool)) addr in
            (case Socket_connect (ce_hook ev) (ce_fstat ev) (ce_host ev) (ce_connect_timeout ev) (ce_epoll_fail ev) (ce_answers ev) addr (- 1)
                (CreateTCP (ce_host ev) addr, sy) of
               Crash x \<Rightarrow> Some (Crash x)
             | Throw e (_, sy) \<Rightarrow> Some (Throw e (sy, k))
             | Ok None _ \<Rightarrow> None
             | Ok (Some False) (so, sy) \<Rightarrow>
                 Some (case drop_sock ev (so, sy, k) of Ok _ w \<Rightarrow> Ok None w | Throw e w \<Rightarrow> Throw e w | Crash x \<Rightarrow> Crash x)
             | Ok (Some True) (so, sy) \<Rightarrow> Some (Ok (Some (HttpConnection_new now (Some so) True)) (sy, k))))"

subsection \<open>Members\<close>

text \<open>\<open>now\<close> and \<open>later\<close> are the times at the start of the call and when a new connection is made.\<close>

definition getConnection :: "('k, 'q) client_env \<Rightarrow> u64 \<Rightarrow> u64 \<Rightarrow> HttpConnectionPool \<times> 'c sys \<times> 'k \<Rightarrow>
    (HttpConnection option, HttpConnectionPool \<times> 'c sys \<times> 'k) outcome option" where
  "getConnection ev now later st =
     (case st of (pool, w) \<Rightarrow>
        let ((ptr, invaild), pool) = pool_take now pool in
        case drop_conns ev invaild w of
          Crash x \<Rightarrow> Some (Crash x)
        | Throw e w \<Rightarrow> Some (Throw e (pool, w))
        | Ok _ w \<Rightarrow>
            let pool = pool_forget (length invaild) pool in
            (case ptr of
               Some conn \<Rightarrow> Some (Ok (Some conn) (pool, w))
             | None \<Rightarrow>
                 if pool_full pool then Some (Ok None (pool, w))
                 else
                   thenO (pool_connect ev later pool w)
                     (\<lambda>conn w. Some (case conn of None \<Rightarrow> Ok None (pool, w) | Some conn \<Rightarrow> Ok (Some conn) (pool_count pool, w)))
                     (\<lambda>w. (pool, w))))"

definition keep_conn :: "u64 \<Rightarrow> HttpConnectionPool \<Rightarrow> HttpConnection \<Rightarrow> bool" where
  "keep_conn now pool ptr \<longleftrightarrow> ss_isConnected (hc_stream ptr) \<and> \<not> expired (pl_maxAliveTime pool) now ptr \<and> hc_request ptr < ucast (pl_maxRequest pool)"

definition ReleasePtr :: "('k, 'q) client_env \<Rightarrow> u64 \<Rightarrow> HttpConnection \<Rightarrow> HttpConnectionPool \<times> 'c sys \<times> 'k \<Rightarrow>
    (unit, HttpConnectionPool \<times> 'c sys \<times> 'k) outcome" where
  "ReleasePtr ev now ptr st =
     (case st of (pool, w) \<Rightarrow>
        let ptr = ptr\<lparr>hc_request := hc_request ptr + 1\<rparr> in
        if \<not> keep_conn now pool ptr then
          (case drop_conn ev (hc_stream ptr, w) of
             Ok _ w \<Rightarrow> Ok () (pool_forget 1 pool, w)
           | Throw e w \<Rightarrow> Throw e (pool, w)
           | Crash x \<Rightarrow> Crash x)
        else Ok () (pool\<lparr>pl_conns := pl_conns pool @ [ptr]\<rparr>, w))"

text \<open>\<open>doRequest\<close> of a request; the address in a message is that of the peer, which \<open>getRemoteAddress\<close> looks up if need be.\<close>

definition pool_text :: "HttpConnectionPool \<Rightarrow> string \<Rightarrow> string" where
  "pool_text pool label = label @ pl_host pool @ '' port:'' @ dec (unat (pl_port pool))"

definition peer_text :: "('k, 'q) client_env \<Rightarrow> HttpError \<Rightarrow> u64 \<Rightarrow> Socket \<Rightarrow> (fault + string) \<times> Socket" where
  "peer_text ev e timeout_ms so =
     (if e = E_OK then (Inr ''ok'', so)
      else if e = SEND_SOCKET_ERROR then (Inr (''send request socket error errno='' @ int_text (fst (ce_errno ev)) @ '' errstr='' @ snd (ce_errno ev)), so)
      else
        let (addr, so) = getRemoteAddress (ce_host ev) (an_peer (ce_answers ev)) so
        in (bindE (Address_insert (ce_host ev) addr) (\<lambda>t. Inr
              (if e = SEND_CLOSE_BY_PEER then ''send request closed by peer:'' @ t
               else ''recv response timeout:'' @ t @ '' timeout_ms:'' @ dec (unat timeout_ms))), so))"

definition doRequest :: "('k, 'q) client_env \<Rightarrow> u64 \<times> u64 \<times> u64 \<Rightarrow> HttpRequest \<Rightarrow> u64 \<Rightarrow> HttpConnectionPool \<times> 'c sys \<times> 'k \<Rightarrow>
    (HttpResult, HttpConnectionPool \<times> 'c sys \<times> 'k) outcome option" where
  "doRequest ev clock req timeout_ms st =
     (case clock of (now, later, fin) \<Rightarrow>
        thenO (getConnection ev now later st)
          (\<lambda>conn (pool, sy, k).
             case conn of
               None \<Rightarrow> Some (Ok (HttpResult_new (error_num POOL_GET_CONNECTION) None (pool_text pool ''pool host: '')) (pool, sy, k))
             | Some conn \<Rightarrow>
                 (case ss_socket (hc_stream conn) of
                    None \<Rightarrow>
                      Some (andThen (ReleasePtr ev fin conn)
                        (\<lambda>_. ret (HttpResult_new (error_num POOL_INVAILD_CONNECTION) None (pool_text pool ''pool host:''))) (pool, sy, k))
                  | Some so \<Rightarrow>
                      (case setRecvTimeout (ce_hook ev) (ce_fstat ev) (sint timeout_ms) (ce_option ev) (so, sy) of
                         Crash x \<Rightarrow> Some (Crash x)
                       | Throw e (_, sy) \<Rightarrow> Some (Throw e (pool, sy, k))
                       | Ok _ (so, sy) \<Rightarrow>
                           thenO (exchange ev req ((hc_stream conn)\<lparr>ss_socket := Some so\<rparr>, sy, k))
                             (\<lambda>(e, rsp) (ss, w).
                                let (text, ss) = (case ss_socket ss of
                                      None \<Rightarrow> (Inl NullDeref, ss)
                                    | Some so \<Rightarrow> (case peer_text ev e timeout_ms so of (text, so) \<Rightarrow> (text, ss\<lparr>ss_socket := Some so\<rparr>)))
                                in (case text of
                                      Inl x \<Rightarrow> Some (Crash x)
                                    | Inr t \<Rightarrow>
                                        Some (andThen (ReleasePtr ev fin (conn\<lparr>hc_stream := ss\<rparr>))
                                          (\<lambda>_. ret (HttpResult_new (error_num e) rsp t)) (pool, w))))
                             (\<lambda>(ss, w). (pool, w)))))
          id)"

text \<open>The request made from the caller's headers: the virtual host of the pool stands in for a host.\<close>

definition pool_request :: "HttpConnectionPool \<Rightarrow> HttpMethod \<Rightarrow> string \<Rightarrow> (string \<times> string) list \<Rightarrow> string \<Rightarrow> HttpRequest" where
  "pool_request pool method url headers body =
     (let req = setClose False (setMethod method (setPath url (HttpRequest_new 0x11 False)));
          (req, has_host) = add_headers headers False req;
          req = (if \<not> has_host then setHeader ''Host'' (if pl_vhost pool = [] then pl_host pool else pl_vhost pool) req else req)
      in setBody body req)"

definition doRequest_url :: "('k, 'q) client_env \<Rightarrow> u64 \<times> u64 \<times> u64 \<Rightarrow> HttpMethod \<Rightarrow> string \<Rightarrow> u64 \<Rightarrow> (string \<times> string) list \<Rightarrow> string \<Rightarrow>
    HttpConnectionPool \<times> 'c sys \<times> 'k \<Rightarrow> (HttpResult, HttpConnectionPool \<times> 'c sys \<times> 'k) outcome option" where
  "doRequest_url ev clock method url timeout_ms headers body st = doRequest ev clock (pool_request (fst st) method url headers body) timeout_ms st"

definition doRequest_uri :: "('k, 'q) client_env \<Rightarrow> u64 \<times> u64 \<times> u64 \<Rightarrow> HttpMethod \<Rightarrow> Uri \<Rightarrow> u64 \<Rightarrow> (string \<times> string) list \<Rightarrow> string \<Rightarrow>
    HttpConnectionPool \<times> 'c sys \<times> 'k \<Rightarrow> (HttpResult, HttpConnectionPool \<times> 'c sys \<times> 'k) outcome option" where
  "doRequest_uri ev clock method uri = doRequest_url ev clock method (uri_target uri)"

definition doGet :: "('k, 'q) client_env \<Rightarrow> u64 \<times> u64 \<times> u64 \<Rightarrow> string \<Rightarrow> u64 \<Rightarrow> (string \<times> string) list \<Rightarrow> string \<Rightarrow>
    HttpConnectionPool \<times> 'c sys \<times> 'k \<Rightarrow> (HttpResult, HttpConnectionPool \<times> 'c sys \<times> 'k) outcome option" where
  "doGet ev clock = doRequest_url ev clock GET"

definition doGet_uri :: "('k, 'q) client_env \<Rightarrow> u64 \<times> u64 \<times> u64 \<Rightarrow> Uri \<Rightarrow> u64 \<Rightarrow> (string \<times> string) list \<Rightarrow> string \<Rightarrow>
    HttpConnectionPool \<times> 'c sys \<times> 'k \<Rightarrow> (HttpResult, HttpConnectionPool \<times> 'c sys \<times> 'k) outcome option" where
  "doGet_uri ev clock uri = doGet ev clock (uri_target uri)"

definition doPost :: "('k, 'q) client_env \<Rightarrow> u64 \<times> u64 \<times> u64 \<Rightarrow> string \<Rightarrow> u64 \<Rightarrow> (string \<times> string) list \<Rightarrow> string \<Rightarrow>
    HttpConnectionPool \<times> 'c sys \<times> 'k \<Rightarrow> (HttpResult, HttpConnectionPool \<times> 'c sys \<times> 'k) outcome option" where
  "doPost ev clock = doRequest_url ev clock POST"

definition doPost_uri :: "('k, 'q) client_env \<Rightarrow> u64 \<times> u64 \<times> u64 \<Rightarrow> Uri \<Rightarrow> u64 \<Rightarrow> (string \<times> string) list \<Rightarrow> string \<Rightarrow>
    HttpConnectionPool \<times> 'c sys \<times> 'k \<Rightarrow> (HttpResult, HttpConnectionPool \<times> 'c sys \<times> 'k) outcome option" where
  "doPost_uri ev clock uri = doPost ev clock (uri_target uri)"
subsection \<open>Users that interleave\<close>

text \<open>A user of the pool: outside, with what \<open>pool_take\<close> gave and the connections it has still to subtract, before the test of
  \<open>m_total\<close>, connecting, or holding a connection. The sections run in any order; what happens on a lent connection, and whether an attempt
  succeeds, is up to the network.\<close>

datatype user = Outside | Taken "HttpConnection option" "HttpConnection list" | Testing | Connecting | Holding HttpConnection

inductive pool_step :: "HttpConnectionPool \<times> user list \<Rightarrow> HttpConnectionPool \<times> user list \<Rightarrow> bool" where
  take_idle: "i < length us \<Longrightarrow> us ! i = Outside \<Longrightarrow> pool_take now pool = ((ptr, invaild), pool') \<Longrightarrow>
     pool_step (pool, us) (pool', us[i := Taken ptr invaild])"
| forget_found: "i < length us \<Longrightarrow> us ! i = Taken (Some conn) invaild \<Longrightarrow>
     pool_step (pool, us) (pool_forget (length invaild) pool, us[i := Holding conn])"
| forget_none: "i < length us \<Longrightarrow> us ! i = Taken None invaild \<Longrightarrow>
     pool_step (pool, us) (pool_forget (length invaild) pool, us[i := Testing])"
| test_full: "i < length us \<Longrightarrow> us ! i = Testing \<Longrightarrow> pool_full pool \<Longrightarrow> pool_step (pool, us) (pool, us[i := Outside])"
| test_room: "i < length us \<Longrightarrow> us ! i = Testing \<Longrightarrow> \<not> pool_full pool \<Longrightarrow> pool_step (pool, us) (pool, us[i := Connecting])"
| connect_fails: "i < length us \<Longrightarrow> us ! i = Connecting \<Longrightarrow> pool_step (pool, us) (pool, us[i := Outside])"
| connected: "i < length us \<Longrightarrow> us ! i = Connecting \<Longrightarrow> pool_step (pool, us) (pool_count pool, us[i := Holding conn])"
| used: "i < length us \<Longrightarrow> us ! i = Holding conn \<Longrightarrow> pool_step (pool, us) (pool, us[i := Holding conn'])"
| release_keep: "i < length us \<Longrightarrow> us ! i = Holding conn \<Longrightarrow> conn' = conn\<lparr>hc_request := hc_request conn + 1\<rparr> \<Longrightarrow> keep_conn now pool conn' \<Longrightarrow>
     pool_step (pool, us) (pool\<lparr>pl_conns := pl_conns pool @ [conn']\<rparr>, us[i := Outside])"
| release_drop: "i < length us \<Longrightarrow> us ! i = Holding conn \<Longrightarrow> \<not> keep_conn now pool (conn\<lparr>hc_request := hc_request conn + 1\<rparr>) \<Longrightarrow>
     pool_step (pool, us) (pool_forget 1 pool, us[i := Outside])"

inductive_cases pool_stepE: "pool_step (pool, us) (pool', us')"

inductive pool_reach :: "HttpConnectionPool \<Rightarrow> nat \<Rightarrow> HttpConnectionPool \<times> user list \<Rightarrow> bool" for pool0 n where
  init: "pl_conns pool0 = [] \<Longrightarrow> pl_total pool0 = 0 \<Longrightarrow> pool_reach pool0 n (pool0, replicate n Outside)"
| step: "pool_reach pool0 n st \<Longrightarrow> pool_step st st' \<Longrightarrow> pool_reach pool0 n st'"

text \<open>The connections a user accounts for, and all that exist.\<close>

fun user_conns :: "user \<Rightarrow> nat" where
  "user_conns Outside = 0"
| "user_conns (Taken ptr invaild) = length invaild + (if ptr = None then 0 else 1)"
| "user_conns Testing = 0"
| "user_conns Connecting = 0"
| "user_conns (Holding conn) = 1"

definition existing :: "HttpConnectionPool \<times> user list \<Rightarrow> nat" where
  "existing st = length (pl_conns (fst st)) + sum_list (map user_conns (snd st))"

definition connecting :: "user list \<Rightarrow> nat" where
  "connecting us = length (filter (\<lambda>u. u = Connecting) us)"

definition pool_inv :: "u32 \<Rightarrow> nat \<Rightarrow> HttpConnectionPool \<times> user list \<Rightarrow> bool" where
  "pool_inv max_size n st \<longleftrightarrow> length (snd st) = n \<and> pl_maxSize (fst st) = max_size \<and> pl_total (fst st) = word_of_nat (existing st) \<and>
     (existing st + connecting (snd st) = 0 \<or> existing st + connecting (snd st) < unat max_size + n)"

lemmas sum_user_update = sum_list_map_update [where f = user_conns]

lemma connecting_sum: "connecting us = sum_list (map (\<lambda>u. if u = Connecting then 1 else 0) us)"
  by (induction us) (auto simp: connecting_def)

lemma connecting_update: "i < length us \<Longrightarrow> connecting (us[i := u]) + (if us ! i = Connecting then 1 else 0) = connecting us + (if u = Connecting then 1 else 0)"
  unfolding connecting_sum by (rule sum_list_map_update)

lemma connecting_less: "i < length us \<Longrightarrow> us ! i \<noteq> Connecting \<Longrightarrow> connecting us < length us"
  unfolding connecting_def by (rule length_filter_less) (auto simp: in_set_conv_nth)

lemma pool_scan_length:
  "pool_scan a now bad conns = (ptr, bad', rest) \<Longrightarrow> length bad' + (if ptr = None then 0 else 1) + length rest = length bad + length conns"
  by (induction a now bad conns rule: pool_scan.induct) (auto split: if_splits)

lemma pool_take_length:
  "pool_take now pool = ((ptr, bad), pool') \<Longrightarrow> length bad + (if ptr = None then 0 else 1) + length (pl_conns pool') = length (pl_conns pool) \<and>
     pl_total pool' = pl_total pool \<and> pl_maxSize pool' = pl_maxSize pool"
  by (auto simp: pool_take_def split: prod.splits dest: pool_scan_length)

lemma word_of_nat_diff': "b + c = a \<Longrightarrow> word_of_nat a - word_of_nat b = (word_of_nat c :: u32)"
  by auto

lemma pool_step_inv:
  assumes "pool_step st st'" and "pool_inv max_size n st" and "unat max_size + n \<le> 2 ^ 32"
  shows "pool_inv max_size n st'"
  using assms(1)
proof cases
  case (take_idle i us now pool ptr invaild pool')
  have "existing st' = existing st" "connecting (snd st') = connecting (snd st)" "pl_total pool' = pl_total pool" "pl_maxSize pool' = pl_maxSize pool"
    using pool_take_length [OF take_idle(5)] sum_user_update [of i us "Taken ptr invaild"] connecting_update [of i us "Taken ptr invaild"] take_idle
    by (auto simp: existing_def split: if_splits)
  then show ?thesis using assms(2) take_idle by (simp add: pool_inv_def)
next
  case (forget_found i us conn invaild pool)
  have e: "length invaild + existing st' = existing st" "connecting (snd st') = connecting (snd st)"
    using sum_user_update [of i us "Holding conn"] connecting_update [of i us "Holding conn"] forget_found by (auto simp: existing_def pool_forget_def)
  then show ?thesis using assms(2) forget_found word_of_nat_diff' [OF e(1)] by (auto simp: pool_inv_def pool_forget_def)
next
  case (forget_none i us invaild pool)
  have e: "length invaild + existing st' = existing st" "connecting (snd st') = connecting (snd st)"
    using sum_user_update [of i us Testing] connecting_update [of i us Testing] forget_none by (auto simp: existing_def pool_forget_def)
  then show ?thesis using assms(2) forget_none word_of_nat_diff' [OF e(1)] by (auto simp: pool_inv_def pool_forget_def)
next
  case (test_full i us pool)
  have "existing st' = existing st" "connecting (snd st') = connecting (snd st)"
    using sum_user_update [of i us Outside] connecting_update [of i us Outside] test_full by (auto simp: existing_def)
  then show ?thesis using assms(2) test_full by (simp add: pool_inv_def)
next
  case (test_room i us pool)
  have e: "existing st' = existing st" "connecting (snd st') = Suc (connecting us)" "connecting us < length us"
    using sum_user_update [of i us Connecting] connecting_update [of i us Connecting] connecting_less [of i us] test_room by (auto simp: existing_def)
  have "existing st < 2 ^ 32" using assms(2,3) by (auto simp: pool_inv_def)
  then have "existing st < unat max_size"
    using test_room(5) assms(2) by (simp add: test_room(1) pool_full_def pool_inv_def word_le_nat_alt unsigned_of_nat take_bit_nat_eq_self)
  then show ?thesis using assms(2) test_room e by (simp add: pool_inv_def)
next
  case (connect_fails i us pool)
  have "existing st' = existing st" "Suc (connecting (snd st')) = connecting (snd st)"
    using sum_user_update [of i us Outside] connecting_update [of i us Outside] connect_fails by (auto simp: existing_def)
  then show ?thesis using assms(2) connect_fails by (auto simp: pool_inv_def)
next
  case (connected i us pool conn)
  have "existing st' = Suc (existing st)" "Suc (connecting (snd st')) = connecting (snd st)"
    using sum_user_update [of i us "Holding conn"] connecting_update [of i us "Holding conn"] connected by (auto simp: existing_def pool_count_def)
  then show ?thesis using assms(2) connected by (auto simp: pool_inv_def pool_count_def)
next
  case (used i us conn pool conn')
  have "existing st' = existing st" "connecting (snd st') = connecting (snd st)"
    using sum_user_update [of i us "Holding conn'"] connecting_update [of i us "Holding conn'"] used by (auto simp: existing_def)
  then show ?thesis using assms(2) used by (simp add: pool_inv_def)
next
  case (release_keep i us conn conn' now pool)
  have "existing st' = existing st" "connecting (snd st') = connecting (snd st)"
    using sum_user_update [of i us Outside] connecting_update [of i us Outside] release_keep by (auto simp: existing_def)
  then show ?thesis using assms(2) release_keep by (simp add: pool_inv_def)
next
  case (release_drop i us conn now pool)
  have e: "1 + existing st' = existing st" "connecting (snd st') = connecting (snd st)"
    using sum_user_update [of i us Outside] connecting_update [of i us Outside] release_drop by (auto simp: existing_def pool_forget_def)
  then show ?thesis using assms(2) release_drop word_of_nat_diff' [OF e(1)] by (auto simp: pool_inv_def pool_forget_def)
qed

lemma pool_reach_inv: "pool_reach pool0 n st \<Longrightarrow> unat (pl_maxSize pool0) + n \<le> 2 ^ 32 \<Longrightarrow> pool_inv (pl_maxSize pool0) n st"
proof (induction rule: pool_reach.induct)
  case init
  have "connecting (replicate n Outside) = 0" by (simp add: connecting_def)
  moreover have "existing (pool0, replicate n Outside) = 0" using init by (auto simp: existing_def)
  ultimately show ?case using init by (simp add: pool_inv_def)
next
  case (step st st')
  then show ?case using pool_step_inv by blast
qed

subsection \<open>Properties\<close>

text \<open>C15. However the users of a pool interleave, \<open>m_total\<close> counts the connections that exist: the idle ones, the lent ones and those taken out to be
  destroyed. Their number stays below the maximum plus the number of users; a single user never exceeds the maximum.\<close>

theorem http_pool_accounting:
  assumes "pool_reach pool0 n st" and "unat (pl_maxSize pool0) + n \<le> 2 ^ 32" and "0 < n"
  shows "unat (pl_total (fst st)) = existing st \<and> existing st \<le> unat (pl_maxSize pool0) + (n - 1)"
proof -
  have i: "pl_total (fst st) = word_of_nat (existing st)" "existing st = 0 \<or> existing st < unat (pl_maxSize pool0) + n"
    using pool_reach_inv [OF assms(1,2)] by (auto simp: pool_inv_def)
  have "existing st < 2 ^ 32" using i(2) assms(2) by auto
  then have "unat (pl_total (fst st)) = existing st" unfolding i(1) by (simp add: unsigned_of_nat take_bit_nat_eq_self)
  then show ?thesis using i(2) assms(3) by auto
qed

definition demo_pool :: HttpConnectionPool where
  "demo_pool = HttpConnectionPool_new ''sylar.top'' [] 80 1 1000 10"

definition demo_conn :: HttpConnection where
  "demo_conn = HttpConnection_new 0 None True"

text \<open>Two users find the pool of size one empty, and both connect.\<close>

lemma two_users: "pool_reach demo_pool 2 (pool_count (pool_count demo_pool), [Holding demo_conn, Holding demo_conn])"
proof -
  have p: "pool_take 0 demo_pool = ((None, []), demo_pool)" "pool_forget (length []) demo_pool = demo_pool" "\<not> pool_full demo_pool"
    by (simp_all add: pool_take_def pool_forget_def pool_full_def demo_pool_def HttpConnectionPool_new_def)
  have "pool_reach demo_pool 2 (demo_pool, [Outside, Outside])"
    using pool_reach.init [of demo_pool 2] by (simp add: demo_pool_def HttpConnectionPool_new_def numeral_2_eq_2)
  then have "pool_reach demo_pool 2 (demo_pool, [Taken None [], Outside])"
    using pool_step.take_idle [where i = 0 and us = "[Outside, Outside]", OF _ _ p(1)] by (auto intro: pool_reach.step)
  then have "pool_reach demo_pool 2 (demo_pool, [Taken None [], Taken None []])"
    using pool_step.take_idle [where i = 1 and us = "[Taken None [], Outside]", OF _ _ p(1)] by (auto intro: pool_reach.step)
  then have "pool_reach demo_pool 2 (demo_pool, [Testing, Taken None []])"
    using pool_step.forget_none [where i = 0 and us = "[Taken None [], Taken None []]" and invaild = "[]" and pool = demo_pool, unfolded p(2)] by (auto intro: pool_reach.step)
  then have "pool_reach demo_pool 2 (demo_pool, [Testing, Testing])"
    using pool_step.forget_none [where i = 1 and us = "[Testing, Taken None []]" and invaild = "[]" and pool = demo_pool, unfolded p(2)] by (auto intro: pool_reach.step)
  then have "pool_reach demo_pool 2 (demo_pool, [Connecting, Testing])"
    using pool_step.test_room [where i = 0 and us = "[Testing, Testing]", OF _ _ p(3)] by (auto intro: pool_reach.step)
  then have "pool_reach demo_pool 2 (demo_pool, [Connecting, Connecting])"
    using pool_step.test_room [where i = 1 and us = "[Connecting, Testing]", OF _ _ p(3)] by (auto intro: pool_reach.step)
  then have "pool_reach demo_pool 2 (pool_count demo_pool, [Holding demo_conn, Connecting])"
    using pool_step.connected [where i = 0 and us = "[Connecting, Connecting]"] by (auto intro: pool_reach.step)
  then show ?thesis
    using pool_step.connected [where i = 1 and us = "[Holding demo_conn, Connecting]"] by (auto intro: pool_reach.step)
qed

theorem http_pool_accounting_witness:
  "unat (pl_total (pool_count (pool_count demo_pool))) = existing (pool_count (pool_count demo_pool), [Holding demo_conn, Holding demo_conn])"
  using http_pool_accounting [OF two_users] by (simp add: demo_pool_def HttpConnectionPool_new_def)

text \<open>The limit of a pool is not a limit: since the connection attempt lies between the test of \<open>m_total\<close> and its update, two users
  of a pool of size one can hold a connection each.\<close>

theorem http_pool_overcommits: "\<exists>pool us. pool_reach demo_pool 2 (pool, us) \<and> pl_maxSize pool = 1 \<and> us = [Holding demo_conn, Holding demo_conn] \<and> 1 < unat (pl_total pool)"
  using two_users by (intro exI conjI) (auto simp: pool_count_def demo_pool_def HttpConnectionPool_new_def)

subsection \<open>The members as sequences of sections\<close>

definition usable :: "u32 \<Rightarrow> u64 \<Rightarrow> HttpConnection \<Rightarrow> bool" where
  "usable max_alive now conn \<longleftrightarrow> ss_isConnected (hc_stream conn) \<and> \<not> expired max_alive now conn"

lemma pool_scan_result:
  "pool_scan a now bad conns = (ptr, bad', rest) \<Longrightarrow>
   \<exists>pre. bad' = bad @ pre \<and> list_all (\<lambda>c. \<not> usable a now c) pre \<and>
     (case ptr of None \<Rightarrow> conns = pre \<and> rest = [] | Some c \<Rightarrow> conns = pre @ c # rest \<and> usable a now c)"
proof (induction a now bad conns rule: pool_scan.induct)
  case (2 a now bad conn conns)
  show ?case
  proof (cases "usable a now conn")
    case True
    then have "ptr = Some conn" "bad' = bad" "rest = conns" using 2(3) by (auto simp: usable_def)
    then show ?thesis using True by simp
  next
    case False
    then have "pool_scan a now (bad @ [conn]) conns = (ptr, bad', rest)" using 2(3) by (auto simp: usable_def split: if_splits)
    with 2(1,2) False obtain pre where "bad' = (bad @ [conn]) @ pre" "list_all (\<lambda>c. \<not> usable a now c) pre"
      "case ptr of None \<Rightarrow> conns = pre \<and> rest = [] | Some c \<Rightarrow> conns = pre @ c # rest \<and> usable a now c"
      unfolding usable_def by blast
    then show ?thesis using False by (intro exI [of _ "conn # pre"]) (auto split: option.splits)
  qed
qed simp

lemma pool_connect_new:
  assumes "pool_connect ev now pool w = Some (Ok (Some conn) w')"
  shows "ss_isConnected (hc_stream conn) \<and> hc_createTime conn = now \<and> hc_request conn = 0"
proof -
  obtain addr so sy where "Socket_connect (ce_hook ev) (ce_fstat ev) (ce_host ev) (ce_connect_timeout ev) (ce_epoll_fail ev) (ce_answers ev) addr (- 1)
      (CreateTCP (ce_host ev) addr, fst w) = Ok (Some True) (so, sy)" "conn = HttpConnection_new now (Some so) True"
    using assms by (auto simp: pool_connect_def Let_def split: prod.splits sum.splits option.splits outcome.splits bool.splits)
  then have "so_isConnected so" by (elim Socket_connect_sock) (auto simp: getLocalAddress_sock getRemoteAddress_sock)
  then show ?thesis using \<open>conn = _\<close> by (simp add: HttpConnection_new_def SocketStream_new_def ss_isConnected_def)
qed

text \<open>The runs of \<open>getConnection\<close> that return: what \<open>pool_take\<close> found, and what then became of it.\<close>

lemma getConnection_cases:
  assumes "getConnection ev now later (pool, w) = Some (Ok r (pool', w'))"
  obtains (found) conn bad pool1 where "pool_take now pool = ((Some conn, bad), pool1)" "r = Some conn" "pool' = pool_forget (length bad) pool1"
  | (full) bad pool1 where "pool_take now pool = ((None, bad), pool1)" "r = None" "pool' = pool_forget (length bad) pool1" "pool_full pool'"
  | (failed) bad pool1 where "pool_take now pool = ((None, bad), pool1)" "r = None" "pool' = pool_forget (length bad) pool1" "\<not> pool_full pool'"
  | (new) conn bad pool1 w1 where "pool_take now pool = ((None, bad), pool1)" "r = Some conn" "pool' = pool_count (pool_forget (length bad) pool1)"
      "\<not> pool_full (pool_forget (length bad) pool1)" "pool_connect ev later (pool_forget (length bad) pool1) w1 = Some (Ok (Some conn) w')"
proof -
  obtain ptr bad pool1 where t: "pool_take now pool = ((ptr, bad), pool1)" by (cases "pool_take now pool") auto
  let ?p = "pool_forget (length bad) pool1"
  obtain u w1 where d: "drop_conns ev bad w = Ok u w1" using assms t by (auto simp: getConnection_def split: outcome.splits)
  show thesis
  proof (cases ptr)
    case (Some conn)
    then show thesis using found assms t d by (simp add: getConnection_def)
  next
    case None
    show thesis
    proof (cases "pool_full ?p")
      case True
      then show thesis using full assms t d None by (simp add: getConnection_def)
    next
      case False
      have run: "thenO (pool_connect ev later ?p w1) (\<lambda>conn w. Some (case conn of None \<Rightarrow> Ok None (?p, w) | Some conn \<Rightarrow> Ok (Some conn) (pool_count ?p, w)))
          (\<lambda>w. (?p, w)) = Some (Ok r (pool', w'))"
        using assms t d None False by (simp add: getConnection_def Let_def)
      obtain conn w2 where c: "pool_connect ev later ?p w1 = Some (Ok conn w2)" "(case conn of None \<Rightarrow> Ok None (?p, w2) | Some conn \<Rightarrow> Ok (Some conn) (pool_count ?p, w2)) = Ok r (pool', w')"
        using run by (auto simp: thenO_eq_Ok)
      show thesis
      proof (cases conn)
        assume "conn = None"
        then show thesis using failed [of bad pool1] c t False None by simp
      next
        case (Some a)
        have e: "r = Some a" "pool' = pool_count ?p" "w2 = w'" using c(2) Some by simp_all
        show thesis by (rule new [OF _ e(1,2) False]) (use t None c(1) Some e(3) in simp_all)
      qed
    qed
  qed
qed

lemma step_update: "pool_step\<^sup>*\<^sup>* st (p, us[i := u]) \<Longrightarrow> pool_step (p, us[i := u]) (p', us[i := u, i := v]) \<Longrightarrow> pool_step\<^sup>*\<^sup>* st (p', us[i := v])"
  by simp

text \<open>C21. A call of \<open>getConnection\<close> or \<open>ReleasePtr\<close> that nobody interrupts is one of the runs of its sections: from a user outside to one that holds
  the connection, or outside again with a null pointer, and back.\<close>

theorem http_pool_refines:
  assumes "i < length us" and "us ! i = Outside"
    and "getConnection ev now later (pool, w) = Some (Ok r (pool1, w1))" and "r = Some conn \<longrightarrow> ReleasePtr ev fin conn' (pool1, w2) = Ok u (pool2, w3)"
  shows "(case r of None \<Rightarrow> pool_step\<^sup>*\<^sup>* (pool, us) (pool1, us)
     | Some conn \<Rightarrow> pool_step\<^sup>*\<^sup>* (pool, us) (pool1, us[i := Holding conn])) \<and>
    (r = Some conn \<longrightarrow> pool_step\<^sup>*\<^sup>* (pool1, us[i := Holding conn]) (pool2, us))"
proof -
  have outside: "us[i := Outside] = us" using assms(2) by (metis list_update_id)
  have "case r of None \<Rightarrow> pool_step\<^sup>*\<^sup>* (pool, us) (pool1, us) | Some conn \<Rightarrow> pool_step\<^sup>*\<^sup>* (pool, us) (pool1, us[i := Holding conn])"
    using assms(3)
  proof (cases rule: getConnection_cases)
    case (found conn bad p)
    have "pool_step\<^sup>*\<^sup>* (pool, us) (p, us[i := Taken (Some conn) bad])" using pool_step.take_idle [OF assms(1,2) found(1)] by blast
    from step_update [OF this pool_step.forget_found] show ?thesis using assms(1) found by simp
  next
    case (full bad p)
    have "pool_step\<^sup>*\<^sup>* (pool, us) (p, us[i := Taken None bad])" using pool_step.take_idle [OF assms(1,2) full(1)] by blast
    from step_update [OF this pool_step.forget_none] have "pool_step\<^sup>*\<^sup>* (pool, us) (pool1, us[i := Testing])" using assms(1) full by simp
    from step_update [OF this pool_step.test_full] show ?thesis using assms(1) full outside by simp
  next
    case (failed bad p)
    have "pool_step\<^sup>*\<^sup>* (pool, us) (p, us[i := Taken None bad])" using pool_step.take_idle [OF assms(1,2) failed(1)] by blast
    from step_update [OF this pool_step.forget_none] have "pool_step\<^sup>*\<^sup>* (pool, us) (pool1, us[i := Testing])" using assms(1) failed by simp
    from step_update [OF this pool_step.test_room] have "pool_step\<^sup>*\<^sup>* (pool, us) (pool1, us[i := Connecting])" using assms(1) failed by simp
    from step_update [OF this pool_step.connect_fails] show ?thesis using assms(1) failed outside by simp
  next
    case (new conn bad p w1)
    let ?p = "pool_forget (length bad) p"
    have "pool_step\<^sup>*\<^sup>* (pool, us) (p, us[i := Taken None bad])" using pool_step.take_idle [OF assms(1,2) new(1)] by blast
    from step_update [OF this pool_step.forget_none] have "pool_step\<^sup>*\<^sup>* (pool, us) (?p, us[i := Testing])" using assms(1) by simp
    from step_update [OF this pool_step.test_room] have "pool_step\<^sup>*\<^sup>* (pool, us) (?p, us[i := Connecting])" using assms(1) new by simp
    from step_update [OF this pool_step.connected] show ?thesis using assms(1) new by simp
  qed
  moreover have "r = Some conn \<longrightarrow> pool_step\<^sup>*\<^sup>* (pool1, us[i := Holding conn]) (pool2, us)"
  proof
    assume "r = Some conn"
    then have rel: "ReleasePtr ev fin conn' (pool1, w2) = Ok u (pool2, w3)" using assms(4) by simp
    have "pool_step\<^sup>*\<^sup>* (pool1, us[i := Holding conn]) (pool1, us[i := Holding conn'])"
      using step_update [OF rtranclp.rtrancl_refl pool_step.used] assms(1) by simp
    note used = step_update [OF this]
    show "pool_step\<^sup>*\<^sup>* (pool1, us[i := Holding conn]) (pool2, us)"
    proof (cases "keep_conn fin pool1 (conn'\<lparr>hc_request := hc_request conn' + 1\<rparr>)")
      case True
      from used [OF pool_step.release_keep [OF _ _ refl True]] show ?thesis using assms(1) rel True outside by (simp add: ReleasePtr_def)
    next
      case False
      from used [OF pool_step.release_drop [OF _ _ False]] show ?thesis
        using assms(1) rel False outside by (auto simp: ReleasePtr_def Let_def split: outcome.splits)
    qed
  qed
  ultimately show ?thesis by blast
qed

definition idle_conn :: HttpConnection where
  "idle_conn = HttpConnection_new 0 (Some (CreateTCPSocket\<lparr>so_sock := 5, so_isConnected := True\<rparr>)) True"

definition idle_pool :: HttpConnectionPool where
  "idle_pool = demo_pool\<lparr>pl_conns := [demo_conn, idle_conn], pl_total := 2\<rparr>"

lemma idle_pool_get:
  "getConnection demo_env 10 10 (idle_pool, demo_sys, [[]]) = Some (Ok (Some idle_conn) (idle_pool\<lparr>pl_conns := [], pl_total := 1\<rparr>, demo_sys, [[]]))"
  "ReleasePtr demo_env 20 idle_conn (idle_pool\<lparr>pl_conns := [], pl_total := 1\<rparr>, demo_sys, [[]]) =
     Ok () (idle_pool\<lparr>pl_conns := [idle_conn\<lparr>hc_request := 1\<rparr>], pl_total := 1\<rparr>, demo_sys, [[]])"
proof -
  note defs = idle_pool_def demo_pool_def HttpConnectionPool_new_def idle_conn_def demo_conn_def HttpConnection_new_def SocketStream_new_def ss_isConnected_def expired_def
  show "getConnection demo_env 10 10 (idle_pool, demo_sys, [[]]) = Some (Ok (Some idle_conn) (idle_pool\<lparr>pl_conns := [], pl_total := 1\<rparr>, demo_sys, [[]]))"
    by (simp add: getConnection_def pool_take_def pool_forget_def drop_conn_def SocketStream_dtor_def defs)
  show "ReleasePtr demo_env 20 idle_conn (idle_pool\<lparr>pl_conns := [], pl_total := 1\<rparr>, demo_sys, [[]]) =
     Ok () (idle_pool\<lparr>pl_conns := [idle_conn\<lparr>hc_request := 1\<rparr>], pl_total := 1\<rparr>, demo_sys, [[]])"
    by (simp add: ReleasePtr_def keep_conn_def defs)
qed

theorem http_pool_refines_witness:
  "pool_step\<^sup>*\<^sup>* (idle_pool, [Outside]) (idle_pool\<lparr>pl_conns := [], pl_total := 1\<rparr>, [Holding idle_conn]) \<and>
   pool_step\<^sup>*\<^sup>* (idle_pool\<lparr>pl_conns := [], pl_total := 1\<rparr>, [Holding idle_conn]) (idle_pool\<lparr>pl_conns := [idle_conn\<lparr>hc_request := 1\<rparr>], pl_total := 1\<rparr>, [Outside])"
  using http_pool_refines [of 0 "[Outside]", OF _ _ idle_pool_get(1), of idle_conn 20 idle_conn "(demo_sys, [[]])" "()"] idle_pool_get(2) by simp

text \<open>A connection that the pool lends is connected. It is the first idle one that is connected and not too old, and those before it are
  destroyed and no longer counted; only when there is none it is a new one, which is counted.\<close>

theorem http_pool_lends_valid:
  assumes "getConnection ev now later (pool, w) = Some (Ok (Some conn) (pool', w'))"
  shows "ss_isConnected (hc_stream conn) \<and>
    (\<exists>bad. list_all (\<lambda>c. \<not> usable (pl_maxAliveTime pool) now c) bad \<and>
      (pl_conns pool = bad @ conn # pl_conns pool' \<and> usable (pl_maxAliveTime pool) now conn \<and> pl_total pool' = pl_total pool - word_of_nat (length bad) \<or>
       pl_conns pool = bad \<and> pl_conns pool' = [] \<and> hc_createTime conn = later \<and> hc_request conn = 0 \<and>
         pl_total pool' = pl_total pool - word_of_nat (length bad) + 1))"
proof -
  have scan: "\<exists>pre. bad = pre \<and> list_all (\<lambda>c. \<not> usable (pl_maxAliveTime pool) now c) pre \<and>
      (case ptr of None \<Rightarrow> pl_conns pool = pre \<and> pl_conns pool1 = [] | Some c \<Rightarrow> pl_conns pool = pre @ c # pl_conns pool1 \<and> usable (pl_maxAliveTime pool) now c) \<and>
      pl_total pool1 = pl_total pool"
    if take: "pool_take now pool = ((ptr, bad), pool1)" for ptr bad pool1
  proof -
    obtain rest where "pool_scan (pl_maxAliveTime pool) now [] (pl_conns pool) = (ptr, bad, rest)" "pool1 = pool\<lparr>pl_conns := rest\<rparr>"
      using take by (auto simp: pool_take_def split: prod.splits)
    then show ?thesis using pool_scan_result by fastforce
  qed
  from assms show ?thesis
  proof (cases rule: getConnection_cases)
    case (found conn' bad pool1)
    from scan [OF found(1)] found(2,3) show ?thesis by (auto simp: usable_def pool_forget_def)
  next
    case (new conn' bad pool1 w1)
    from scan [OF new(1)] new(2,3) pool_connect_new [OF new(5)] show ?thesis by (auto simp: pool_forget_def pool_count_def)
  qed simp_all
qed

theorem http_pool_lends_valid_witness: "ss_isConnected (hc_stream idle_conn) \<and> usable 1000 10 idle_conn \<and> \<not> usable 1000 10 demo_conn"
  using http_pool_lends_valid [OF idle_pool_get(1)]
  by (auto simp: idle_pool_def demo_pool_def HttpConnectionPool_new_def Cons_eq_append_conv idle_conn_def HttpConnection_new_def)


end
