(* ===== verification/Threads.thy ===== *)
theory Threads
  imports CStrings
begin

text \<open>
  \<open>include/sylar/thread.hh\<close>, \<open>src/thread.cc\<close>: locks, the guards that hold them, semaphores and threads.

  A lock is its state; an operation that may have to wait is a partial function, \<open>None\<close> while it waits (a round of the loop of
  \<open>CASLock::lock\<close> that finds the flag set changes nothing). \<open>pthread_mutex\<close>, \<open>pthread_spin\<close>, \<open>pthread_rwlock\<close> and semaphores are
  modelled by what POSIX says of calls in the right order. The locale \<open>lock_impl\<close> is what a guard relies on; any number of guards on one
  lock, in any interleaving, are shown to exclude each other from its laws. The start of a thread is a step relation between
  the constructor and \<open>run\<close>, one step for each access to shared memory.
\<close>

subsection \<open>Locks\<close>

type_synonym Mutex = bool

definition Mutex_new :: Mutex where "Mutex_new = False"

definition Mutex_lock :: "Mutex \<Rightarrow> Mutex option" where
  "Mutex_lock l = (if l then None else Some True)"

definition Mutex_unlock :: "Mutex \<Rightarrow> Mutex" where
  "Mutex_unlock l = False"

type_synonym Spinlock = bool

definition Spinlock_new :: Spinlock where "Spinlock_new = False"

definition Spinlock_lock :: "Spinlock \<Rightarrow> Spinlock option" where
  "Spinlock_lock l = (if l then None else Some True)"

definition Spinlock_unlock :: "Spinlock \<Rightarrow> Spinlock" where
  "Spinlock_unlock l = False"

text \<open>\<open>CASLock\<close>: the flag; \<open>test_and_set\<close> gives the old value and sets it, and the loop ends when the old value was false.\<close>

type_synonym CASLock = bool

definition CASLock_new :: CASLock where "CASLock_new = False"

definition test_and_set :: "CASLock \<Rightarrow> bool \<times> CASLock" where
  "test_and_set l = (l, True)"

definition CASLock_lock :: "CASLock \<Rightarrow> CASLock option" where
  "CASLock_lock l = (case test_and_set l of (True, _) \<Rightarrow> None | (False, l) \<Rightarrow> Some l)"

definition CASLock_unlock :: "CASLock \<Rightarrow> CASLock" where
  "CASLock_unlock l = False"

text \<open>\<open>RWMutex\<close>: the number of readers and whether there is a writer.\<close>

record RWMutex =
  rw_readers :: nat
  rw_writer :: bool

definition RWMutex_new :: RWMutex where
  "RWMutex_new = \<lparr>rw_readers = 0, rw_writer = False\<rparr>"

definition rdlock :: "RWMutex \<Rightarrow> RWMutex option" where
  "rdlock l = (if rw_writer l then None else Some (l\<lparr>rw_readers := rw_readers l + 1\<rparr>))"

definition wrlock :: "RWMutex \<Rightarrow> RWMutex option" where
  "wrlock l = (if rw_writer l \<or> rw_readers l \<noteq> 0 then None else Some (l\<lparr>rw_writer := True\<rparr>))"

definition RWMutex_unlock :: "RWMutex \<Rightarrow> RWMutex" where
  "RWMutex_unlock l = (if rw_writer l then l\<lparr>rw_writer := False\<rparr> else l\<lparr>rw_readers := rw_readers l - 1\<rparr>)"

text \<open>\<open>NullMutex\<close> and \<open>NullRWMutex\<close> never wait and have no state.\<close>

definition NullMutex_lock :: "unit \<Rightarrow> unit option" where
  "NullMutex_lock l = Some ()"

definition NullMutex_unlock :: "unit \<Rightarrow> unit" where
  "NullMutex_unlock l = ()"

subsection \<open>Guards\<close>

text \<open>A guard: its \<open>m_locked\<close>. \<open>lk\<close> is what the guard locks with and \<open>un\<close> how it unlocks; the lock itself is the second component of the state.\<close>

type_synonym guard = bool

definition ScopedLock_new :: "('l \<Rightarrow> 'l option) \<Rightarrow> 'l \<Rightarrow> (guard \<times> 'l) option" where
  "ScopedLock_new lk l = (case lk l of None \<Rightarrow> None | Some l \<Rightarrow> Some (True, l))"

definition ScopedLock_lock :: "('l \<Rightarrow> 'l option) \<Rightarrow> guard \<times> 'l \<Rightarrow> (guard \<times> 'l) option" where
  "ScopedLock_lock lk st = (case st of (locked, l) \<Rightarrow>
     if \<not> locked then (case lk l of None \<Rightarrow> None | Some l \<Rightarrow> Some (True, l)) else Some (locked, l))"

definition ScopedLock_unlock :: "('l \<Rightarrow> 'l) \<Rightarrow> guard \<times> 'l \<Rightarrow> guard \<times> 'l" where
  "ScopedLock_unlock un st = (case st of (locked, l) \<Rightarrow> if locked then (False, un l) else (locked, l))"

definition ScopedLock_dtor :: "('l \<Rightarrow> 'l) \<Rightarrow> guard \<times> 'l \<Rightarrow> 'l" where
  "ScopedLock_dtor un st = snd (ScopedLock_unlock un st)"

definition ReadScopedLock_new :: "RWMutex \<Rightarrow> (guard \<times> RWMutex) option" where
  "ReadScopedLock_new = ScopedLock_new rdlock"

definition ReadScopedLock_lock :: "guard \<times> RWMutex \<Rightarrow> (guard \<times> RWMutex) option" where
  "ReadScopedLock_lock = ScopedLock_lock rdlock"

definition ReadScopedLock_unlock :: "guard \<times> RWMutex \<Rightarrow> guard \<times> RWMutex" where
  "ReadScopedLock_unlock = ScopedLock_unlock RWMutex_unlock"

definition WriteScopedLock_new :: "RWMutex \<Rightarrow> (guard \<times> RWMutex) option" where
  "WriteScopedLock_new = ScopedLock_new wrlock"

definition WriteScopedLock_lock :: "guard \<times> RWMutex \<Rightarrow> (guard \<times> RWMutex) option" where
  "WriteScopedLock_lock = ScopedLock_lock wrlock"

definition WriteScopedLock_unlock :: "guard \<times> RWMutex \<Rightarrow> guard \<times> RWMutex" where
  "WriteScopedLock_unlock = ScopedLock_unlock RWMutex_unlock"

text \<open>Guards of several threads on one lock; a place without a guard is \<open>None\<close>. A guard is for writing (exclusive) or for reading.\<close>

inductive guard_step :: "(bool \<Rightarrow> 'l \<Rightarrow> 'l option) \<Rightarrow> ('l \<Rightarrow> 'l) \<Rightarrow> 'l \<times> (bool \<times> guard) option list \<Rightarrow> 'l \<times> (bool \<times> guard) option list \<Rightarrow> bool" for lk un where
  construct: "i < length gs \<Longrightarrow> gs ! i = None \<Longrightarrow> ScopedLock_new (lk w) l = Some (g, l') \<Longrightarrow> guard_step lk un (l, gs) (l', gs[i := Some (w, g)])"
| lock: "i < length gs \<Longrightarrow> gs ! i = Some (w, g) \<Longrightarrow> ScopedLock_lock (lk w) (g, l) = Some (g', l') \<Longrightarrow> guard_step lk un (l, gs) (l', gs[i := Some (w, g')])"
| unlock: "i < length gs \<Longrightarrow> gs ! i = Some (w, g) \<Longrightarrow> ScopedLock_unlock un (g, l) = (g', l') \<Longrightarrow> guard_step lk un (l, gs) (l', gs[i := Some (w, g')])"
| destroy: "i < length gs \<Longrightarrow> gs ! i = Some (w, g) \<Longrightarrow> ScopedLock_dtor un (g, l) = l' \<Longrightarrow> guard_step lk un (l, gs) (l', gs[i := None])"

inductive guard_reach :: "(bool \<Rightarrow> 'l \<Rightarrow> 'l option) \<Rightarrow> ('l \<Rightarrow> 'l) \<Rightarrow> 'l \<Rightarrow> nat \<Rightarrow> 'l \<times> (bool \<times> guard) option list \<Rightarrow> bool" for lk un l0 n where
  init: "guard_reach lk un l0 n (l0, replicate n None)"
| step: "guard_reach lk un l0 n st \<Longrightarrow> guard_step lk un st st' \<Longrightarrow> guard_reach lk un l0 n st'"

definition holding :: "bool \<Rightarrow> (bool \<times> guard) option list \<Rightarrow> nat" where
  "holding w gs = sum_list (map (\<lambda>g. if g = Some (w, True) then 1 else 0) gs)"

text \<open>At most one exclusive guard holds the lock, and then no other does.\<close>

definition excludes :: "(bool \<times> guard) option list \<Rightarrow> bool" where
  "excludes gs \<longleftrightarrow> holding True gs = 0 \<or> holding True gs = 1 \<and> holding False gs = 0"

subsection \<open>The contract of a lock\<close>

text \<open>A lock knows its readers and writers: it admits a writer only when nobody holds it and a reader only when there is no writer, and
  an unlock removes one holder.\<close>

locale lock_impl =
  fixes lk :: "bool \<Rightarrow> 'l \<Rightarrow> 'l option" and un :: "'l \<Rightarrow> 'l" and free :: 'l and readers :: "'l \<Rightarrow> nat" and writer :: "'l \<Rightarrow> bool"
  assumes free: "readers free = 0" "\<not> writer free"
    and write_admitted: "lk True l = Some l' \<Longrightarrow> readers l = 0 \<and> \<not> writer l \<and> readers l' = 0 \<and> writer l'"
    and read_admitted: "lk False l = Some l' \<Longrightarrow> \<not> writer l \<and> readers l' = Suc (readers l) \<and> \<not> writer l'"
    and write_released: "writer l \<Longrightarrow> readers l = 0 \<Longrightarrow> \<not> writer (un l) \<and> readers (un l) = 0"
    and read_released: "\<not> writer l \<Longrightarrow> 0 < readers l \<Longrightarrow> \<not> writer (un l) \<and> readers (un l) = readers l - 1"
    and free_admits: "readers l = 0 \<Longrightarrow> \<not> writer l \<Longrightarrow> \<exists>l'. lk True l = Some l'"

lemma holding_update:
  "i < length gs \<Longrightarrow> holding w (gs[i := g]) + (if gs ! i = Some (w, True) then 1 else 0) = holding w gs + (if g = Some (w, True) then 1 else 0)"
  unfolding holding_def by (rule sum_list_map_update)

lemma holding_pos: "i < length gs \<Longrightarrow> gs ! i = Some (w, True) \<Longrightarrow> 0 < holding w gs"
  using holding_update [of i gs w None] by simp

context lock_impl begin

definition counts :: "'l \<times> (bool \<times> guard) option list \<Rightarrow> bool" where
  "counts st \<longleftrightarrow> readers (fst st) = holding False (snd st) \<and> holding True (snd st) = (if writer (fst st) then 1 else 0) \<and> (writer (fst st) \<longrightarrow> readers (fst st) = 0)"

lemma acquired:
  assumes "counts (l, gs)" and "i < length gs" and "gs ! i \<noteq> Some (w, True)" and "gs ! i = None \<or> (\<exists>g. gs ! i = Some (w, g))" and "lk w l = Some l'"
  shows "counts (l', gs[i := Some (w, True)])"
proof -
  have n: "gs ! i \<noteq> Some (v, True)" for v using assms(3,4) by auto
  note u = holding_update [OF assms(2), of True "Some (w, True)"] holding_update [OF assms(2), of False "Some (w, True)"]
  show ?thesis
  proof (cases w)
    case True
    then show ?thesis using assms(1) write_admitted [of l l'] assms(5) u n by (auto simp: counts_def split: if_splits)
  next
    case False
    then show ?thesis using assms(1) read_admitted [of l l'] assms(5) u n by (auto simp: counts_def split: if_splits)
  qed
qed

lemma released:
  assumes "counts (l, gs)" and "i < length gs" and "gs ! i = Some (w, True)" and "g = None \<or> g = Some (w, False)"
  shows "counts (un l, gs[i := g])"
proof -
  note u = holding_update [OF assms(2), of True g] holding_update [OF assms(2), of False g]
  have p: "0 < holding w gs" by (rule holding_pos [OF assms(2,3)])
  show ?thesis
  proof (cases w)
    case True
    then have "writer l" "readers l = 0" using p assms(1) by (auto simp: counts_def split: if_splits)
    then show ?thesis using write_released [of l] assms True u by (auto simp: counts_def split: if_splits)
  next
    case False
    then have "\<not> writer l" "0 < readers l" using p assms(1) by (auto simp: counts_def split: if_splits)
    then show ?thesis using read_released [of l] assms False u by (auto simp: counts_def split: if_splits)
  qed
qed

lemma unchanged: "counts (l, gs) \<Longrightarrow> i < length gs \<Longrightarrow> \<forall>w. (gs ! i = Some (w, True)) = (g = Some (w, True)) \<Longrightarrow> counts (l, gs[i := g])"
  using holding_update [of i gs True g] holding_update [of i gs False g] by (auto simp: counts_def split: if_splits)

lemma step_counts: "guard_step lk un st st' \<Longrightarrow> counts st \<Longrightarrow> counts st'"
proof (induction rule: guard_step.induct)
  case (construct i gs w l g l')
  then show ?case using acquired [of l gs i w l'] by (auto simp: ScopedLock_new_def split: option.splits)
next
  case (lock i gs w g l g' l')
  show ?case
  proof (cases g)
    case True
    then show ?thesis using lock unchanged by (simp add: ScopedLock_lock_def)
  next
    case False
    then show ?thesis using lock acquired [of l gs i w l'] by (auto simp: ScopedLock_lock_def split: option.splits)
  qed
next
  case (unlock i gs w g l g' l')
  then show ?case using released [of l gs i w "Some (w, False)"] unchanged [of l gs i "Some (w, False)"]
    by (cases g) (auto simp: ScopedLock_unlock_def)
next
  case (destroy i gs w g l l')
  then show ?case using released [of l gs i w None] unchanged [of l gs i None] by (cases g) (auto simp: ScopedLock_dtor_def ScopedLock_unlock_def)
qed

lemma reach_counts: "guard_reach lk un free n st \<Longrightarrow> counts st"
proof (induction rule: guard_reach.induct)
  case init
  have "holding w (replicate n None) = 0" for w by (induction n) (simp_all add: holding_def)
  then show ?case using free by (simp add: counts_def)
qed (rule step_counts)

lemma guards_exclude: "guard_reach lk un free n st \<Longrightarrow> excludes (snd st)"
  by (drule reach_counts) (auto simp: counts_def excludes_def)

lemma guards_free: "guard_reach lk un free n (l, gs) \<Longrightarrow> holding True gs = 0 \<Longrightarrow> holding False gs = 0 \<Longrightarrow> \<exists>l'. ScopedLock_new (lk True) l = Some (True, l')"
  using free_admits [of l] by (drule_tac reach_counts) (auto simp: counts_def ScopedLock_new_def split: if_splits)

end

text \<open>The locks of the code: the ones with only \<open>lock\<close> have no readers.\<close>

definition exclusive :: "('l \<Rightarrow> 'l option) \<Rightarrow> bool \<Rightarrow> 'l \<Rightarrow> 'l option" where
  "exclusive lk w l = (if w then lk l else None)"

definition rw_lock :: "bool \<Rightarrow> RWMutex \<Rightarrow> RWMutex option" where
  "rw_lock w = (if w then wrlock else rdlock)"

interpretation mutex: lock_impl "exclusive Mutex_lock" Mutex_unlock Mutex_new "\<lambda>_. 0" id
  by unfold_locales (auto simp: exclusive_def Mutex_lock_def Mutex_unlock_def Mutex_new_def split: if_splits)

interpretation spin: lock_impl "exclusive Spinlock_lock" Spinlock_unlock Spinlock_new "\<lambda>_. 0" id
  by unfold_locales (auto simp: exclusive_def Spinlock_lock_def Spinlock_unlock_def Spinlock_new_def split: if_splits)

interpretation cas: lock_impl "exclusive CASLock_lock" CASLock_unlock CASLock_new "\<lambda>_. 0" id
  by unfold_locales (auto simp: exclusive_def CASLock_lock_def test_and_set_def CASLock_unlock_def CASLock_new_def split: if_splits bool.splits)

interpretation rw: lock_impl rw_lock RWMutex_unlock RWMutex_new rw_readers rw_writer
  by unfold_locales (auto simp: rw_lock_def rdlock_def wrlock_def RWMutex_unlock_def RWMutex_new_def split: if_splits)

text \<open>C11. However guards on one lock are constructed, locked, unlocked and destroyed by any number of threads, at most one exclusive
  guard holds the lock and then no reader does, for each of the four kinds of lock; and when no guard holds it the next
  exclusive guard is constructed without waiting, so that no guard leaves the lock behind.\<close>

theorem lock_guards_exclude:
  "(guard_reach (exclusive Mutex_lock) Mutex_unlock Mutex_new n (a, gs) \<longrightarrow>
      excludes gs \<and> (holding True gs = 0 \<and> holding False gs = 0 \<longrightarrow> (\<exists>l. ScopedLock_new Mutex_lock a = Some (True, l)))) \<and>
   (guard_reach (exclusive Spinlock_lock) Spinlock_unlock Spinlock_new n (b, gs) \<longrightarrow>
      excludes gs \<and> (holding True gs = 0 \<and> holding False gs = 0 \<longrightarrow> (\<exists>l. ScopedLock_new Spinlock_lock b = Some (True, l)))) \<and>
   (guard_reach (exclusive CASLock_lock) CASLock_unlock CASLock_new n (c, gs) \<longrightarrow>
      excludes gs \<and> (holding True gs = 0 \<and> holding False gs = 0 \<longrightarrow> (\<exists>l. ScopedLock_new CASLock_lock c = Some (True, l)))) \<and>
   (guard_reach rw_lock RWMutex_unlock RWMutex_new n (d, gs) \<longrightarrow>
      excludes gs \<and> (holding True gs = 0 \<and> holding False gs = 0 \<longrightarrow> (\<exists>l. WriteScopedLock_new d = Some (True, l))))"
proof -
  have [simp]: "exclusive lk True = lk" for lk :: "'l \<Rightarrow> 'l option" by (simp add: exclusive_def fun_eq_iff)
  have [simp]: "rw_lock True = wrlock" by (simp add: rw_lock_def)
  show ?thesis
    using mutex.guards_exclude [of n "(a, gs)"] mutex.guards_free [of n a gs]
      spin.guards_exclude [of n "(b, gs)"] spin.guards_free [of n b gs]
      cas.guards_exclude [of n "(c, gs)"] cas.guards_free [of n c gs]
      rw.guards_exclude [of n "(d, gs)"] rw.guards_free [of n d gs]
    by (simp add: WriteScopedLock_new_def)
qed

text \<open>Two readers hold the lock together and a writer has to wait for them.\<close>

lemma two_readers: "guard_reach rw_lock RWMutex_unlock RWMutex_new 3 (\<lparr>rw_readers = 2, rw_writer = False\<rparr>, [Some (False, True), Some (False, True), None])"
proof -
  have "guard_reach rw_lock RWMutex_unlock RWMutex_new 3 (RWMutex_new, [None, None, None])"
    using guard_reach.init [of rw_lock RWMutex_unlock RWMutex_new 3] by (simp add: numeral_3_eq_3)
  then have "guard_reach rw_lock RWMutex_unlock RWMutex_new 3 (\<lparr>rw_readers = 1, rw_writer = False\<rparr>, [Some (False, True), None, None])"
    by (rule guard_reach.step) (use guard_step.construct [of 0 "[None, None, None]" rw_lock False RWMutex_new True] in
      \<open>simp add: rw_lock_def ScopedLock_new_def rdlock_def RWMutex_new_def\<close>)
  then show ?thesis
    by (rule guard_reach.step) (use guard_step.construct [of 1 "[Some (False, True), None, None]" rw_lock False "\<lparr>rw_readers = 1, rw_writer = False\<rparr>" True] in
      \<open>simp add: rw_lock_def ScopedLock_new_def rdlock_def\<close>)
qed

theorem lock_guards_exclude_witness:
  "guard_reach rw_lock RWMutex_unlock RWMutex_new 3 (\<lparr>rw_readers = 2, rw_writer = False\<rparr>, [Some (False, True), Some (False, True), None]) \<and>
   excludes [Some (False, True), Some (False, True), None] \<and> WriteScopedLock_new \<lparr>rw_readers = 2, rw_writer = False\<rparr> = None"
  using lock_guards_exclude [of 3 False "[Some (False, True), Some (False, True), None]" False False "\<lparr>rw_readers = 2, rw_writer = False\<rparr>"] two_readers
  by (simp add: WriteScopedLock_new_def ScopedLock_new_def wrlock_def)
subsection \<open>Semaphores\<close>

text \<open>\<open>sem_wait\<close> fails when a signal interrupts it while it waits, \<open>sem_post\<close> and \<open>sem_init\<close> when the count gets too large.\<close>

datatype thread_error = Sem_init_error | Sem_wait_error | Sem_post_error | Join_error

type_synonym Semaphore = nat

definition SEM_VALUE_MAX :: nat where "SEM_VALUE_MAX = 2147483647"

definition Semaphore_new :: "u32 \<Rightarrow> thread_error + Semaphore" where
  "Semaphore_new count = (if unat count > SEM_VALUE_MAX then Inl Sem_init_error else Inr (unat count))"

definition Semaphore_wait :: "bool \<Rightarrow> Semaphore \<Rightarrow> (thread_error + Semaphore) option" where
  "Semaphore_wait interrupted s = (if 0 < s then Some (Inr (s - 1)) else if interrupted then Some (Inl Sem_wait_error) else None)"

definition Semaphore_notify :: "Semaphore \<Rightarrow> thread_error + Semaphore" where
  "Semaphore_notify s = (if s \<ge> SEM_VALUE_MAX then Inl Sem_post_error else Inr (s + 1))"

subsection \<open>Threads\<close>

text \<open>\<open>m_cb\<close> is \<open>None\<close> when the function object is empty.\<close>

record 'cb Thread =
  th_id :: int
  th_thread :: nat
  th_cb :: "'cb option"
  th_name :: string
  th_semaphore :: Semaphore

text \<open>The members before \<open>pthread_create\<close>, and \<open>s_thread_count\<close>.\<close>

definition Thread_members :: "'cb option \<Rightarrow> string \<Rightarrow> u64 \<Rightarrow> 'cb Thread \<times> u64" where
  "Thread_members cb name s_thread_count = (let s_thread_count = s_thread_count + 1 in
     (\<lparr>th_id = 1, th_thread = 0, th_cb = cb, th_name = (if name = [] then ''UNKNOWN'' else name @ dec (unat s_thread_count)), th_semaphore = 0\<rparr>,
      s_thread_count))"

definition Thread_join :: "int \<Rightarrow> 'cb Thread \<Rightarrow> thread_error + 'cb Thread" where
  "Thread_join rt t = (if th_thread t \<noteq> 0 then if rt \<noteq> 0 then Inl Join_error else Inr (t\<lparr>th_thread := 0\<rparr>) else Inr t)"

text \<open>Whether the thread is detached, and the counter.\<close>

definition Thread_dtor :: "'cb Thread \<Rightarrow> u64 \<Rightarrow> bool \<times> u64" where
  "Thread_dtor t s_thread_count = (if th_thread t \<noteq> 0 then (True, s_thread_count - 1) else (False, s_thread_count))"

text \<open>The constructing thread, the new thread and what they share. The object is \<open>None\<close> once its memory is given back: after the
  destructor, or when the constructor throws. \<open>Dangling\<close> is the new thread using it after that.\<close>

datatype parent_pc = Creating | Waiting | Constructed | Threw | Destroyed

datatype 'cb child_pc = Absent | Locals | SetId | SetKernelName | Swap | Notify "'cb option" | Call "'cb option" | Returned | Aborted | Dangling

record 'cb startup =
  su_thread :: "'cb Thread option"
  su_parent :: parent_pc
  su_child :: "'cb child_pc"
  su_t_thread :: bool
  su_t_name :: string
  su_kernel_name :: string
  su_calls :: "'cb list"

definition startup :: "'cb option \<Rightarrow> string \<Rightarrow> u64 \<Rightarrow> 'cb startup" where
  "startup cb name n = \<lparr>su_thread = Some (fst (Thread_members cb name n)), su_parent = Creating, su_child = Absent, su_t_thread = False,
     su_t_name = ''main-thread'', su_kernel_name = [], su_calls = []\<rparr>"

text \<open>\<open>Thread::run\<close>, one step at a time; calling an empty function throws, which ends the program.\<close>

definition with_thread :: "'cb startup \<Rightarrow> ('cb Thread \<Rightarrow> 'cb startup) \<Rightarrow> 'cb startup" where
  "with_thread w f = (case su_thread w of None \<Rightarrow> w\<lparr>su_child := Dangling\<rparr> | Some t \<Rightarrow> f t)"

definition run_step :: "int \<Rightarrow> 'cb startup \<Rightarrow> 'cb startup option" where
  "run_step tid w = (case su_child w of
     Locals \<Rightarrow> Some (with_thread w (\<lambda>t. w\<lparr>su_t_thread := True, su_t_name := th_name t, su_child := SetId\<rparr>))
   | SetId \<Rightarrow> Some (with_thread w (\<lambda>t. w\<lparr>su_thread := Some (t\<lparr>th_id := tid\<rparr>), su_child := SetKernelName\<rparr>))
   | SetKernelName \<Rightarrow> Some (with_thread w (\<lambda>t. w\<lparr>su_kernel_name := c_str (take 15 (th_name t)), su_child := Swap\<rparr>))
   | Swap \<Rightarrow> Some (with_thread w (\<lambda>t. w\<lparr>su_thread := Some (t\<lparr>th_cb := None\<rparr>), su_child := Notify (th_cb t)\<rparr>))
   | Notify cb \<Rightarrow> Some (with_thread w (\<lambda>t. case Semaphore_notify (th_semaphore t) of
        Inl _ \<Rightarrow> w\<lparr>su_child := Aborted\<rparr>
      | Inr s \<Rightarrow> w\<lparr>su_thread := Some (t\<lparr>th_semaphore := s\<rparr>), su_child := Call cb\<rparr>))
   | Call cb \<Rightarrow> Some (case cb of None \<Rightarrow> w\<lparr>su_child := Aborted\<rparr> | Some f \<Rightarrow> w\<lparr>su_calls := su_calls w @ [f], su_child := Returned\<rparr>)
   | _ \<Rightarrow> None)"

inductive start_step :: "int \<Rightarrow> bool \<Rightarrow> 'cb startup \<Rightarrow> 'cb startup \<Rightarrow> bool" for tid signals where
  create: "su_parent w = Creating \<Longrightarrow> su_child w = Absent \<Longrightarrow> su_thread w = Some t \<Longrightarrow> h \<noteq> 0 \<Longrightarrow>
    start_step tid signals w (w\<lparr>su_thread := Some (t\<lparr>th_thread := h\<rparr>), su_parent := Waiting, su_child := Locals\<rparr>)"
| create_fails: "su_parent w = Creating \<Longrightarrow> start_step tid signals w (w\<lparr>su_thread := None, su_parent := Threw\<rparr>)"
| wait: "su_parent w = Waiting \<Longrightarrow> su_thread w = Some t \<Longrightarrow> Semaphore_wait i (th_semaphore t) = Some (Inr s) \<Longrightarrow>
    start_step tid signals w (w\<lparr>su_thread := Some (t\<lparr>th_semaphore := s\<rparr>), su_parent := Constructed\<rparr>)"
| wait_fails: "signals \<Longrightarrow> su_parent w = Waiting \<Longrightarrow> su_thread w = Some t \<Longrightarrow> Semaphore_wait True (th_semaphore t) = Some (Inl e) \<Longrightarrow>
    start_step tid signals w (w\<lparr>su_thread := None, su_parent := Threw\<rparr>)"
| run: "run_step tid w = Some w' \<Longrightarrow> start_step tid signals w w'"
| join: "su_parent w = Constructed \<Longrightarrow> su_child w = Returned \<Longrightarrow> su_thread w = Some t \<Longrightarrow> th_thread t \<noteq> 0 \<Longrightarrow> Thread_join 0 t = Inr t' \<Longrightarrow>
    start_step tid signals w (w\<lparr>su_thread := Some t'\<rparr>)"
| destroy: "su_parent w = Constructed \<Longrightarrow> start_step tid signals w (w\<lparr>su_thread := None, su_parent := Destroyed\<rparr>)"

inductive start_reach :: "int \<Rightarrow> bool \<Rightarrow> 'cb startup \<Rightarrow> 'cb startup \<Rightarrow> bool" for tid signals w0 where
  init: "start_reach tid signals w0 w0"
| step: "start_reach tid signals w0 w \<Longrightarrow> start_step tid signals w w' \<Longrightarrow> start_reach tid signals w0 w'"

text \<open>\<open>SetName\<close> on the new thread: \<open>None\<close> is the use of a destroyed object.\<close>

definition SetName :: "string \<Rightarrow> 'cb startup \<Rightarrow> 'cb startup option" where
  "SetName name w = (if su_t_thread w then (case su_thread w of None \<Rightarrow> None | Some t \<Rightarrow> Some (w\<lparr>su_thread := Some (t\<lparr>th_name := name\<rparr>), su_t_name := name\<rparr>))
     else Some (w\<lparr>su_t_name := name\<rparr>))"

text \<open>How far the new thread is, and an upper bound of the steps that are left.\<close>

fun phase :: "'cb child_pc \<Rightarrow> nat" where
  "phase Absent = 0"
| "phase Locals = 1"
| "phase SetId = 2"
| "phase SetKernelName = 3"
| "phase Swap = 4"
| "phase (Notify _) = 5"
| "phase (Call _) = 6"
| "phase _ = 7"

fun parent_left :: "parent_pc \<Rightarrow> nat" where
  "parent_left Creating = 3"
| "parent_left Waiting = 2"
| "parent_left Constructed = 1"
| "parent_left _ = 0"

definition steps_left :: "'cb startup \<Rightarrow> nat" where
  "steps_left w = 7 - phase (su_child w) + parent_left (su_parent w) + (case su_thread w of None \<Rightarrow> 0 | Some t \<Rightarrow> if th_thread t = 0 then 0 else 1)"

lemma run_step_left: "run_step tid w = Some w' \<Longrightarrow> steps_left w' < steps_left w"
  by (cases "su_child w"; cases "su_thread w")
    (auto simp: run_step_def with_thread_def steps_left_def split: option.splits sum.splits)

lemma start_step_left: "start_step tid signals w w' \<Longrightarrow> steps_left w' < steps_left w"
proof (induction rule: start_step.induct)
  case (run w w')
  then show ?case by (rule run_step_left)
qed (auto simp: steps_left_def Thread_join_def split: option.splits if_splits)

definition start_inv :: "int \<Rightarrow> 'cb option \<Rightarrow> string \<Rightarrow> 'cb startup \<Rightarrow> bool" where
  "start_inv tid cb nm w \<longleftrightarrow> (let k = phase (su_child w) in
     su_child w \<noteq> Dangling \<and> (k \<ge> 2 \<longrightarrow> su_t_thread w \<and> su_t_name w = nm) \<and> (k \<ge> 4 \<longrightarrow> su_kernel_name w = c_str (take 15 nm)) \<and>
     (\<forall>c. su_child w = Notify c \<or> su_child w = Call c \<longrightarrow> c = cb) \<and> (su_child w = Aborted \<longrightarrow> cb = None) \<and>
     (if su_child w = Returned then \<exists>f. cb = Some f \<and> su_calls w = [f] else su_calls w = []) \<and>
     (su_parent w \<in> {Creating, Threw} \<longleftrightarrow> su_child w = Absent) \<and>
     (su_parent w \<in> {Constructed, Destroyed} \<longrightarrow> k \<ge> 6) \<and>
     (su_parent w \<in> {Creating, Waiting, Constructed} \<longrightarrow> (\<exists>t. su_thread w = Some t \<and> th_name t = nm \<and> (k \<ge> 3 \<longrightarrow> th_id t = tid) \<and>
        th_cb t = (if k \<ge> 5 then None else cb) \<and> th_semaphore t = (if su_parent w = Waiting \<and> k \<ge> 6 then 1 else 0))))"

lemma start_inv_run: "run_step tid w = Some w' \<Longrightarrow> start_inv tid cb nm w \<Longrightarrow> start_inv tid cb nm w'"
proof -
  assume inv: "start_inv tid cb nm w" and "run_step tid w = Some w'"
  then have w': "w' = the (run_step tid w)" and c: "su_child w \<notin> {Absent, Returned, Aborted, Dangling}"
    by (auto simp: run_step_def)
  show ?thesis
    unfolding w' using inv c
    by (cases "su_child w"; cases "su_parent w"; cases "su_thread w"; cases cb)
      (simp_all add: run_step_def with_thread_def start_inv_def Let_def Semaphore_notify_def SEM_VALUE_MAX_def)
qed

lemma start_inv_constructed:
  assumes "start_inv tid cb nm w" and "su_parent w = Constructed"
  shows "\<exists>t. su_thread w = Some t \<and> th_id t = tid \<and> th_cb t = None \<and> th_name t = nm \<and> su_t_thread w \<and> su_t_name w = th_name t \<and> su_kernel_name w = c_str (take 15 (th_name t))"
proof -
  have "phase (su_child w) \<ge> 6" using assms by (simp add: start_inv_def Let_def)
  then show ?thesis using assms by (cases "su_child w") (auto simp: start_inv_def Let_def)
qed

lemma start_inv_step: "start_step tid False w w' \<Longrightarrow> start_inv tid cb nm w \<Longrightarrow> start_inv tid cb nm w'"
proof (induction rule: start_step.induct)
  case (run w w')
  then show ?case by (blast intro: start_inv_run)
next
  case (wait w t i s)
  then show ?case by (cases "su_child w") (auto simp: start_inv_def Let_def Semaphore_wait_def split: if_splits)
qed (auto simp: start_inv_def Let_def Thread_join_def split: if_splits)

lemma start_inv_reach:
  assumes "start_reach tid False (startup cb name n) w"
  shows "start_inv tid cb (th_name (fst (Thread_members cb name n))) w"
  using assms
proof (induction rule: start_reach.induct)
  case init
  show ?case by (simp add: start_inv_def startup_def Thread_members_def Let_def)
qed (rule start_inv_step)

lemma start_progress:
  assumes "start_inv tid cb nm w" and "su_parent w = Creating \<or> su_parent w = Waiting"
  shows "\<exists>w'. start_step tid signals w w'"
  using assms(2)
proof
  assume "su_parent w = Creating"
  then show ?thesis by (blast intro: start_step.create_fails)
next
  assume p: "su_parent w = Waiting"
  with assms(1) obtain t where t: "su_thread w = Some t" and s: "phase (su_child w) \<ge> 6 \<longrightarrow> th_semaphore t = 1" and a: "su_child w \<noteq> Absent"
    by (auto simp: start_inv_def Let_def)
  show ?thesis
  proof (cases "phase (su_child w) \<ge> 6")
    case True
    then have "Semaphore_wait False (th_semaphore t) = Some (Inr 0)" using s by (simp add: Semaphore_wait_def)
    then show ?thesis using start_step.wait [OF p t] by blast
  next
    case False
    then have "\<exists>w'. run_step tid w = Some w'" using a by (cases "su_child w") (auto simp: run_step_def)
    then show ?thesis by (blast intro: start_step.run)
  qed
qed

text \<open>C12. Starting a thread, as long as no signal interrupts the wait: in every interleaving the new thread never uses the object after
  it is gone; when the constructor returns, the object has its identifier and name and no callback any more, and the thread-local
  pointer and name and the name of the thread in the kernel are set; the callback is called at most once, by the thread after that; and the
  constructor does return or throw, since it can always go on and no run takes more than ten steps.\<close>

theorem thread_start:
  assumes "start_reach tid False (startup cb name n) w"
  shows "su_child w \<noteq> Dangling \<and>
    (su_parent w = Constructed \<longrightarrow> (\<exists>t. su_thread w = Some t \<and> th_id t = tid \<and> th_cb t = None \<and>
       th_name t = (if name = [] then ''UNKNOWN'' else name @ dec (unat (n + 1))) \<and>
       su_t_thread w \<and> su_t_name w = th_name t \<and> su_kernel_name w = c_str (take 15 (th_name t)))) \<and>
    (su_calls w = [] \<or> (\<exists>f. cb = Some f \<and> su_calls w = [f] \<and> su_child w = Returned)) \<and>
    (su_parent w = Creating \<or> su_parent w = Waiting \<longrightarrow> (\<exists>w'. start_step tid False w w')) \<and>
    steps_left (startup cb name n) = 10 \<and> (\<forall>w'. start_step tid False w w' \<longrightarrow> steps_left w' < steps_left w)"
proof -
  note inv = start_inv_reach [OF assms]
  have nm: "th_name (fst (Thread_members cb name n)) = (if name = [] then ''UNKNOWN'' else name @ dec (unat (n + 1)))"
    by (simp add: Thread_members_def Let_def)
  have A: "su_parent w = Constructed \<longrightarrow> (\<exists>t. su_thread w = Some t \<and> th_id t = tid \<and> th_cb t = None \<and>
       th_name t = th_name (fst (Thread_members cb name n)) \<and> su_t_thread w \<and> su_t_name w = th_name t \<and> su_kernel_name w = c_str (take 15 (th_name t)))"
    using start_inv_constructed [OF inv] by blast
  have B: "steps_left (startup cb name n) = 10" by (simp add: steps_left_def startup_def Thread_members_def Let_def)
  have C: "su_child w \<noteq> Dangling" "(su_calls w = [] \<or> (\<exists>f. cb = Some f \<and> su_calls w = [f] \<and> su_child w = Returned))"
    using inv by (auto simp: start_inv_def Let_def split: if_splits)
  have D: "su_parent w = Creating \<or> su_parent w = Waiting \<longrightarrow> (\<exists>w'. start_step tid False w w')" using start_progress [OF inv] by blast
  have E: "\<forall>w'. start_step tid False w w' \<longrightarrow> steps_left w' < steps_left w" using start_step_left by blast
  show ?thesis unfolding nm [symmetric] by (intro conjI A B C D E)
qed

text \<open>Runs of the new thread alone, to build interleavings from.\<close>

fun run_steps :: "int \<Rightarrow> nat \<Rightarrow> 'cb startup \<Rightarrow> 'cb startup option" where
  "run_steps tid 0 w = Some w"
| "run_steps tid (Suc k) w = Option.bind (run_step tid w) (run_steps tid k)"

lemma run_steps_reach: "start_reach tid signals w0 w \<Longrightarrow> run_steps tid k w = Some w' \<Longrightarrow> start_reach tid signals w0 w'"
  by (induction k arbitrary: w) (auto simp: Option.bind_eq_Some_conv intro: start_reach.step start_step.run)

definition created :: "'cb option \<Rightarrow> string \<Rightarrow> u64 \<Rightarrow> nat \<Rightarrow> 'cb startup" where
  "created cb name n h = (startup cb name n)\<lparr>su_thread := Some ((fst (Thread_members cb name n))\<lparr>th_thread := h\<rparr>), su_parent := Waiting, su_child := Locals\<rparr>"

lemma created_reach: "h \<noteq> 0 \<Longrightarrow> start_reach tid signals (startup cb name n) (created cb name n h)"
  unfolding created_def by (rule start_reach.step [OF start_reach.init start_step.create]) (simp_all add: startup_def)

lemmas run_step_simps = run_step_def with_thread_def created_def startup_def Thread_members_def Let_def Semaphore_notify_def SEM_VALUE_MAX_def

definition started :: "nat startup" where
  "started = \<lparr>su_thread = Some \<lparr>th_id = 5, th_thread = 9, th_cb = None, th_name = ''io1'', th_semaphore = 0\<rparr>, su_parent = Constructed, su_child = Call (Some 7),
     su_t_thread = True, su_t_name = ''io1'', su_kernel_name = ''io1'', su_calls = []\<rparr>"

lemma started_reach: "start_reach 5 False (startup (Some 7) ''io'' 0) started"
proof -
  let ?t = "\<lparr>th_id = 5, th_thread = 9, th_cb = None, th_name = ''io1'', th_semaphore = 1\<rparr>"
  let ?w = "started\<lparr>su_thread := Some ?t, su_parent := Waiting\<rparr>"
  have d: "dec (Suc 0) = ''1''" by code_simp
  have "run_steps 5 (Suc (Suc (Suc (Suc (Suc 0))))) (created (Some 7) ''io'' 0 9) = Some ?w"
    by (simp add: run_step_simps started_def d c_str_def)
  then have "start_reach 5 False (startup (Some 7) ''io'' 0) ?w" by (rule run_steps_reach [OF created_reach, rotated]) simp
  moreover have "start_step 5 False ?w (?w\<lparr>su_thread := Some (?t\<lparr>th_semaphore := 0\<rparr>), su_parent := Constructed\<rparr>)"
    by (rule start_step.wait [of _ _ False]) (simp_all add: Semaphore_wait_def)
  moreover have "?w\<lparr>su_thread := Some (?t\<lparr>th_semaphore := 0\<rparr>), su_parent := Constructed\<rparr> = started" by (simp add: started_def)
  ultimately show ?thesis by (metis start_reach.step)
qed

theorem thread_start_witness:
  "start_reach 5 False (startup (Some 7) ''io'' 0) started \<and> su_parent started = Constructed \<and> su_child started \<noteq> Dangling \<and> su_calls started = []"
  using thread_start [OF started_reach] started_reach by (simp add: started_def)

text \<open>When a signal interrupts the wait of the constructor it throws while the new thread is running: whatever the callback and the
  name, there is an interleaving in which the new thread then uses the object that is gone.\<close>

theorem thread_start_interrupted: "\<exists>w. start_reach tid True (startup cb name n) w \<and> su_parent w = Threw \<and> su_child w = Dangling"
proof -
  let ?c = "created cb name n 1"
  have "start_reach tid True (startup cb name n) ?c" by (rule created_reach) simp
  moreover have "start_step tid True ?c (?c\<lparr>su_thread := None, su_parent := Threw\<rparr>)"
    by (rule start_step.wait_fails [of _ _ "(fst (Thread_members cb name n))\<lparr>th_thread := 1\<rparr>" Sem_wait_error])
      (simp_all add: run_step_simps Semaphore_wait_def)
  ultimately have r: "start_reach tid True (startup cb name n) (?c\<lparr>su_thread := None, su_parent := Threw\<rparr>)" by (rule start_reach.step)
  have "run_steps tid (Suc 0) (?c\<lparr>su_thread := None, su_parent := Threw\<rparr>) = Some (?c\<lparr>su_thread := None, su_parent := Threw, su_child := Dangling\<rparr>)"
    by (simp add: run_step_simps)
  from run_steps_reach [OF r this] show ?thesis by (intro exI [of _ "?c\<lparr>su_thread := None, su_parent := Threw, su_child := Dangling\<rparr>"]) simp
qed

text \<open>The counter behind the names: a thread that is destroyed without a join gives its number back, so that a later thread can get
  the name of one that still runs; a thread that was joined does not, so that the counter is not the number of threads.\<close>

theorem thread_count:
  assumes "Thread_members cb name n = (t, n')" and "h \<noteq> 0"
  shows "Thread_dtor (t\<lparr>th_thread := h\<rparr>) n' = (True, n) \<and>
    (\<forall>t'. Thread_join 0 (t\<lparr>th_thread := h\<rparr>) = Inr t' \<longrightarrow> Thread_dtor t' n' = (False, n + 1)) \<and>
    fst (Thread_members cb' name (snd (Thread_dtor (t\<lparr>th_thread := h\<rparr>) n'))) = t\<lparr>th_cb := cb'\<rparr>"
  using assms by (auto simp: Thread_members_def Thread_dtor_def Thread_join_def Let_def)

theorem thread_count_witness:
  "Thread_dtor (fst (Thread_members (Some (3::nat)) ''io'' 4)\<lparr>th_thread := 9\<rparr>) 5 = (True, 4)"
  using thread_count [of "Some (3::nat)" "''io''" 4 "fst (Thread_members (Some (3::nat)) ''io'' 4)" 5 9 None] by (simp add: Thread_members_def Let_def)

text \<open>A detached thread keeps the pointer to its object: giving itself a name after the destructor uses memory that is gone.\<close>

lemma setName_after_destroy: "su_thread w = None \<Longrightarrow> (SetName name w = None) = su_t_thread w"
  by (simp add: SetName_def)

end
