(* ===== verification/Daemon.thy ===== *)
theory Daemon
  imports Util
begin

text \<open>
  \<open>include/sylar/daemon.hh\<close>, \<open>src/daemon.cc\<close>: running a program, directly or under a process that starts it again when it fails.

  \<open>fork\<close> returns twice; \<open>real_daemon\<close> is run on the results one process sees, one per round of its loop. A child sees the results of its
  parent up to the \<open>fork\<close> that made it, and then \<open>Child\<close>. The lists of results end where the observation ends, and the loop that still runs
  there is \<open>None\<close>. Log records are not part of the result.
\<close>

record ProcessInfo =
  parent_id :: int
  parent_start_time :: u64
  main_id :: int
  main_start_time :: u32
  restart_count :: u32

definition ProcessInfo_new :: ProcessInfo where
  "ProcessInfo_new = \<lparr>parent_id = 0, parent_start_time = 0, main_id = 0, main_start_time = 0, restart_count = 0\<rparr>"

definition show_pid :: "int \<Rightarrow> string" where
  "show_pid p = (if p < 0 then CHR ''-'' # dec (nat (- p)) else dec (nat p))"

definition ProcessInfo_toString :: "(string \<Rightarrow> u64 \<Rightarrow> string option) \<Rightarrow> ProcessInfo \<Rightarrow> fault + string" where
  "ProcessInfo_toString strftime i =
     bindE (Time2Str strftime (parent_start_time i) ''%Y-%m-%d %H:%M:%S'') (\<lambda>p.
     bindE (Time2Str strftime (ucast (main_start_time i)) ''%Y-%m-%d %H:%M:%S'') (\<lambda>m.
       Inr (''[ProcessInfo parent_id='' @ show_pid (parent_id i) @ '' main_id='' @ show_pid (main_id i) @
         '' parent_start_time='' @ p @ '' main_start_time='' @ m @ '' restart_count='' @ dec (unat (restart_count i)) @ '']'')))"

text \<open>What \<open>fork\<close> and \<open>waitpid\<close> give: in the child its identifier and the time; in the parent the identifier of the child and its status,
  \<open>None\<close> when \<open>waitpid\<close> is interrupted and stores nothing; or a failure.\<close>

datatype round = Child int u64 | Parent int "int option" | ForkFails

definition real_start :: "(ProcessInfo \<Rightarrow> int) \<Rightarrow> ProcessInfo \<Rightarrow> int" where
  "real_start main_cb i = main_cb i"

text \<open>The loop; the result has the return value, the final \<open>ProcessInfo\<close> and the seconds slept between rounds.\<close>

fun daemon_loop :: "(ProcessInfo \<Rightarrow> int) \<Rightarrow> u32 \<Rightarrow> round list \<Rightarrow> ProcessInfo \<Rightarrow> u32 list \<Rightarrow> (int \<times> ProcessInfo \<times> u32 list) option" where
  "daemon_loop main_cb interval [] i slept = None"
| "daemon_loop main_cb interval (Child pid now # rs) i slept =
     (let i = i\<lparr>main_id := pid, main_start_time := ucast now\<rparr> in Some (real_start main_cb i, i, slept))"
| "daemon_loop main_cb interval (Parent pid w # rs) i slept =
     (let status = (case w of None \<Rightarrow> 0 | Some s \<Rightarrow> s) in
      if status \<noteq> 0 then daemon_loop main_cb interval rs (i\<lparr>restart_count := restart_count i + 1\<rparr>) (slept @ [interval])
      else Some (0, i, slept))"
| "daemon_loop main_cb interval (ForkFails # rs) i slept = daemon_loop main_cb interval rs i slept"

text \<open>\<open>pid\<close> and \<open>now\<close> are \<open>getpid\<close> and \<open>time\<close> after \<open>daemon(1, 0)\<close>.\<close>

definition real_daemon :: "(ProcessInfo \<Rightarrow> int) \<Rightarrow> u32 \<Rightarrow> int \<Rightarrow> u64 \<Rightarrow> round list \<Rightarrow> ProcessInfo \<Rightarrow> (int \<times> ProcessInfo \<times> u32 list) option" where
  "real_daemon main_cb interval pid now rs i =
     daemon_loop main_cb interval rs (i\<lparr>parent_id := pid, parent_start_time := now\<rparr>) []"

definition start_daemon :: "(ProcessInfo \<Rightarrow> int) \<Rightarrow> u32 \<Rightarrow> int \<Rightarrow> u64 \<Rightarrow> bool \<Rightarrow> round list \<Rightarrow> ProcessInfo \<Rightarrow> (int \<times> ProcessInfo \<times> u32 list) option" where
  "start_daemon main_cb interval pid now is_daemon rs i =
     (if \<not> is_daemon then Some (real_start main_cb i, i, []) else real_daemon main_cb interval pid now rs i)"

subsection \<open>Restarting\<close>

lemma daemon_loop_crashes:
  "\<forall>r\<in>set rs. \<exists>pid s. r = Parent pid (Some s) \<and> s \<noteq> 0 \<Longrightarrow>
   daemon_loop main_cb interval (rs @ rest) i slept =
   daemon_loop main_cb interval rest (i\<lparr>restart_count := restart_count i + of_nat (length rs)\<rparr>) (slept @ replicate (length rs) interval)"
proof (induction rs arbitrary: i slept)
  case (Cons r rs)
  then obtain pid s where "r = Parent pid (Some s)" "s \<noteq> 0" by auto
  then show ?case using Cons by (simp add: replicate_append_same algebra_simps)
qed simp

lemma daemon_loop_fork_fails: "daemon_loop main_cb interval (replicate k ForkFails @ rest) i slept = daemon_loop main_cb interval rest i slept"
  by (induction k) simp_all

text \<open>C33. A program run as a daemon: after each run that ends with a status other than 0 the supervisor sleeps for the configured interval
  and starts it again, and the process it starts runs the callback with the number of restarts so far; it ends with 0 after the first run
  that ends with 0. A run that is not a daemon is the callback itself.\<close>

theorem daemon_restarts:
  assumes "\<forall>r\<in>set crashes. \<exists>pid s. r = Parent pid (Some s) \<and> s \<noteq> 0"
  shows "real_daemon main_cb interval pid now (crashes @ [Child child t]) i =
      (let j = i\<lparr>parent_id := pid, parent_start_time := now, restart_count := restart_count i + of_nat (length crashes),
          main_id := child, main_start_time := ucast t\<rparr> in Some (main_cb j, j, replicate (length crashes) interval)) \<and>
    real_daemon main_cb interval pid now (crashes @ [Parent child (Some 0)]) i =
      Some (0, i\<lparr>parent_id := pid, parent_start_time := now, restart_count := restart_count i + of_nat (length crashes)\<rparr>, replicate (length crashes) interval) \<and>
    real_daemon main_cb interval pid now crashes i = None \<and>
    start_daemon main_cb interval pid now False rs i = Some (main_cb i, i, [])"
  using daemon_loop_crashes [OF assms, of main_cb interval "[]"] daemon_loop_crashes [OF assms, of main_cb interval "[Child child t]"]
    daemon_loop_crashes [OF assms, of main_cb interval "[Parent child (Some 0)]"]
  by (simp add: real_daemon_def start_daemon_def real_start_def Let_def)

theorem daemon_restarts_witness:
  "real_daemon (\<lambda>i. uint (restart_count i)) 5 100 1000 ([Parent 101 (Some 11), Parent 102 (Some 256)] @ [Child 103 2000]) ProcessInfo_new =
     Some (2, \<lparr>parent_id = 100, parent_start_time = 1000, main_id = 103, main_start_time = 2000, restart_count = 2\<rparr>, [5, 5])"
  using daemon_restarts [of "[Parent 101 (Some 11), Parent 102 (Some 256)]" "\<lambda>i. uint (restart_count i)" 5 100 1000 103 2000 ProcessInfo_new]
  by (simp add: ProcessInfo_new_def Let_def)

text \<open>The supervisor takes an interrupted \<open>waitpid\<close> for a successful end: it stops supervising a program that still runs. And while
  \<open>fork\<close> fails it tries again at once, without a pause and without a limit.\<close>

theorem daemon_gives_up:
  "real_daemon main_cb interval pid now (Parent child None # rs) i = Some (0, i\<lparr>parent_id := pid, parent_start_time := now\<rparr>, []) \<and>
   real_daemon main_cb interval pid now (replicate k ForkFails) i = None \<and>
   real_daemon main_cb interval pid now (replicate k ForkFails @ rs) i = real_daemon main_cb interval pid now rs i"
  using daemon_loop_fork_fails [of main_cb interval k "[]"] by (simp add: real_daemon_def daemon_loop_fork_fails)

end
