(* ===== verification/Application.thy ===== *)
theory Application
  imports Daemon Config LogConfig HttpServer
begin

text \<open>
  \<open>include/sylar/application.hh\<close>, \<open>src/application.cc\<close>: the configuration of the HTTP servers, the start of the program and the servers
  it runs.

  \<open>init\<close> puts together the command line (Env), the configuration (Config), the file system (Util); \<open>run\<close> the supervisor
  (Daemon); \<open>run_fiber\<close> addresses (Address) and servers (TcpServer, HttpServer). The variables of the configuration have the values of the datatype
  \<open>app_value\<close>; they are compared as values, while \<open>operator==\<close> (\<open>conf_eq\<close>) ignores the timeout, which \<open>run_fiber\<close> does not use. Log records are not part of the results.
\<close>

record HttpServerConf =
  hc_address :: "string list"
  hc_keepalive :: int
  hc_timeout :: int
  hc_name :: string

definition HttpServerConf_new :: HttpServerConf where
  "HttpServerConf_new = \<lparr>hc_address = [], hc_keepalive = 0, hc_timeout = 1000 * 2 * 60, hc_name = []\<rparr>"

definition conf_isVaild :: "HttpServerConf \<Rightarrow> bool" where
  "conf_isVaild c \<longleftrightarrow> hc_address c \<noteq> []"

definition conf_eq :: "HttpServerConf \<Rightarrow> HttpServerConf \<Rightarrow> bool" where
  "conf_eq a b \<longleftrightarrow> hc_address a = hc_address b \<and> hc_keepalive a = hc_keepalive b \<and> hc_name a = hc_name b"

subsection \<open>Conversion\<close>

text \<open>\<open>as<int>\<close> and \<open>as<std::string>\<close> with a fallback; \<open>to_int\<close> is how the YAML library reads an integer from the text of a scalar.\<close>

fun int_or :: "(string \<Rightarrow> int option) \<Rightarrow> int \<Rightarrow> node option \<Rightarrow> int" where
  "int_or to_int dflt (Some (YScalar s)) = (case to_int s of None \<Rightarrow> dflt | Some i \<Rightarrow> i)"
| "int_or to_int dflt _ = dflt"

fun string_or :: "string \<Rightarrow> node option \<Rightarrow> string" where
  "string_or dflt (Some (YScalar s)) = s"
| "string_or dflt (Some YNull) = ''null''"
| "string_or dflt _ = dflt"

definition string2conf :: "yaml \<Rightarrow> (string \<Rightarrow> int option) \<Rightarrow> string \<Rightarrow> exn + HttpServerConf" where
  "string2conf y to_int v =
     bindE (y_load y v) (\<lambda>node.
     bindE (node_key ''keepalive'' node) (\<lambda>k.
     bindE (node_key ''timeout'' node) (\<lambda>t.
     bindE (node_key ''name'' node) (\<lambda>nm.
     bindE (node_key ''address'' node) (\<lambda>a.
     bindE (case a of None \<Rightarrow> Inr [] | Some as \<Rightarrow> mapE (\<lambda>i. bindE (node_at y as i) as_string) [0..<node_size as]) (\<lambda>address.
       Inr \<lparr>hc_address = address, hc_keepalive = int_or to_int (hc_keepalive HttpServerConf_new) k,
         hc_timeout = int_or to_int (hc_timeout HttpServerConf_new) t, hc_name = string_or (hc_name HttpServerConf_new) nm\<rparr>))))))"

definition conf_node :: "HttpServerConf \<Rightarrow> node" where
  "conf_node c = map_node ([(''name'', YScalar (hc_name c)), (''timeout'', YScalar (show_pid (hc_timeout c))), (''keepalive'', YScalar (show_pid (hc_keepalive c)))] @
     (if hc_address c = [] then [] else [(''address'', YSeq (map YScalar (hc_address c)))]))"

definition conf2string :: "yaml \<Rightarrow> HttpServerConf \<Rightarrow> string" where
  "conf2string y c = y_dump y (conf_node c)"

subsection \<open>Start\<close>

datatype app_value = StringValue string | ServersValue "HttpServerConf list" | OtherValue int

text \<open>What the program sees of its surroundings: \<open>sv_pidfile\<close> is whether a file exists and its first line, \<open>sv_alive\<close> is \<open>kill(pid, 0) == 0\<close>,
  \<open>sv_write\<close> opens and writes a file, \<open>None\<close> when it cannot be opened.\<close>

record 'fs surroundings =
  sv_yaml :: yaml
  sv_dir :: "string \<Rightarrow> dirent list option"
  sv_mtime :: "string \<Rightarrow> u64"
  sv_load_file :: "string \<Rightarrow> exn + node"
  sv_os :: "'fs os"
  sv_pidfile :: "string \<Rightarrow> 'fs \<Rightarrow> bool \<times> string option"
  sv_alive :: "int \<Rightarrow> bool"
  sv_write :: "string \<Rightarrow> string \<Rightarrow> 'fs \<Rightarrow> 'fs option"

record ('w, 'fs) app =
  ap_env :: Env
  ap_datas :: "(app_value, 'w) datas"
  ap_seen :: "string \<Rightarrow> u64"
  ap_world :: 'w
  ap_fs :: 'fs
  ap_out :: string

text \<open>\<open>g_server_work_path->getValue()\<close> and \<open>g_server_pid_file->getValue()\<close>.\<close>

definition string_value :: "string \<Rightarrow> (app_value, 'w) datas \<Rightarrow> string option" where
  "string_value name d = (case d name of Some cv \<Rightarrow> (case getValue cv of StringValue s \<Rightarrow> Some s | _ \<Rightarrow> None) | None \<Rightarrow> None)"

definition pid_file :: "(app_value, 'w) datas \<Rightarrow> (string \<times> string) option" where
  "pid_file d = (case (string_value ''server.work_path'' d, string_value ''server.pid_file'' d) of
     (Some p, Some f) \<Rightarrow> Some (p, p @ ''/'' @ f) | _ \<Rightarrow> None)"

definition add_helps :: "Env \<Rightarrow> Env" where
  "add_helps e = addHelp ''p'' ''print help'' (addHelp ''c'' ''conf path default: ../conf'' (addHelp ''d'' ''run as daemon'' (addHelp ''s'' ''start writh the terminal'' e)))"

text \<open>\<open>init\<close> behind the command line: the configuration, the process that may already run, the directory.\<close>

definition init_rest :: "'fs surroundings \<Rightarrow> ('w, 'fs) app \<Rightarrow> (bool, ('w, 'fs) app) outcome" where
  "init_rest sv a =
     (let conf_path = getAbsolutePath (env_get ''c'' ''../../../../../conf/'' (ap_env a)) (ap_env a) in
      case LoadFromConfDir (sv_yaml sv) (ap_env a) (sv_dir sv) (sv_mtime sv) (sv_load_file sv) conf_path (ap_seen a) (ap_datas a) (ap_world a) of
        Crash f \<Rightarrow> Crash f
      | Throw e (d, w) \<Rightarrow> Throw e (a\<lparr>ap_datas := d, ap_world := w\<rparr>)
      | Ok seen (d, w) \<Rightarrow>
          let a = a\<lparr>ap_seen := seen, ap_datas := d, ap_world := w\<rparr> in
          case pid_file d of
            None \<Rightarrow> Crash NullDeref
          | Some (work_path, pidfile) \<Rightarrow>
              (case sv_pidfile sv pidfile (ap_fs a) of (exists, line) \<Rightarrow>
                if ISRunningPidFile exists line (sv_alive sv) then Ok False a
                else case MKDir (sv_os sv) work_path (ap_fs a) of
                  Inl f \<Rightarrow> Crash f
                | Inr (made, fs) \<Rightarrow> Ok made (a\<lparr>ap_fs := fs\<rparr>)))"

definition app_init :: "'fs surroundings \<Rightarrow> string \<Rightarrow> string \<Rightarrow> string list \<Rightarrow> ('w, 'fs) app \<Rightarrow> (bool, ('w, 'fs) app) outcome" where
  "app_init sv exe program args a =
     (case env_init exe program args (add_helps (ap_env a)) of
        (False, out, e) \<Rightarrow> Ok False (a\<lparr>ap_env := e, ap_out := ap_out a @ out @ printHelp e\<rparr>)
      | (True, out, e) \<Rightarrow>
          let a = a\<lparr>ap_env := e, ap_out := ap_out a @ out\<rparr> in
          if env_has ''p'' e then Ok False (a\<lparr>ap_out := ap_out a @ printHelp e\<rparr>)
          else let run_type = (if env_has ''d'' e then 2 else if env_has ''s'' e then 1 else 0 :: nat) in
            if run_type = 0 then Ok False a else init_rest sv a)"
text \<open>\<open>run_fiber\<close>: the addresses a text of the configuration stands for. A path, an address that \<open>getaddrinfo\<close> knows, or the addresses of a
  network interface; pointers may be null.\<close>

definition listen_address :: "endian \<Rightarrow> getaddrinfo \<Rightarrow> ifaddr list option \<Rightarrow> string \<Rightarrow> (Address option list, unit) outcome" where
  "listen_address host gai ifs a = (case memchr (CHR '':'') a of
     None \<Rightarrow> (case UnixAddress_new a of Inl e \<Rightarrow> Throw e () | Inr addr \<Rightarrow> Ok [Some addr] ())
   | Some pos \<Rightarrow>
       let port = word_of_int (atoi (drop (pos + 1) a)) :: u16 in
       (case IPAddress_Create host gai (take pos a) port of
          Inl f \<Rightarrow> Crash f
        | Inr (Some addr) \<Rightarrow> Ok [Some addr] ()
        | Inr None \<Rightarrow> (case GetInterFaceAddresses_iface host ifs [] (take pos a) 2 of
            Inl f \<Rightarrow> Crash f
          | Inr (False, _) \<Rightarrow> Ok [] ()
          | Inr (True, result) \<Rightarrow> Ok (map (\<lambda>(x, _). if is_ip x then map_option (setPort host port) x else None) result) ())))"

fun listen_addresses :: "endian \<Rightarrow> getaddrinfo \<Rightarrow> ifaddr list option \<Rightarrow> string list \<Rightarrow> (Address option list, unit) outcome" where
  "listen_addresses host gai ifs [] = Ok [] ()"
| "listen_addresses host gai ifs (a # as) = (case listen_address host gai ifs a of
     Crash f \<Rightarrow> Crash f
   | Throw e u \<Rightarrow> Throw e u
   | Ok xs _ \<Rightarrow> (case listen_addresses host gai ifs as of Ok ys _ \<Rightarrow> Ok (xs @ ys) () | Throw e u \<Rightarrow> Throw e u | Crash f \<Rightarrow> Crash f))"

text \<open>\<open>bind\<close> on pointers: the first null pointer is dereferenced when its turn comes. \<open>ans i\<close> is what the system answers for the \<open>i\<close>-th address.\<close>

definition with_answers :: "(nat \<Rightarrow> answers \<times> sysret) \<Rightarrow> Address list \<Rightarrow> (Address \<times> answers \<times> sysret) list" where
  "with_answers ans as = map (\<lambda>(i, a). (a, ans i)) (enumerate 0 as)"

definition bind_pointers :: "bool \<Rightarrow> (int \<Rightarrow> bool option) \<Rightarrow> endian \<Rightarrow> (nat \<Rightarrow> answers \<times> sysret) \<Rightarrow> Address option list \<Rightarrow> 'c TcpServer \<Rightarrow>
    (bool \<times> Address list, 'c TcpServer) outcome" where
  "bind_pointers en fstat host ans ps ts =
     (let xs = with_answers ans (map the (takeWhile (\<lambda>p. p \<noteq> None) ps)) in
      if None \<in> set ps then (case bind_loop en fstat host xs [] ts of Ok _ _ \<Rightarrow> Crash NullDeref | Throw e ts \<Rightarrow> Throw e ts | Crash f \<Rightarrow> Crash f)
      else ts_bind en fstat host xs [] ts)"

text \<open>One round of the loop over the configured servers; \<open>None\<close> where the process exits because an address cannot be bound.\<close>

definition start_server :: "bool \<Rightarrow> (int \<Rightarrow> bool option) \<Rightarrow> endian \<Rightarrow> getaddrinfo \<Rightarrow> ifaddr list option \<Rightarrow> (nat \<Rightarrow> answers \<times> sysret) \<Rightarrow> u64 \<Rightarrow>
    HttpServerConf \<Rightarrow> 'c sys \<Rightarrow> (('s HttpServer \<times> 'c TcpServer) option, 'c sys) outcome" where
  "start_server en fstat host gai ifs ans read_timeout c sy = (case listen_addresses host gai ifs (hc_address c) of
     Crash f \<Rightarrow> Crash f
   | Throw e _ \<Rightarrow> Throw e sy
   | Ok ps _ \<Rightarrow> (case bind_pointers en fstat host ans ps (TcpServer_new read_timeout sy) of
       Crash f \<Rightarrow> Crash f
     | Throw e ts \<Rightarrow> Throw e (ts_sys ts)
     | Ok (False, fails) ts \<Rightarrow> Ok None (ts_sys ts)
     | Ok (True, _) ts \<Rightarrow>
         let ts = (if hc_name c \<noteq> [] then setName (hc_name c) ts else ts);
             ts = snd (ts_start ts)
         in Ok (Some (HttpServer_new (hc_keepalive c \<noteq> 0) (ts_name ts), ts)) (ts_sys ts)))"

text \<open>The servers so far are \<open>m_httpservers\<close>; the first component of the result is whether the loop came to its end.\<close>

fun run_servers :: "bool \<Rightarrow> (int \<Rightarrow> bool option) \<Rightarrow> endian \<Rightarrow> getaddrinfo \<Rightarrow> ifaddr list option \<Rightarrow> (nat \<Rightarrow> nat \<Rightarrow> answers \<times> sysret) \<Rightarrow> u64 \<Rightarrow>
    HttpServerConf list \<Rightarrow> ('s HttpServer \<times> 'c TcpServer) list \<times> 'c sys \<Rightarrow> (bool, ('s HttpServer \<times> 'c TcpServer) list \<times> 'c sys) outcome" where
  "run_servers en fstat host gai ifs ans read_timeout [] st = Ok True st"
| "run_servers en fstat host gai ifs ans read_timeout (c # cs) (servers, sy) =
     (case start_server en fstat host gai ifs (ans (length servers)) read_timeout c sy of
        Crash f \<Rightarrow> Crash f
      | Throw e sy \<Rightarrow> Throw e (servers, sy)
      | Ok None sy \<Rightarrow> Ok False (servers, sy)
      | Ok (Some server) sy \<Rightarrow> run_servers en fstat host gai ifs ans read_timeout cs (servers @ [server], sy))"

definition run_fiber :: "bool \<Rightarrow> (int \<Rightarrow> bool option) \<Rightarrow> endian \<Rightarrow> getaddrinfo \<Rightarrow> ifaddr list option \<Rightarrow> (nat \<Rightarrow> nat \<Rightarrow> answers \<times> sysret) \<Rightarrow> u64 \<Rightarrow>
    (app_value, 'w) datas \<Rightarrow> ('s HttpServer \<times> 'c TcpServer) list \<times> 'c sys \<Rightarrow> (bool, ('s HttpServer \<times> 'c TcpServer) list \<times> 'c sys) outcome" where
  "run_fiber en fstat host gai ifs ans read_timeout d st = (case d ''http_servers'' of
     Some cv \<Rightarrow> (case getValue cv of ServersValue cs \<Rightarrow> run_servers en fstat host gai ifs ans read_timeout cs st | _ \<Rightarrow> Crash NullDeref)
   | None \<Rightarrow> Crash NullDeref)"

text \<open>\<open>main\<close>: the value it returns, or the status of \<open>_exit\<close>, and the file system; \<open>fiber\<close> is what \<open>run_fiber\<close> comes to when the scheduler
  runs it. An exception of \<open>run_fiber\<close> ends in the fiber.\<close>

definition app_main :: "'fs surroundings \<Rightarrow> int \<Rightarrow> (bool, 'n) outcome \<Rightarrow> ('w, 'fs) app \<Rightarrow> (int, 'fs) outcome" where
  "app_main sv pid fiber a = (case pid_file (ap_datas a) of
     None \<Rightarrow> Crash NullDeref
   | Some (_, pidfile) \<Rightarrow> (case sv_write sv pidfile (show_pid pid) (ap_fs a) of
       None \<Rightarrow> Ok 0 (ap_fs a)
     | Some fs \<Rightarrow> (case fiber of
         Ok True _ \<Rightarrow> Ok 0 fs
       | Ok False _ \<Rightarrow> Ok 0 fs
       | Throw _ _ \<Rightarrow> Ok 0 fs
       | Crash f \<Rightarrow> Crash f)))"

definition app_run :: "(ProcessInfo \<Rightarrow> int) \<Rightarrow> u32 \<Rightarrow> int \<Rightarrow> u64 \<Rightarrow> round list \<Rightarrow> ProcessInfo \<Rightarrow> Env \<Rightarrow> bool option" where
  "app_run main_cb interval pid now rs i e =
     map_option (\<lambda>(rt, _). rt \<noteq> 0) (start_daemon main_cb interval pid now (env_has ''d'' e) rs i)"

subsection \<open>The configuration of a server\<close>

lemma mapE_scalars: "mapE (\<lambda>i. bindE (node_at y (YSeq (map YScalar xs)) i) as_string) [0..<length xs] = Inr xs"
proof -
  have "mapE (\<lambda>i. bindE (node_at y (YSeq (map YScalar xs)) i) as_string) [0..<length xs] = Inr (map (\<lambda>i. xs ! i) [0..<length xs])"
    by (rule mapE_Inr) simp
  then show ?thesis by (simp add: map_nth)
qed

text \<open>Reading back the printed configuration of a server gives the same configuration, with the addresses in their order.\<close>

theorem server_conf_roundtrip:
  assumes "y_load y (y_dump y (conf_node c)) = Inr (conf_node c)"
    and "to_int (show_pid (hc_timeout c)) = Some (hc_timeout c)" and "to_int (show_pid (hc_keepalive c)) = Some (hc_keepalive c)"
  shows "string2conf y to_int (conf2string y c) = Inr c"
proof -
  have n: "node_key k (conf_node c) = Inr (map_of ([(''name'', YScalar (hc_name c)), (''timeout'', YScalar (show_pid (hc_timeout c))),
      (''keepalive'', YScalar (show_pid (hc_keepalive c)))] @ (if hc_address c = [] then [] else [(''address'', YSeq (map YScalar (hc_address c)))])) k)" for k
    unfolding conf_node_def by (rule node_key_map_node)
  show ?thesis using assms by (cases "hc_address c = []") (simp_all add: string2conf_def conf2string_def n mapE_scalars del: node_at.simps)
qed

definition show_to_int :: "string \<Rightarrow> int option" where
  "show_to_int s = (if s = ''2000'' then Some 2000 else if s = ''1'' then Some 1 else None)"

theorem server_conf_roundtrip_witness:
  "string2conf enum_yaml show_to_int (conf2string enum_yaml \<lparr>hc_address = [''0.0.0.0:80'', ''/tmp/s''], hc_keepalive = 1, hc_timeout = 2000, hc_name = ''s''\<rparr>) =
     Inr \<lparr>hc_address = [''0.0.0.0:80'', ''/tmp/s''], hc_keepalive = 1, hc_timeout = 2000, hc_name = ''s''\<rparr>"
proof -
  have "show_pid 2000 = ''2000''" "show_pid 1 = ''1''" by code_simp+
  then show ?thesis by (intro server_conf_roundtrip) (simp_all add: enum_yaml_def show_to_int_def)
qed

subsection \<open>One instance\<close>

lemma show_pid_pos: "0 < pid \<Longrightarrow> show_pid pid \<noteq> [] \<and> CHR 0x0A \<notin> set (show_pid pid) \<and> atoi (show_pid pid) = pid"
  using dec_not [of "CHR 0x0A" "nat pid"] by (simp add: show_pid_def atoi_dec code_def)

lemma init_rest_True:
  assumes "init_rest sv b = Ok True b'"
  shows "\<exists>wp pf. pid_file (ap_datas b') = Some (wp, pf) \<and> \<not> ISRunningPidFile (fst (sv_pidfile sv pf (ap_fs b))) (snd (sv_pidfile sv pf (ap_fs b))) (sv_alive sv) \<and>
    MKDir (sv_os sv) wp (ap_fs b) = Inr (True, ap_fs b')"
  using assms by (auto simp: init_rest_def Let_def split: outcome.splits prod.splits option.splits if_splits sum.splits)

lemma app_init_True:
  assumes "app_init sv exe program args b = Ok True b'"
  shows "\<exists>out e. env_init exe program args (add_helps (ap_env b)) = (True, out, e) \<and> \<not> env_has ''p'' e \<and> (env_has ''s'' e \<or> env_has ''d'' e) \<and>
    init_rest sv (b\<lparr>ap_env := e, ap_out := ap_out b @ out\<rparr>) = Ok True b'"
  using assms by (auto simp: app_init_def Let_def split: prod.splits bool.splits if_splits)

text \<open>C28. One instance per pid file. When the main function of a process has written its identifier and that process is alive, a later
  start on the same file system succeeds only if its own configuration names another pid file. A start that succeeds was asked for with \<open>s\<close> or
  \<open>d\<close>, not for help, and has a working directory.\<close>

theorem app_single_instance:
  assumes reads_back: "\<And>f line fs fs'. sv_write sv f line fs = Some fs' \<Longrightarrow> line \<noteq> [] \<Longrightarrow> CHR 0x0A \<notin> set line \<Longrightarrow> sv_pidfile sv f fs' = (True, Some line)"
    and "pid_file (ap_datas a) = Some (wp, pf)" and "sv_write sv pf (show_pid pid) (ap_fs a) \<noteq> None"
    and "app_main sv pid fiber a = Ok rt fs" and "1 < pid" and "sv_alive sv pid"
    and "ap_fs b = fs" and "app_init sv exe program args b = Ok True b'"
  shows "\<exists>wp' pf'. pid_file (ap_datas b') = Some (wp', pf') \<and> pf' \<noteq> pf \<and> MKDir (sv_os sv) wp' fs = Inr (True, ap_fs b') \<and>
    (\<exists>out e. env_init exe program args (add_helps (ap_env b)) = (True, out, e) \<and> \<not> env_has ''p'' e \<and> (env_has ''s'' e \<or> env_has ''d'' e))"
proof -
  have fs: "sv_write sv pf (show_pid pid) (ap_fs a) = Some fs"
    using assms(2-4) by (auto simp: app_main_def split: option.splits outcome.splits bool.splits)
  have p: "sv_pidfile sv pf fs = (True, Some (show_pid pid))" using reads_back [OF fs] show_pid_pos [of pid] assms(5) by simp
  then have running: "ISRunningPidFile (fst (sv_pidfile sv pf fs)) (snd (sv_pidfile sv pf fs)) (sv_alive sv)"
    using show_pid_pos [of pid] assms(5,6) by (simp add: ISRunningPidFile_def Let_def)
  obtain out e where e: "env_init exe program args (add_helps (ap_env b)) = (True, out, e)" "\<not> env_has ''p'' e" "env_has ''s'' e \<or> env_has ''d'' e"
      and r: "init_rest sv (b\<lparr>ap_env := e, ap_out := ap_out b @ out\<rparr>) = Ok True b'"
    using app_init_True [OF assms(8)] by blast
  obtain wp' pf' where f: "pid_file (ap_datas b') = Some (wp', pf')" "MKDir (sv_os sv) wp' fs = Inr (True, ap_fs b')"
      "\<not> ISRunningPidFile (fst (sv_pidfile sv pf' fs)) (snd (sv_pidfile sv pf' fs)) (sv_alive sv)"
    using init_rest_True [OF r] assms(7) by auto
  have "pf' \<noteq> pf" using f(3) running by blast
  then show ?thesis using f(1,2) e by blast
qed

text \<open>Files are their texts, every directory exists and process 77 is alive.\<close>

definition demo_os :: "(string \<rightharpoonup> string) os" where
  "demo_os = \<lparr>os_access = \<lambda>_ _. True, os_lstat = \<lambda>_ _. True, os_mkdir = \<lambda>_ fs. (True, fs), os_open = \<lambda>_ fs. (True, fs)\<rparr>"

definition demo_surroundings :: "(string \<rightharpoonup> string) surroundings" where
  "demo_surroundings = \<lparr>sv_yaml = enum_yaml, sv_dir = \<lambda>_. None, sv_mtime = \<lambda>_. 0, sv_load_file = \<lambda>_. Inl (YamlError []), sv_os = demo_os,
     sv_pidfile = \<lambda>f fs. (fs f \<noteq> None, fs f), sv_alive = \<lambda>p. p = 77, sv_write = \<lambda>f line fs. Some (fs(f \<mapsto> line))\<rparr>"

definition demo_var :: "string \<Rightarrow> string \<Rightarrow> (app_value, unit) ConfigVar" where
  "demo_var name v = ConfigVar_new name (StringValue v) [] ''string'' (\<lambda>_. Inl (BadCast [])) (\<lambda>_. Inl (BadCast []))"

definition demo_env :: Env where
  "demo_env = \<lparr>m_args = [], m_helps = [], m_program = [], m_exe = [], m_cwd = []\<rparr>"

definition demo_app :: "string \<Rightarrow> (string \<rightharpoonup> string) \<Rightarrow> (unit, string \<rightharpoonup> string) app" where
  "demo_app f fs = \<lparr>ap_env = demo_env,
     ap_datas = [''server.work_path'' \<mapsto> demo_var ''server.work_path'' ''/w'', ''server.pid_file'' \<mapsto> demo_var ''server.pid_file'' f],
     ap_seen = (\<lambda>_. 0), ap_world = (), ap_fs = fs, ap_out = []\<rparr>"

lemma demo_pid_file: "pid_file (ap_datas (demo_app f fs)) = Some (''/w'', ''/w/'' @ f)"
  by (simp add: pid_file_def string_value_def demo_app_def demo_var_def ConfigVar_new_def getValue_def)

lemma demo_init: "\<exists>b'. app_init demo_surroundings ''/bin/x'' ''x'' [''-s''] (demo_app ''b'' [''/w/a'' \<mapsto> ''77'']) = Ok True b' \<and> ap_datas b' = ap_datas (demo_app ''b'' [''/w/a'' \<mapsto> ''77''])"
proof -
  let ?b = "demo_app ''b'' [''/w/a'' \<mapsto> ''77'']"
  let ?e = "snd (snd (env_init ''/bin/x'' ''x'' [''-s''] (add_helps (ap_env ?b))))"
  have d: "ap_env ?b = demo_env" by (simp add: demo_app_def)
  have e: "fst (env_init ''/bin/x'' ''x'' [''-s''] (add_helps (ap_env ?b)))" "\<not> env_has ''p'' ?e" "env_has ''s'' ?e" unfolding d by code_simp+
  have r: "init_rest demo_surroundings (?b\<lparr>ap_env := e, ap_out := out\<rparr>) = Ok True (?b\<lparr>ap_env := e, ap_out := out\<rparr>)" for e out
    using demo_pid_file [of "''b''" "[''/w/a'' \<mapsto> ''77'']"]
    by (simp add: init_rest_def LoadFromConfDir_def ListAllFile_def demo_surroundings_def demo_os_def ISRunningPidFile_def MKDir_def demo_app_def)
  show ?thesis using e r by (auto simp: app_init_def Let_def split: prod.splits)
qed

theorem app_single_instance_witness:
  "\<exists>b'. app_init demo_surroundings ''/bin/x'' ''x'' [''-s''] (demo_app ''b'' [''/w/a'' \<mapsto> ''77'']) = Ok True b' \<and>
     (\<exists>wp pf. pid_file (ap_datas b') = Some (wp, pf) \<and> pf \<noteq> ''/w/a'')"
proof -
  obtain b' where b': "app_init demo_surroundings ''/bin/x'' ''x'' [''-s''] (demo_app ''b'' [''/w/a'' \<mapsto> ''77'']) = Ok True b'" using demo_init by blast
  have s: "show_pid 77 = ''77''" by code_simp
  have "\<exists>wp' pf'. pid_file (ap_datas b') = Some (wp', pf') \<and> pf' \<noteq> ''/w/a'' \<and> MKDir (sv_os demo_surroundings) wp' [''/w/a'' \<mapsto> ''77''] = Inr (True, ap_fs b') \<and>
      (\<exists>out e. env_init ''/bin/x'' ''x'' [''-s''] (add_helps (ap_env (demo_app ''b'' [''/w/a'' \<mapsto> ''77'']))) = (True, out, e) \<and> \<not> env_has ''p'' e \<and> (env_has ''s'' e \<or> env_has ''d'' e))"
    by (rule app_single_instance [where sv = demo_surroundings and a = "demo_app ''a'' Map.empty" and wp = "''/w''" and pid = 77 and fiber = "Ok True ()" and rt = 0, OF _ _ _ _ _ _ _ b'])
      (simp_all add: demo_pid_file s app_main_def demo_surroundings_def, simp_all add: demo_app_def)
  with b' show ?thesis by blast
qed

subsection \<open>The servers\<close>

text \<open>A server that was started from a configuration: its name and keep-alive flag, a listening socket for each address in order, and for each
  socket one task that accepts connections.\<close>

definition serves :: "endian \<Rightarrow> getaddrinfo \<Rightarrow> ifaddr list option \<Rightarrow> (nat \<Rightarrow> answers \<times> sysret) \<Rightarrow> u64 \<Rightarrow> HttpServerConf \<Rightarrow> 's HttpServer \<times> 'c TcpServer \<Rightarrow> bool" where
  "serves host gai ifs ans read_timeout c server \<longleftrightarrow> (case server of (hs, ts) \<Rightarrow>
     hs_isKeepAlive hs = (hc_keepalive c \<noteq> 0) \<and> hs_name hs = (if hc_name c = [] then ''sylar/1.0.0'' else hc_name c) \<and>
     ts_name ts = hs_name hs \<and> \<not> ts_isStop ts \<and> ts_recvTimeout ts = read_timeout \<and>
     (\<exists>as. listen_addresses host gai ifs (hc_address c) = Ok (map Some as) () \<and>
        list_all2 (bound_to host) (with_answers ans as) (ts_heap ts) \<and> ts_socks ts = [0..<length as] \<and> ts_accept_tasks ts = map StartAccept [0..<length as]))"

lemma length_with_answers [simp]: "length (with_answers ans as) = length as"
  by (simp add: with_answers_def)

lemma all_Some: "None \<notin> set ps \<Longrightarrow> \<exists>as. ps = map Some as"
proof (intro exI)
  show "None \<notin> set ps \<Longrightarrow> ps = map Some (map the ps)" by (induction ps) auto
qed

lemma bind_one_meta:
  assumes "bind_one en fstat host x fails ts = Ok fails' ts'"
  shows "ts_name ts' = ts_name ts \<and> ts_isStop ts' = ts_isStop ts \<and> ts_recvTimeout ts' = ts_recvTimeout ts \<and> ts_accept_tasks ts' = ts_accept_tasks ts"
  using assms by (auto simp: bind_one_def Let_def split: prod.splits outcome.splits if_splits)

lemma bind_loop_meta:
  "bind_loop en fstat host xs fails ts = Ok fails' ts' \<Longrightarrow>
   ts_name ts' = ts_name ts \<and> ts_isStop ts' = ts_isStop ts \<and> ts_recvTimeout ts' = ts_recvTimeout ts \<and> ts_accept_tasks ts' = ts_accept_tasks ts"
proof (induction xs arbitrary: fails ts)
  case (Cons x xs)
  then show ?case by (auto split: outcome.splits dest!: bind_one_meta)
qed simp

lemma ts_bind_True:
  assumes "ts_bind en fstat host xs [] (TcpServer_new rt sy) = Ok (True, fails) ts"
  shows "list_all2 (bound_to host) xs (ts_heap ts) \<and> ts_socks ts = [0..<length xs] \<and> ts_name ts = ''sylar/1.0.0'' \<and> ts_isStop ts \<and>
    ts_recvTimeout ts = rt \<and> ts_accept_tasks ts = []"
proof -
  have l: "bind_loop en fstat host xs [] (TcpServer_new rt sy) = Ok [] ts"
    using assms by (auto simp: ts_bind_def split: outcome.splits if_splits)
  show ?thesis using bind_loop_all [OF l] bind_loop_meta [OF l] by (auto simp: TcpServer_new_def)
qed

lemma start_server_serves:
  assumes "start_server en fstat host gai ifs ans rt c sy = Ok (Some server) sy'"
  shows "serves host gai ifs ans rt c server"
proof -
  obtain ps where ps: "listen_addresses host gai ifs (hc_address c) = Ok ps ()"
    using assms by (auto simp: start_server_def split: outcome.splits)
  obtain fails ts where b: "bind_pointers en fstat host ans ps (TcpServer_new rt sy) = Ok (True, fails) ts"
      and s: "server = (HttpServer_new (hc_keepalive c \<noteq> 0) (ts_name (if hc_name c \<noteq> [] then setName (hc_name c) ts else ts)),
        snd (ts_start (if hc_name c \<noteq> [] then setName (hc_name c) ts else ts)))"
    using assms ps by (auto simp: start_server_def ts_start_def Let_def setName_def split: outcome.splits prod.splits bool.splits if_splits)
  have "None \<notin> set ps" using b by (auto simp: bind_pointers_def Let_def split: if_splits outcome.splits)
  then obtain "as" where "as": "ps = map Some as" using all_Some by blast
  have t: "map the (takeWhile (\<lambda>p. p \<noteq> None) ps) = as" unfolding "as" by (induction "as") simp_all
  have "ts_bind en fstat host (with_answers ans as) [] (TcpServer_new rt sy) = Ok (True, fails) ts"
    using b \<open>None \<notin> set ps\<close> unfolding bind_pointers_def Let_def t by simp
  from ts_bind_True [OF this] show ?thesis
    using ps "as" by (auto simp: s serves_def ts_start_def setName_def HttpServer_new_def)
qed

lemma run_servers_Ok:
  "run_servers en fstat host gai ifs ans rt cs (servers, sy) = Ok b (servers', sy') \<Longrightarrow>
   \<exists>new. servers' = servers @ new \<and> length new \<le> length cs \<and> (b \<longrightarrow> length new = length cs) \<and>
     (\<forall>i<length new. serves host gai ifs (ans (length servers + i)) rt (cs ! i) (new ! i))"
proof (induction cs arbitrary: servers sy)
  case (Cons c cs)
  show ?case
  proof (cases "start_server en fstat host gai ifs (ans (length servers)) rt c sy :: (('a HttpServer \<times> 'b TcpServer) option, 'b sys) outcome")
    case (Ok r sy1)
    show ?thesis
    proof (cases r)
      case (Some server)
      then obtain new where new: "servers' = (servers @ [server]) @ new" "length new \<le> length cs" "b \<longrightarrow> length new = length cs"
          "\<forall>i<length new. serves host gai ifs (ans (length (servers @ [server]) + i)) rt (cs ! i) (new ! i)"
        using Cons.IH [of "servers @ [server]" sy1] Cons.prems Ok by auto
      have "serves host gai ifs (ans (length servers + i)) rt ((c # cs) ! i) ((server # new) ! i)" if "i < Suc (length new)" for i
        using that new(4) start_server_serves [OF Ok [unfolded Some]] by (cases i) auto
      then show ?thesis using new by (intro exI [of _ "server # new"]) simp
    qed (use Cons.prems Ok in simp)
  qed (use Cons.prems in simp_all)
qed simp


lemma demo_listen: "listen_addresses demo_host (\<lambda>_ _ _ _ _. Inl 1) None [''*:80''] = Ok [Some (peer4 0 80)] ()"
proof -
  have "memchr (CHR '':'') ''*:80'' = Some 1" "atoi ''80'' = 80" by code_simp+
  then show ?thesis
    by (simp add: listen_address_def IPAddress_Create_def GetInterFaceAddresses_iface_def peer4_def IPv4Address_new_def ip4_setPort_def Let_def)
qed

definition demo_servers :: "(app_value, unit) ConfigVar" where
  "demo_servers = ConfigVar_new ''http_servers'' (ServersValue [\<lparr>hc_address = [''*:80''], hc_keepalive = 1, hc_timeout = 5, hc_name = ''web''\<rparr>]) [] ''servers''
     (\<lambda>_. Inl (BadCast [])) (\<lambda>_. Inl (BadCast []))"

lemma demo_run: "\<exists>servers sy'. run_fiber False (\<lambda>_. None) demo_host (\<lambda>_ _ _ _ _. Inl 1) None (\<lambda>_ _. (good_answers (getAddr demo_host (peer4 0 80)), SRet 0)) 1000
    [''http_servers'' \<mapsto> demo_servers] ([] :: (unit HttpServer \<times> unit TcpServer) list, demo_sys) = Ok True (servers, sy')"
proof -
  let ?an = "good_answers (getAddr demo_host (peer4 0 80))"
  obtain st where b: "Socket_bind False (\<lambda>_. None) demo_host ?an (peer4 0 80) (CreateTCP demo_host (peer4 0 80), demo_sys) = Ok True st"
    by (simp add: Socket_bind_def ensure_sock_def newSock_def hook_socket_def initSock_def setOption_def
        hook_setsockopt_def andThen_def on_fdm_def good_answers_def called_def isVaild_def Let_def CreateTCP_def Socket_new_def AF_INET_def)
  have "isVaild (fst st)" using Socket_bind_True [OF b] by simp
  then obtain sy where l: "Socket_listen SOMAXCONN (SRet 0) st = (True, fst st, sy)" by (cases st) (simp add: Socket_listen_def)
  show ?thesis
    using b l by (simp add: run_fiber_def getValue_def demo_servers_def ConfigVar_new_def start_server_def demo_listen
        bind_pointers_def with_answers_def ts_bind_def bind_one_def TcpServer_new_def Let_def ts_start_def setName_def del: listen_addresses.simps)
qed


text \<open>Failures the supervisor does not see: a process that cannot write its pid file or cannot bind an address ends with status 0, and the
  supervisor takes that for success: it does not start the program again. The result of \<open>run\<close> is then false, as it is after every supervised run
  that ended well.\<close>

theorem app_failure_ends_daemon:
  assumes "pid_file (ap_datas a) = Some (wp, pf)" and "sv_write sv pf (show_pid pid) (ap_fs a) = None \<or> fiber = Ok False st" and "env_has ''d'' e"
  shows "\<exists>rt fs. app_main sv pid fiber a = Ok rt fs \<and>
    real_daemon main_cb interval parent now (Parent child (Some (rt * 256)) # rs) i = Some (0, i\<lparr>parent_id := parent, parent_start_time := now\<rparr>, []) \<and>
    app_run main_cb interval parent now (Parent child (Some (rt * 256)) # rs) i e = Some False"
proof -
  have "\<exists>fs. app_main sv pid fiber a = Ok 0 fs" using assms(1,2) by (auto simp: app_main_def split: option.splits)
  then obtain fs where "app_main sv pid fiber a = Ok 0 fs" by blast
  then show ?thesis using assms(3) by (intro exI [of _ 0] exI [of _ fs]) (simp add: real_daemon_def app_run_def start_daemon_def)
qed

theorem app_failure_ends_daemon_witness:
  "\<exists>rt fs. app_main demo_surroundings 77 (Ok False ()) (demo_app ''a'' Map.empty) = Ok rt fs \<and>
     app_run (\<lambda>_. 0) 5 1 100 [Parent 77 (Some (rt * 256))] ProcessInfo_new (demo_env\<lparr>m_args := [(''d'', [])]\<rparr>) = Some False"
proof -
  have "env_has ''d'' (demo_env\<lparr>m_args := [(''d'', [])]\<rparr>)" by code_simp
  from app_failure_ends_daemon [where sv = demo_surroundings and pid = 77 and fiber = "Ok False ()" and st = "()" and main_cb = "\<lambda>_. 0" and interval = 5 and
      parent = 1 and now = 100 and child = 77 and rs = "[]" and i = ProcessInfo_new, OF demo_pid_file _ this]
  show ?thesis by blast
qed

end
