(* ===== verification/Spec2Isabelle.thy ===== *)
theory Spec2Isabelle
  imports ByteCodec SchedulerLife HookWait Servlet Config LogConfig HttpServer HttpConnectionPool Threads Application
begin

text \<open>
  A verification development for sylar, a C++ server framework: fibers scheduled over threads, an epoll loop with timers, system calls that
  suspend a fiber instead of a thread, and on top of them sockets, HTTP servers and clients, logging, configuration and the start of a program.

  \<^bold>\<open>The program.\<close>
  A \<open>Scheduler\<close> has a queue of fibers and callbacks and worker threads that run them. An \<open>IOManager\<close> is a scheduler whose idle fiber waits in
  \<open>epoll_wait\<close>; it keeps the events fibers wait for and, as a \<open>TimerManager\<close>, the timers. The hooks replace \<open>read\<close>, \<open>connect\<close>, \<open>sleep\<close> and the others:
  on a descriptor that \<open>FdManager\<close> knows as a socket they register an event and a timer with the \<open>IOManager\<close> and give up control.
  \<open>Socket\<close>, \<open>SocketStream\<close>, \<open>HttpSession\<close> and \<open>HttpConnection\<close> are layers over the hooked calls; \<open>TcpServer\<close> and \<open>HttpServer\<close> accept connections and route
  requests to servlets; \<open>HttpConnectionPool\<close> shares client connections. \<open>ByteArray\<close> is the buffer for binary formats. \<open>Logger\<close>, \<open>Config\<close> and \<open>Env\<close> are
  used everywhere; \<open>Application\<close> puts the parts together and \<open>start_daemon\<close> supervises the result.

  \<^bold>\<open>Theories and sources.\<close> Paths are relative to the repository; the headers under \<open>include\<close> belong to the sources of the same name.

  \<^item> \<open>Prelude\<close>, \<open>StdContainers\<close>, \<open>CStrings\<close>: machine types, outcomes (\<open>Ok\<close>, \<open>Throw\<close> for exceptions, \<open>Crash\<close> for undefined behaviour and failed
    assertions), ordered sets, maps and multimaps of the standard library, C strings and number texts, with the lemmas all components share.
  \<^item> \<open>Endian\<close> (\<open>include/sylar/endian.hh\<close>), \<open>ByteArray\<close> and \<open>ByteCodec\<close> (\<open>src/bytearray.cc\<close>): the chain of blocks, shown to refine a flat array of bytes
    for every operation, and the fixed, variable-length and zigzag integers and strings, shown to read back as they were written, in sequences of any length.
    \<open>ByteStore\<close> is the interface between the two.
  \<^item> \<open>Fiber\<close> (\<open>src/fiber.cc\<close>): states and context switches. \<open>Scheduler\<close>, \<open>SchedulerLife\<close> (\<open>src/scheduler.cc\<close>): any number of workers interleaved with code that
    schedules; no fiber runs on two workers, tasks are not lost, a worker leaves only when all is done; construction, start and stop.
  \<^item> \<open>Timer\<close> (\<open>src/timer.cc\<close>): the ordered set of timers with the wrap-around of its clock. \<open>IOManager\<close> (\<open>src/iomanager.cc\<close>): registration, triggering and cancelling
    of events against the interest list of the kernel. \<open>FdManager\<close> (\<open>src/fd_manager.cc\<close>).
  \<^item> \<open>Hook\<close>, \<open>HookWait\<close> (\<open>src/hook.cc\<close>): the hooked calls return what blocking calls would; a wait is woken exactly once, by the event or by the timer.
  \<^item> \<open>Threads\<close> (\<open>src/thread.cc\<close>): locks, guards, semaphores and the start of a thread.
  \<^item> \<open>IpAddress\<close>, \<open>Address\<close> (\<open>src/address.cc\<close>), \<open>Socket\<close> (\<open>src/socket.cc\<close>), \<open>ByteStream\<close> (\<open>src/stream.cc\<close>), \<open>SocketStream\<close> (\<open>src/sockstream.cc\<close>): texts and subnets of
    addresses, invariants of sockets over any history of calls, transfers of a fixed number of bytes.
  \<^item> \<open>HttpMessage\<close> (\<open>src/http.cc\<close>), \<open>HttpParser\<close> (\<open>src/http_parser.cc\<close>), \<open>HttpSession\<close> (\<open>src/http_session.cc\<close>), \<open>Servlet\<close> (\<open>src/servlet.cc\<close>), \<open>TcpServer\<close> (\<open>src/tcp_server.cc\<close>),
    \<open>HttpServer\<close> (\<open>src/http_server.cc\<close>): messages and their framing, receiving a request within its buffer, routing, and the service of a whole connection.
  \<^item> \<open>Uri\<close> (\<open>src/rl/uri.rl\<close>), \<open>HttpConnection\<close>, \<open>HttpClient\<close>, \<open>HttpConnectionPool\<close> (\<open>src/http_connection.cc\<close>): identifiers, responses with and without chunks, the five results of
    a request, and the pool under interleaved users.
  \<^item> \<open>Util\<close> (\<open>src/util.cc\<close>), \<open>Env\<close> (\<open>src/env.cc\<close>), \<open>Yaml\<close>, \<open>Config\<close> (\<open>include/sylar/config.hh\<close>, \<open>src/config.cc\<close>), \<open>LogFormat\<close>, \<open>Log\<close>, \<open>LogConfig\<close> (\<open>src/log.cc\<close>): paths, the command
    line, conversions and configuration variables, patterns, delivery of log events and their configuration.
  \<^item> \<open>Daemon\<close> (\<open>src/daemon.cc\<close>), \<open>Application\<close> (\<open>src/application.cc\<close>): the supervisor and the program made of all the parts.

  \<^bold>\<open>How the code is modelled.\<close>
  A class is a record whose fields are the members, a member function a function of the same name (with the class as a prefix where names repeat) from the state to
  an outcome and a new state. Objects that several pointers share live in a heap of the state. Integers have the width of the source where it matters. What the
  kernel, the clock, a peer or a user-supplied function does is an argument. Concurrency is a step relation whose steps are the sections that
  cannot be interrupted: \<open>sched_step\<close>, \<open>pool_step\<close>, \<open>guard_step\<close>, \<open>start_step\<close>; invariants hold of all reachable states by rule induction.

  \<^bold>\<open>Interfaces.\<close> Each is a locale whose lemmas the properties use through interpretations on the definitions of the model:
  \<open>strict_weak_order\<close> (what the ordered containers need of a comparison: timers, strings, header names, log definitions), \<open>keyed_store\<close> (headers, parameters, cookies,
  routes, arguments, help texts, listeners), \<open>byte_store\<close> and \<open>codec\<close> (a positioned array of bytes; a format that can be written to it and read back; \<open>prefixed_string\<close> builds one codec from
  another), \<open>closing_stream\<close> (the stream of a session), \<open>lock_impl\<close> (the four locks).

  \<^bold>\<open>Loops and bounds.\<close>
  Loops over data are structural or have a measure. A loop that may not end is a \<open>partial_function\<close> with \<open>None\<close> for a call that never returns; where the
  code returns this is proved. A loop driven by answers of the system recurses over the list of answers. Delivery of a log event passes from a logger to the
  root logger at most once; the depth 2 is enough and the result is shown not to depend on running out of it. Allocation is taken to succeed, and
  sizes to fit the \<open>int\<close> the code keeps them in where a theorem says so.

  \<^bold>\<open>Not modelled.\<close>
  \<^item> The automata that ragel generates from the grammars in \<open>src/rl\<close> at build time are parameters; the theorems name what they rely on. yaml-cpp, boost, \<open>getaddrinfo\<close> and the
    other library and system calls are arguments with their documented behaviour as hypotheses.
  \<^item> The lookup of the original system calls with \<open>dlsym\<close>, log records written on the way by the components, and the macros, singletons and copy protection of
    \<open>include/sylar/macro.hh\<close>, \<open>singleton.hh\<close>, \<open>noncopyable.hh\<close> have no behaviour of interest.
  \<^item> Memory ordering: atomic and locked sections are taken to be sequentially consistent.
  \<^item> The tests and examples under \<open>src/test\<close> and \<open>src/example\<close> use the library and are not part of it.
\<close>

end
